(* ===== verification/Go_Runtime.thy ===== *)
theory Go_Runtime
  imports Main "HOL-Library.Multiset" "HOL-Library.Char_ord" "HOL-Library.List_Lexorder"
begin

text \<open>
  The prelude of the development: the parts of the Go language and of its standard library
  that the modelled sources use, and the generic lemmas the component theories share.
  \<^item> \<open>int\<close> and \<open>int64\<close> are mathematical integers with the two's complement wrap-around
    written out by \<open>wrap64\<close>; Go's \<open>/\<close> and \<open>%\<close> truncate towards zero (\<open>quot\<close>, \<open>remt\<close>).
  \<^item> a Go string is a sequence of bytes, here a \<open>string\<close>; \<open>sort.Strings\<close> and \<open><\<close> compare
    bytes, which is the lexicographic order of \<open>HOL-Library.List_Lexorder\<close>.
  \<^item> \<open>strings.TrimSpace\<close>, \<open>Fields\<close>, \<open>Split\<close>, \<open>Join\<close>, \<open>HasPrefix\<close>, \<open>TrimPrefix\<close>, \<open>Contains\<close>,
    \<open>ToLower\<close>, and \<open>strconv\<close>'s decimal conversions.
  \<^item> \<open>sort.SliceStable\<close>: the stable sort of a strict weak order is unique, so an insertion
    sort computes it; the locale \<open>strict_weak_order\<close> holds its laws.
  \<^item> errors are values of \<open>go_error\<close>, a fallible call returns \<open>go_error + 'a\<close>.
\<close>

named_theorems go_simps \<open>equations that unfold the runtime's helper functions\<close>
named_theorems table_simps \<open>what a table operation returns and keeps\<close>

section \<open>Errors\<close>

text \<open>
  \<open>ErrRecordNotFound\<close> is the one error of the database layer that callers inspect;
  \<open>ErrDuplicatedKey\<close> is a violated unique index, \<open>ErrDB\<close> any other failure of the database,
  and \<open>Err\<close> an error made by the program, with its text.
\<close>

datatype go_error = ErrRecordNotFound | ErrDuplicatedKey | ErrDB | Err string

type_synonym 'a res = "go_error + 'a"

fun ok :: "'a res \<Rightarrow> bool" where
  "ok (Inl _) = False"
| "ok (Inr _) = True"

lemma ok_projr: "ok x \<Longrightarrow> x = Inr (projr x)"
  by (cases x) auto

text \<open>The idiom \<open>x, err := f(); if err != nil { return err }; ...\<close>.\<close>

fun bind_res :: "'a res \<Rightarrow> ('a \<Rightarrow> 'b res) \<Rightarrow> 'b res" where
  "bind_res (Inl e) f = Inl e"
| "bind_res (Inr x) f = f x"

lemma bind_res_Inr: "bind_res m f = Inr y \<longleftrightarrow> (\<exists>x. m = Inr x \<and> f x = Inr y)"
  by (cases m) auto

lemma bind_resE:
  assumes "bind_res m f = Inr y"
  obtains x where "m = Inr x" "f x = Inr y"
  using assms by (cases m) auto

lemma bind_res_Inl: "bind_res m f = Inl e \<longleftrightarrow> m = Inl e \<or> (\<exists>x. m = Inr x \<and> f x = Inl e)"
  by (cases m) auto

text \<open>The loop \<open>for _, x := range xs { y, err := f(x); if err != nil { return err }; out = append(out, y...) }\<close>.\<close>

fun collect :: "('a \<Rightarrow> 'b list res) \<Rightarrow> 'a list \<Rightarrow> 'b list res" where
  "collect f [] = Inr []"
| "collect f (x # xs) =
     (case f x of Inl e \<Rightarrow> Inl e
      | Inr ys \<Rightarrow> (case collect f xs of Inl e \<Rightarrow> Inl e | Inr zs \<Rightarrow> Inr (ys @ zs)))"

text \<open>The loop that threads a state: \<open>for _, x := range xs { if err := f(x); err != nil { return err } }\<close>.\<close>

fun fold_res :: "('a \<Rightarrow> 's \<Rightarrow> 's res) \<Rightarrow> 'a list \<Rightarrow> 's \<Rightarrow> 's res" where
  "fold_res f [] s = Inr s"
| "fold_res f (x # xs) s = (case f x s of Inl e \<Rightarrow> Inl e | Inr s' \<Rightarrow> fold_res f xs s')"

lemma collect_ok_iff: "collect f xs = Inr zs \<longleftrightarrow>
    (\<forall>x \<in> set xs. \<exists>ys. f x = Inr ys) \<and> zs = concat (map (\<lambda>x. projr (f x)) xs)"
proof (induction xs arbitrary: zs)
  case Nil
  show ?case by auto
next
  case (Cons x xs)
  show ?case
  proof (cases "f x")
    case (Inl e)
    then show ?thesis by simp
  next
    case (Inr ys)
    then show ?thesis using Cons.IH by (auto split: sum.split) (metis Inl_Inr_False)
  qed
qed

lemma collect_set:
  assumes "collect f xs = Inr zs"
  shows "z \<in> set zs \<longleftrightarrow> (\<exists>x \<in> set xs. \<exists>ys. f x = Inr ys \<and> z \<in> set ys)"
  using assms
proof (induction xs arbitrary: zs)
  case Nil
  then show ?case by simp
next
  case (Cons x xs)
  then obtain ys ws where "f x = Inr ys" "collect f xs = Inr ws" "zs = ys @ ws"
    by (auto split: sum.splits)
  with Cons.IH show ?case by auto
qed

lemma collect_Inl_ex: "collect f xs = Inl e \<Longrightarrow> \<exists>x \<in> set xs. f x = Inl e"
  by (induction xs) (auto split: sum.splits)

text \<open>A loop that appends at most one element per key lists its results in the order of the keys.\<close>

lemma collect_keys:
  assumes "collect f xs = Inr zs"
    and "\<And>x ys. x \<in> set xs \<Longrightarrow> f x = Inr ys \<Longrightarrow> ys = [] \<or> (\<exists>y. ys = [y] \<and> key y = x)"
  shows "map key zs = filter (\<lambda>x. f x \<noteq> Inr []) xs"
  using assms
proof (induction xs arbitrary: zs)
  case Nil
  then show ?case by simp
next
  case (Cons x xs)
  then obtain ys ws where "f x = Inr ys" "collect f xs = Inr ws" "zs = ys @ ws"
    by (auto split: sum.splits)
  moreover have "ys = [] \<or> (\<exists>y. ys = [y] \<and> key y = x)"
    using Cons.prems(2)[of x ys] \<open>f x = Inr ys\<close> by simp
  moreover have "map key ws = filter (\<lambda>x. f x \<noteq> Inr []) xs"
    using Cons.IH[of ws] Cons.prems(2) \<open>collect f xs = Inr ws\<close> by simp
  ultimately show ?case by (elim disjE exE) auto
qed

text \<open>An invariant that every step of the threaded loop keeps holds after the loop.\<close>

lemma fold_res_invariant:
  assumes step: "\<And>x s s'. x \<in> set xs \<Longrightarrow> P s \<Longrightarrow> f x s = Inr s' \<Longrightarrow> P s'"
    and run: "fold_res f xs s = Inr s'" and start: "P s"
  shows "P s'"
  using assms
proof (induction xs arbitrary: s)
  case Nil
  then show ?case by simp
next
  case (Cons x xs)
  from Cons.prems(2) obtain t where t: "f x s = Inr t" "fold_res f xs t = Inr s'"
    by (auto split: sum.splits)
  have "P t" using Cons.prems(1)[of x s t] Cons.prems(3) t(1) by simp
  then show ?case using Cons.IH[of t] Cons.prems(1) t(2) by (metis list.set_intros(2))
qed

section \<open>Integers of 64 bits\<close>

definition max_int64 :: int where "max_int64 = 9223372036854775807"

definition wrap64 :: "int \<Rightarrow> int" where
  "wrap64 x = (x + 9223372036854775808) mod 18446744073709551616 - 9223372036854775808"

definition is_int64 :: "int \<Rightarrow> bool" where
  "is_int64 x \<longleftrightarrow> - 9223372036854775808 \<le> x \<and> x \<le> 9223372036854775807"

definition add64 :: "int \<Rightarrow> int \<Rightarrow> int" where "add64 a b = wrap64 (a + b)"
definition sub64 :: "int \<Rightarrow> int \<Rightarrow> int" where "sub64 a b = wrap64 (a - b)"
definition mul64 :: "int \<Rightarrow> int \<Rightarrow> int" where "mul64 a b = wrap64 (a * b)"

text \<open>Go's integer division truncates towards zero, and the remainder has the dividend's sign.\<close>

definition quot :: "int \<Rightarrow> int \<Rightarrow> int" where
  "quot a b = sgn a * sgn b * (\<bar>a\<bar> div \<bar>b\<bar>)"

definition remt :: "int \<Rightarrow> int \<Rightarrow> int" where
  "remt a b = a - b * quot a b"

lemma wrap64_is_int64 [simp]: "is_int64 (wrap64 x)"
proof -
  have "0 \<le> (x + 9223372036854775808) mod 18446744073709551616"
    and "(x + 9223372036854775808) mod 18446744073709551616 < 18446744073709551616"
    by simp_all
  then show ?thesis unfolding is_int64_def wrap64_def by linarith
qed

lemma wrap64_id: "is_int64 x \<Longrightarrow> wrap64 x = x"
  by (simp add: is_int64_def wrap64_def)

lemma add64_is_int64 [simp]: "is_int64 (add64 a b)"
  by (simp add: add64_def)

lemma sub64_is_int64 [simp]: "is_int64 (sub64 a b)"
  by (simp add: sub64_def)

lemma add64_id: "is_int64 (a + b) \<Longrightarrow> add64 a b = a + b"
  by (simp add: add64_def wrap64_id)

lemma sub64_id: "is_int64 (a - b) \<Longrightarrow> sub64 a b = a - b"
  by (simp add: sub64_def wrap64_id)

lemma mul64_id: "is_int64 (a * b) \<Longrightarrow> mul64 a b = a * b"
  by (simp add: mul64_def wrap64_id)

lemma quot_nonneg: "0 \<le> a \<Longrightarrow> 0 < b \<Longrightarrow> quot a b = a div b"
  by (cases "a = 0") (simp_all add: quot_def)

lemma remt_nonneg: "0 \<le> a \<Longrightarrow> 0 < b \<Longrightarrow> remt a b = a mod b"
  by (simp add: remt_def quot_nonneg minus_mult_div_eq_mod)

section \<open>Strings\<close>

definition has_prefix :: "string \<Rightarrow> string \<Rightarrow> bool" where
  "has_prefix p s \<longleftrightarrow> take (length p) s = p"

definition trim_prefix :: "string \<Rightarrow> string \<Rightarrow> string" where
  "trim_prefix p s = (if has_prefix p s then drop (length p) s else s)"

definition has_suffix :: "string \<Rightarrow> string \<Rightarrow> bool" where
  "has_suffix p s \<longleftrightarrow> has_prefix (rev p) (rev s)"

fun contains_str :: "string \<Rightarrow> string \<Rightarrow> bool" where
  "contains_str p [] = (p = [])"
| "contains_str p (c # s) = (has_prefix p (c # s) \<or> contains_str p s)"

lemma has_prefix_append [simp]: "has_prefix p (p @ s)"
  by (simp add: has_prefix_def)

lemma has_prefix_Nil [simp]: "has_prefix [] s"
  by (simp add: has_prefix_def)

lemma has_prefix_Cons_Nil [simp]: "\<not> has_prefix (x # p) []"
  by (simp add: has_prefix_def)

lemma has_prefix_Cons [simp]: "has_prefix (x # p) (y # s) \<longleftrightarrow> x = y \<and> has_prefix p s"
  by (auto simp: has_prefix_def)

lemma has_prefix_iff: "has_prefix p s \<longleftrightarrow> (\<exists>t. s = p @ t)"
proof
  assume "has_prefix p s"
  then have "s = p @ drop (length p) s"
    by (metis append_take_drop_id has_prefix_def)
  then show "\<exists>t. s = p @ t" ..
qed auto

lemma trim_prefix_append [simp]: "trim_prefix p (p @ s) = s"
  by (simp add: trim_prefix_def)

text \<open>Two prefixes of one string: the shorter is a prefix of the longer.\<close>

lemma has_prefix_append_iff:
  "length p \<le> length q \<Longrightarrow> has_prefix p (q @ s) \<longleftrightarrow> has_prefix p q"
  by (simp add: has_prefix_def)

text \<open>
  The white space of \<open>unicode.IsSpace\<close>, each code point as its UTF-8 bytes: the six ASCII
  characters, U+0085, U+00A0, U+1680, U+2000 to U+200A, U+2028, U+2029, U+202F, U+205F, U+3000.
\<close>

definition go_spaces :: "string list" where
  "go_spaces =
     [[CHR 0x20], [CHR 0x09], [CHR 0x0A], [CHR 0x0B], [CHR 0x0C], [CHR 0x0D],
      [CHR 0xC2, CHR 0x85], [CHR 0xC2, CHR 0xA0], [CHR 0xE1, CHR 0x9A, CHR 0x80],
      [CHR 0xE2, CHR 0x80, CHR 0x80], [CHR 0xE2, CHR 0x80, CHR 0x81],
      [CHR 0xE2, CHR 0x80, CHR 0x82], [CHR 0xE2, CHR 0x80, CHR 0x83],
      [CHR 0xE2, CHR 0x80, CHR 0x84], [CHR 0xE2, CHR 0x80, CHR 0x85],
      [CHR 0xE2, CHR 0x80, CHR 0x86], [CHR 0xE2, CHR 0x80, CHR 0x87],
      [CHR 0xE2, CHR 0x80, CHR 0x88], [CHR 0xE2, CHR 0x80, CHR 0x89],
      [CHR 0xE2, CHR 0x80, CHR 0x8A], [CHR 0xE2, CHR 0x80, CHR 0xA8],
      [CHR 0xE2, CHR 0x80, CHR 0xA9], [CHR 0xE2, CHR 0x80, CHR 0xAF],
      [CHR 0xE2, CHR 0x81, CHR 0x9F], [CHR 0xE3, CHR 0x80, CHR 0x80]]"

text \<open>Strip from the left every leading word of \<open>ws\<close>; empty words are never stripped.\<close>

function strip_words :: "string list \<Rightarrow> string \<Rightarrow> string" where
  "strip_words ws s =
     (case find (\<lambda>w. w \<noteq> [] \<and> has_prefix w s) ws of
        None \<Rightarrow> s
      | Some w \<Rightarrow> strip_words ws (drop (length w) s))"
  by pat_completeness auto
termination
proof (relation "measure (\<lambda>(ws, s). length s)", goal_cases)
  case 1
  show ?case by simp
next
  case (2 ws s w)
  then have "w \<noteq> []" "has_prefix w s" by (auto simp: find_Some_iff)
  then show ?case by (cases s; cases w) auto
qed

declare strip_words.simps [simp del]

definition trim_space :: "string \<Rightarrow> string" where
  "trim_space s =
     rev (strip_words (map rev go_spaces) (rev (strip_words go_spaces s)))"

lemma strip_words_no_prefix:
  "w \<in> set ws \<Longrightarrow> w \<noteq> [] \<Longrightarrow> \<not> has_prefix w (strip_words ws s)"
proof (induction ws s rule: strip_words.induct)
  case (1 ws s)
  show ?case
  proof (cases "find (\<lambda>w. w \<noteq> [] \<and> has_prefix w s) ws")
    case None
    then have "strip_words ws s = s" by (subst strip_words.simps) simp
    moreover have "\<not> has_prefix w s" using None "1.prems" by (auto simp: find_None_iff)
    ultimately show ?thesis by simp
  next
    case (Some v)
    then have "strip_words ws s = strip_words ws (drop (length v) s)"
      by (subst strip_words.simps) simp
    with "1.IH"[OF Some] "1.prems" show ?thesis by simp
  qed
qed

lemma strip_words_suffix: "\<exists>n. strip_words ws s = drop n s"
proof (induction ws s rule: strip_words.induct)
  case (1 ws s)
  show ?case
  proof (cases "find (\<lambda>w. w \<noteq> [] \<and> has_prefix w s) ws")
    case None
    then have "strip_words ws s = drop 0 s" by (subst strip_words.simps) simp
    then show ?thesis by blast
  next
    case (Some v)
    with "1.IH"[OF Some] show ?thesis
      by (subst strip_words.simps) (auto intro: exI)
  qed
qed

lemma strip_words_id:
  "(\<And>w. w \<in> set ws \<Longrightarrow> w \<noteq> [] \<Longrightarrow> \<not> has_prefix w s) \<Longrightarrow> strip_words ws s = s"
  by (subst strip_words.simps) (auto simp: find_None_iff split: option.splits dest!: find_Some_iff[THEN iffD1])

lemma has_prefix_take: "has_prefix w (take n s) \<Longrightarrow> has_prefix w s"
  by (metis append_assoc append_take_drop_id has_prefix_iff)

lemma trim_space_take: "\<exists>n. trim_space s = take n (strip_words go_spaces s)"
proof -
  obtain n where "strip_words (map rev go_spaces) (rev (strip_words go_spaces s))
      = drop n (rev (strip_words go_spaces s))"
    using strip_words_suffix by blast
  then show ?thesis by (auto simp: trim_space_def rev_drop)
qed

lemma trim_space_idem [simp]: "trim_space (trim_space s) = trim_space s"
proof -
  have left: "strip_words go_spaces (trim_space s) = trim_space s"
  proof (rule strip_words_id)
    fix w
    assume "w \<in> set go_spaces" "w \<noteq> []"
    then have "\<not> has_prefix w (strip_words go_spaces s)" by (rule strip_words_no_prefix)
    then show "\<not> has_prefix w (trim_space s)"
      using trim_space_take[of s] has_prefix_take by metis
  qed
  have right: "strip_words (map rev go_spaces) (rev (trim_space s)) = rev (trim_space s)"
  proof (rule strip_words_id)
    fix w
    assume "w \<in> set (map rev go_spaces)" "w \<noteq> []"
    then show "\<not> has_prefix w (rev (trim_space s))"
      by (simp add: trim_space_def strip_words_no_prefix)
  qed
  show ?thesis
    by (simp add: trim_space_def[of "trim_space s"] left right)
qed

lemma trim_space_Nil [simp]: "trim_space [] = []"
  using trim_space_take[of "[]"] strip_words_suffix[of go_spaces "[]"] by auto

text \<open>
  \<open>strings.ToLower\<close> has a fast path for ASCII; beyond it the Unicode case tables decide,
  which are the parameter \<open>ul\<close>.
\<close>

definition is_ascii :: "char \<Rightarrow> bool" where
  "is_ascii c \<longleftrightarrow> of_char c < (128 :: nat)"

definition ascii_lower :: "char \<Rightarrow> char" where
  "ascii_lower c =
     (let n = (of_char c :: nat) in if 65 \<le> n \<and> n \<le> 90 then char_of (n + 32) else c)"

definition to_lower :: "(string \<Rightarrow> string) \<Rightarrow> string \<Rightarrow> string" where
  "to_lower ul s = (if list_all is_ascii s then map ascii_lower s else ul s)"

text \<open>\<open>strings.Split\<close> on a separator of one byte, and \<open>strings.Join\<close>.\<close>

fun split_on :: "char \<Rightarrow> string \<Rightarrow> string list" where
  "split_on d [] = [[]]"
| "split_on d (c # s) =
     (if c = d then [] # split_on d s
      else (case split_on d s of [] \<Rightarrow> [[c]] | w # ws \<Rightarrow> (c # w) # ws))"

fun join_with :: "string \<Rightarrow> string list \<Rightarrow> string" where
  "join_with d [] = []"
| "join_with d [w] = w"
| "join_with d (w # ws) = w @ d @ join_with d ws"

lemma split_on_not_Nil [simp]: "split_on d s \<noteq> []"
  by (induction s) (auto split: list.splits)

lemma split_on_no_sep: "d \<notin> set s \<Longrightarrow> split_on d s = [s]"
  by (induction s) auto

lemma split_on_append: "d \<notin> set w \<Longrightarrow> split_on d (w @ d # s) = w # split_on d s"
  by (induction w) auto

lemma split_on_join:
  "(\<And>w. w \<in> set ws \<Longrightarrow> d \<notin> set w) \<Longrightarrow> ws \<noteq> [] \<Longrightarrow> split_on d (join_with [d] ws) = ws"
proof (induction "[d]" ws rule: join_with.induct)
  case 1
  then show ?case by simp
next
  case (2 w)
  then show ?case by (simp add: split_on_no_sep)
next
  case (3 w v vs)
  then show ?case by (simp add: split_on_append)
qed

lemma join_split_on: "join_with [d] (split_on d s) = s"
proof (induction s)
  case Nil
  show ?case by simp
next
  case (Cons c s)
  obtain w ws where split: "split_on d s = w # ws"
    by (metis list.exhaust split_on_not_Nil)
  with Cons.IH show ?case by (cases ws) auto
qed

section \<open>Decimal numbers\<close>

definition is_digit :: "char \<Rightarrow> bool" where
  "is_digit c \<longleftrightarrow> 48 \<le> (of_char c :: nat) \<and> of_char c \<le> (57 :: nat)"

definition digit_val :: "char \<Rightarrow> nat" where
  "digit_val c = of_char c - 48"

definition digit_char :: "nat \<Rightarrow> char" where
  "digit_char n = char_of (48 + n)"

fun parse_digits :: "nat \<Rightarrow> string \<Rightarrow> nat option" where
  "parse_digits n [] = Some n"
| "parse_digits n (c # s) = (if is_digit c then parse_digits (10 * n + digit_val c) s else None)"

definition parse_nat :: "string \<Rightarrow> nat option" where
  "parse_nat s = (if s = [] then None else parse_digits 0 s)"

text \<open>\<open>strconv.Atoi\<close>: an optional sign, then digits, in the range of \<open>int\<close>.\<close>

definition atoi :: "string \<Rightarrow> int option" where
  "atoi s =
     (let (neg, ds) = (case s of [] \<Rightarrow> (False, [])
                       | c # r \<Rightarrow> if c = CHR ''-'' then (True, r)
                                 else if c = CHR ''+'' then (False, r) else (False, s))
      in case parse_nat ds of
           None \<Rightarrow> None
         | Some n \<Rightarrow> (let v = (if neg then - int n else int n)
                     in if is_int64 v then Some v else None))"

text \<open>\<open>strconv.ParseUint(s, 10, 32)\<close>.\<close>

definition parse_uint32 :: "string \<Rightarrow> nat option" where
  "parse_uint32 s =
     (case parse_nat s of None \<Rightarrow> None | Some n \<Rightarrow> if n < 4294967296 then Some n else None)"

fun nat_to_dec :: "nat \<Rightarrow> string" where
  "nat_to_dec n = (if n < 10 then [digit_char n] else nat_to_dec (n div 10) @ [digit_char (n mod 10)])"

declare nat_to_dec.simps [simp del]

definition itoa :: "int \<Rightarrow> string" where
  "itoa i = (if i < 0 then CHR ''-'' # nat_to_dec (nat (- i)) else nat_to_dec (nat i))"

lemma of_char_digit_char: "n < 10 \<Longrightarrow> (of_char (digit_char n) :: nat) = 48 + n"
  by (simp add: digit_char_def)

lemma is_digit_digit_char [simp]: "n < 10 \<Longrightarrow> is_digit (digit_char n)"
  by (simp add: is_digit_def of_char_digit_char)

lemma digit_val_digit_char [simp]: "n < 10 \<Longrightarrow> digit_val (digit_char n) = n"
  by (simp add: digit_val_def of_char_digit_char)

lemma parse_digits_append:
  "parse_digits n (s @ t) =
     (case parse_digits n s of None \<Rightarrow> None | Some m \<Rightarrow> parse_digits m t)"
  by (induction n s rule: parse_digits.induct) auto

lemma nat_to_dec_not_Nil [simp]: "nat_to_dec n \<noteq> []"
  by (subst nat_to_dec.simps) simp

lemma nat_to_dec_digits: "c \<in> set (nat_to_dec n) \<Longrightarrow> is_digit c"
proof (induction n rule: nat_to_dec.induct)
  case (1 n)
  then show ?case
    by (cases "n < 10") (auto simp: nat_to_dec.simps[of n])
qed

lemma parse_digits_nat_to_dec: "parse_digits 0 (nat_to_dec n) = Some n"
proof (induction n rule: nat_to_dec.induct)
  case (1 n)
  then show ?case
    by (cases "n < 10") (simp_all add: nat_to_dec.simps[of n] parse_digits_append)
qed

lemma parse_nat_to_dec [simp]: "parse_nat (nat_to_dec n) = Some n"
  by (simp add: parse_nat_def parse_digits_nat_to_dec)

lemma nat_to_dec_inject [simp]: "nat_to_dec m = nat_to_dec n \<longleftrightarrow> m = n"
  by (metis option.inject parse_nat_to_dec)

lemma digit_not_sign: "is_digit c \<Longrightarrow> c \<noteq> CHR ''-'' \<and> c \<noteq> CHR ''+'' \<and> c \<noteq> CHR '','' \<and> c \<noteq> CHR ''.''"
  by (auto simp: is_digit_def)

lemma atoi_nat_to_dec: "is_int64 (int n) \<Longrightarrow> atoi (nat_to_dec n) = Some (int n)"
proof -
  assume n: "is_int64 (int n)"
  obtain c r where cr: "nat_to_dec n = c # r" by (cases "nat_to_dec n") auto
  then have "is_digit c" using nat_to_dec_digits[of c n] by simp
  then have "c \<noteq> CHR ''-''" "c \<noteq> CHR ''+''" using digit_not_sign by auto
  then have "atoi (nat_to_dec n) =
      (case parse_nat (nat_to_dec n) of None \<Rightarrow> None
       | Some n \<Rightarrow> if is_int64 (int n) then Some (int n) else None)"
    by (simp add: atoi_def cr Let_def split: option.split)
  then show ?thesis using n by simp
qed

lemma itoa_nonneg: "0 \<le> i \<Longrightarrow> itoa i = nat_to_dec (nat i)"
  by (simp add: itoa_def)

lemma atoi_itoa: "0 \<le> i \<Longrightarrow> is_int64 i \<Longrightarrow> atoi (itoa i) = Some i"
  by (simp add: itoa_nonneg atoi_nat_to_dec)

text \<open>A string of digits has no space to trim.\<close>

lemma go_spaces_head:
  assumes "w \<in> set go_spaces \<union> set (map rev go_spaces)"
  shows "\<exists>c v. w = c # v \<and> \<not> is_digit c"
proof -
  have "list_all (\<lambda>w. w \<noteq> [] \<and> \<not> is_digit (hd w)) (go_spaces @ map rev go_spaces)"
    by code_simp
  then have "w \<noteq> []" "\<not> is_digit (hd w)" using assms by (auto simp: list_all_iff)
  then show ?thesis by (cases w) auto
qed

lemma trim_space_digits:
  assumes "\<And>c. c \<in> set s \<Longrightarrow> is_digit c"
  shows "trim_space s = s"
proof -
  have no_space: "\<not> has_prefix w t"
    if w: "w \<in> set go_spaces \<union> set (map rev go_spaces)" and t: "set t \<subseteq> set s" for w t
  proof
    assume "has_prefix w t"
    moreover from go_spaces_head[OF w] obtain c v where cv: "w = c # v" "\<not> is_digit c"
      by blast
    ultimately have "c \<in> set t" by (auto simp: has_prefix_iff)
    then show False using assms t cv by auto
  qed
  have "strip_words go_spaces s = s" by (rule strip_words_id) (use no_space in auto)
  moreover have "strip_words (map rev go_spaces) (rev s) = rev s"
    by (rule strip_words_id) (use no_space in auto)
  ultimately show ?thesis by (simp add: trim_space_def)
qed

text \<open>\<open>strings.Fields\<close>: the words between runs of white space.\<close>

fun take_field :: "string \<Rightarrow> string" where
  "take_field [] = []"
| "take_field (c # s) =
     (if list_ex (\<lambda>w. has_prefix w (c # s)) go_spaces then [] else c # take_field s)"

function str_fields :: "string \<Rightarrow> string list" where
  "str_fields s =
     (let t = strip_words go_spaces s; w = take_field t
      in if w = [] then [] else w # str_fields (drop (length w) t))"
  by pat_completeness auto
termination
proof (relation "measure length", goal_cases)
  case 1
  show ?case by simp
next
  case (2 s t w)
  obtain n where "strip_words go_spaces s = drop n s" using strip_words_suffix by blast
  with 2 have "t = drop n s" by simp
  moreover have "t \<noteq> []" "w \<noteq> []" using 2 by auto
  ultimately show ?case by (cases w) auto
qed

declare str_fields.simps [simp del]

section \<open>Stable sorting\<close>

text \<open>
  \<open>sort.SliceStable(xs, less)\<close>. An element is inserted before the first one that is not
  less than it, and elements are inserted from the last to the first, so equal elements keep
  their order.
\<close>

fun insert_stable :: "('a \<Rightarrow> 'a \<Rightarrow> bool) \<Rightarrow> 'a \<Rightarrow> 'a list \<Rightarrow> 'a list" where
  "insert_stable lt x [] = [x]"
| "insert_stable lt x (y # ys) = (if lt y x then y # insert_stable lt x ys else x # y # ys)"

fun sort_stable :: "('a \<Rightarrow> 'a \<Rightarrow> bool) \<Rightarrow> 'a list \<Rightarrow> 'a list" where
  "sort_stable lt [] = []"
| "sort_stable lt (x # xs) = insert_stable lt x (sort_stable lt xs)"

lemma mset_insert_stable [simp]: "mset (insert_stable lt x ys) = add_mset x (mset ys)"
  by (induction ys) auto

lemma mset_sort_stable [simp]: "mset (sort_stable lt xs) = mset xs"
  by (induction xs) auto

lemma set_sort_stable [simp]: "set (sort_stable lt xs) = set xs"
  by (metis mset_sort_stable set_mset_mset)

lemma length_sort_stable [simp]: "length (sort_stable lt xs) = length xs"
  by (metis mset_sort_stable size_mset)

lemma sort_stable_Nil_iff [simp]: "sort_stable lt xs = [] \<longleftrightarrow> xs = []"
  by (metis length_0_conv length_sort_stable)

text \<open>The laws of a comparison function that \<open>sort.SliceStable\<close> asks for.\<close>

locale strict_weak_order =
  fixes lt :: "'a \<Rightarrow> 'a \<Rightarrow> bool"
  assumes irrefl: "\<not> lt x x"
    and trans: "lt x y \<Longrightarrow> lt y z \<Longrightarrow> lt x z"
    and incomparable_trans:
      "\<not> lt x y \<Longrightarrow> \<not> lt y z \<Longrightarrow> \<not> lt x z"
begin

lemma sorted_insert:
  "sorted_wrt (\<lambda>a b. \<not> lt b a) ys \<Longrightarrow> sorted_wrt (\<lambda>a b. \<not> lt b a) (insert_stable lt x ys)"
proof (induction ys)
  case Nil
  then show ?case by simp
next
  case (Cons y ys)
  show ?case
  proof (cases "lt y x")
    case True
    then have "\<not> lt x y" using irrefl trans by blast
    moreover have "set (insert_stable lt x ys) = insert x (set ys)"
      by (metis mset_insert_stable set_mset_add_mset_insert set_mset_mset)
    ultimately show ?thesis using Cons True by auto
  next
    case False
    have "\<not> lt z x" if "z \<in> set ys" for z
      using Cons.prems False that incomparable_trans by auto
    then show ?thesis using Cons.prems False by simp
  qed
qed

lemma sorted_sort_stable: "sorted_wrt (\<lambda>a b. \<not> lt b a) (sort_stable lt xs)"
  by (induction xs) (simp_all add: sorted_insert)

text \<open>The first element of the result is minimal: nothing in the input precedes it.\<close>

lemma hd_sort_stable_minimal:
  assumes "x \<in> set xs"
  shows "\<not> lt x (hd (sort_stable lt xs))"
proof -
  have "sort_stable lt xs \<noteq> []" using assms by force
  then obtain y ys where sorted: "sort_stable lt xs = y # ys"
    by (cases "sort_stable lt xs") auto
  have "x \<in> set (y # ys)" using assms sorted set_sort_stable by metis
  then show ?thesis using sorted_sort_stable[of xs] sorted irrefl by auto
qed

text \<open>Stability: the elements equivalent to a given one keep their relative order.\<close>

lemma filter_insert_stable:
  "filter (\<lambda>y. \<not> lt y k \<and> \<not> lt k y) (insert_stable lt x ys) =
     (if \<not> lt x k \<and> \<not> lt k x then x # filter (\<lambda>y. \<not> lt y k \<and> \<not> lt k y) ys
      else filter (\<lambda>y. \<not> lt y k \<and> \<not> lt k y) ys)"
proof (induction ys)
  case Nil
  show ?case by simp
next
  case (Cons y ys)
  show ?case
  proof (cases "lt y x")
    case True
    have "lt y k \<or> lt k y" if "\<not> lt x k" "\<not> lt k x"
      using that True incomparable_trans by blast
    with Cons True show ?thesis by auto
  next
    case False
    then show ?thesis by simp
  qed
qed

lemma sort_stable_stable:
  "filter (\<lambda>y. \<not> lt y k \<and> \<not> lt k y) (sort_stable lt xs) = filter (\<lambda>y. \<not> lt y k \<and> \<not> lt k y) xs"
  by (induction xs) (simp_all add: filter_insert_stable)

end

text \<open>A comparison by a key in a linear order is a strict weak order.\<close>

lemma strict_weak_order_key:
  fixes key :: "'a \<Rightarrow> 'k :: linorder"
  shows "strict_weak_order (\<lambda>a b. key a < key b)"
  by unfold_locales auto

section \<open>Sets of strings kept in a map, listed in order\<close>

text \<open>
  The idiom \<open>set[s] = struct{}{}\<close> followed by \<open>sort.Strings\<close> of the keys. The iteration order
  of a Go map is unspecified, and the sort makes the result independent of it.
\<close>

definition sorted_keys :: "'a :: linorder list \<Rightarrow> 'a list" where
  "sorted_keys xs = sort (remdups xs)"

lemma set_sorted_keys [simp]: "set (sorted_keys xs) = set xs"
  by (simp add: sorted_keys_def)

lemma distinct_sorted_keys [simp]: "distinct (sorted_keys xs)"
  by (simp add: sorted_keys_def)

lemma sorted_sorted_keys [simp]: "sorted (sorted_keys xs)"
  by (simp add: sorted_keys_def)

lemma sorted_keys_Nil [simp]: "sorted_keys [] = []"
  by (simp add: sorted_keys_def)

lemma sorted_keys_idem: "sorted xs \<Longrightarrow> distinct xs \<Longrightarrow> sorted_keys xs = xs"
  by (simp add: sorted_keys_def distinct_remdups_id sorted_sort_id)

text \<open>The result depends on the set of keys only, not on the order they were entered in.\<close>

lemma sorted_keys_cong: "set xs = set ys \<Longrightarrow> sorted_keys xs = sorted_keys ys"
  by (simp add: sorted_distinct_set_unique)

lemmas go_string_defs [go_simps] = has_prefix_def trim_prefix_def has_suffix_def

end
