(* ===== verification/Store.thy ===== *)
theory Store
  imports Go_Runtime
begin

text \<open>
  The database as the repositories use it. A table is the list of its rows in the order of the
  primary key, and the object-relational mapper's calls are functions on it:
  \<open>First\<close> takes the matching row with the least key and reports \<open>ErrRecordNotFound\<close> when there
  is none, \<open>Find\<close> the matching rows, \<open>Create\<close> stores a row (a zero key is replaced by the key
  \<open>nid\<close> the database assigns) and refuses a violated key or unique index, \<open>Updates\<close> rewrites
  the matching rows and is no error when there is none, \<open>Delete\<close> drops the matching rows.
  The flag \<open>down\<close> is a failure of the database itself: every call then returns \<open>ErrDB\<close>.
  The locale \<open>table\<close> states what a repository needs of its row type; every repository
  interprets it for each of its tables.
\<close>

definition q_first :: "bool \<Rightarrow> ('r \<Rightarrow> bool) \<Rightarrow> 'r list \<Rightarrow> 'r res" where
  "q_first down P rows =
     (if down then Inl ErrDB
      else case find P rows of None \<Rightarrow> Inl ErrRecordNotFound | Some r \<Rightarrow> Inr r)"

definition q_find :: "bool \<Rightarrow> ('r \<Rightarrow> bool) \<Rightarrow> 'r list \<Rightarrow> 'r list res" where
  "q_find down P rows = (if down then Inl ErrDB else Inr (filter P rows))"

definition q_create ::
  "bool \<Rightarrow> ('r \<Rightarrow> nat) \<Rightarrow> (nat \<Rightarrow> 'r \<Rightarrow> 'r) \<Rightarrow> ('r list \<Rightarrow> bool) \<Rightarrow> nat \<Rightarrow> 'r \<Rightarrow> 'r list \<Rightarrow> 'r list res"
where
  "q_create down rid set_rid uniq nid r rows =
     (if down then Inl ErrDB
      else let r' = (if rid r = 0 then set_rid nid r else r);
               rows' = insort_key rid r' rows
           in if rid r' \<in> rid ` set rows \<or> \<not> uniq rows' then Inl ErrDuplicatedKey
              else Inr rows')"

definition q_update ::
  "bool \<Rightarrow> ('r list \<Rightarrow> bool) \<Rightarrow> ('r \<Rightarrow> bool) \<Rightarrow> ('r \<Rightarrow> 'r) \<Rightarrow> 'r list \<Rightarrow> 'r list res"
where
  "q_update down uniq P f rows =
     (if down then Inl ErrDB
      else let rows' = map (\<lambda>r. if P r then f r else r) rows
           in if uniq rows' then Inr rows' else Inl ErrDuplicatedKey)"

definition q_delete :: "bool \<Rightarrow> ('r \<Rightarrow> bool) \<Rightarrow> 'r list \<Rightarrow> 'r list res" where
  "q_delete down P rows = (if down then Inl ErrDB else Inr (filter (\<lambda>r. \<not> P r) rows))"

lemmas q_defs = q_first_def q_find_def q_create_def q_update_def q_delete_def

lemma q_first_InrD:
  "q_first down P rows = Inr r \<Longrightarrow> \<not> down \<and> r \<in> set rows \<and> P r"
  by (auto simp: q_first_def find_Some_iff split: if_splits option.splits)

lemma q_first_not_found:
  "q_first down P rows = Inl ErrRecordNotFound \<longleftrightarrow> \<not> down \<and> (\<forall>r \<in> set rows. \<not> P r)"
proof (cases "find P rows")
  case None
  then have "\<forall>r \<in> set rows. \<not> P r" by (auto simp: find_None_iff)
  with None show ?thesis by (simp add: q_first_def)
next
  case (Some r)
  then have "r \<in> set rows" "P r" by (auto simp: find_Some_iff)
  with Some show ?thesis by (auto simp: q_first_def)
qed

lemma q_first_cases:
  obtains (db) "q_first down P rows = Inl ErrDB" "down"
  | (missing) "q_first down P rows = Inl ErrRecordNotFound" "\<not> down" "\<forall>r \<in> set rows. \<not> P r"
  | (found) r where "q_first down P rows = Inr r" "\<not> down" "r \<in> set rows" "P r"
proof (cases "q_first down P rows")
  case (Inl e)
  then have "e = ErrDB \<and> down \<or> e = ErrRecordNotFound"
    by (auto simp: q_first_def split: if_splits option.splits)
  then show ?thesis using Inl db missing q_first_not_found[of down P rows] by blast
next
  case (Inr r)
  then show ?thesis using found q_first_InrD by metis
qed

lemma q_find_Inr [table_simps]: "q_find down P rows = Inr rs \<longleftrightarrow> \<not> down \<and> rs = filter P rows"
  by (auto simp: q_find_def)

lemma q_delete_Inr [table_simps]:
  "q_delete down P rows = Inr rows' \<longleftrightarrow> \<not> down \<and> rows' = filter (\<lambda>r. \<not> P r) rows"
  by (auto simp: q_delete_def)

lemma q_update_Inr [table_simps]:
  "q_update down uniq P f rows = Inr rows' \<longleftrightarrow>
     \<not> down \<and> rows' = map (\<lambda>r. if P r then f r else r) rows
     \<and> uniq (map (\<lambda>r. if P r then f r else r) rows)"
  by (auto simp: q_update_def Let_def)

text \<open>A table in order: the keys ascend strictly and the unique indexes hold.\<close>

definition table_ok :: "('r \<Rightarrow> nat) \<Rightarrow> ('r list \<Rightarrow> bool) \<Rightarrow> 'r list \<Rightarrow> bool" where
  "table_ok rid uniq rows \<longleftrightarrow> sorted (map rid rows) \<and> distinct (map rid rows) \<and> uniq rows"

text \<open>What a row type promises: its key can be set, and deleting rows breaks no unique index.\<close>

locale table =
  fixes rid :: "'r \<Rightarrow> nat" and set_rid :: "nat \<Rightarrow> 'r \<Rightarrow> 'r" and uniq :: "'r list \<Rightarrow> bool"
  assumes rid_set_rid: "rid (set_rid n r) = n"
    and uniq_Nil: "uniq []"
    and uniq_filter: "uniq rows \<Longrightarrow> uniq (filter P rows)"
begin

lemma empty_ok: "table_ok rid uniq []"
  by (simp add: table_ok_def uniq_Nil)

lemma delete_ok:
  "table_ok rid uniq rows \<Longrightarrow> q_delete down P rows = Inr rows' \<Longrightarrow> table_ok rid uniq rows'"
  by (simp add: table_ok_def table_simps sorted_filter distinct_map_filter uniq_filter)

lemma update_keys:
  assumes "q_update down uniq P f rows = Inr rows'" and keeps: "\<And>r. rid (f r) = rid r"
  shows "map rid rows' = map rid rows" and "rid ` set rows' = rid ` set rows"
proof -
  show keys: "map rid rows' = map rid rows" using assms by (auto simp: table_simps)
  show "rid ` set rows' = rid ` set rows" by (metis keys list.set_map)
qed

lemma update_ok:
  assumes "table_ok rid uniq rows" "q_update down uniq P f rows = Inr rows'"
    and keeps: "\<And>r. rid (f r) = rid r"
  shows "table_ok rid uniq rows'"
proof -
  have "map rid rows' = map rid rows"
    using assms(2) keeps by (rule update_keys)
  moreover have "uniq rows'" using assms(2) by (simp add: table_simps)
  ultimately show ?thesis using assms(1) by (metis table_ok_def)
qed

text \<open>The same for an assignment that keeps the key of the rows it rewrites.\<close>

lemma update_ok_on:
  assumes "table_ok rid uniq rows" "q_update down uniq P f rows = Inr rows'"
    and keeps: "\<And>r. P r \<Longrightarrow> rid (f r) = rid r"
  shows "table_ok rid uniq rows'"
proof -
  have "map rid rows' = map rid rows" "uniq rows'"
    using assms(2) keeps by (auto simp: table_simps)
  then show ?thesis using assms(1) by (metis table_ok_def)
qed

lemma create_Inr:
  assumes "q_create down rid set_rid uniq nid r rows = Inr rows'"
  shows "set rows' = insert (if rid r = 0 then set_rid nid r else r) (set rows)"
  using assms by (auto simp: q_create_def Let_def set_insort_key split: if_splits)

lemma create_ok:
  assumes "table_ok rid uniq rows" "q_create down rid set_rid uniq nid r rows = Inr rows'"
  shows "table_ok rid uniq rows'"
proof -
  define r' where "r' = (if rid r = 0 then set_rid nid r else r)"
  from assms(2) have new: "rows' = insort_key rid r' rows" "uniq rows'" "rid r' \<notin> rid ` set rows"
    by (auto simp: q_create_def r'_def Let_def split: if_splits)
  have "sorted (map rid rows')"
    using assms(1) new(1) by (simp add: table_ok_def sorted_insort_key)
  moreover have "distinct (map rid rows')"
  proof -
    have "mset (map rid rows') = add_mset (rid r') (mset (map rid rows))"
      by (simp add: new(1))
    moreover have "distinct (rid r' # map rid rows)"
      using assms(1) new(3) by (simp add: table_ok_def)
    ultimately show ?thesis by (metis mset.simps(2) mset_eq_imp_distinct_iff)
  qed
  ultimately show ?thesis using new(2) by (simp add: table_ok_def)
qed

text \<open>Reading back by the key: the row with that key, and only that row.\<close>

lemma first_by_key:
  assumes "table_ok rid uniq rows" "r \<in> set rows"
  shows "q_first False (\<lambda>x. rid x = rid r) rows = Inr r"
proof -
  obtain x where x: "find (\<lambda>x. rid x = rid r) rows = Some x"
    using assms(2) by (cases "find (\<lambda>x. rid x = rid r) rows") (auto simp: find_None_iff)
  then have "x \<in> set rows" "rid x = rid r" by (auto simp: find_Some_iff)
  then have "x = r" using assms by (auto simp: table_ok_def distinct_map dest: inj_onD)
  with x show ?thesis by (simp add: q_first_def)
qed

text \<open>\<open>First\<close> takes the matching row with the least key.\<close>

lemma first_least:
  assumes "table_ok rid uniq rows" "q_first down P rows = Inr r" "s \<in> set rows" "P s"
  shows "rid r \<le> rid s"
proof -
  from assms(2) have "find P rows = Some r"
    by (auto simp: q_first_def split: if_splits option.splits)
  then obtain i where i: "i < length rows" "r = rows ! i" "\<forall>j < i. \<not> P (rows ! j)"
    by (auto simp: find_Some_iff)
  from assms(3) obtain j where j: "j < length rows" "s = rows ! j"
    by (auto simp: in_set_conv_nth)
  then have "i \<le> j" using i(3) assms(4) by (meson not_le)
  then have "map rid rows ! i \<le> map rid rows ! j"
    using assms(1) j(1) by (intro sorted_nth_mono) (auto simp: table_ok_def)
  then show ?thesis using i j by simp
qed

text \<open>A created row is found again under the key it was given.\<close>

lemma create_first:
  assumes "table_ok rid uniq rows" "q_create down rid set_rid uniq nid r rows = Inr rows'"
    and "r' = (if rid r = 0 then set_rid nid r else r)"
  shows "q_first False (\<lambda>x. rid x = rid r') rows' = Inr r'"
  using first_by_key[OF create_ok[OF assms(1,2)]] create_Inr[OF assms(2)] assms(3) by simp

end

end
