(* ===== verification/Policy_Model.thy ===== *)
theory Policy_Model
  imports Store
begin

text \<open>
  The policy package's data contract, \<open>src/internal/policy/model.go\<close>: the rows of the five
  policy tables, their validation, and the precedence order of resolved candidates.

  Decoding of JSON documents, the Unicode case tables and the time-zone database are not code
  of this repository. They are the fields of \<open>policy_env\<close>, an argument of every definition
  that uses them. \<open>env_unmarshal\<close>, \<open>env_definition\<close>, \<open>env_patch\<close>, \<open>env_dns_patch\<close> and
  \<open>env_release\<close> are \<open>json.Unmarshal\<close> into \<open>any\<close>, \<open>Definition\<close> and the three local structs of
  the decision code (\<open>None\<close> is a decoding error); \<open>env_remarshal\<close> is decoding into a map
  followed by \<open>json.Marshal\<close>. The text of an error keeps the message's constant part.
\<close>

section \<open>Rows and documents\<close>

datatype jval = JNull | JBool bool | JString string | JNumber string
  | JArray "jval list" | JObject "(string \<times> jval) list"

type_synonym json_map = "(string \<times> jval) list"

text \<open>A nil map is \<open>None\<close>; a slice keeps \<open>nil\<close> apart from the empty slice the same way in a patch.\<close>

record definition_doc =
  d_Action :: string
  d_Services :: "string list"
  d_Categories :: "string list"
  d_Destinations :: "string list"
  d_DNS :: "json_map option"
  d_Quarantine :: bool
  d_QuarantineAllowlist :: "string list"
  d_Quota :: "json_map option"
  d_QoS :: "json_map option"
  d_ScheduleRef :: string
  d_Metadata :: "json_map option"

record policy_row =
  p_ID :: nat
  p_Name :: string
  p_Description :: string
  p_Spec :: string
  p_Priority :: int
  p_Enabled :: bool
  p_CreatedAt :: int
  p_UpdatedAt :: int

record assignment_row =
  a_ID :: nat
  a_PolicyID :: nat
  a_TargetType :: string
  a_TargetRef :: string
  a_Priority :: int
  a_Enabled :: bool
  a_CreatedAt :: int
  a_UpdatedAt :: int

record override_row =
  o_ID :: nat
  o_PolicyID :: nat
  o_TargetType :: string
  o_TargetRef :: string
  o_Scope :: string
  o_Value :: string
  o_Priority :: int
  o_Enabled :: bool
  o_CreatedAt :: int
  o_UpdatedAt :: int

record temporary_row =
  t_ID :: nat
  t_PolicyID :: nat
  t_TargetType :: string
  t_TargetRef :: string
  t_Scope :: string
  t_Value :: string
  t_Priority :: int
  t_StartsAt :: int
  t_ExpiresAt :: int
  t_Enabled :: bool
  t_CreatedAt :: int
  t_UpdatedAt :: int

text \<open>The local wall clock of an instant: weekday (Sunday is 0), hour and minute.\<close>

record clock =
  c_Weekday :: nat
  c_Hour :: nat
  c_Minute :: nat

record patch_doc =
  x_Action :: string
  x_Services :: "string list option"
  x_Categories :: "string list option"
  x_Destinations :: "string list option"
  x_Domains :: "string list option"
  x_Quarantine :: "bool option"
  x_QuarantineAllowlist :: "string list option"
  x_DNS :: "json_map option"

record policy_env =
  env_unmarshal :: "string \<Rightarrow> jval option"
  env_definition :: "string \<Rightarrow> definition_doc option"
  env_patch :: "string \<Rightarrow> patch_doc option"
  env_dns_patch :: "string \<Rightarrow> json_map option option"
  env_release :: "string \<Rightarrow> bool option"
  env_remarshal :: "string \<Rightarrow> string option"
  env_location :: "string \<Rightarrow> (int \<Rightarrow> clock) option"
  env_lower :: "string \<Rightarrow> string"

definition TargetClient :: string where "TargetClient = ''client''"
definition TargetGroup :: string where "TargetGroup = ''group''"
definition ScopePolicy :: string where "ScopePolicy = ''policy''"
definition ScopeService :: string where "ScopeService = ''service''"
definition ScopeDomain :: string where "ScopeDomain = ''domain''"
definition ScopeDNS :: string where "ScopeDNS = ''dns''"
definition ScopeQuota :: string where "ScopeQuota = ''quota''"
definition ScopeQoS :: string where "ScopeQoS = ''qos''"
definition ScopeQuarantineRelease :: string where
  "ScopeQuarantineRelease = ''quarantine-release''"

lemmas policy_consts = TargetClient_def TargetGroup_def ScopePolicy_def ScopeService_def
  ScopeDomain_def ScopeDNS_def ScopeQuota_def ScopeQoS_def ScopeQuarantineRelease_def

section \<open>Validation\<close>

definition validateTarget :: "string \<Rightarrow> string \<Rightarrow> unit res" where
  "validateTarget targetType targetRef =
     (if targetType \<noteq> TargetClient \<and> targetType \<noteq> TargetGroup then Inl (Err ''invalid target type'')
      else if trim_space targetRef = [] then Inl (Err ''target reference is required'')
      else Inr ())"

definition validateScope :: "string \<Rightarrow> unit res" where
  "validateScope scope =
     (if scope \<in> {ScopePolicy, ScopeService, ScopeDomain, ScopeDNS, ScopeQuota, ScopeQoS,
                  ScopeQuarantineRelease}
      then Inr () else Inl (Err ''invalid override scope''))"

fun is_jbool :: "jval \<Rightarrow> bool" where
  "is_jbool (JBool _) = True"
| "is_jbool _ = False"

definition validateDNS :: "json_map option \<Rightarrow> unit res" where
  "validateDNS dns =
     (case dns of
        None \<Rightarrow> Inr ()
      | Some m \<Rightarrow>
         (if (case map_of m ''managed'' of None \<Rightarrow> False | Some v \<Rightarrow> \<not> is_jbool v)
          then Inl (Err ''dns managed must be boolean'')
          else if (case map_of m ''safeSearch'' of None \<Rightarrow> False | Some v \<Rightarrow> \<not> is_jbool v)
          then Inl (Err ''dns safeSearch must be boolean'')
          else if (case map_of m ''dnsOutboundTag'' of
                     None \<Rightarrow> False
                   | Some v \<Rightarrow> (case v of JString s \<Rightarrow> trim_space s = [] | _ \<Rightarrow> True))
          then Inl (Err ''dns dnsOutboundTag must be a non-empty string'')
          else if map_of m ''safeSearchHosts'' \<noteq> None
          then Inl (Err ''dns safeSearchHosts is unsupported'')
          else Inr ()))"

definition validateJSON :: "policy_env \<Rightarrow> string \<Rightarrow> string \<Rightarrow> unit res" where
  "validateJSON env raw field =
     (case env_unmarshal env raw of
        None \<Rightarrow> Inl (Err (''malformed '' @ field))
      | Some v \<Rightarrow> (case v of JObject _ \<Rightarrow> Inr ()
                   | _ \<Rightarrow> Inl (Err (field @ '' must be an object''))))"

definition IsKnownCategory :: "string \<Rightarrow> bool" where
  "IsKnownCategory category \<longleftrightarrow>
     category \<in> {''social'', ''video/streaming'', ''messaging'', ''gaming'', ''cloud/CDN'', ''search'',
                 ''software/update'', ''advertising'', ''adult'', ''gambling''}"

definition validateDefinition :: "policy_env \<Rightarrow> string \<Rightarrow> unit res" where
  "validateDefinition env spec =
     (case validateJSON env spec ''policy spec'' of
        Inl e \<Rightarrow> Inl e
      | Inr _ \<Rightarrow>
         (case env_definition env spec of
            None \<Rightarrow> Inl (Err ''malformed policy spec'')
          | Some d \<Rightarrow>
             (if d_Action d \<noteq> [] \<and> d_Action d \<noteq> ''allow'' \<and> d_Action d \<noteq> ''deny''
              then Inl (Err ''policy action must be allow or deny'')
              else if list_ex (\<lambda>c. \<not> IsKnownCategory c) (d_Categories d)
              then Inl (Err ''unsupported policy category'')
              else (case validateDNS (d_DNS d) of
                      Inl e \<Rightarrow> Inl e
                    | Inr _ \<Rightarrow>
                       (if list_ex (\<lambda>s. trim_space s = []) (d_QuarantineAllowlist d)
                        then Inl (Err ''quarantine allowlist contains an empty destination'')
                        else Inr ())))))"

definition normalizeDefinition :: "policy_env \<Rightarrow> string \<Rightarrow> string res" where
  "normalizeDefinition env spec =
     (case validateDefinition env spec of
        Inl e \<Rightarrow> Inl e
      | Inr _ \<Rightarrow> (case env_remarshal env spec of
                   None \<Rightarrow> Inl (Err ''malformed policy spec'') | Some s \<Rightarrow> Inr s))"

definition priority_in_range :: "int \<Rightarrow> bool" where
  "priority_in_range n \<longleftrightarrow> \<not> (n < - 100000 \<or> n > 100000)"

definition validatePolicy :: "policy_env \<Rightarrow> policy_row \<Rightarrow> policy_row res" where
  "validatePolicy env p =
     (let p1 = p\<lparr>p_Name := trim_space (p_Name p)\<rparr> in
      if p_Name p1 = [] \<or> length (p_Name p1) > 128
      then Inl (Err ''policy name is required and must be at most 128 characters'')
      else if \<not> priority_in_range (p_Priority p1) then Inl (Err ''policy priority is out of range'')
      else (case normalizeDefinition env (p_Spec p1) of
              Inl e \<Rightarrow> Inl e | Inr spec \<Rightarrow> Inr (p1\<lparr>p_Spec := spec\<rparr>)))"

definition validateAssignment :: "assignment_row \<Rightarrow> unit res" where
  "validateAssignment a = validateTarget (a_TargetType a) (a_TargetRef a)"

definition validateOverride :: "policy_env \<Rightarrow> override_row \<Rightarrow> unit res" where
  "validateOverride env ov =
     (case validateTarget (o_TargetType ov) (o_TargetRef ov) of
        Inl e \<Rightarrow> Inl e
      | Inr _ \<Rightarrow>
         (case validateScope (o_Scope ov) of
            Inl e \<Rightarrow> Inl e
          | Inr _ \<Rightarrow>
             (if o_Scope ov = ScopeQuarantineRelease
              then Inl (Err ''quarantine-release must be temporary'')
              else if \<not> priority_in_range (o_Priority ov)
              then Inl (Err ''override priority is out of range'')
              else validateJSON env (o_Value ov) ''override value'')))"

definition max_temporary_ms :: int where "max_temporary_ms = 365 * 24 * 3600000"

definition validateTemporary :: "policy_env \<Rightarrow> temporary_row \<Rightarrow> unit res" where
  "validateTemporary env ov =
     (case validateTarget (t_TargetType ov) (t_TargetRef ov) of
        Inl e \<Rightarrow> Inl e
      | Inr _ \<Rightarrow>
         (case validateScope (t_Scope ov) of
            Inl e \<Rightarrow> Inl e
          | Inr _ \<Rightarrow>
             (if t_Scope ov = ScopeQuarantineRelease \<and> env_release env (t_Value ov) \<noteq> Some True
              then Inl (Err ''quarantine-release value must set released=true'')
              else if t_StartsAt ov \<le> 0 \<or> t_ExpiresAt ov \<le> t_StartsAt ov
              then Inl (Err ''temporary override must have a positive start before expiry'')
              else if sub64 (t_ExpiresAt ov) (t_StartsAt ov) > max_temporary_ms
              then Inl (Err ''temporary override may not exceed 365 days'')
              else if \<not> priority_in_range (t_Priority ov)
              then Inl (Err ''temporary override priority is out of range'')
              else validateJSON env (t_Value ov) ''temporary override value'')))"

section \<open>Candidates and their precedence\<close>

record candidate =
  k_Source :: string
  k_PolicyID :: nat
  k_TargetType :: string
  k_TargetRef :: string
  k_Priority :: int
  k_CreatedAt :: int
  k_ID :: nat
  k_Active :: bool
  k_Scope :: string
  k_StartsAt :: int
  k_ExpiresAt :: int

definition source_rank :: "string \<Rightarrow> int" where
  "source_rank s =
     (if s = ''assignment'' then 1 else if s = ''override'' then 2 else if s = ''temporary'' then 3 else 0)"

definition target_rank :: "string \<Rightarrow> int" where
  "target_rank t = (if t = TargetGroup then 1 else if t = TargetClient then 2 else 0)"

definition candidate_rank :: "candidate \<Rightarrow> int" where
  "candidate_rank x =
     wrap64 (source_rank (k_Source x) * 1000000 + target_rank (k_TargetType x) * 100000 + k_Priority x)"

definition candidate_less :: "candidate \<Rightarrow> candidate \<Rightarrow> bool" where
  "candidate_less a b =
     (let ra = candidate_rank a; rb = candidate_rank b in
      if ra \<noteq> rb then ra > rb
      else if k_CreatedAt a \<noteq> k_CreatedAt b then k_CreatedAt a < k_CreatedAt b
      else k_ID a < k_ID b)"

definition sortCandidates :: "candidate list \<Rightarrow> candidate list" where
  "sortCandidates items = sort_stable candidate_less items"

definition activeAt :: "int \<Rightarrow> int \<Rightarrow> int \<Rightarrow> bool" where
  "activeAt now starts expires \<longleftrightarrow> starts \<le> now \<and> now < expires"

interpretation cand: strict_weak_order candidate_less
  by unfold_locales (auto simp: candidate_less_def Let_def split: if_splits)

lemmas validate_defs = validateTarget_def validateScope_def validateJSON_def validateAssignment_def
  validateOverride_def validateTemporary_def

text \<open>What a passed validation guarantees of the row.\<close>

lemma validateTarget_ok:
  "validateTarget t r = Inr () \<longleftrightarrow> t \<in> {TargetClient, TargetGroup} \<and> trim_space r \<noteq> []"
  by (auto simp: validateTarget_def)

lemma validateOverride_ok:
  assumes "validateOverride env ov = Inr ()"
  shows "o_Scope ov \<noteq> ScopeQuarantineRelease" and "\<bar>o_Priority ov\<bar> \<le> 100000"
    and "o_TargetType ov \<in> {TargetClient, TargetGroup}"
  using assms
  by (auto simp: validateOverride_def validateTarget_def priority_in_range_def
      split: sum.splits if_splits)

lemma validateTemporary_ok:
  assumes "validateTemporary env ov = Inr ()"
  shows "0 < t_StartsAt ov" and "t_StartsAt ov < t_ExpiresAt ov"
    and "sub64 (t_ExpiresAt ov) (t_StartsAt ov) \<le> max_temporary_ms" and "\<bar>t_Priority ov\<bar> \<le> 100000"
    and "t_TargetType ov \<in> {TargetClient, TargetGroup}"
    and "t_Scope ov = ScopeQuarantineRelease \<longrightarrow> env_release env (t_Value ov) = Some True"
  using assms
  by (auto simp: validateTemporary_def validateTarget_def priority_in_range_def
      split: sum.splits if_splits)

lemma validatePolicy_ok:
  assumes "validatePolicy env p = Inr q"
  shows "p_ID q = p_ID p" and "p_Name q = trim_space (p_Name p)" and "p_Name q \<noteq> []"
    and "length (p_Name q) \<le> 128" and "\<bar>p_Priority q\<bar> \<le> 100000"
    and "p_Enabled q = p_Enabled p"
    and "env_remarshal env (p_Spec p) = Some (p_Spec q)"
  using assms
  by (auto simp: validatePolicy_def normalizeDefinition_def priority_in_range_def Let_def
      split: sum.splits if_splits option.splits)

text \<open>The order of two candidates of the same source and target kind is by priority.\<close>

lemma candidate_rank_eq:
  "\<bar>k_Priority x\<bar> \<le> 200000 \<Longrightarrow> candidate_rank x =
     source_rank (k_Source x) * 1000000 + target_rank (k_TargetType x) * 100000 + k_Priority x"
  unfolding candidate_rank_def
  by (rule wrap64_id) (auto simp: is_int64_def source_rank_def target_rank_def)

end
