(* ===== verification/Policy_Schedule.thy ===== *)
theory Policy_Schedule
  imports Policy_Model
begin

text \<open>
  Weekly activation windows of policies, \<open>src/internal/policy/schedule.go\<close>: validation and
  normal form of a schedule, whether it is active at an instant, and the search for the next
  activation. Instants are Unix milliseconds. The time-zone database is \<open>env_location\<close>;
  \<open>location_ok\<close> is what the \<open>time\<close> package documents of a wall clock.
\<close>

record schedule_row =
  s_ID :: nat
  s_PolicyID :: nat
  s_Timezone :: string
  s_Weekdays :: string
  s_StartMinute :: int
  s_EndMinute :: int
  s_Enabled :: bool
  s_CreatedAt :: int
  s_UpdatedAt :: int

section \<open>Weekday lists\<close>

definition parse_weekday_item :: "string \<Rightarrow> int list res" where
  "parse_weekday_item raw =
     (let item = trim_space raw in
      if item = [] then Inr []
      else case atoi item of
             None \<Rightarrow> Inl (Err ''invalid weekday'')
           | Some n \<Rightarrow> if n < 0 \<or> n > 6 then Inl (Err ''invalid weekday'') else Inr [n])"

definition parseWeekdays :: "string \<Rightarrow> int list res" where
  "parseWeekdays raw =
     (case collect parse_weekday_item (split_on (CHR '','') raw) of
        Inl e \<Rightarrow> Inl e | Inr ns \<Rightarrow> Inr (sorted_keys ns))"

definition formatWeekdays :: "int list \<Rightarrow> string" where
  "formatWeekdays days = join_with '','' (map itoa days)"

definition validateSchedule :: "policy_env \<Rightarrow> schedule_row option \<Rightarrow> schedule_row res" where
  "validateSchedule env so =
     (case so of
        None \<Rightarrow> Inl (Err ''policy is required'')
      | Some s \<Rightarrow>
         (if s_PolicyID s = 0 then Inl (Err ''policy is required'')
          else if trim_space (s_Timezone s) = [] then Inl (Err ''timezone is required'')
          else if env_location env (s_Timezone s) = None then Inl (Err ''invalid timezone'')
          else if s_StartMinute s < 0 \<or> s_StartMinute s \<ge> 24 * 60 \<or> s_EndMinute s < 0
               \<or> s_EndMinute s \<ge> 24 * 60 \<or> s_StartMinute s = s_EndMinute s
          then Inl (Err ''schedule times must be different minutes in the same day'')
          else (case parseWeekdays (s_Weekdays s) of
                  Inl _ \<Rightarrow> Inl (Err ''weekdays must contain one or more values from 0 to 6'')
                | Inr days \<Rightarrow>
                   (if days = [] then Inl (Err ''weekdays must contain one or more values from 0 to 6'')
                    else Inr (s\<lparr>s_Weekdays := formatWeekdays days\<rparr>)))))"

section \<open>Activation\<close>

definition scheduleActiveAt :: "policy_env \<Rightarrow> schedule_row \<Rightarrow> int \<Rightarrow> bool" where
  "scheduleActiveAt env s at =
     (if \<not> s_Enabled s \<or> at \<le> 0 then False
      else case env_location env (s_Timezone s) of
             None \<Rightarrow> False
           | Some loc \<Rightarrow>
              (let local = loc at;
                   minute = int (c_Hour local) * 60 + int (c_Minute local)
               in case parseWeekdays (s_Weekdays s) of
                    Inl _ \<Rightarrow> False
                  | Inr days \<Rightarrow>
                     (let selected = (\<lambda>day :: nat. int day \<in> set days) in
                      if s_StartMinute s < s_EndMinute s
                      then selected (c_Weekday local) \<and> minute \<ge> s_StartMinute s \<and> minute < s_EndMinute s
                      else if minute \<ge> s_StartMinute s then selected (c_Weekday local)
                      else minute < s_EndMinute s \<and> selected ((c_Weekday local + 6) mod 7))))"

text \<open>The scan over \<open>8 * 24 * 60\<close> candidate minutes; \<open>UnixMilli\<close> of a candidate is an \<open>int64\<close>.\<close>

fun next_active_scan :: "policy_env \<Rightarrow> schedule_row \<Rightarrow> nat \<Rightarrow> int \<Rightarrow> int" where
  "next_active_scan env s k candidate =
     (if k = 0 then 0
      else if scheduleActiveAt env s (wrap64 candidate) \<and> \<not> scheduleActiveAt env s (wrap64 (candidate - 60000))
      then wrap64 candidate
      else next_active_scan env s (k - 1) (candidate + 60000))"

declare next_active_scan.simps [simp del]

definition scheduleNextActive :: "policy_env \<Rightarrow> schedule_row \<Rightarrow> int \<Rightarrow> int" where
  "scheduleNextActive env s at =
     (if \<not> s_Enabled s \<or> at \<le> 0 then 0
      else if env_location env (s_Timezone s) = None then 0
      else next_active_scan env s (8 * 24 * 60) (at - at mod 60000 + 60000))"

definition ScheduleState :: "policy_env \<Rightarrow> schedule_row \<Rightarrow> int \<Rightarrow> bool \<times> int" where
  "ScheduleState env s at = (scheduleActiveAt env s at, scheduleNextActive env s at)"

section \<open>Weekday lists: range and round trip\<close>

lemma parse_weekday_item_range:
  "parse_weekday_item raw = Inr ns \<Longrightarrow> n \<in> set ns \<Longrightarrow> 0 \<le> n \<and> n \<le> 6"
  by (auto simp: parse_weekday_item_def Let_def split: if_splits option.splits)

lemma parseWeekdays_range:
  assumes "parseWeekdays raw = Inr days"
  shows "sorted days" and "distinct days" and "n \<in> set days \<Longrightarrow> 0 \<le> n \<and> n \<le> 6"
proof -
  from assms obtain ns where ns: "collect parse_weekday_item (split_on (CHR '','') raw) = Inr ns"
    "days = sorted_keys ns"
    by (auto simp: parseWeekdays_def split: sum.splits)
  show "sorted days" "distinct days" by (simp_all add: ns(2))
  show "n \<in> set days \<Longrightarrow> 0 \<le> n \<and> n \<le> 6"
    using parse_weekday_item_range by (auto simp: ns(2) collect_set[OF ns(1)])
qed

lemma parse_weekday_item_itoa:
  assumes "0 \<le> n" "n \<le> 6"
  shows "parse_weekday_item (itoa n) = Inr [n]"
proof -
  have "trim_space (itoa n) = itoa n"
    using assms by (intro trim_space_digits) (auto simp: itoa_nonneg nat_to_dec_digits)
  moreover have "atoi (itoa n) = Some n"
    using assms by (intro atoi_itoa) (auto simp: is_int64_def)
  ultimately show ?thesis
    using assms by (simp add: parse_weekday_item_def itoa_nonneg)
qed

lemma collect_weekday_items:
  "(\<And>n. n \<in> set days \<Longrightarrow> 0 \<le> n \<and> n \<le> 6) \<Longrightarrow>
     collect parse_weekday_item (map itoa days) = Inr days"
  by (induction days) (auto simp: parse_weekday_item_itoa)

lemma split_formatWeekdays:
  assumes "\<And>n. n \<in> set days \<Longrightarrow> 0 \<le> n" "days \<noteq> []"
  shows "split_on (CHR '','') (formatWeekdays days) = map itoa days"
  unfolding formatWeekdays_def
proof (rule split_on_join)
  fix w
  assume "w \<in> set (map itoa days)"
  then obtain n where "n \<in> set days" "w = nat_to_dec (nat n)"
    using assms(1) by (auto simp: itoa_nonneg)
  then show "CHR '','' \<notin> set w" using nat_to_dec_digits digit_not_sign by blast
qed (use assms(2) in simp)

lemma parse_format_days:
  assumes "\<And>n. n \<in> set days \<Longrightarrow> 0 \<le> n \<and> n \<le> 6" "sorted days" "distinct days" "days \<noteq> []"
  shows "parseWeekdays (formatWeekdays days) = Inr days"
  using assms split_formatWeekdays[of days] collect_weekday_items[of days]
  by (simp add: parseWeekdays_def sorted_keys_idem)

lemma validateSchedule_ok:
  assumes "validateSchedule env (Some s) = Inr s'"
  shows "\<exists>days. parseWeekdays (s_Weekdays s) = Inr days \<and> days \<noteq> [] \<and> s' = s\<lparr>s_Weekdays := formatWeekdays days\<rparr>"
    and "s_PolicyID s' = s_PolicyID s" and "s_ID s' = s_ID s"
    and "0 \<le> s_StartMinute s" "s_StartMinute s < 1440" "0 \<le> s_EndMinute s" "s_EndMinute s < 1440"
    and "s_StartMinute s \<noteq> s_EndMinute s" "s_PolicyID s \<noteq> 0"
  using assms by (auto simp: validateSchedule_def split: if_splits sum.splits)

section \<open>The weekly window\<close>

text \<open>What the \<open>time\<close> package documents of the clock fields of a local time.\<close>

definition location_ok :: "policy_env \<Rightarrow> bool" where
  "location_ok env \<longleftrightarrow> (\<forall>tz loc t. env_location env tz = Some loc \<longrightarrow>
     c_Weekday (loc t) < 7 \<and> c_Hour (loc t) < 24 \<and> c_Minute (loc t) < 60)"

text \<open>
  The specification of a window in minutes of the week: the window of a selected day starts at
  its start minute and lasts until the next occurrence of the end minute, over midnight and
  over the end of the week.
\<close>

definition in_weekly_window :: "int list \<Rightarrow> int \<Rightarrow> int \<Rightarrow> int \<Rightarrow> int \<Rightarrow> bool" where
  "in_weekly_window days start stop wd minute \<longleftrightarrow>
     (\<exists>d \<in> set days. ((wd * 1440 + minute) - (d * 1440 + start)) mod 10080 < (stop - start) mod 1440)"

text \<open>One selected day: the arithmetic of minutes of the week against the code's case split.\<close>

lemma mod_below:
  assumes "- m \<le> (x :: int)" "x < m"
  shows "x mod m = (if 0 \<le> x then x else x + m)"
proof (cases "0 \<le> x")
  case False
  have "x mod m = (x + m) mod m" by simp
  also have "\<dots> = x + m" using assms False by (intro mod_pos_pos_trivial) auto
  finally show ?thesis using False by simp
qed (use assms in simp)

lemma day_window_same_day:
  fixes wd d minute start stop :: int
  assumes "0 \<le> wd" "wd \<le> 6" "0 \<le> d" "d \<le> 6" "0 \<le> minute" "minute < 1440"
    and "0 \<le> start" "start < stop" "stop < 1440"
  shows "((wd * 1440 + minute) - (d * 1440 + start)) mod 10080 < (stop - start) mod 1440
           \<longleftrightarrow> wd = d \<and> start \<le> minute \<and> minute < stop"
proof -
  define x where "x = (wd * 1440 + minute) - (d * 1440 + start)"
  have x: "x mod 10080 = (if 0 \<le> x then x else x + 10080)"
    unfolding x_def using assms by (intro mod_below) auto
  have dur: "(stop - start) mod 1440 = stop - start" using assms by simp
  consider "wd = d" | "wd \<le> d - 1" | "d + 1 \<le> wd" by linarith
  then show ?thesis
  proof cases
    case 1
    then show ?thesis using assms unfolding x_def[symmetric] x dur
      by (cases "start \<le> minute") (simp_all add: x_def)
  next
    case 2
    then have "x < 0" using assms by (simp add: x_def)
    then show ?thesis using 2 assms unfolding x_def[symmetric] x dur by (simp add: x_def)
  next
    case 3
    then have "0 \<le> x" using assms by (simp add: x_def)
    then show ?thesis using 3 assms unfolding x_def[symmetric] x dur by (simp add: x_def)
  qed
qed

lemma day_window_overnight:
  fixes wd d minute start stop :: int
  assumes "0 \<le> wd" "wd \<le> 6" "0 \<le> d" "d \<le> 6" "0 \<le> minute" "minute < 1440"
    and "0 \<le> stop" "stop < start" "start < 1440"
  shows "((wd * 1440 + minute) - (d * 1440 + start)) mod 10080 < (stop - start) mod 1440
           \<longleftrightarrow> (wd = d \<and> start \<le> minute) \<or> ((wd + 6) mod 7 = d \<and> minute < stop)"
proof -
  define x where "x = (wd * 1440 + minute) - (d * 1440 + start)"
  have x: "x mod 10080 = (if 0 \<le> x then x else x + 10080)"
    unfolding x_def using assms by (intro mod_below) auto
  have dur: "(stop - start) mod 1440 = stop - start + 1440"
    using mod_below[of 1440 "stop - start"] assms by simp
  have "(wd - 1) mod 7 = (if 0 \<le> wd - 1 then wd - 1 else wd - 1 + 7)"
    using assms by (intro mod_below) auto
  moreover have "(wd + 6) mod 7 = (wd - 1) mod 7" 
    using mod_add_self2[of "wd - 1" 7] by (simp add: add.commute)
  ultimately have prev: "(wd + 6) mod 7 = (if wd = 0 then 6 else wd - 1)"
    using assms by simp
  consider "wd = d" | "wd = d + 1" | "d + 2 \<le> wd" | "wd = 0 \<and> d = 6"
    | "wd \<le> d - 1" "\<not> (wd = 0 \<and> d = 6)"
    by linarith
  then show ?thesis unfolding x_def[symmetric] x dur prev
  proof cases
    case 1
    then show "(if 0 \<le> x then x else x + 10080) < stop - start + 1440 \<longleftrightarrow>
        (wd = d \<and> start \<le> minute) \<or> ((if wd = 0 then 6 else wd - 1) = d \<and> minute < stop)"
      using assms by (cases "start \<le> minute") (simp_all add: x_def)
  next
    case 2
    then have "0 \<le> x" using assms by (simp add: x_def)
    then show "(if 0 \<le> x then x else x + 10080) < stop - start + 1440 \<longleftrightarrow>
        (wd = d \<and> start \<le> minute) \<or> ((if wd = 0 then 6 else wd - 1) = d \<and> minute < stop)"
      using 2 assms by (simp add: x_def)
  next
    case 3
    then have "0 \<le> x" using assms by (simp add: x_def)
    then show "(if 0 \<le> x then x else x + 10080) < stop - start + 1440 \<longleftrightarrow>
        (wd = d \<and> start \<le> minute) \<or> ((if wd = 0 then 6 else wd - 1) = d \<and> minute < stop)"
      using 3 assms by (simp add: x_def)
  next
    case 4
    then show "(if 0 \<le> x then x else x + 10080) < stop - start + 1440 \<longleftrightarrow>
        (wd = d \<and> start \<le> minute) \<or> ((if wd = 0 then 6 else wd - 1) = d \<and> minute < stop)"
      using assms by (simp add: x_def)
  next
    case 5
    then have "x < 0" "d - wd \<le> 5" using assms by (auto simp: x_def)
    then show "(if 0 \<le> x then x else x + 10080) < stop - start + 1440 \<longleftrightarrow>
        (wd = d \<and> start \<le> minute) \<or> ((if wd = 0 then 6 else wd - 1) = d \<and> minute < stop)"
      using 5 assms by (simp add: x_def)
  qed
qed

lemma scheduleActive_window:
  assumes "location_ok env" "env_location env (s_Timezone s) = Some loc"
    and "parseWeekdays (s_Weekdays s) = Inr days" "s_Enabled s" "0 < at"
    and "0 \<le> s_StartMinute s" "s_StartMinute s < 1440" "0 \<le> s_EndMinute s" "s_EndMinute s < 1440"
    and "s_StartMinute s \<noteq> s_EndMinute s"
  shows "scheduleActiveAt env s at \<longleftrightarrow>
     in_weekly_window days (s_StartMinute s) (s_EndMinute s) (int (c_Weekday (loc at)))
       (int (c_Hour (loc at)) * 60 + int (c_Minute (loc at)))"
proof -
  define wd minute where "wd = int (c_Weekday (loc at))"
    and "minute = int (c_Hour (loc at)) * 60 + int (c_Minute (loc at))"
  from assms(1,2) have "c_Weekday (loc at) < 7" "c_Hour (loc at) < 24" "c_Minute (loc at) < 60"
    by (auto simp: location_ok_def)
  then have clock: "0 \<le> wd" "wd \<le> 6" "0 \<le> minute" "minute < 1440"
    by (auto simp: wd_def minute_def)
  have previous: "int ((c_Weekday (loc at) + 6) mod 7) = (wd + 6) mod 7"
    by (simp add: wd_def zmod_int)
  have days: "0 \<le> d \<and> d \<le> 6" if "d \<in> set days" for d
    using parseWeekdays_range(3)[OF assms(3)] that by blast
  show ?thesis
  proof (cases "s_StartMinute s < s_EndMinute s")
    case True
    have "in_weekly_window days (s_StartMinute s) (s_EndMinute s) wd minute \<longleftrightarrow>
        wd \<in> set days \<and> s_StartMinute s \<le> minute \<and> minute < s_EndMinute s"
      unfolding in_weekly_window_def using assms(6,9) True clock days day_window_same_day by blast
    with True assms(2,3,4,5) show ?thesis
      by (simp add: scheduleActiveAt_def Let_def wd_def minute_def)
  next
    case False
    then have lt: "s_EndMinute s < s_StartMinute s" using assms(10) by simp
    have "in_weekly_window days (s_StartMinute s) (s_EndMinute s) wd minute \<longleftrightarrow>
        (wd \<in> set days \<and> s_StartMinute s \<le> minute) \<or> ((wd + 6) mod 7 \<in> set days \<and> minute < s_EndMinute s)"
      unfolding in_weekly_window_def using assms(7,8) lt clock days day_window_overnight by blast
    with False lt assms(2,3,4,5) show ?thesis
      by (auto simp: scheduleActiveAt_def Let_def wd_def minute_def previous[unfolded wd_def])
  qed
qed

section \<open>The next activation\<close>

text \<open>A positive result of the scan is a candidate it passed, and the first that activates.\<close>

lemma next_active_scan_first:
  assumes "next_active_scan env s k c = r" "r \<noteq> 0" "is_int64 (c - 60000)" "is_int64 (c + 60000 * int k)"
  shows "\<exists>i < k. r = c + 60000 * int i \<and> scheduleActiveAt env s r \<and> \<not> scheduleActiveAt env s (r - 60000)
     \<and> (\<forall>j < i. scheduleActiveAt env s (c + 60000 * int j) \<longrightarrow>
                scheduleActiveAt env s (c + 60000 * int j - 60000))"
  using assms
proof (induction env s k c arbitrary: r rule: next_active_scan.induct)
  case (1 env s k c)
  have in64: "wrap64 c = c" "wrap64 (c - 60000) = c - 60000" if "k \<noteq> 0"
    using "1.prems" that by (auto intro!: wrap64_id simp: is_int64_def)
  show ?case
  proof (cases "k = 0")
    case True
    then show ?thesis using "1.prems" by (simp add: next_active_scan.simps)
  next
    case False
    show ?thesis
    proof (cases "scheduleActiveAt env s c \<and> \<not> scheduleActiveAt env s (c - 60000)")
      case True
      then have "r = c" using "1.prems"(1) False in64 by (simp add: next_active_scan.simps)
      then show ?thesis using True False by (intro exI[of _ 0]) auto
    next
      case skip: False
      have rest: "next_active_scan env s (k - 1) (c + 60000) = r"
        using "1.prems"(1) skip False in64 by (subst (asm) next_active_scan.simps) auto
      have "\<exists>i < k - 1. r = c + 60000 + 60000 * int i \<and> scheduleActiveAt env s r
          \<and> \<not> scheduleActiveAt env s (r - 60000)
          \<and> (\<forall>j < i. scheduleActiveAt env s (c + 60000 + 60000 * int j) \<longrightarrow>
                     scheduleActiveAt env s (c + 60000 + 60000 * int j - 60000))"
        using "1.IH"[OF False _ rest] skip in64[OF False] "1.prems"(2,3,4) False
        by (auto simp: is_int64_def of_nat_diff)
      then obtain i where i: "i < k - 1" "r = c + 60000 * int (Suc i)" "scheduleActiveAt env s r"
          "\<not> scheduleActiveAt env s (r - 60000)"
          "\<forall>j < i. scheduleActiveAt env s (c + 60000 * int (Suc j)) \<longrightarrow>
                   scheduleActiveAt env s (c + 60000 * int (Suc j) - 60000)"
        by (auto simp: algebra_simps)
      have "scheduleActiveAt env s (c + 60000 * int j) \<longrightarrow> scheduleActiveAt env s (c + 60000 * int j - 60000)"
        if "j < Suc i" for j
        using that skip i(5) by (cases j) auto
      then show ?thesis using i by (intro exI[of _ "Suc i"]) auto
    qed
  qed
qed

lemma next_active_scan_none:
  assumes "next_active_scan env s k c = 0" "0 < c" "is_int64 (c + 60000 * int k)" "j < k"
  shows "\<not> (scheduleActiveAt env s (c + 60000 * int j) \<and> \<not> scheduleActiveAt env s (c + 60000 * int j - 60000))"
  using assms
proof (induction env s k c arbitrary: j rule: next_active_scan.induct)
  case (1 env s k c)
  have in64: "wrap64 c = c" "wrap64 (c - 60000) = c - 60000"
    using "1.prems" by (auto intro!: wrap64_id simp: is_int64_def)
  have skip: "\<not> (scheduleActiveAt env s c \<and> \<not> scheduleActiveAt env s (c - 60000))"
    and rest: "next_active_scan env s (k - 1) (c + 60000) = 0"
    using "1.prems" in64 by (subst (asm) next_active_scan.simps; auto split: if_splits)+
  show ?case
  proof (cases j)
    case 0
    then show ?thesis using skip by simp
  next
    case (Suc i)
    have "k \<noteq> 0" "i < k - 1" "int (k - 1) = int k - 1" using "1.prems"(4) Suc by auto
    then have "\<not> (scheduleActiveAt env s (c + 60000 + 60000 * int i)
        \<and> \<not> scheduleActiveAt env s (c + 60000 + 60000 * int i - 60000))"
      using "1.IH"[OF _ _ rest, of i] skip in64 "1.prems"(2,3) by (simp add: algebra_simps)
    then show ?thesis using Suc by (simp add: algebra_simps)
  qed
qed

section \<open>Properties\<close>

text \<open>C29: For a schedule that validation accepts, the activation test with its case split over
  midnight is membership in the weekly window in minutes of the week: active exactly when, for
  some selected day, less time than the window's length has passed since that day's start minute.\<close>

theorem schedule_active_iff_in_window:
  assumes "location_ok env" "validateSchedule env (Some s) = Inr s'" "s_Enabled s" "0 < at"
    and "parseWeekdays (s_Weekdays s) = Inr days" "env_location env (s_Timezone s) = Some loc"
  shows "scheduleActiveAt env s' at \<longleftrightarrow>
     in_weekly_window days (s_StartMinute s) (s_EndMinute s) (int (c_Weekday (loc at)))
       (int (c_Hour (loc at)) * 60 + int (c_Minute (loc at)))"
proof -
  note v = validateSchedule_ok[OF assms(2)]
  have s': "s' = s\<lparr>s_Weekdays := formatWeekdays days\<rparr>" and ne: "days \<noteq> []"
    using v(1) assms(5) by auto
  have "parseWeekdays (s_Weekdays s') = Inr days"
    using parse_format_days[of days] parseWeekdays_range[OF assms(5)] ne by (simp add: s')
  then show ?thesis
    using scheduleActive_window[OF assms(1), of s' loc days at] assms(3,4,6) v by (simp add: s')
qed

text \<open>A night window from Monday 22:00 to 06:00, read at Tuesday 01:00.\<close>

definition night_env :: policy_env where
  "night_env = \<lparr>env_unmarshal = (\<lambda>s. None), env_definition = (\<lambda>s. None), env_patch = (\<lambda>s. None),
     env_dns_patch = (\<lambda>s. None), env_release = (\<lambda>s. None), env_remarshal = (\<lambda>s. None),
     env_location = (\<lambda>tz. Some (\<lambda>t. \<lparr>c_Weekday = nat (t div 86400000 mod 7),
        c_Hour = nat (t div 3600000 mod 24), c_Minute = nat (t div 60000 mod 60)\<rparr>)),
     env_lower = (\<lambda>s. s)\<rparr>"

definition night :: schedule_row where
  "night = \<lparr>s_ID = 1, s_PolicyID = 1, s_Timezone = ''UTC'', s_Weekdays = '' 1,1'', s_StartMinute = 1320,
     s_EndMinute = 360, s_Enabled = True, s_CreatedAt = 0, s_UpdatedAt = 0\<rparr>"

lemma night_location: "location_ok night_env"
  by (auto simp: location_ok_def night_env_def nat_less_iff)

lemma night_valid: "validateSchedule night_env (Some night) = Inr (night\<lparr>s_Weekdays := ''1''\<rparr>)"
  "parseWeekdays (s_Weekdays night) = Inr [1]"
  by code_simp+

theorem schedule_active_iff_in_window_witness:
  "scheduleActiveAt night_env (night\<lparr>s_Weekdays := ''1''\<rparr>) (2 * 86400000 + 3600000)
   \<and> in_weekly_window [1] 1320 360 2 60"
proof -
  have loc: "env_location night_env (s_Timezone night) = Some (\<lambda>t. \<lparr>c_Weekday = nat (t div 86400000 mod 7),
      c_Hour = nat (t div 3600000 mod 24), c_Minute = nat (t div 60000 mod 60)\<rparr>)"
    by (simp add: night_env_def)
  have "in_weekly_window [1] 1320 360 2 60" by (simp add: in_weekly_window_def)
  then show ?thesis
    using schedule_active_iff_in_window[OF night_location night_valid(1) _ _ night_valid(2) loc,
        of "2 * 86400000 + 3600000"]
    by (simp add: night_def)
qed

text \<open>Validation normalises: a schedule it returns is accepted again unchanged, its weekday list
  parses back to the same days, and those are the distinct days of the input in ascending order.\<close>

lemma validateSchedule_idempotent:
  assumes "validateSchedule env (Some s) = Inr s'"
  shows "validateSchedule env (Some s') = Inr s'
    \<and> parseWeekdays (s_Weekdays s') = parseWeekdays (s_Weekdays s)
    \<and> (\<exists>days. parseWeekdays (s_Weekdays s') = Inr days \<and> sorted days \<and> distinct days \<and> days \<noteq> []
          \<and> set days \<subseteq> {0..6})"
proof -
  from validateSchedule_ok(1)[OF assms] obtain days where days: "parseWeekdays (s_Weekdays s) = Inr days"
    "days \<noteq> []" "s' = s\<lparr>s_Weekdays := formatWeekdays days\<rparr>" by blast
  note range = parseWeekdays_range[OF days(1)]
  have again: "parseWeekdays (s_Weekdays s') = Inr days"
    using parse_format_days[of days] range days(2) by (simp add: days(3))
  moreover have "set days \<subseteq> {0..6}" using range(3) by auto
  moreover have "validateSchedule env (Some s') = Inr s'"
    using assms again days by (auto simp: validateSchedule_def split: if_splits)
  ultimately show ?thesis using range(1,2) days(1,2) by simp
qed

text \<open>C30: The search for the next activation is correct and complete over its horizon of eight days of
  minutes: a nonzero result is a later minute at which the schedule becomes active and the first such
  minute; a zero result means that no minute of the horizon is an activation.\<close>

theorem scheduleNextActive_first:
  assumes "s_Enabled s" "0 < at" "at \<le> 9223372036000000000" "env_location env (s_Timezone s) \<noteq> None"
  defines "activates \<equiv> (\<lambda>t. scheduleActiveAt env s t \<and> \<not> scheduleActiveAt env s (t - 60000))"
    and "minute \<equiv> (\<lambda>i :: nat. at - at mod 60000 + 60000 + 60000 * int i)"
    and "r \<equiv> scheduleNextActive env s at"
  shows "(r \<noteq> 0 \<longrightarrow> at < r \<and> activates r \<and> (\<exists>i < 8 * 24 * 60. r = minute i \<and> (\<forall>j < i. \<not> activates (minute j))))
       \<and> (r = 0 \<longrightarrow> (\<forall>j < 8 * 24 * 60. \<not> activates (minute j)))"
proof -
  define c where "c = at - at mod 60000 + 60000"
  have m: "0 \<le> at mod 60000" "at mod 60000 < 60000" "at mod 60000 \<le> at"
    using assms(2) by (simp_all add: zmod_le_nonneg_dividend)
  then have c: "at < c" "0 < c" "is_int64 (c - 60000)" "is_int64 (c + 60000 * int (8 * 24 * 60))"
    using assms(2,3) by (auto simp: c_def is_int64_def)
  have r: "next_active_scan env s (8 * 24 * 60) c = r"
    using assms(1,2,4) by (auto simp: r_def scheduleNextActive_def c_def)
  have "at < r \<and> activates r \<and> (\<exists>i < 8 * 24 * 60. r = minute i \<and> (\<forall>j < i. \<not> activates (minute j)))" if "r \<noteq> 0"
    using next_active_scan_first[OF r that c(3,4)] c(1) unfolding activates_def minute_def c_def[symmetric]
    by fastforce
  moreover have "\<not> activates (minute j)" if "r = 0" "j < 8 * 24 * 60" for j
    using next_active_scan_none[OF r[unfolded that(1)] c(2,4) that(2)] unfolding activates_def minute_def c_def .
  ultimately show ?thesis by blast
qed

theorem scheduleNextActive_first_witness:
  "scheduleActiveAt night_env night (scheduleNextActive night_env night (86400000 + 78900000))
   \<and> \<not> scheduleActiveAt night_env night (scheduleNextActive night_env night (86400000 + 78900000) - 60000)
   \<and> scheduleNextActive night_env night (86400000 + 78900000) = 86400000 + 79200000"
proof -
  have r: "scheduleNextActive night_env night (86400000 + 78900000) = 86400000 + 79200000" by code_simp
  have "s_Enabled night" "env_location night_env (s_Timezone night) \<noteq> None"
    by (simp_all add: night_def night_env_def)
  then show ?thesis using scheduleNextActive_first[of night "86400000 + 78900000" night_env] r by auto
qed

end
