(* ===== verification/Client_Tables.thy ===== *)
theory Client_Tables
  imports Store
begin

text \<open>
  The rows the fork modules share with the panel: \<open>clients\<close> and \<open>client_groups\<close>
  (\<open>src/internal/database/model/model.go\<close>), and \<open>client_traffics\<close>
  (\<open>src/internal/xray/client_traffic.go\<close>), the authoritative traffic counters, with its persisted
  columns (the fields tagged \<open>gorm:"-"\<close> are not stored).
\<close>

record client_row =
  cl_Id :: nat
  cl_Email :: string
  cl_SubID :: string
  cl_UUID :: string
  cl_Password :: string
  cl_Auth :: string
  cl_Flow :: string
  cl_Security :: string
  cl_Reverse :: string
  cl_PrivateKey :: string
  cl_PublicKey :: string
  cl_AllowedIPs :: string
  cl_PreSharedKey :: string
  cl_KeepAlive :: int
  cl_ForwardedPorts :: string
  cl_Secret :: string
  cl_AdTag :: string
  cl_LimitIP :: int
  cl_LimitHwid :: int
  cl_TotalGB :: int
  cl_ExpiryTime :: int
  cl_Enable :: bool
  cl_TgID :: int
  cl_Group :: string
  cl_Comment :: string
  cl_Reset :: int
  cl_ResetDay :: int
  cl_ResetWeekday :: int
  cl_ResetMax :: int
  cl_TrafficReset :: string
  cl_TrafficResetDay :: int
  cl_CreatedAt :: int
  cl_UpdatedAt :: int
  cl_SyncOrphanedAt :: int

record group_row =
  gr_Id :: nat
  gr_Name :: string
  gr_ResetUp :: int
  gr_ResetDown :: int
  gr_CreatedAt :: int
  gr_UpdatedAt :: int

record traffic_row =
  ct_Id :: nat
  ct_InboundId :: int
  ct_Enable :: bool
  ct_Email :: string
  ct_Up :: int
  ct_Down :: int
  ct_ExpiryTime :: int
  ct_Total :: int
  ct_Reset :: int
  ct_ResetDay :: int
  ct_ResetWeekday :: int
  ct_ResetMax :: int
  ct_ResetCount :: int
  ct_LastOnline :: int
  ct_LastSubFetch :: int

text \<open>The zero values of the structs, from which concrete rows are made.\<close>

definition zero_client :: client_row where
  "zero_client = \<lparr>cl_Id = 0, cl_Email = [], cl_SubID = [], cl_UUID = [], cl_Password = [], cl_Auth = [],
     cl_Flow = [], cl_Security = [], cl_Reverse = [], cl_PrivateKey = [], cl_PublicKey = [],
     cl_AllowedIPs = [], cl_PreSharedKey = [], cl_KeepAlive = 0, cl_ForwardedPorts = [],
     cl_Secret = [], cl_AdTag = [], cl_LimitIP = 0, cl_LimitHwid = 0, cl_TotalGB = 0,
     cl_ExpiryTime = 0, cl_Enable = False, cl_TgID = 0, cl_Group = [], cl_Comment = [],
     cl_Reset = 0, cl_ResetDay = 0, cl_ResetWeekday = 0, cl_ResetMax = 0, cl_TrafficReset = [],
     cl_TrafficResetDay = 0, cl_CreatedAt = 0, cl_UpdatedAt = 0, cl_SyncOrphanedAt = 0\<rparr>"

definition zero_group :: group_row where
  "zero_group = \<lparr>gr_Id = 0, gr_Name = [], gr_ResetUp = 0, gr_ResetDown = 0, gr_CreatedAt = 0,
     gr_UpdatedAt = 0\<rparr>"

definition zero_traffic :: traffic_row where
  "zero_traffic = \<lparr>ct_Id = 0, ct_InboundId = 0, ct_Enable = False, ct_Email = [], ct_Up = 0, ct_Down = 0,
     ct_ExpiryTime = 0, ct_Total = 0, ct_Reset = 0, ct_ResetDay = 0, ct_ResetWeekday = 0, ct_ResetMax = 0,
     ct_ResetCount = 0, ct_LastOnline = 0, ct_LastSubFetch = 0\<rparr>"

definition clients_uniq :: "client_row list \<Rightarrow> bool" where
  "clients_uniq rows \<longleftrightarrow> distinct (map cl_Email rows)"

definition traffics_uniq :: "traffic_row list \<Rightarrow> bool" where
  "traffics_uniq rows \<longleftrightarrow> distinct (map ct_Email rows)"

interpretation clients: table cl_Id "\<lambda>n r. r\<lparr>cl_Id := n\<rparr>" clients_uniq
  by unfold_locales (auto simp: clients_uniq_def distinct_map_filter)

interpretation traffics: table ct_Id "\<lambda>n r. r\<lparr>ct_Id := n\<rparr>" traffics_uniq
  by unfold_locales (auto simp: traffics_uniq_def distinct_map_filter)

text \<open>With the unique index on the email, \<open>First\<close> by email finds the row of that email.\<close>

lemma first_by_unique:
  assumes "distinct (map f rows)" "r \<in> set rows"
  shows "q_first False (\<lambda>x. f x = f r) rows = Inr r"
proof -
  obtain x where x: "find (\<lambda>x. f x = f r) rows = Some x"
    using assms(2) by (cases "find (\<lambda>x. f x = f r) rows") (auto simp: find_None_iff)
  then have "x \<in> set rows" "f x = f r" by (auto simp: find_Some_iff)
  then have "x = r" using assms by (auto simp: distinct_map dest: inj_onD)
  with x show ?thesis by (simp add: q_first_def)
qed

end
