(* ===== verification/Policy_Repository.thy ===== *)
theory Policy_Repository
  imports Policy_Schedule Client_Tables
begin

text \<open>
  The policy repository, \<open>src/internal/policy/repository.go\<close> with the schedule operations of
  \<open>schedule.go\<close> and \<open>clientOrGroupExists\<close> of \<open>model.go\<close>. The state \<open>policy_db\<close> holds the five
  policy tables and the two client tables the repository reads; \<open>db_down\<close> says for which tables
  the database fails. Every operation takes the environment, the time \<open>now\<close> (Unix
  milliseconds) and, where it creates a row, the key \<open>nid\<close> the database assigns, and returns
  the new state or an error. A failed operation changes nothing: the two-step reads precede the
  write, and \<open>DeletePolicy\<close> is a transaction.
\<close>

record policy_db =
  db_policies :: "policy_row list"
  db_assignments :: "assignment_row list"
  db_overrides :: "override_row list"
  db_temporaries :: "temporary_row list"
  db_schedules :: "schedule_row list"
  db_clients :: "client_row list"
  db_groups :: "group_row list"
  db_down :: "string \<Rightarrow> bool"

definition policies_uniq :: "policy_row list \<Rightarrow> bool" where
  "policies_uniq rows \<longleftrightarrow> distinct (map p_Name rows)"

definition assignments_uniq :: "assignment_row list \<Rightarrow> bool" where
  "assignments_uniq rows \<longleftrightarrow> distinct (map (\<lambda>a. (a_PolicyID a, a_TargetType a, a_TargetRef a)) rows)"

definition overrides_uniq :: "override_row list \<Rightarrow> bool" where
  "overrides_uniq rows \<longleftrightarrow>
     distinct (map (\<lambda>r. (o_PolicyID r, o_TargetType r, o_TargetRef r, o_Scope r)) rows)"

definition temporaries_uniq :: "temporary_row list \<Rightarrow> bool" where
  "temporaries_uniq rows \<longleftrightarrow> True"

definition schedules_uniq :: "schedule_row list \<Rightarrow> bool" where
  "schedules_uniq rows \<longleftrightarrow> distinct (map s_PolicyID rows)"

interpretation policies: table p_ID "\<lambda>n r. r\<lparr>p_ID := n\<rparr>" policies_uniq
  by unfold_locales (auto simp: policies_uniq_def distinct_map_filter)

interpretation assignments: table a_ID "\<lambda>n r. r\<lparr>a_ID := n\<rparr>" assignments_uniq
  by unfold_locales (auto simp: assignments_uniq_def distinct_map_filter)

interpretation overrides: table o_ID "\<lambda>n r. r\<lparr>o_ID := n\<rparr>" overrides_uniq
  by unfold_locales (auto simp: overrides_uniq_def distinct_map_filter)

interpretation temporaries: table t_ID "\<lambda>n r. r\<lparr>t_ID := n\<rparr>" temporaries_uniq
  by unfold_locales (auto simp: temporaries_uniq_def)

interpretation schedules: table s_ID "\<lambda>n r. r\<lparr>s_ID := n\<rparr>" schedules_uniq
  by unfold_locales (auto simp: schedules_uniq_def distinct_map_filter)

section \<open>Existence checks\<close>

definition clientOrGroupExists :: "policy_db \<Rightarrow> string \<Rightarrow> string \<Rightarrow> unit res" where
  "clientOrGroupExists db targetType ref =
     (if targetType = TargetClient
      then (case q_first (db_down db ''clients'') (\<lambda>c. cl_Email c = ref) (db_clients db) of
              Inl e \<Rightarrow> (if e = ErrRecordNotFound then Inl (Err ''client target does not exist'') else Inl e)
            | Inr _ \<Rightarrow> Inr ())
      else (case q_first (db_down db ''client_groups'') (\<lambda>g. gr_Name g = ref) (db_groups db) of
              Inr _ \<Rightarrow> Inr ()
            | Inl _ \<Rightarrow>
               (case q_find (db_down db ''clients'') (\<lambda>c. cl_Group c = ref) (db_clients db) of
                  Inl e \<Rightarrow> Inl e
                | Inr rows \<Rightarrow> (if rows = [] then Inl (Err ''group target does not exist'') else Inr ()))))"

definition policyExists :: "policy_db \<Rightarrow> nat \<Rightarrow> unit res" where
  "policyExists db pid =
     (case q_first (db_down db ''fork_policies'') (\<lambda>p. p_ID p = pid) (db_policies db) of
        Inl e \<Rightarrow> (if e = ErrRecordNotFound then Inl (Err ''policy does not exist'') else Inl e)
      | Inr _ \<Rightarrow> Inr ())"

section \<open>Policies\<close>

text \<open>\<open>autoCreateTime\<close> and \<open>autoUpdateTime\<close> fill a zero time stamp when a row is created.\<close>

definition stamp :: "int \<Rightarrow> int \<Rightarrow> int" where
  "stamp now t = (if t = 0 then now else t)"

definition CreatePolicy :: "policy_env \<Rightarrow> int \<Rightarrow> nat \<Rightarrow> policy_row \<Rightarrow> policy_db \<Rightarrow> policy_db res" where
  "CreatePolicy env now nid p db =
     (case validatePolicy env p of
        Inl e \<Rightarrow> Inl e
      | Inr q \<Rightarrow>
         (case q_create (db_down db ''fork_policies'') p_ID (\<lambda>n r. r\<lparr>p_ID := n\<rparr>) policies_uniq nid
                 (q\<lparr>p_CreatedAt := stamp now (p_CreatedAt q), p_UpdatedAt := stamp now (p_UpdatedAt q)\<rparr>)
                 (db_policies db) of
            Inl e \<Rightarrow> Inl e | Inr rows \<Rightarrow> Inr (db\<lparr>db_policies := rows\<rparr>)))"

definition GetPolicy :: "policy_db \<Rightarrow> nat \<Rightarrow> policy_row res" where
  "GetPolicy db pid = q_first (db_down db ''fork_policies'') (\<lambda>p. p_ID p = pid) (db_policies db)"

text \<open>\<open>ORDER BY priority DESC, id ASC\<close>.\<close>

definition by_priority :: "('r \<Rightarrow> int) \<Rightarrow> ('r \<Rightarrow> nat) \<Rightarrow> 'r \<Rightarrow> 'r \<Rightarrow> bool" where
  "by_priority prio rid a b \<longleftrightarrow> prio a > prio b \<or> prio a = prio b \<and> rid a < rid b"

definition ListPolicies :: "policy_db \<Rightarrow> policy_row list res" where
  "ListPolicies db =
     (if db_down db ''fork_policies'' then Inl ErrDB
      else Inr (sort_stable (by_priority p_Priority p_ID) (db_policies db)))"

definition UpdatePolicy :: "policy_env \<Rightarrow> int \<Rightarrow> policy_row \<Rightarrow> policy_db \<Rightarrow> policy_db res" where
  "UpdatePolicy env now p db =
     (case validatePolicy env p of
        Inl e \<Rightarrow> Inl e
      | Inr q \<Rightarrow>
         (case q_update (db_down db ''fork_policies'') policies_uniq (\<lambda>r. p_ID r = p_ID q)
                 (\<lambda>r. r\<lparr>p_Name := p_Name q, p_Description := p_Description q, p_Spec := p_Spec q,
                        p_Priority := p_Priority q, p_Enabled := p_Enabled q, p_UpdatedAt := now\<rparr>)
                 (db_policies db) of
            Inl e \<Rightarrow> Inl e | Inr rows \<Rightarrow> Inr (db\<lparr>db_policies := rows\<rparr>)))"

definition DeletePolicy :: "nat \<Rightarrow> policy_db \<Rightarrow> policy_db res" where
  "DeletePolicy pid db =
     (case q_delete (db_down db ''fork_policy_assignments'') (\<lambda>a. a_PolicyID a = pid) (db_assignments db) of
        Inl e \<Rightarrow> Inl e
      | Inr as \<Rightarrow>
     (case q_delete (db_down db ''fork_policy_overrides'') (\<lambda>r. o_PolicyID r = pid) (db_overrides db) of
        Inl e \<Rightarrow> Inl e
      | Inr os \<Rightarrow>
     (case q_delete (db_down db ''fork_policy_temporary_overrides'') (\<lambda>t. t_PolicyID t = pid) (db_temporaries db) of
        Inl e \<Rightarrow> Inl e
      | Inr ts \<Rightarrow>
     (case q_delete (db_down db ''fork_policy_schedules'') (\<lambda>s. s_PolicyID s = pid) (db_schedules db) of
        Inl e \<Rightarrow> Inl e
      | Inr ss \<Rightarrow>
     (case q_delete (db_down db ''fork_policies'') (\<lambda>p. p_ID p = pid) (db_policies db) of
        Inl e \<Rightarrow> Inl e
      | Inr ps \<Rightarrow> Inr (db\<lparr>db_policies := ps, db_assignments := as, db_overrides := os,
                          db_temporaries := ts, db_schedules := ss\<rparr>))))))"

section \<open>Assignments\<close>

definition check_target :: "policy_db \<Rightarrow> nat \<Rightarrow> string \<Rightarrow> string \<Rightarrow> unit res" where
  "check_target db pid targetType targetRef =
     (case policyExists db pid of
        Inl e \<Rightarrow> Inl e | Inr _ \<Rightarrow> clientOrGroupExists db targetType targetRef)"

definition CreateAssignment :: "int \<Rightarrow> nat \<Rightarrow> assignment_row \<Rightarrow> policy_db \<Rightarrow> policy_db res" where
  "CreateAssignment now nid a db =
     (case validateAssignment a of
        Inl e \<Rightarrow> Inl e
      | Inr _ \<Rightarrow>
     (case check_target db (a_PolicyID a) (a_TargetType a) (a_TargetRef a) of
        Inl e \<Rightarrow> Inl e
      | Inr _ \<Rightarrow>
         (case q_create (db_down db ''fork_policy_assignments'') a_ID (\<lambda>n r. r\<lparr>a_ID := n\<rparr>) assignments_uniq nid
                 (a\<lparr>a_CreatedAt := stamp now (a_CreatedAt a), a_UpdatedAt := stamp now (a_UpdatedAt a)\<rparr>)
                 (db_assignments db) of
            Inl e \<Rightarrow> Inl e | Inr rows \<Rightarrow> Inr (db\<lparr>db_assignments := rows\<rparr>))))"

definition ListAssignments :: "policy_db \<Rightarrow> assignment_row list res" where
  "ListAssignments db =
     (if db_down db ''fork_policy_assignments'' then Inl ErrDB
      else Inr (sort_stable (by_priority a_Priority a_ID) (db_assignments db)))"

definition DeleteAssignment :: "nat \<Rightarrow> policy_db \<Rightarrow> policy_db res" where
  "DeleteAssignment aid db =
     (case q_delete (db_down db ''fork_policy_assignments'') (\<lambda>a. a_ID a = aid) (db_assignments db) of
        Inl e \<Rightarrow> Inl e | Inr rows \<Rightarrow> Inr (db\<lparr>db_assignments := rows\<rparr>))"

definition UpdateAssignment :: "int \<Rightarrow> assignment_row \<Rightarrow> policy_db \<Rightarrow> policy_db res" where
  "UpdateAssignment now a db =
     (case validateAssignment a of
        Inl e \<Rightarrow> Inl e
      | Inr _ \<Rightarrow>
     (case check_target db (a_PolicyID a) (a_TargetType a) (a_TargetRef a) of
        Inl e \<Rightarrow> Inl e
      | Inr _ \<Rightarrow>
         (case q_update (db_down db ''fork_policy_assignments'') assignments_uniq (\<lambda>r. a_ID r = a_ID a)
                 (\<lambda>r. r\<lparr>a_PolicyID := a_PolicyID a, a_TargetType := a_TargetType a, a_TargetRef := a_TargetRef a,
                        a_Priority := a_Priority a, a_Enabled := a_Enabled a, a_UpdatedAt := now\<rparr>)
                 (db_assignments db) of
            Inl e \<Rightarrow> Inl e | Inr rows \<Rightarrow> Inr (db\<lparr>db_assignments := rows\<rparr>))))"

section \<open>Overrides\<close>

definition CreateOverride :: "policy_env \<Rightarrow> int \<Rightarrow> nat \<Rightarrow> override_row \<Rightarrow> policy_db \<Rightarrow> policy_db res" where
  "CreateOverride env now nid ov db =
     (case validateOverride env ov of
        Inl e \<Rightarrow> Inl e
      | Inr _ \<Rightarrow>
     (case check_target db (o_PolicyID ov) (o_TargetType ov) (o_TargetRef ov) of
        Inl e \<Rightarrow> Inl e
      | Inr _ \<Rightarrow>
         (case q_create (db_down db ''fork_policy_overrides'') o_ID (\<lambda>n r. r\<lparr>o_ID := n\<rparr>) overrides_uniq nid
                 (ov\<lparr>o_CreatedAt := stamp now (o_CreatedAt ov), o_UpdatedAt := stamp now (o_UpdatedAt ov)\<rparr>)
                 (db_overrides db) of
            Inl e \<Rightarrow> Inl e | Inr rows \<Rightarrow> Inr (db\<lparr>db_overrides := rows\<rparr>))))"

definition ListOverrides :: "policy_db \<Rightarrow> override_row list res" where
  "ListOverrides db =
     (if db_down db ''fork_policy_overrides'' then Inl ErrDB
      else Inr (sort_stable (by_priority o_Priority o_ID) (db_overrides db)))"

definition DeleteOverride :: "nat \<Rightarrow> policy_db \<Rightarrow> policy_db res" where
  "DeleteOverride oid db =
     (case q_delete (db_down db ''fork_policy_overrides'') (\<lambda>r. o_ID r = oid) (db_overrides db) of
        Inl e \<Rightarrow> Inl e | Inr rows \<Rightarrow> Inr (db\<lparr>db_overrides := rows\<rparr>))"

definition UpdateOverride :: "policy_env \<Rightarrow> int \<Rightarrow> override_row \<Rightarrow> policy_db \<Rightarrow> policy_db res" where
  "UpdateOverride env now ov db =
     (case validateOverride env ov of
        Inl e \<Rightarrow> Inl e
      | Inr _ \<Rightarrow>
     (case check_target db (o_PolicyID ov) (o_TargetType ov) (o_TargetRef ov) of
        Inl e \<Rightarrow> Inl e
      | Inr _ \<Rightarrow>
         (case q_update (db_down db ''fork_policy_overrides'') overrides_uniq (\<lambda>r. o_ID r = o_ID ov)
                 (\<lambda>r. r\<lparr>o_PolicyID := o_PolicyID ov, o_TargetType := o_TargetType ov, o_TargetRef := o_TargetRef ov,
                        o_Scope := o_Scope ov, o_Value := o_Value ov, o_Priority := o_Priority ov,
                        o_Enabled := o_Enabled ov, o_UpdatedAt := now\<rparr>)
                 (db_overrides db) of
            Inl e \<Rightarrow> Inl e | Inr rows \<Rightarrow> Inr (db\<lparr>db_overrides := rows\<rparr>))))"

section \<open>Temporary overrides\<close>

definition CreateTemporaryOverride ::
  "policy_env \<Rightarrow> int \<Rightarrow> nat \<Rightarrow> temporary_row \<Rightarrow> policy_db \<Rightarrow> policy_db res" where
  "CreateTemporaryOverride env now nid ov db =
     (case validateTemporary env ov of
        Inl e \<Rightarrow> Inl e
      | Inr _ \<Rightarrow>
     (case check_target db (t_PolicyID ov) (t_TargetType ov) (t_TargetRef ov) of
        Inl e \<Rightarrow> Inl e
      | Inr _ \<Rightarrow>
         (case q_create (db_down db ''fork_policy_temporary_overrides'') t_ID (\<lambda>n r. r\<lparr>t_ID := n\<rparr>) temporaries_uniq nid
                 (ov\<lparr>t_CreatedAt := stamp now (t_CreatedAt ov), t_UpdatedAt := stamp now (t_UpdatedAt ov)\<rparr>)
                 (db_temporaries db) of
            Inl e \<Rightarrow> Inl e | Inr rows \<Rightarrow> Inr (db\<lparr>db_temporaries := rows\<rparr>))))"

definition ListTemporaryOverrides :: "policy_db \<Rightarrow> int \<Rightarrow> temporary_row list res" where
  "ListTemporaryOverrides db now =
     (case q_find (db_down db ''fork_policy_temporary_overrides'') (\<lambda>t. t_ExpiresAt t > now) (db_temporaries db) of
        Inl e \<Rightarrow> Inl e | Inr rows \<Rightarrow> Inr (sort_stable (by_priority t_Priority t_ID) rows))"

definition DeleteTemporaryOverride :: "nat \<Rightarrow> policy_db \<Rightarrow> policy_db res" where
  "DeleteTemporaryOverride tid db =
     (case q_delete (db_down db ''fork_policy_temporary_overrides'') (\<lambda>t. t_ID t = tid) (db_temporaries db) of
        Inl e \<Rightarrow> Inl e | Inr rows \<Rightarrow> Inr (db\<lparr>db_temporaries := rows\<rparr>))"

definition UpdateTemporaryOverride :: "policy_env \<Rightarrow> int \<Rightarrow> temporary_row \<Rightarrow> policy_db \<Rightarrow> policy_db res" where
  "UpdateTemporaryOverride env now ov db =
     (case validateTemporary env ov of
        Inl e \<Rightarrow> Inl e
      | Inr _ \<Rightarrow>
     (case check_target db (t_PolicyID ov) (t_TargetType ov) (t_TargetRef ov) of
        Inl e \<Rightarrow> Inl e
      | Inr _ \<Rightarrow>
         (case q_update (db_down db ''fork_policy_temporary_overrides'') temporaries_uniq (\<lambda>r. t_ID r = t_ID ov)
                 (\<lambda>r. r\<lparr>t_PolicyID := t_PolicyID ov, t_TargetType := t_TargetType ov, t_TargetRef := t_TargetRef ov,
                        t_Scope := t_Scope ov, t_Value := t_Value ov, t_Priority := t_Priority ov,
                        t_StartsAt := t_StartsAt ov, t_ExpiresAt := t_ExpiresAt ov,
                        t_Enabled := t_Enabled ov, t_UpdatedAt := now\<rparr>)
                 (db_temporaries db) of
            Inl e \<Rightarrow> Inl e | Inr rows \<Rightarrow> Inr (db\<lparr>db_temporaries := rows\<rparr>))))"

section \<open>Schedules\<close>

definition ListSchedules :: "policy_db \<Rightarrow> schedule_row list res" where
  "ListSchedules db =
     (if db_down db ''fork_policy_schedules'' then Inl ErrDB
      else Inr (sort_stable (\<lambda>a b. s_PolicyID a < s_PolicyID b \<or> s_PolicyID a = s_PolicyID b \<and> s_ID a < s_ID b)
                  (db_schedules db)))"

definition GetSchedule :: "policy_db \<Rightarrow> nat \<Rightarrow> schedule_row res" where
  "GetSchedule db sid = q_first (db_down db ''fork_policy_schedules'') (\<lambda>s. s_ID s = sid) (db_schedules db)"

definition CreateSchedule ::
  "policy_env \<Rightarrow> int \<Rightarrow> nat \<Rightarrow> schedule_row option \<Rightarrow> policy_db \<Rightarrow> policy_db res" where
  "CreateSchedule env now nid so db =
     (case validateSchedule env so of
        Inl e \<Rightarrow> Inl e
      | Inr s \<Rightarrow>
     (case policyExists db (s_PolicyID s) of
        Inl e \<Rightarrow> Inl e
      | Inr _ \<Rightarrow>
         (case q_create (db_down db ''fork_policy_schedules'') s_ID (\<lambda>n r. r\<lparr>s_ID := n\<rparr>) schedules_uniq nid
                 (s\<lparr>s_CreatedAt := stamp now (s_CreatedAt s), s_UpdatedAt := stamp now (s_UpdatedAt s)\<rparr>)
                 (db_schedules db) of
            Inl e \<Rightarrow> Inl e | Inr rows \<Rightarrow> Inr (db\<lparr>db_schedules := rows\<rparr>))))"

definition UpdateSchedule :: "policy_env \<Rightarrow> int \<Rightarrow> schedule_row option \<Rightarrow> policy_db \<Rightarrow> policy_db res" where
  "UpdateSchedule env now so db =
     (case validateSchedule env so of
        Inl e \<Rightarrow> Inl e
      | Inr s \<Rightarrow>
     (case policyExists db (s_PolicyID s) of
        Inl e \<Rightarrow> Inl e
      | Inr _ \<Rightarrow>
         (case q_update (db_down db ''fork_policy_schedules'') schedules_uniq (\<lambda>r. s_ID r = s_ID s)
                 (\<lambda>r. r\<lparr>s_PolicyID := s_PolicyID s, s_Timezone := s_Timezone s, s_Weekdays := s_Weekdays s,
                        s_StartMinute := s_StartMinute s, s_EndMinute := s_EndMinute s,
                        s_Enabled := s_Enabled s, s_UpdatedAt := now\<rparr>)
                 (db_schedules db) of
            Inl e \<Rightarrow> Inl e | Inr rows \<Rightarrow> Inr (db\<lparr>db_schedules := rows\<rparr>))))"

definition DeleteSchedule :: "nat \<Rightarrow> policy_db \<Rightarrow> policy_db res" where
  "DeleteSchedule sid db =
     (case q_delete (db_down db ''fork_policy_schedules'') (\<lambda>s. s_ID s = sid) (db_schedules db) of
        Inl e \<Rightarrow> Inl e | Inr rows \<Rightarrow> Inr (db\<lparr>db_schedules := rows\<rparr>))"

section \<open>Resolution\<close>

record resolved_policy =
  rp_TargetClient :: string
  rp_TargetGroup :: string
  rp_At :: int
  rp_Items :: "candidate list"

definition policyScheduleActive :: "policy_env \<Rightarrow> policy_db \<Rightarrow> policy_row \<Rightarrow> int \<Rightarrow> bool res" where
  "policyScheduleActive env db p at =
     (if trim_space (p_Spec p) = [] then Inr True
      else case env_definition env (p_Spec p) of
             None \<Rightarrow> Inl (Err ''malformed spec'')
           | Some spec \<Rightarrow>
              (if trim_space (d_ScheduleRef spec) = [] then Inr True
               else case parse_uint32 (trim_space (d_ScheduleRef spec)) of
                      None \<Rightarrow> Inl (Err ''invalid schedule reference'')
                    | Some sid \<Rightarrow>
                       (if sid = 0 then Inl (Err ''invalid schedule reference'')
                        else case GetSchedule db sid of
                               Inl e \<Rightarrow> (if e = ErrRecordNotFound then Inr False else Inl e)
                             | Inr schedule \<Rightarrow>
                                (if s_PolicyID schedule \<noteq> p_ID p then Inr False
                                 else Inr (scheduleActiveAt env schedule at)))))"

definition target_matches :: "string \<Rightarrow> string \<Rightarrow> string \<Rightarrow> string \<Rightarrow> bool" where
  "target_matches email grp ttype ref \<longleftrightarrow>
     (ttype = TargetClient \<and> ref = email) \<or> (ttype = TargetGroup \<and> ref = grp)"

definition assignment_candidate :: "assignment_row \<Rightarrow> policy_row \<Rightarrow> candidate" where
  "assignment_candidate a p =
     \<lparr>k_Source = ''assignment'', k_PolicyID = p_ID p, k_TargetType = a_TargetType a,
      k_TargetRef = a_TargetRef a, k_Priority = add64 (a_Priority a) (p_Priority p),
      k_CreatedAt = a_CreatedAt a, k_ID = a_ID a, k_Active = True, k_Scope = [],
      k_StartsAt = 0, k_ExpiresAt = 0\<rparr>"

definition override_candidate :: "override_row \<Rightarrow> policy_row \<Rightarrow> candidate" where
  "override_candidate ov p =
     \<lparr>k_Source = ''override'', k_PolicyID = o_PolicyID ov, k_TargetType = o_TargetType ov,
      k_TargetRef = o_TargetRef ov, k_Priority = add64 (o_Priority ov) (p_Priority p),
      k_CreatedAt = o_CreatedAt ov, k_ID = o_ID ov, k_Active = True, k_Scope = o_Scope ov,
      k_StartsAt = 0, k_ExpiresAt = 0\<rparr>"

definition temporary_candidate :: "temporary_row \<Rightarrow> policy_row \<Rightarrow> candidate" where
  "temporary_candidate ov p =
     \<lparr>k_Source = ''temporary'', k_PolicyID = t_PolicyID ov, k_TargetType = t_TargetType ov,
      k_TargetRef = t_TargetRef ov, k_Priority = add64 (t_Priority ov) (p_Priority p),
      k_CreatedAt = t_CreatedAt ov, k_ID = t_ID ov, k_Active = True, k_Scope = t_Scope ov,
      k_StartsAt = t_StartsAt ov, k_ExpiresAt = t_ExpiresAt ov\<rparr>"

text \<open>The bodies of the three loops of \<open>Resolve\<close>; \<open>continue\<close> contributes no candidate.\<close>

definition resolve_scheduled ::
  "policy_env \<Rightarrow> policy_db \<Rightarrow> int \<Rightarrow> nat \<Rightarrow> (policy_row \<Rightarrow> candidate) \<Rightarrow> candidate list res" where
  "resolve_scheduled env db at pid mk =
     (case GetPolicy db pid of
        Inl e \<Rightarrow> Inl e
      | Inr p \<Rightarrow>
         (if \<not> p_Enabled p then Inr []
          else case policyScheduleActive env db p at of
                 Inl e \<Rightarrow> Inl e
               | Inr active \<Rightarrow> Inr (if active then [mk p] else [])))"

definition resolve_assignment :: "policy_env \<Rightarrow> policy_db \<Rightarrow> int \<Rightarrow> assignment_row \<Rightarrow> candidate list res" where
  "resolve_assignment env db at a = resolve_scheduled env db at (a_PolicyID a) (assignment_candidate a)"

definition resolve_override :: "policy_env \<Rightarrow> policy_db \<Rightarrow> int \<Rightarrow> override_row \<Rightarrow> candidate list res" where
  "resolve_override env db at ov = resolve_scheduled env db at (o_PolicyID ov) (override_candidate ov)"

definition resolve_temporary :: "policy_db \<Rightarrow> int \<Rightarrow> temporary_row \<Rightarrow> candidate list res" where
  "resolve_temporary db at ov =
     (if \<not> activeAt at (t_StartsAt ov) (t_ExpiresAt ov) then Inr []
      else case GetPolicy db (t_PolicyID ov) of
             Inl e \<Rightarrow> Inl e
           | Inr p \<Rightarrow> Inr (if p_Enabled p then [temporary_candidate ov p] else []))"

definition Resolve ::
  "policy_env \<Rightarrow> int \<Rightarrow> policy_db \<Rightarrow> string \<Rightarrow> string \<Rightarrow> int \<Rightarrow> resolved_policy res" where
  "Resolve env now db clientEmail groupName at0 =
     (let at = (if at0 \<le> 0 then now else at0) in
      bind_res (q_find (db_down db ''fork_policy_assignments'')
             (\<lambda>a. a_Enabled a \<and> target_matches clientEmail groupName (a_TargetType a) (a_TargetRef a))
             (db_assignments db)) (\<lambda>as.
      bind_res (collect (resolve_assignment env db at) as) (\<lambda>c1.
      bind_res (q_find (db_down db ''fork_policy_overrides'')
             (\<lambda>r. o_Enabled r \<and> target_matches clientEmail groupName (o_TargetType r) (o_TargetRef r))
             (db_overrides db)) (\<lambda>os.
      bind_res (collect (resolve_override env db at) os) (\<lambda>c2.
      bind_res (q_find (db_down db ''fork_policy_temporary_overrides'')
             (\<lambda>t. t_Enabled t \<and> t_StartsAt t \<le> at \<and> t_ExpiresAt t > at
                  \<and> target_matches clientEmail groupName (t_TargetType t) (t_TargetRef t))
             (db_temporaries db)) (\<lambda>ts.
      bind_res (collect (resolve_temporary db at) ts) (\<lambda>c3.
      Inr \<lparr>rp_TargetClient = clientEmail, rp_TargetGroup = groupName, rp_At = at,
           rp_Items = sortCandidates (c1 @ c2 @ c3)\<rparr>)))))))"

section \<open>The repository invariant\<close>

text \<open>
  Tables in order, every row of the four dependent tables names an existing policy, and the
  rows satisfy what their validation demands.
\<close>

definition tables_ok :: "policy_db \<Rightarrow> bool" where
  "tables_ok db \<longleftrightarrow>
     table_ok p_ID policies_uniq (db_policies db) \<and> table_ok a_ID assignments_uniq (db_assignments db)
     \<and> table_ok o_ID overrides_uniq (db_overrides db) \<and> table_ok t_ID temporaries_uniq (db_temporaries db)
     \<and> table_ok s_ID schedules_uniq (db_schedules db)"

definition references_ok :: "policy_db \<Rightarrow> bool" where
  "references_ok db \<longleftrightarrow>
     (\<forall>r \<in> set (db_assignments db). a_PolicyID r \<in> p_ID ` set (db_policies db))
     \<and> (\<forall>r \<in> set (db_overrides db). o_PolicyID r \<in> p_ID ` set (db_policies db))
     \<and> (\<forall>r \<in> set (db_temporaries db). t_PolicyID r \<in> p_ID ` set (db_policies db))
     \<and> (\<forall>r \<in> set (db_schedules db). s_PolicyID r \<in> p_ID ` set (db_policies db))"

definition rows_ok :: "policy_db \<Rightarrow> bool" where
  "rows_ok db \<longleftrightarrow>
     (\<forall>p \<in> set (db_policies db). \<bar>p_Priority p\<bar> \<le> 100000 \<and> p_Name p \<noteq> [])
     \<and> (\<forall>r \<in> set (db_overrides db). o_Scope r \<noteq> ScopeQuarantineRelease \<and> \<bar>o_Priority r\<bar> \<le> 100000)
     \<and> (\<forall>t \<in> set (db_temporaries db). 0 < t_StartsAt t \<and> t_StartsAt t < t_ExpiresAt t \<and> \<bar>t_Priority t\<bar> \<le> 100000)"

definition policy_db_ok :: "policy_db \<Rightarrow> bool" where
  "policy_db_ok db \<longleftrightarrow> tables_ok db \<and> references_ok db \<and> rows_ok db"

lemmas policy_db_ok_defs = policy_db_ok_def tables_ok_def references_ok_def rows_ok_def

lemma policyExists_ok: "policyExists db pid = Inr () \<Longrightarrow> pid \<in> p_ID ` set (db_policies db)"
  by (auto simp: policyExists_def dest!: q_first_InrD split: sum.splits if_splits)

lemma check_target_ok: "check_target db pid t r = Inr () \<Longrightarrow> pid \<in> p_ID ` set (db_policies db)"
  by (auto simp: check_target_def dest!: policyExists_ok split: sum.splits)

lemma CreatePolicy_ok:
  assumes "policy_db_ok db" "CreatePolicy env now nid p db = Inr db'"
  shows "policy_db_ok db'"
proof -
  from assms(2) obtain q where q: "validatePolicy env p = Inr q"
    by (auto simp: CreatePolicy_def split: sum.splits)
  let ?r = "q\<lparr>p_CreatedAt := stamp now (p_CreatedAt q), p_UpdatedAt := stamp now (p_UpdatedAt q)\<rparr>"
  obtain rows where rows: "q_create (db_down db ''fork_policies'') p_ID (\<lambda>n r. r\<lparr>p_ID := n\<rparr>) policies_uniq nid ?r
        (db_policies db) = Inr rows"
    and db': "db' = db\<lparr>db_policies := rows\<rparr>"
    using assms(2) q by (auto simp: CreatePolicy_def split: sum.splits)
  show ?thesis
    using assms(1) policies.create_ok[OF _ rows] policies.create_Inr[OF rows] validatePolicy_ok[OF q]
    by (auto simp: policy_db_ok_defs db')
qed

lemma UpdatePolicy_ok:
  assumes "policy_db_ok db" "UpdatePolicy env now p db = Inr db'"
  shows "policy_db_ok db'"
proof -
  from assms(2) obtain q where q: "validatePolicy env p = Inr q"
    by (auto simp: UpdatePolicy_def split: sum.splits)
  define f where "f = (\<lambda>r :: policy_row. r\<lparr>p_Name := p_Name q, p_Description := p_Description q, p_Spec := p_Spec q,
      p_Priority := p_Priority q, p_Enabled := p_Enabled q, p_UpdatedAt := now\<rparr>)"
  have f: "p_Priority (f r) = p_Priority q" "p_Name (f r) = p_Name q" "p_ID (f r) = p_ID r" for r
    by (simp_all add: f_def)
  obtain rows where rows: "q_update (db_down db ''fork_policies'') policies_uniq (\<lambda>r. p_ID r = p_ID q) f
        (db_policies db) = Inr rows"
    and db': "db' = db\<lparr>db_policies := rows\<rparr>"
    using assms(2) q by (auto simp: UpdatePolicy_def f_def split: sum.splits)
  have "p_ID ` set rows = p_ID ` set (db_policies db)"
    using rows f(3) by (rule policies.update_keys)
  moreover have "\<forall>r \<in> set rows. \<bar>p_Priority r\<bar> \<le> 100000 \<and> p_Name r \<noteq> []"
    using rows f(1,2) validatePolicy_ok[OF q] assms(1) by (auto simp: q_update_Inr policy_db_ok_defs)
  ultimately show ?thesis
    using assms(1) policies.update_ok[OF _ rows f(3)] by (auto simp: policy_db_ok_defs db')
qed

lemma DeletePolicy_eq:
  assumes "DeletePolicy pid db = Inr db'"
  shows "db' = db\<lparr>db_policies := filter (\<lambda>p. p_ID p \<noteq> pid) (db_policies db),
      db_assignments := filter (\<lambda>a. a_PolicyID a \<noteq> pid) (db_assignments db),
      db_overrides := filter (\<lambda>r. o_PolicyID r \<noteq> pid) (db_overrides db),
      db_temporaries := filter (\<lambda>t. t_PolicyID t \<noteq> pid) (db_temporaries db),
      db_schedules := filter (\<lambda>s. s_PolicyID s \<noteq> pid) (db_schedules db)\<rparr>"
  using assms by (auto simp: DeletePolicy_def table_simps split: sum.splits)

lemma table_ok_filter:
  "table_ok rid uniq rows \<Longrightarrow> (\<And>P. uniq rows \<Longrightarrow> uniq (filter P rows)) \<Longrightarrow> table_ok rid uniq (filter P rows)"
  by (simp add: table_ok_def sorted_filter distinct_map_filter)

lemma DeletePolicy_ok:
  assumes "policy_db_ok db" "DeletePolicy pid db = Inr db'"
  shows "policy_db_ok db'"
proof -
  note db' = DeletePolicy_eq[OF assms(2)]
  have "tables_ok db'"
    using assms(1) unfolding db'
    by (auto simp: policy_db_ok_defs intro!: table_ok_filter policies.uniq_filter assignments.uniq_filter
        overrides.uniq_filter temporaries.uniq_filter schedules.uniq_filter)
  moreover have "references_ok db'" "rows_ok db'"
    using assms(1) unfolding db' by (auto simp: policy_db_ok_defs image_iff)
  ultimately show ?thesis by (simp add: policy_db_ok_def)
qed

lemma CreateAssignment_ok:
  assumes "policy_db_ok db" "CreateAssignment now nid a db = Inr db'"
  shows "policy_db_ok db'"
proof -
  let ?r = "a\<lparr>a_CreatedAt := stamp now (a_CreatedAt a), a_UpdatedAt := stamp now (a_UpdatedAt a)\<rparr>"
  from assms(2) obtain rows where ex: "check_target db (a_PolicyID a) (a_TargetType a) (a_TargetRef a) = Inr ()"
    and rows: "q_create (db_down db ''fork_policy_assignments'') a_ID (\<lambda>n r. r\<lparr>a_ID := n\<rparr>) assignments_uniq nid ?r
        (db_assignments db) = Inr rows"
    and db': "db' = db\<lparr>db_assignments := rows\<rparr>"
    by (auto simp: CreateAssignment_def split: sum.splits)
  show ?thesis
    using assms(1) check_target_ok[OF ex] assignments.create_ok[OF _ rows] assignments.create_Inr[OF rows]
    by (auto simp: policy_db_ok_defs db')
qed

lemma UpdateAssignment_ok:
  assumes "policy_db_ok db" "UpdateAssignment now a db = Inr db'"
  shows "policy_db_ok db'"
proof -
  define f where "f = (\<lambda>r :: assignment_row. r\<lparr>a_PolicyID := a_PolicyID a, a_TargetType := a_TargetType a,
      a_TargetRef := a_TargetRef a, a_Priority := a_Priority a, a_Enabled := a_Enabled a, a_UpdatedAt := now\<rparr>)"
  have f: "a_PolicyID (f r) = a_PolicyID a" "a_ID (f r) = a_ID r" for r
    by (simp_all add: f_def)
  from assms(2) obtain rows where ex: "check_target db (a_PolicyID a) (a_TargetType a) (a_TargetRef a) = Inr ()"
    and rows: "q_update (db_down db ''fork_policy_assignments'') assignments_uniq (\<lambda>r. a_ID r = a_ID a) f
        (db_assignments db) = Inr rows"
    and db': "db' = db\<lparr>db_assignments := rows\<rparr>"
    by (auto simp: UpdateAssignment_def f_def split: sum.splits)
  have "\<forall>r \<in> set rows. r \<in> set (db_assignments db) \<or> a_PolicyID r = a_PolicyID a"
    using rows f(1) by (auto simp: q_update_Inr)
  then show ?thesis
    using assms(1) check_target_ok[OF ex] assignments.update_ok[OF _ rows f(2)]
    by (auto simp: policy_db_ok_defs db')
qed

lemma CreateOverride_ok:
  assumes "policy_db_ok db" "CreateOverride env now nid ov db = Inr db'"
  shows "policy_db_ok db'"
proof -
  let ?r = "ov\<lparr>o_CreatedAt := stamp now (o_CreatedAt ov), o_UpdatedAt := stamp now (o_UpdatedAt ov)\<rparr>"
  from assms(2) obtain rows where v: "validateOverride env ov = Inr ()"
    and ex: "check_target db (o_PolicyID ov) (o_TargetType ov) (o_TargetRef ov) = Inr ()"
    and rows: "q_create (db_down db ''fork_policy_overrides'') o_ID (\<lambda>n r. r\<lparr>o_ID := n\<rparr>) overrides_uniq nid ?r
        (db_overrides db) = Inr rows"
    and db': "db' = db\<lparr>db_overrides := rows\<rparr>"
    by (auto simp: CreateOverride_def split: sum.splits)
  show ?thesis
    using assms(1) validateOverride_ok[OF v] check_target_ok[OF ex] overrides.create_ok[OF _ rows]
      overrides.create_Inr[OF rows]
    by (auto simp: policy_db_ok_defs db')
qed

lemma UpdateOverride_ok:
  assumes "policy_db_ok db" "UpdateOverride env now ov db = Inr db'"
  shows "policy_db_ok db'"
proof -
  define f where "f = (\<lambda>r :: override_row. r\<lparr>o_PolicyID := o_PolicyID ov, o_TargetType := o_TargetType ov,
      o_TargetRef := o_TargetRef ov, o_Scope := o_Scope ov, o_Value := o_Value ov,
      o_Priority := o_Priority ov, o_Enabled := o_Enabled ov, o_UpdatedAt := now\<rparr>)"
  have f: "o_PolicyID (f r) = o_PolicyID ov" "o_Scope (f r) = o_Scope ov"
      "o_Priority (f r) = o_Priority ov" "o_ID (f r) = o_ID r" for r
    by (simp_all add: f_def)
  from assms(2) obtain rows where v: "validateOverride env ov = Inr ()"
    and ex: "check_target db (o_PolicyID ov) (o_TargetType ov) (o_TargetRef ov) = Inr ()"
    and rows: "q_update (db_down db ''fork_policy_overrides'') overrides_uniq (\<lambda>r. o_ID r = o_ID ov) f
        (db_overrides db) = Inr rows"
    and db': "db' = db\<lparr>db_overrides := rows\<rparr>"
    by (auto simp: UpdateOverride_def f_def split: sum.splits)
  have "\<forall>r \<in> set rows. r \<in> set (db_overrides db) \<or>
      (o_PolicyID r = o_PolicyID ov \<and> o_Scope r = o_Scope ov \<and> o_Priority r = o_Priority ov)"
    using rows f by (auto simp: q_update_Inr)
  then show ?thesis
    using assms(1) validateOverride_ok[OF v] check_target_ok[OF ex] overrides.update_ok[OF _ rows f(4)]
    by (auto simp: policy_db_ok_defs db')
qed

lemma CreateTemporaryOverride_ok:
  assumes "policy_db_ok db" "CreateTemporaryOverride env now nid ov db = Inr db'"
  shows "policy_db_ok db'"
proof -
  let ?r = "ov\<lparr>t_CreatedAt := stamp now (t_CreatedAt ov), t_UpdatedAt := stamp now (t_UpdatedAt ov)\<rparr>"
  from assms(2) obtain rows where v: "validateTemporary env ov = Inr ()"
    and ex: "check_target db (t_PolicyID ov) (t_TargetType ov) (t_TargetRef ov) = Inr ()"
    and rows: "q_create (db_down db ''fork_policy_temporary_overrides'') t_ID (\<lambda>n r. r\<lparr>t_ID := n\<rparr>)
        temporaries_uniq nid ?r (db_temporaries db) = Inr rows"
    and db': "db' = db\<lparr>db_temporaries := rows\<rparr>"
    by (auto simp: CreateTemporaryOverride_def split: sum.splits)
  show ?thesis
    using assms(1) validateTemporary_ok[OF v] check_target_ok[OF ex] temporaries.create_ok[OF _ rows]
      temporaries.create_Inr[OF rows]
    by (auto simp: policy_db_ok_defs db')
qed

lemma UpdateTemporaryOverride_ok:
  assumes "policy_db_ok db" "UpdateTemporaryOverride env now ov db = Inr db'"
  shows "policy_db_ok db'"
proof -
  define f where "f = (\<lambda>r :: temporary_row. r\<lparr>t_PolicyID := t_PolicyID ov, t_TargetType := t_TargetType ov,
      t_TargetRef := t_TargetRef ov, t_Scope := t_Scope ov, t_Value := t_Value ov, t_Priority := t_Priority ov,
      t_StartsAt := t_StartsAt ov, t_ExpiresAt := t_ExpiresAt ov, t_Enabled := t_Enabled ov, t_UpdatedAt := now\<rparr>)"
  have f: "t_PolicyID (f r) = t_PolicyID ov" "t_StartsAt (f r) = t_StartsAt ov"
      "t_ExpiresAt (f r) = t_ExpiresAt ov" "t_Priority (f r) = t_Priority ov" "t_ID (f r) = t_ID r" for r
    by (simp_all add: f_def)
  from assms(2) obtain rows where v: "validateTemporary env ov = Inr ()"
    and ex: "check_target db (t_PolicyID ov) (t_TargetType ov) (t_TargetRef ov) = Inr ()"
    and rows: "q_update (db_down db ''fork_policy_temporary_overrides'') temporaries_uniq (\<lambda>r. t_ID r = t_ID ov) f
        (db_temporaries db) = Inr rows"
    and db': "db' = db\<lparr>db_temporaries := rows\<rparr>"
    by (auto simp: UpdateTemporaryOverride_def f_def split: sum.splits)
  have "\<forall>r \<in> set rows. r \<in> set (db_temporaries db) \<or>
      (t_PolicyID r = t_PolicyID ov \<and> t_StartsAt r = t_StartsAt ov \<and> t_ExpiresAt r = t_ExpiresAt ov
       \<and> t_Priority r = t_Priority ov)"
    using rows f by (auto simp: q_update_Inr)
  then show ?thesis
    using assms(1) validateTemporary_ok[OF v] check_target_ok[OF ex] temporaries.update_ok[OF _ rows f(5)]
    by (auto simp: policy_db_ok_defs db')
qed

lemma CreateSchedule_ok:
  assumes "policy_db_ok db" "CreateSchedule env now nid so db = Inr db'"
  shows "policy_db_ok db'"
proof -
  from assms(2) obtain s where s: "validateSchedule env so = Inr s" and ex: "policyExists db (s_PolicyID s) = Inr ()"
    by (auto simp: CreateSchedule_def split: sum.splits)
  let ?r = "s\<lparr>s_CreatedAt := stamp now (s_CreatedAt s), s_UpdatedAt := stamp now (s_UpdatedAt s)\<rparr>"
  obtain rows where rows: "q_create (db_down db ''fork_policy_schedules'') s_ID (\<lambda>n r. r\<lparr>s_ID := n\<rparr>)
        schedules_uniq nid ?r (db_schedules db) = Inr rows"
    and db': "db' = db\<lparr>db_schedules := rows\<rparr>"
    using assms(2) s ex by (auto simp: CreateSchedule_def split: sum.splits)
  show ?thesis
    using assms(1) policyExists_ok[OF ex] schedules.create_ok[OF _ rows] schedules.create_Inr[OF rows]
    by (auto simp: policy_db_ok_defs db')
qed

lemma UpdateSchedule_ok:
  assumes "policy_db_ok db" "UpdateSchedule env now so db = Inr db'"
  shows "policy_db_ok db'"
proof -
  from assms(2) obtain s where s: "validateSchedule env so = Inr s" and ex: "policyExists db (s_PolicyID s) = Inr ()"
    by (auto simp: UpdateSchedule_def split: sum.splits)
  define f where "f = (\<lambda>r :: schedule_row. r\<lparr>s_PolicyID := s_PolicyID s, s_Timezone := s_Timezone s, s_Weekdays := s_Weekdays s,
      s_StartMinute := s_StartMinute s, s_EndMinute := s_EndMinute s, s_Enabled := s_Enabled s, s_UpdatedAt := now\<rparr>)"
  have f: "s_PolicyID (f r) = s_PolicyID s" "s_ID (f r) = s_ID r" for r
    by (simp_all add: f_def)
  obtain rows where rows: "q_update (db_down db ''fork_policy_schedules'') schedules_uniq (\<lambda>r. s_ID r = s_ID s) f
        (db_schedules db) = Inr rows"
    and db': "db' = db\<lparr>db_schedules := rows\<rparr>"
    using assms(2) s ex by (auto simp: UpdateSchedule_def f_def split: sum.splits)
  have "\<forall>r \<in> set rows. r \<in> set (db_schedules db) \<or> s_PolicyID r = s_PolicyID s"
    using rows f(1) by (auto simp: q_update_Inr)
  then show ?thesis
    using assms(1) policyExists_ok[OF ex] schedules.update_ok[OF _ rows f(2)]
    by (auto simp: policy_db_ok_defs db')
qed

lemma delete_row_ok:
  assumes "policy_db_ok db"
  shows "DeleteAssignment aid db = Inr db1 \<Longrightarrow> policy_db_ok db1"
    and "DeleteOverride oid db = Inr db2 \<Longrightarrow> policy_db_ok db2"
    and "DeleteTemporaryOverride tid db = Inr db3 \<Longrightarrow> policy_db_ok db3"
    and "DeleteSchedule sid db = Inr db4 \<Longrightarrow> policy_db_ok db4"
proof -
  show "DeleteAssignment aid db = Inr db1 \<Longrightarrow> policy_db_ok db1"
    using assms by (auto simp: DeleteAssignment_def table_simps policy_db_ok_defs
        intro!: table_ok_filter assignments.uniq_filter split: sum.splits)
  show "DeleteOverride oid db = Inr db2 \<Longrightarrow> policy_db_ok db2"
    using assms by (auto simp: DeleteOverride_def table_simps policy_db_ok_defs
        intro!: table_ok_filter overrides.uniq_filter split: sum.splits)
  show "DeleteTemporaryOverride tid db = Inr db3 \<Longrightarrow> policy_db_ok db3"
    using assms by (auto simp: DeleteTemporaryOverride_def table_simps policy_db_ok_defs
        intro!: table_ok_filter temporaries.uniq_filter split: sum.splits)
  show "DeleteSchedule sid db = Inr db4 \<Longrightarrow> policy_db_ok db4"
    using assms by (auto simp: DeleteSchedule_def table_simps policy_db_ok_defs
        intro!: table_ok_filter schedules.uniq_filter split: sum.splits)
qed

text \<open>
  The repository as a machine: each successful call is a step, whatever its arguments, the
  time and the assigned key. Changes of the client tables by the rest of the panel and faults
  of the database are steps too.
\<close>

inductive policy_step :: "policy_env \<Rightarrow> policy_db \<Rightarrow> policy_db \<Rightarrow> bool" for env where
  create_policy: "CreatePolicy env now nid p db = Inr db' \<Longrightarrow> policy_step env db db'"
| update_policy: "UpdatePolicy env now p db = Inr db' \<Longrightarrow> policy_step env db db'"
| delete_policy: "DeletePolicy pid db = Inr db' \<Longrightarrow> policy_step env db db'"
| create_assignment: "CreateAssignment now nid a db = Inr db' \<Longrightarrow> policy_step env db db'"
| update_assignment: "UpdateAssignment now a db = Inr db' \<Longrightarrow> policy_step env db db'"
| delete_assignment: "DeleteAssignment aid db = Inr db' \<Longrightarrow> policy_step env db db'"
| create_override: "CreateOverride env now nid ov db = Inr db' \<Longrightarrow> policy_step env db db'"
| update_override: "UpdateOverride env now ov db = Inr db' \<Longrightarrow> policy_step env db db'"
| delete_override: "DeleteOverride oid db = Inr db' \<Longrightarrow> policy_step env db db'"
| create_temporary: "CreateTemporaryOverride env now nid tv db = Inr db' \<Longrightarrow> policy_step env db db'"
| update_temporary: "UpdateTemporaryOverride env now tv db = Inr db' \<Longrightarrow> policy_step env db db'"
| delete_temporary: "DeleteTemporaryOverride tid db = Inr db' \<Longrightarrow> policy_step env db db'"
| create_schedule: "CreateSchedule env now nid so db = Inr db' \<Longrightarrow> policy_step env db db'"
| update_schedule: "UpdateSchedule env now so db = Inr db' \<Longrightarrow> policy_step env db db'"
| delete_schedule: "DeleteSchedule sid db = Inr db' \<Longrightarrow> policy_step env db db'"
| clients_change: "policy_step env db (db\<lparr>db_clients := cs, db_groups := gs, db_down := f\<rparr>)"

inductive policy_reachable :: "policy_env \<Rightarrow> policy_db \<Rightarrow> bool" for env where
  initial: "policy_reachable env \<lparr>db_policies = [], db_assignments = [], db_overrides = [],
     db_temporaries = [], db_schedules = [], db_clients = cs, db_groups = gs, db_down = f\<rparr>"
| step: "policy_reachable env db \<Longrightarrow> policy_step env db db' \<Longrightarrow> policy_reachable env db'"

lemma policy_step_ok: "policy_step env db db' \<Longrightarrow> policy_db_ok db \<Longrightarrow> policy_db_ok db'"
proof (induction rule: policy_step.induct)
  case (clients_change db cs gs f)
  then show ?case by (simp add: policy_db_ok_defs)
qed (blast intro: CreatePolicy_ok UpdatePolicy_ok DeletePolicy_ok CreateAssignment_ok UpdateAssignment_ok
    CreateOverride_ok UpdateOverride_ok CreateTemporaryOverride_ok UpdateTemporaryOverride_ok
    CreateSchedule_ok UpdateSchedule_ok delete_row_ok)+

lemma policy_reachable_ok: "policy_reachable env db \<Longrightarrow> policy_db_ok db"
proof (induction rule: policy_reachable.induct)
  case (initial cs gs f)
  then show ?case
    by (simp add: policy_db_ok_defs policies.empty_ok assignments.empty_ok overrides.empty_ok
        temporaries.empty_ok schedules.empty_ok)
next
  case (step db db')
  then show ?case using policy_step_ok by blast
qed

section \<open>What resolution returns\<close>

text \<open>The policies that count at an instant: enabled, and their schedule active.\<close>

definition policy_effective :: "policy_env \<Rightarrow> policy_db \<Rightarrow> int \<Rightarrow> nat \<Rightarrow> policy_row \<Rightarrow> bool" where
  "policy_effective env db at pid p \<longleftrightarrow>
     GetPolicy db pid = Inr p \<and> p_Enabled p \<and> policyScheduleActive env db p at = Inr True"

definition expected_candidates :: "policy_env \<Rightarrow> policy_db \<Rightarrow> string \<Rightarrow> string \<Rightarrow> int \<Rightarrow> candidate set" where
  "expected_candidates env db email grp at =
     {assignment_candidate a p | a p. a \<in> set (db_assignments db) \<and> a_Enabled a
        \<and> target_matches email grp (a_TargetType a) (a_TargetRef a) \<and> policy_effective env db at (a_PolicyID a) p}
     \<union> {override_candidate r p | r p. r \<in> set (db_overrides db) \<and> o_Enabled r
        \<and> target_matches email grp (o_TargetType r) (o_TargetRef r) \<and> policy_effective env db at (o_PolicyID r) p}
     \<union> {temporary_candidate t p | t p. t \<in> set (db_temporaries db) \<and> t_Enabled t
        \<and> activeAt at (t_StartsAt t) (t_ExpiresAt t)
        \<and> target_matches email grp (t_TargetType t) (t_TargetRef t)
        \<and> GetPolicy db (t_PolicyID t) = Inr p \<and> p_Enabled p}"

lemma resolve_scheduled_set:
  "resolve_scheduled env db at pid mk = Inr ys \<Longrightarrow>
     c \<in> set ys \<longleftrightarrow> (\<exists>p. policy_effective env db at pid p \<and> c = mk p)"
  by (auto simp: resolve_scheduled_def policy_effective_def split: sum.splits if_splits)

lemma resolve_temporary_set:
  "resolve_temporary db at t = Inr ys \<Longrightarrow>
     c \<in> set ys \<longleftrightarrow> (\<exists>p. activeAt at (t_StartsAt t) (t_ExpiresAt t) \<and> GetPolicy db (t_PolicyID t) = Inr p
                         \<and> p_Enabled p \<and> c = temporary_candidate t p)"
  by (auto simp: resolve_temporary_def split: sum.splits if_splits)

definition target_assignments :: "policy_db \<Rightarrow> string \<Rightarrow> string \<Rightarrow> assignment_row list" where
  "target_assignments db email grp = filter (\<lambda>a. a_Enabled a
     \<and> target_matches email grp (a_TargetType a) (a_TargetRef a)) (db_assignments db)"

definition target_overrides :: "policy_db \<Rightarrow> string \<Rightarrow> string \<Rightarrow> override_row list" where
  "target_overrides db email grp = filter (\<lambda>r. o_Enabled r
     \<and> target_matches email grp (o_TargetType r) (o_TargetRef r)) (db_overrides db)"

definition target_temporaries :: "policy_db \<Rightarrow> string \<Rightarrow> string \<Rightarrow> int \<Rightarrow> temporary_row list" where
  "target_temporaries db email grp at = filter (\<lambda>t. t_Enabled t \<and> t_StartsAt t \<le> at \<and> t_ExpiresAt t > at
     \<and> target_matches email grp (t_TargetType t) (t_TargetRef t)) (db_temporaries db)"

lemma Resolve_Inr:
  fixes now at0 :: int
  defines "at \<equiv> (if at0 \<le> 0 then now else at0)"
  shows "Resolve env now db email grp at0 = Inr r \<longleftrightarrow>
     \<not> db_down db ''fork_policy_assignments'' \<and> \<not> db_down db ''fork_policy_overrides''
     \<and> \<not> db_down db ''fork_policy_temporary_overrides''
     \<and> (\<exists>c1 c2 c3. collect (resolve_assignment env db at) (target_assignments db email grp) = Inr c1
          \<and> collect (resolve_override env db at) (target_overrides db email grp) = Inr c2
          \<and> collect (resolve_temporary db at) (target_temporaries db email grp at) = Inr c3
          \<and> r = \<lparr>rp_TargetClient = email, rp_TargetGroup = grp, rp_At = at,
                 rp_Items = sortCandidates (c1 @ c2 @ c3)\<rparr>)"
  unfolding Resolve_def Let_def at_def[symmetric] target_assignments_def[symmetric] target_overrides_def[symmetric]
    target_temporaries_def[symmetric] bind_res_Inr q_find_Inr sum.inject eq_commute[of r] simp_thms conj_assoc ex_simps
  by fast

lemma Resolve_set:
  assumes "Resolve env now db email grp at0 = Inr r"
  shows "set (rp_Items r) = expected_candidates env db email grp (rp_At r)"
proof -
  define at where "at = (if at0 \<le> 0 then now else at0)"
  obtain c1 c2 c3 where
    c1: "collect (resolve_assignment env db at) (target_assignments db email grp) = Inr c1"
    and c2: "collect (resolve_override env db at) (target_overrides db email grp) = Inr c2"
    and c3: "collect (resolve_temporary db at) (target_temporaries db email grp at) = Inr c3"
    and r: "r = \<lparr>rp_TargetClient = email, rp_TargetGroup = grp, rp_At = at,
           rp_Items = sortCandidates (c1 @ c2 @ c3)\<rparr>"
    using assms[unfolded Resolve_Inr, folded at_def] by (elim exE conjE) (rule that; assumption)
  have 1: "c \<in> set c1 \<longleftrightarrow> (\<exists>a \<in> set (target_assignments db email grp). \<exists>p.
      policy_effective env db at (a_PolicyID a) p \<and> c = assignment_candidate a p)" for c
    using collect_set[OF c1] c1 resolve_scheduled_set unfolding collect_ok_iff resolve_assignment_def by blast
  have 2: "c \<in> set c2 \<longleftrightarrow> (\<exists>a \<in> set (target_overrides db email grp). \<exists>p.
      policy_effective env db at (o_PolicyID a) p \<and> c = override_candidate a p)" for c
    using collect_set[OF c2] c2 resolve_scheduled_set unfolding collect_ok_iff resolve_override_def by blast
  have 3: "c \<in> set c3 \<longleftrightarrow> (\<exists>t \<in> set (target_temporaries db email grp at). \<exists>p.
      activeAt at (t_StartsAt t) (t_ExpiresAt t)
      \<and> GetPolicy db (t_PolicyID t) = Inr p \<and> p_Enabled p \<and> c = temporary_candidate t p)" for c
    using collect_set[OF c3] c3 resolve_temporary_set unfolding collect_ok_iff by blast
  have "set (rp_Items r) = set c1 \<union> set c2 \<union> set c3"
    by (simp add: r sortCandidates_def Un_assoc)
  also have "\<dots> = expected_candidates env db email grp at"
    unfolding expected_candidates_def set_eq_iff
    by (intro allI, simp only: Un_iff 1 2 3)
       (auto simp: target_assignments_def target_overrides_def target_temporaries_def activeAt_def)
  finally show ?thesis by (simp add: r)
qed

section \<open>Properties\<close>


definition one_policy_env :: policy_env where
  "one_policy_env = \<lparr>env_unmarshal = (\<lambda>s. Some (JObject [])),
     env_definition = (\<lambda>s. Some \<lparr>d_Action = ''allow'', d_Services = [], d_Categories = [],
        d_Destinations = [], d_DNS = None, d_Quarantine = False, d_QuarantineAllowlist = [],
        d_Quota = None, d_QoS = None, d_ScheduleRef = [], d_Metadata = None\<rparr>),
     env_patch = (\<lambda>s. None), env_dns_patch = (\<lambda>s. None), env_release = (\<lambda>s. None),
     env_remarshal = (\<lambda>s. Some s), env_location = (\<lambda>tz. None), env_lower = (\<lambda>s. s)\<rparr>"

definition one_policy_start :: policy_db where
  "one_policy_start = \<lparr>db_policies = [], db_assignments = [], db_overrides = [], db_temporaries = [],
     db_schedules = [], db_clients = [zero_client\<lparr>cl_Id := 1, cl_Email := ''alice'', cl_Enable := True, cl_Group := []\<rparr>],
     db_groups = [], db_down = (\<lambda>t. False)\<rparr>"

definition one_policy_db :: "policy_db res" where
  "one_policy_db =
     bind_res (CreatePolicy one_policy_env 5 1 \<lparr>p_ID = 0, p_Name = '' base '', p_Description = [], p_Spec = ''{}'',
        p_Priority = 7, p_Enabled = True, p_CreatedAt = 0, p_UpdatedAt = 0\<rparr> one_policy_start)
     (CreateAssignment 6 1 \<lparr>a_ID = 0, a_PolicyID = 1, a_TargetType = ''client'', a_TargetRef = ''alice'',
        a_Priority = 3, a_Enabled = True, a_CreatedAt = 0, a_UpdatedAt = 0\<rparr>)"

lemma one_policy_db_ok:
  "ok one_policy_db" "map p_Name (db_policies (projr one_policy_db)) = [''base'']"
  "map a_PolicyID (db_assignments (projr one_policy_db)) = [1]"
  by code_simp+

lemma one_policy_reachable: "policy_reachable one_policy_env (projr one_policy_db)"
proof -
  have "policy_reachable one_policy_env one_policy_start"
    unfolding one_policy_start_def by (rule policy_reachable.initial)
  moreover define final where "final = projr one_policy_db"
  have "one_policy_db = Inr final"
    unfolding final_def using one_policy_db_ok(1) by (rule ok_projr)
  then obtain db1 where "CreatePolicy one_policy_env 5 1 \<lparr>p_ID = 0, p_Name = '' base '', p_Description = [],
      p_Spec = ''{}'', p_Priority = 7, p_Enabled = True, p_CreatedAt = 0, p_UpdatedAt = 0\<rparr> one_policy_start = Inr db1"
    "CreateAssignment 6 1 \<lparr>a_ID = 0, a_PolicyID = 1, a_TargetType = ''client'', a_TargetRef = ''alice'',
        a_Priority = 3, a_Enabled = True, a_CreatedAt = 0, a_UpdatedAt = 0\<rparr> db1 = Inr final"
    unfolding one_policy_db_def by (rule bind_resE)
  ultimately show ?thesis
    unfolding final_def[symmetric]
    by (rule policy_reachable.step[OF policy_reachable.step[OF _ policy_step.create_policy] policy_step.create_assignment])
qed


text \<open>C2: Resolution is exact. The candidates it returns for a client and group at an instant are those
  of the enabled assignments and overrides of that client or group whose policy is enabled and on
  schedule, and of the temporary overrides whose interval contains the instant; they are listed
  by precedence, and candidates of equal precedence keep the order of the tables.\<close>

theorem Resolve_exact:
  assumes "Resolve env now db email grp at0 = Inr r"
  shows "rp_At r = (if at0 \<le> 0 then now else at0)
    \<and> set (rp_Items r) = expected_candidates env db email grp (rp_At r)
    \<and> sorted_wrt (\<lambda>a b. \<not> candidate_less b a) (rp_Items r)"
proof -
  obtain cs where "rp_Items r = sortCandidates cs" "rp_At r = (if at0 \<le> 0 then now else at0)"
    using assms[unfolded Resolve_Inr] by auto
  then show ?thesis
    using Resolve_set[OF assms] cand.sorted_sort_stable[of cs] by (simp add: sortCandidates_def)
qed

theorem Resolve_exact_witness:
  "(let r = projr (Resolve one_policy_env 0 (projr one_policy_db) ''alice'' [] 9) in
    map (\<lambda>c. (k_Source c, k_Priority c)) (rp_Items r) = [(''assignment'', 10)]
    \<and> set (rp_Items r) = expected_candidates one_policy_env (projr one_policy_db) ''alice'' [] 9)"
proof -
  let ?q = "Resolve one_policy_env 0 (projr one_policy_db) ''alice'' [] 9"
  have "ok ?q" "map (\<lambda>c. (k_Source c, k_Priority c)) (rp_Items (projr ?q)) = [(''assignment'', 10)]"
    by code_simp+
  then show ?thesis using Resolve_exact[OF ok_projr[of ?q]] by (simp add: Let_def)
qed

text \<open>Deleting a policy cascades: afterwards it is not found, no row of the four dependent tables
  names it, and all rows of other policies are kept in order.\<close>

lemma DeletePolicy_cascades:
  assumes "DeletePolicy pid db = Inr db'" "\<not> db_down db ''fork_policies''"
  shows "GetPolicy db' pid = Inl ErrRecordNotFound
    \<and> db_policies db' = filter (\<lambda>p. p_ID p \<noteq> pid) (db_policies db)
    \<and> db_assignments db' = filter (\<lambda>a. a_PolicyID a \<noteq> pid) (db_assignments db)
    \<and> db_overrides db' = filter (\<lambda>r. o_PolicyID r \<noteq> pid) (db_overrides db)
    \<and> db_temporaries db' = filter (\<lambda>t. t_PolicyID t \<noteq> pid) (db_temporaries db)
    \<and> db_schedules db' = filter (\<lambda>s. s_PolicyID s \<noteq> pid) (db_schedules db)"
  using assms(2) DeletePolicy_eq[OF assms(1)]
  by (auto simp: GetPolicy_def q_first_def find_None_iff split: option.splits dest: find_Some_iff[THEN iffD1])

end
