(* ===== verification/Policy_Decision.thy ===== *)
theory Policy_Decision
  imports Policy_Repository
begin

text \<open>
  From candidates to a decision, \<open>src/internal/policy/decision.go\<close>. \<open>ResolveDecision\<close> takes the
  first candidate of \<open>Resolve\<close>, applies the patch of an override to the policy's document, and
  runs \<open>resolveCapabilities\<close> over all candidates: quarantine, its release, and managed DNS.
  \<open>ResolveDecisions\<close> does this for the known clients of a list of emails.
\<close>

section \<open>Decisions\<close>

record explanation =
  ex_Candidate :: candidate
  ex_Won :: bool
  ex_Reason :: string

record decision =
  dec_ClientEmail :: string
  dec_GroupName :: string
  dec_PolicyID :: nat
  dec_PolicyName :: string
  dec_Action :: string
  dec_Services :: "string list"
  dec_Categories :: "string list"
  dec_Destinations :: "string list"
  dec_Winner :: candidate
  dec_Candidates :: "candidate list"
  dec_Explanations :: "explanation list"
  dec_Explanation :: string
  dec_OverrideScope :: string
  dec_Quarantined :: bool
  dec_QuarantineReleased :: bool
  dec_QuarantineAllowlist :: "string list"
  dec_ManagedDNS :: bool
  dec_DNSOutboundTag :: string
  dec_SafeSearch :: bool
  dec_DNSLimitations :: "string list"

fun uniqueStrings_from :: "string list \<Rightarrow> string list \<Rightarrow> string list" where
  "uniqueStrings_from seen [] = []"
| "uniqueStrings_from seen (v # vs) =
     (if v \<in> set seen then uniqueStrings_from seen vs else v # uniqueStrings_from (v # seen) vs)"

definition uniqueStrings :: "string list \<Rightarrow> string list" where
  "uniqueStrings values = sort (uniqueStrings_from [] values)"

section \<open>Capabilities\<close>

text \<open>The local variables of the loop of \<open>resolveCapabilities\<close>; \<open>cap_allow\<close> is the set \<open>allow\<close>.\<close>

record capabilities =
  cap_quarantined :: bool
  cap_released :: bool
  cap_managedDNS :: bool
  cap_safeSearch :: bool
  cap_dnsOutboundTag :: string
  cap_dnsSelected :: bool
  cap_allow :: "string list"
  cap_limitations :: "string list"

definition no_capabilities :: capabilities where
  "no_capabilities = \<lparr>cap_quarantined = False, cap_released = False, cap_managedDNS = False,
     cap_safeSearch = False, cap_dnsOutboundTag = [], cap_dnsSelected = False, cap_allow = [],
     cap_limitations = []\<rparr>"

text \<open>The value of the override row behind a candidate.\<close>

definition override_value :: "policy_db \<Rightarrow> candidate \<Rightarrow> string res" where
  "override_value db c =
     (if k_Source c = ''override''
      then bind_res (q_first (db_down db ''fork_policy_overrides'') (\<lambda>r. o_ID r = k_ID c) (db_overrides db))
             (\<lambda>row. Inr (o_Value row))
      else bind_res (q_first (db_down db ''fork_policy_temporary_overrides'') (\<lambda>t. t_ID t = k_ID c) (db_temporaries db))
             (\<lambda>row. Inr (t_Value row)))"

definition json_bool :: "json_map \<Rightarrow> string \<Rightarrow> bool" where
  "json_bool m k = (case map_of m k of Some (JBool b) \<Rightarrow> b | _ \<Rightarrow> False)"

definition json_string :: "json_map \<Rightarrow> string \<Rightarrow> string" where
  "json_string m k = (case map_of m k of Some (JString s) \<Rightarrow> s | _ \<Rightarrow> [])"

definition dns_safe_search_limitation :: string where
  "dns_safe_search_limitation =
     ''SafeSearch requires an explicit dnsOutboundTag whose resolver enforces SafeSearch''"

definition dns_path_limitation :: string where
  "dns_path_limitation =
     ''client-controlled DoH/DoH3, DoT, and cached DNS are outside Xray-observed DNS paths''"

definition cap_dns :: "json_map \<Rightarrow> capabilities \<Rightarrow> capabilities" where
  "cap_dns dns st =
     (let st1 = st\<lparr>cap_dnsSelected := True\<rparr>;
          st2 = (if json_bool dns ''managed'' then st1\<lparr>cap_managedDNS := True\<rparr> else st1);
          tag = trim_space (json_string dns ''dnsOutboundTag'');
          st3 = (if tag \<noteq> [] then st2\<lparr>cap_dnsOutboundTag := tag\<rparr> else st2)
      in if json_bool dns ''safeSearch''
         then st3\<lparr>cap_safeSearch := True, cap_managedDNS := True,
                  cap_limitations := cap_limitations st3
                    @ (if cap_dnsOutboundTag st3 = [] then [dns_safe_search_limitation] else [])\<rparr>
         else st3)"

text \<open>One iteration of the loop. The document of the policy gets the DNS map of a DNS-scoped override.\<close>

definition capability_doc :: "policy_env \<Rightarrow> policy_db \<Rightarrow> candidate \<Rightarrow> definition_doc res" where
  "capability_doc env db c =
     bind_res (GetPolicy db (k_PolicyID c)) (\<lambda>p.
     (case env_definition env (p_Spec p) of
        None \<Rightarrow> Inl (Err ''malformed spec'')
      | Some d \<Rightarrow>
         (if k_Scope c = ScopeDNS \<and> (k_Source c = ''override'' \<or> k_Source c = ''temporary'')
          then bind_res (override_value db c) (\<lambda>value.
                 (case env_dns_patch env value of
                    None \<Rightarrow> Inl (Err ''malformed override'')
                  | Some None \<Rightarrow> Inr d
                  | Some (Some dns) \<Rightarrow> Inr (d\<lparr>d_DNS := Some dns\<rparr>)))
          else Inr d)))"

definition cap_quarantine :: "policy_env \<Rightarrow> definition_doc \<Rightarrow> capabilities \<Rightarrow> capabilities" where
  "cap_quarantine env d st =
     (if d_Quarantine d
      then st\<lparr>cap_quarantined := True,
              cap_allow := cap_allow st @ map (\<lambda>item. to_lower (env_lower env) (trim_space item)) (d_QuarantineAllowlist d)\<rparr>
      else st)"

definition cap_select_dns :: "definition_doc \<Rightarrow> capabilities \<Rightarrow> capabilities" where
  "cap_select_dns d st =
     (case d_DNS d of
        None \<Rightarrow> st
      | Some dns \<Rightarrow> (if \<not> cap_dnsSelected st \<and> dns \<noteq> [] then cap_dns dns st else st))"

definition cap_release ::
  "policy_env \<Rightarrow> policy_db \<Rightarrow> candidate \<Rightarrow> definition_doc \<Rightarrow> capabilities \<Rightarrow> capabilities res" where
  "cap_release env db c d st =
     (if k_Source c = ''temporary'' \<and> k_Scope c = ScopeQuarantineRelease \<and> d_Quarantine d
      then bind_res (q_first (db_down db ''fork_policy_temporary_overrides'') (\<lambda>t. t_ID t = k_ID c) (db_temporaries db))
             (\<lambda>row. (case env_release env (t_Value row) of
                       None \<Rightarrow> Inl (Err ''malformed override'')
                     | Some released \<Rightarrow> Inr (if released then st\<lparr>cap_released := True\<rparr> else st)))
      else Inr st)"

definition capability_step ::
  "policy_env \<Rightarrow> policy_db \<Rightarrow> candidate \<Rightarrow> capabilities \<Rightarrow> capabilities res" where
  "capability_step env db c st =
     bind_res (capability_doc env db c) (\<lambda>d.
     cap_release env db c d (cap_select_dns d (cap_quarantine env d st)))"

definition resolveCapabilities ::
  "policy_env \<Rightarrow> policy_db \<Rightarrow> candidate list \<Rightarrow> capabilities res" where
  "resolveCapabilities env db candidates =
     bind_res (fold_res (capability_step env db) candidates no_capabilities) (\<lambda>st.
     (let st1 = (if cap_released st then st\<lparr>cap_quarantined := False\<rparr> else st);
          lims = cap_limitations st1
                   @ (if cap_managedDNS st1 \<or> cap_safeSearch st1 then [dns_path_limitation] else [])
      in Inr (st1\<lparr>cap_allow := sorted_keys (cap_allow st1), cap_limitations := uniqueStrings lims\<rparr>)))"

section \<open>The decision of one client\<close>

text \<open>A \<open>nil\<close> slice of the patch leaves the field; in a domain override \<open>Domains\<close> stands in.\<close>

definition patched :: "'a list option \<Rightarrow> 'a list \<Rightarrow> 'a list" where
  "patched new old = (case new of None \<Rightarrow> old | Some xs \<Rightarrow> xs)"

definition apply_patch :: "string \<Rightarrow> patch_doc \<Rightarrow> definition_doc \<Rightarrow> definition_doc" where
  "apply_patch scope patch spec =
     (if scope = ScopePolicy
      then spec\<lparr>d_Action := (if x_Action patch \<noteq> [] then x_Action patch else d_Action spec),
                d_Services := patched (x_Services patch) (d_Services spec),
                d_Categories := patched (x_Categories patch) (d_Categories spec),
                d_Destinations := patched (x_Destinations patch) (d_Destinations spec),
                d_Quarantine := (case x_Quarantine patch of None \<Rightarrow> d_Quarantine spec | Some q \<Rightarrow> q),
                d_QuarantineAllowlist := patched (x_QuarantineAllowlist patch) (d_QuarantineAllowlist spec)\<rparr>
      else if scope = ScopeDomain
      then spec\<lparr>d_Destinations := (case x_Destinations patch of
                                     Some xs \<Rightarrow> xs
                                   | None \<Rightarrow> (case x_Domains patch of None \<Rightarrow> [] | Some xs \<Rightarrow> xs))\<rparr>
      else if scope = ScopeService
      then spec\<lparr>d_Services := patched (x_Services patch) (d_Services spec)\<rparr>
      else if scope = ScopeDNS
      then (case x_DNS patch of None \<Rightarrow> spec | Some m \<Rightarrow> spec\<lparr>d_DNS := Some m\<rparr>)
      else spec)"

definition winner_spec :: "policy_env \<Rightarrow> policy_db \<Rightarrow> candidate \<Rightarrow> policy_row \<Rightarrow> definition_doc res" where
  "winner_spec env db winner p =
     (case env_definition env (p_Spec p) of
        None \<Rightarrow> Inl (Err ''malformed spec'')
      | Some spec \<Rightarrow>
         (if k_Source winner = ''override'' \<or> k_Source winner = ''temporary''
          then bind_res (override_value db winner) (\<lambda>value.
                 (case env_patch env value of
                    None \<Rightarrow> Inl (Err ''malformed override'')
                  | Some patch \<Rightarrow> Inr (apply_patch (k_Scope winner) patch spec)))
          else Inr spec))"

definition explain_candidates :: "candidate list \<Rightarrow> explanation list" where
  "explain_candidates items =
     map (\<lambda>(i, c). \<lparr>ex_Candidate = c, ex_Won = (i = 0),
                    ex_Reason = (if i = 0 then ''selected by deterministic precedence ordering''
                                 else ''lost to a higher-precedence candidate'')\<rparr>)
       (enumerate 0 items)"

definition explanation_text :: "candidate \<Rightarrow> string \<Rightarrow> bool \<Rightarrow> bool \<Rightarrow> string" where
  "explanation_text winner name quarantined released =
     k_Source winner @ '' '' @ k_TargetType winner @ '' target '' @ k_TargetRef winner @ '' by '' @ name
     @ (if quarantined then ''; quarantine is effective and generic policy overrides cannot bypass it'' else [])
     @ (if released then ''; bounded quarantine-release is effective'' else [])"

definition make_decision ::
  "string \<Rightarrow> string \<Rightarrow> candidate list \<Rightarrow> candidate \<Rightarrow> policy_row \<Rightarrow> definition_doc \<Rightarrow> capabilities
     \<Rightarrow> decision option res" where
  "make_decision clientEmail groupName items winner p spec cap =
     (if d_Action spec = [] \<and> \<not> cap_quarantined cap \<and> \<not> cap_managedDNS cap \<and> \<not> cap_safeSearch cap
      then Inr None
      else (let action = (if d_Action spec = [] then ''deny'' else d_Action spec) in
        if action \<noteq> ''allow'' \<and> action \<noteq> ''deny'' then Inl (Err ''unsupported action'')
        else Inr (Some \<lparr>dec_ClientEmail = clientEmail, dec_GroupName = groupName, dec_PolicyID = p_ID p,
               dec_PolicyName = p_Name p, dec_Action = action, dec_Services = d_Services spec,
               dec_Categories = d_Categories spec, dec_Destinations = d_Destinations spec,
               dec_Winner = winner, dec_Candidates = items, dec_Explanations = explain_candidates items,
               dec_Explanation = explanation_text winner (p_Name p) (cap_quarantined cap) (cap_released cap),
               dec_OverrideScope = k_Scope winner, dec_Quarantined = cap_quarantined cap,
               dec_QuarantineReleased = cap_released cap, dec_QuarantineAllowlist = cap_allow cap,
               dec_ManagedDNS = cap_managedDNS cap, dec_DNSOutboundTag = cap_dnsOutboundTag cap,
               dec_SafeSearch = cap_safeSearch cap, dec_DNSLimitations = cap_limitations cap\<rparr>)))"

definition ResolveDecision ::
  "policy_env \<Rightarrow> int \<Rightarrow> policy_db \<Rightarrow> string \<Rightarrow> string \<Rightarrow> int \<Rightarrow> decision option res" where
  "ResolveDecision env now db clientEmail groupName at =
     bind_res (Resolve env now db clientEmail groupName at) (\<lambda>resolved.
     (case rp_Items resolved of
        [] \<Rightarrow> Inr None
      | winner # _ \<Rightarrow>
         bind_res (GetPolicy db (k_PolicyID winner)) (\<lambda>p.
         bind_res (winner_spec env db winner p) (\<lambda>spec.
         bind_res (resolveCapabilities env db (rp_Items resolved)) (\<lambda>cap.
         make_decision clientEmail groupName (rp_Items resolved) winner p spec cap)))))"

text \<open>
  The loop that fills the map \<open>clients\<close>, as an association list with one entry per email (a
  later entry for the same email replaces the earlier one, and the two rows are equal).
\<close>

definition lookup_client :: "policy_db \<Rightarrow> string \<Rightarrow> (string \<times> client_row) list res" where
  "lookup_client db raw =
     (let email = trim_space raw in
      if email = [] then Inr []
      else case q_first (db_down db ''clients'') (\<lambda>c. cl_Email c = email) (db_clients db) of
             Inl e \<Rightarrow> (if e = ErrRecordNotFound then Inr [] else Inl e)
           | Inr c \<Rightarrow> Inr [(email, c)])"

definition client_decision ::
  "policy_env \<Rightarrow> int \<Rightarrow> policy_db \<Rightarrow> int \<Rightarrow> (string \<times> client_row) list \<Rightarrow> string \<Rightarrow> decision list res" where
  "client_decision env now db at clients email =
     (case map_of (rev clients) email of
        None \<Rightarrow> Inr []
      | Some c \<Rightarrow>
         bind_res (ResolveDecision env now db (cl_Email c) (cl_Group c) at) (\<lambda>d.
         Inr (case d of None \<Rightarrow> [] | Some decision \<Rightarrow> [decision])))"

definition ResolveDecisions ::
  "policy_env \<Rightarrow> int \<Rightarrow> policy_db \<Rightarrow> string list \<Rightarrow> int \<Rightarrow> decision list res" where
  "ResolveDecisions env now db emails at =
     bind_res (collect (lookup_client db) emails) (\<lambda>clients.
     collect (client_decision env now db at clients) (sorted_keys (map fst clients)))"

section \<open>Quarantine and its release\<close>

text \<open>A candidate whose policy quarantines, and one that releases: stated on the tables alone.\<close>

definition quarantines :: "policy_env \<Rightarrow> policy_db \<Rightarrow> candidate \<Rightarrow> bool" where
  "quarantines env db c \<longleftrightarrow>
     (\<exists>p d. GetPolicy db (k_PolicyID c) = Inr p \<and> env_definition env (p_Spec p) = Some d \<and> d_Quarantine d)"

definition releases :: "policy_env \<Rightarrow> policy_db \<Rightarrow> candidate \<Rightarrow> bool" where
  "releases env db c \<longleftrightarrow> k_Source c = ''temporary'' \<and> k_Scope c = ScopeQuarantineRelease \<and> quarantines env db c
     \<and> (\<exists>row. q_first (db_down db ''fork_policy_temporary_overrides'') (\<lambda>t. t_ID t = k_ID c) (db_temporaries db) = Inr row
              \<and> env_release env (t_Value row) = Some True)"

lemma capability_doc_quarantine:
  "capability_doc env db c = Inr d \<Longrightarrow> d_Quarantine d \<longleftrightarrow> quarantines env db c"
  unfolding capability_doc_def quarantines_def
  by (erule bind_resE) (auto elim!: bind_resE split: option.splits if_splits)

lemma cap_dns_keeps [simp]:
  "cap_quarantined (cap_dns m st) = cap_quarantined st" "cap_released (cap_dns m st) = cap_released st"
  by (simp_all add: cap_dns_def Let_def)

lemma cap_select_dns_keeps [simp]:
  "cap_quarantined (cap_select_dns d st) = cap_quarantined st"
  "cap_released (cap_select_dns d st) = cap_released st"
  by (simp_all add: cap_select_dns_def split: option.split)

lemma cap_quarantine_keeps [simp]:
  "cap_quarantined (cap_quarantine env d st) \<longleftrightarrow> cap_quarantined st \<or> d_Quarantine d"
  "cap_released (cap_quarantine env d st) = cap_released st"
  by (simp_all add: cap_quarantine_def)

lemma capability_step_flags:
  assumes "capability_step env db c st = Inr st'"
  shows "cap_quarantined st' \<longleftrightarrow> cap_quarantined st \<or> quarantines env db c"
    and "cap_released st' \<longleftrightarrow> cap_released st \<or> releases env db c"
proof -
  from assms obtain d where d: "capability_doc env db c = Inr d"
    and st': "cap_release env db c d (cap_select_dns d (cap_quarantine env d st)) = Inr st'"
    by (auto simp: capability_step_def bind_res_Inr)
  note q = capability_doc_quarantine[OF d]
  show "cap_quarantined st' \<longleftrightarrow> cap_quarantined st \<or> quarantines env db c"
    using st' by (auto simp: cap_release_def q elim!: bind_resE split: if_splits option.splits)
  show "cap_released st' \<longleftrightarrow> cap_released st \<or> releases env db c"
    using st' by (auto simp: cap_release_def q releases_def elim!: bind_resE split: if_splits option.splits)
qed

lemma capability_fold_flags:
  assumes "fold_res (capability_step env db) cs st = Inr st'"
  shows "(cap_quarantined st' \<longleftrightarrow> cap_quarantined st \<or> (\<exists>c \<in> set cs. quarantines env db c))
       \<and> (cap_released st' \<longleftrightarrow> cap_released st \<or> (\<exists>c \<in> set cs. releases env db c))"
  using assms
proof (induction cs arbitrary: st)
  case Nil
  then show ?case by simp
next
  case (Cons c cs)
  then obtain t where t: "capability_step env db c st = Inr t" "fold_res (capability_step env db) cs t = Inr st'"
    by (auto split: sum.splits)
  show ?case using Cons.IH[OF t(2)] capability_step_flags[OF t(1)] by auto
qed

lemma resolveCapabilities_flags:
  assumes "resolveCapabilities env db cs = Inr cap"
  shows "cap_released cap \<longleftrightarrow> (\<exists>c \<in> set cs. releases env db c)"
    and "cap_quarantined cap \<longleftrightarrow> (\<exists>c \<in> set cs. quarantines env db c) \<and> \<not> cap_released cap"
proof -
  from assms obtain st where st: "fold_res (capability_step env db) cs no_capabilities = Inr st"
    and cap: "cap_released cap = cap_released st"
      "cap_quarantined cap \<longleftrightarrow> cap_quarantined st \<and> \<not> cap_released st"
    by (auto simp: resolveCapabilities_def bind_res_Inr Let_def)
  from capability_fold_flags[OF st] have
    "cap_quarantined st \<longleftrightarrow> (\<exists>c \<in> set cs. quarantines env db c)"
    "cap_released st \<longleftrightarrow> (\<exists>c \<in> set cs. releases env db c)"
    by (simp_all add: no_capabilities_def)
  with cap show "cap_released cap \<longleftrightarrow> (\<exists>c \<in> set cs. releases env db c)"
    and "cap_quarantined cap \<longleftrightarrow> (\<exists>c \<in> set cs. quarantines env db c) \<and> \<not> cap_released cap"
    by simp_all
qed

section \<open>The shape of a decision\<close>

lemma ResolveDecision_cases:
  assumes "ResolveDecision env now db email grp at0 = Inr (Some d)"
  obtains r rest p spec cap where
    "Resolve env now db email grp at0 = Inr r" "rp_Items r = dec_Winner d # rest" "dec_Candidates d = rp_Items r"
    "GetPolicy db (k_PolicyID (dec_Winner d)) = Inr p" "winner_spec env db (dec_Winner d) p = Inr spec"
    "resolveCapabilities env db (rp_Items r) = Inr cap"
    "make_decision email grp (rp_Items r) (dec_Winner d) p spec cap = Inr (Some d)"
proof -
  from assms obtain r w rest p spec cap where
    1: "Resolve env now db email grp at0 = Inr r" "rp_Items r = w # rest"
      "GetPolicy db (k_PolicyID w) = Inr p" "winner_spec env db w p = Inr spec"
      "resolveCapabilities env db (rp_Items r) = Inr cap"
    and d: "make_decision email grp (rp_Items r) w p spec cap = Inr (Some d)"
    unfolding ResolveDecision_def by (auto elim!: bind_resE split: list.splits)
  have "dec_Winner d = w" "dec_Candidates d = rp_Items r"
    using d by (auto simp: make_decision_def Let_def split: if_splits)
  with 1 d show ?thesis by (intro that) auto
qed

lemma decision_candidates:
  assumes "ResolveDecision env now db email grp at0 = Inr (Some d)"
  shows "set (dec_Candidates d) = expected_candidates env db email grp (if at0 \<le> 0 then now else at0)"
proof -
  obtain r where r: "Resolve env now db email grp at0 = Inr r" "dec_Candidates d = rp_Items r"
    using assms by (rule ResolveDecision_cases)
  then have "rp_At r = (if at0 \<le> 0 then now else at0)" by (auto simp: Resolve_Inr)
  then show ?thesis using Resolve_set[OF r(1)] r(2) by simp
qed

lemma make_decision_fields:
  assumes "make_decision email grp items w p spec cap = Inr (Some d)"
  shows "dec_ClientEmail d = email" "dec_GroupName d = grp" "dec_PolicyID d = p_ID p"
    "dec_Action d \<in> {''allow'', ''deny''}" "dec_Explanations d = explain_candidates items"
    "dec_Quarantined d = cap_quarantined cap" "dec_QuarantineReleased d = cap_released cap"
  using assms by (auto simp: make_decision_def Let_def split: if_splits)

lemma releases_active:
  assumes ok: "policy_db_ok db" and c: "c \<in> expected_candidates env db email grp at"
    and rel: "releases env db c"
  shows "\<exists>t \<in> set (db_temporaries db). t_Enabled t \<and> t_Scope t = ScopeQuarantineRelease
     \<and> activeAt at (t_StartsAt t) (t_ExpiresAt t) \<and> target_matches email grp (t_TargetType t) (t_TargetRef t)
     \<and> t_PolicyID t = k_PolicyID c \<and> env_release env (t_Value t) = Some True"
proof -
  from rel have src: "k_Source c = ''temporary''" and scope: "k_Scope c = ScopeQuarantineRelease"
    by (simp_all add: releases_def)
  from c src obtain t p where t: "t \<in> set (db_temporaries db)" "t_Enabled t"
      "activeAt at (t_StartsAt t) (t_ExpiresAt t)" "target_matches email grp (t_TargetType t) (t_TargetRef t)"
      "c = temporary_candidate t p"
    by (auto simp: expected_candidates_def assignment_candidate_def override_candidate_def)
  have "table_ok t_ID temporaries_uniq (db_temporaries db)"
    using ok by (simp add: policy_db_ok_def tables_ok_def)
  then have "q_first False (\<lambda>x. t_ID x = t_ID t) (db_temporaries db) = Inr t"
    using t(1) by (rule temporaries.first_by_key)
  moreover obtain row where row: "q_first (db_down db ''fork_policy_temporary_overrides'')
      (\<lambda>x. t_ID x = k_ID c) (db_temporaries db) = Inr row" "env_release env (t_Value row) = Some True"
    using rel by (auto simp: releases_def)
  moreover have "\<not> db_down db ''fork_policy_temporary_overrides''"
    using row(1) by (auto simp: q_first_def)
  ultimately have "row = t" using t(5) by (simp add: temporary_candidate_def)
  then show ?thesis using t row(2) scope by (auto simp: temporary_candidate_def intro!: bexI[of _ t])
qed

section \<open>A sample repository\<close>

text \<open>
  One quarantining policy, assigned to \<open>alice\<close> and to the group \<open>staff\<close>, and a quarantine-release
  for \<open>alice\<close> between the instants 100 and 200. The decoders of \<open>sample_env\<close> are constant.
\<close>

definition sample_env :: policy_env where
  "sample_env = \<lparr>env_unmarshal = (\<lambda>s. Some (JObject [])),
     env_definition = (\<lambda>s. Some \<lparr>d_Action = ''deny'', d_Services = [], d_Categories = [],
        d_Destinations = [''domain:example.org''], d_DNS = None, d_Quarantine = True,
        d_QuarantineAllowlist = ['' Ok.example ''], d_Quota = None, d_QoS = None, d_ScheduleRef = [],
        d_Metadata = None\<rparr>),
     env_patch = (\<lambda>s. Some \<lparr>x_Action = [], x_Services = None, x_Categories = None, x_Destinations = None,
        x_Domains = None, x_Quarantine = None, x_QuarantineAllowlist = None, x_DNS = None\<rparr>),
     env_dns_patch = (\<lambda>s. Some None), env_release = (\<lambda>s. Some True), env_remarshal = (\<lambda>s. Some s),
     env_location = (\<lambda>tz. Some (\<lambda>t. \<lparr>c_Weekday = nat (t div 86400000 mod 7),
        c_Hour = nat (t div 3600000 mod 24), c_Minute = nat (t div 60000 mod 60)\<rparr>)),
     env_lower = (\<lambda>s. s)\<rparr>"

definition sample_db :: policy_db where
  "sample_db = \<lparr>db_policies = [\<lparr>p_ID = 1, p_Name = ''isolate'', p_Description = [], p_Spec = ''{}'',
        p_Priority = 0, p_Enabled = True, p_CreatedAt = 1, p_UpdatedAt = 1\<rparr>],
     db_assignments = [\<lparr>a_ID = 1, a_PolicyID = 1, a_TargetType = ''client'', a_TargetRef = ''alice'',
        a_Priority = 0, a_Enabled = True, a_CreatedAt = 1, a_UpdatedAt = 1\<rparr>,
       \<lparr>a_ID = 2, a_PolicyID = 1, a_TargetType = ''group'', a_TargetRef = ''staff'',
        a_Priority = 0, a_Enabled = True, a_CreatedAt = 1, a_UpdatedAt = 1\<rparr>],
     db_overrides = [],
     db_temporaries = [\<lparr>t_ID = 1, t_PolicyID = 1, t_TargetType = ''client'', t_TargetRef = ''alice'',
        t_Scope = ''quarantine-release'', t_Value = ''{}'', t_Priority = 0, t_StartsAt = 100, t_ExpiresAt = 200,
        t_Enabled = True, t_CreatedAt = 1, t_UpdatedAt = 1\<rparr>],
     db_schedules = [],
     db_clients = [zero_client\<lparr>cl_Id := 1, cl_Email := ''alice'', cl_Enable := True, cl_Group := ''staff''\<rparr>],
     db_groups = [], db_down = (\<lambda>t. False)\<rparr>"

definition sample_decision :: decision where
  "sample_decision = the (projr (ResolveDecision sample_env 150 sample_db ''alice'' ''staff'' 0))"

lemma sample_db_ok: "policy_db_ok sample_db"
  by (simp add: policy_db_ok_defs sample_db_def table_ok_def policies_uniq_def assignments_uniq_def
      overrides_uniq_def temporaries_uniq_def schedules_uniq_def TargetClient_def TargetGroup_def)

lemma sample_decision_ok:
  "ResolveDecision sample_env 150 sample_db ''alice'' ''staff'' 0 = Inr (Some sample_decision)
   \<and> \<not> dec_Quarantined sample_decision \<and> length (dec_Candidates sample_decision) = 3"
  by code_simp

section \<open>Properties\<close>

text \<open>C1: Quarantine is a safety state. If some candidate policy of the client quarantines and the
  decision nevertheless is not quarantined, then the temporary override table has an enabled row of
  the dedicated quarantine-release scope that targets this client or its group, is active at the
  resolved instant, belongs to a quarantining candidate's policy and whose document says
  \<open>released\<close>. No allow rule, override or schedule clears quarantine otherwise; and with such a
  candidate the decision reports the release.\<close>

theorem quarantine_released_only_by_active_release:
  assumes "policy_db_ok db" "ResolveDecision env now db email grp at0 = Inr (Some d)"
    and "\<exists>c \<in> set (dec_Candidates d). quarantines env db c" "\<not> dec_Quarantined d"
  shows "dec_QuarantineReleased d \<and> (\<exists>t \<in> set (db_temporaries db). t_Enabled t
     \<and> t_Scope t = ScopeQuarantineRelease
     \<and> activeAt (if at0 \<le> 0 then now else at0) (t_StartsAt t) (t_ExpiresAt t)
     \<and> target_matches email grp (t_TargetType t) (t_TargetRef t)
     \<and> (\<exists>c \<in> set (dec_Candidates d). t_PolicyID t = k_PolicyID c \<and> quarantines env db c)
     \<and> env_release env (t_Value t) = Some True)"
proof -
  obtain r rest p spec cap where r: "Resolve env now db email grp at0 = Inr r" "dec_Candidates d = rp_Items r"
    and cap: "resolveCapabilities env db (rp_Items r) = Inr cap"
    and md: "make_decision email grp (rp_Items r) (dec_Winner d) p spec cap = Inr (Some d)"
    using assms(2) by (rule ResolveDecision_cases)
  have released: "cap_released cap" "dec_QuarantineReleased d"
    using resolveCapabilities_flags(2)[OF cap] make_decision_fields[OF md] assms(3,4) r(2) by auto
  then obtain c where c: "c \<in> set (rp_Items r)" "releases env db c"
    using resolveCapabilities_flags(1)[OF cap] by blast
  have "c \<in> expected_candidates env db email grp (if at0 \<le> 0 then now else at0)"
    using c(1) decision_candidates[OF assms(2)] r(2) by simp
  from releases_active[OF assms(1) this c(2)] show ?thesis
    using released(2) c r(2) by (auto simp: releases_def)
qed

theorem quarantine_released_only_by_active_release_witness:
  "dec_QuarantineReleased sample_decision \<and> (\<exists>t \<in> set (db_temporaries sample_db). t_Enabled t
     \<and> t_Scope t = ScopeQuarantineRelease \<and> activeAt 150 (t_StartsAt t) (t_ExpiresAt t))"
proof -
  have "\<exists>c \<in> set (dec_Candidates sample_decision). quarantines sample_env sample_db c"
  proof -
    have "k_PolicyID (hd (dec_Candidates sample_decision)) = 1" "dec_Candidates sample_decision \<noteq> []"
      by code_simp+
    then have "quarantines sample_env sample_db (hd (dec_Candidates sample_decision))"
      by (simp add: quarantines_def GetPolicy_def q_first_def sample_db_def sample_env_def)
    then show ?thesis using \<open>dec_Candidates sample_decision \<noteq> []\<close> by (meson hd_in_set)
  qed
  from quarantine_released_only_by_active_release[OF sample_db_ok _ this]
  show ?thesis using sample_decision_ok by fastforce
qed

text \<open>C3: A decision is made by its precedence-minimal candidate: the winner is one of the candidates
  that apply to the client, none of them precedes it, exactly the first explanation says it won,
  and the action is \<open>allow\<close> or \<open>deny\<close>.\<close>

theorem decision_winner_minimal:
  assumes "ResolveDecision env now db email grp at0 = Inr (Some d)"
  shows "dec_Winner d \<in> expected_candidates env db email grp (if at0 \<le> 0 then now else at0)
    \<and> (\<forall>c \<in> expected_candidates env db email grp (if at0 \<le> 0 then now else at0).
           \<not> candidate_less c (dec_Winner d))
    \<and> map ex_Won (dec_Explanations d) = True # replicate (length (dec_Candidates d) - 1) False
    \<and> dec_Action d \<in> {''allow'', ''deny''} \<and> dec_ClientEmail d = email"
proof (intro conjI)
  obtain r rest p spec cap where r: "Resolve env now db email grp at0 = Inr r"
    "rp_Items r = dec_Winner d # rest" "dec_Candidates d = rp_Items r"
    and md: "make_decision email grp (rp_Items r) (dec_Winner d) p spec cap = Inr (Some d)"
    using assms by (rule ResolveDecision_cases)
  obtain c1 c2 c3 where items: "rp_Items r = sortCandidates (c1 @ c2 @ c3)"
    using r(1)[unfolded Resolve_Inr] by auto
  have cands: "set (rp_Items r) = expected_candidates env db email grp (if at0 \<le> 0 then now else at0)"
    using decision_candidates[OF assms] r(3) by simp
  show "dec_Winner d \<in> expected_candidates env db email grp (if at0 \<le> 0 then now else at0)"
    using cands r(2) by auto
  have "\<not> candidate_less c (dec_Winner d)" if "c \<in> set (rp_Items r)" for c
  proof -
    have "c \<in> set (c1 @ c2 @ c3)"
      using that set_sort_stable[of candidate_less "c1 @ c2 @ c3"] by (simp add: items sortCandidates_def)
    from cand.hd_sort_stable_minimal[OF this] show ?thesis
      using r(2) by (simp add: items sortCandidates_def)
  qed
  then show "\<forall>c \<in> expected_candidates env db email grp (if at0 \<le> 0 then now else at0).
      \<not> candidate_less c (dec_Winner d)"
    using cands by simp
  show "map ex_Won (dec_Explanations d) = True # replicate (length (dec_Candidates d) - 1) False"
    unfolding make_decision_fields(5)[OF md] r(3) r(2)
    by (auto simp: explain_candidates_def in_set_enumerate_eq intro!: replicate_eqI)
  show "dec_Action d \<in> {''allow'', ''deny''}" "dec_ClientEmail d = email"
    using make_decision_fields(1,4)[OF md] by simp_all
qed


theorem decision_winner_minimal_witness:
  "k_Source (dec_Winner sample_decision) = ''temporary''
   \<and> \<not> candidate_less (assignment_candidate (hd (db_assignments sample_db)) (hd (db_policies sample_db)))
       (dec_Winner sample_decision)
   \<and> map ex_Won (dec_Explanations sample_decision) = [True, False, False]"
proof -
  note d = decision_winner_minimal[OF conjunct1[OF sample_decision_ok]]
  have "assignment_candidate (hd (db_assignments sample_db)) (hd (db_policies sample_db))
      \<in> set (dec_Candidates sample_decision)"
    by code_simp
  moreover have "set (dec_Candidates sample_decision) = expected_candidates sample_env sample_db ''alice'' ''staff'' 150"
    using decision_candidates[OF conjunct1[OF sample_decision_ok]] by simp
  moreover have "k_Source (dec_Winner sample_decision) = ''temporary''" by code_simp
  ultimately show ?thesis using d sample_decision_ok by (simp add: numeral_2_eq_2)
qed

lemma lookup_client_Inr:
  assumes "lookup_client db raw = Inr ys" "(email, c) \<in> set ys"
  shows "c \<in> set (db_clients db)" "cl_Email c = email" "email = trim_space raw" "email \<noteq> []"
  using assms by (auto simp: lookup_client_def Let_def dest!: q_first_InrD split: if_splits sum.splits)

lemma lookup_client_found:
  assumes "clients_uniq (db_clients db)" "c \<in> set (db_clients db)" "trim_space raw = cl_Email c" "cl_Email c \<noteq> []"
    "lookup_client db raw = Inr ys"
  shows "ys = [(cl_Email c, c)]"
proof -
  have "\<not> db_down db ''clients''"
    using assms(3,4,5) by (auto simp: lookup_client_def Let_def q_first_def)
  then have "q_first (db_down db ''clients'') (\<lambda>x. cl_Email x = cl_Email c) (db_clients db) = Inr c"
    using first_by_unique[of cl_Email "db_clients db" c] assms(1,2) by (simp add: clients_uniq_def)
  then show ?thesis using assms(3,4,5) by (simp add: lookup_client_def)
qed

lemma lookup_clients_mem:
  assumes uniq: "clients_uniq (db_clients db)" and cl: "collect (lookup_client db) emails = Inr clients"
  shows "(email, c) \<in> set clients \<longleftrightarrow> c \<in> set (db_clients db) \<and> cl_Email c = email
      \<and> email \<in> trim_space ` set emails \<and> email \<noteq> []"
proof
  assume "(email, c) \<in> set clients"
  then obtain raw ys where "raw \<in> set emails" "lookup_client db raw = Inr ys" "(email, c) \<in> set ys"
    using collect_set[OF cl] by blast
  then show "c \<in> set (db_clients db) \<and> cl_Email c = email \<and> email \<in> trim_space ` set emails \<and> email \<noteq> []"
    using lookup_client_Inr[of db raw ys email c] by blast
next
  assume r: "c \<in> set (db_clients db) \<and> cl_Email c = email \<and> email \<in> trim_space ` set emails \<and> email \<noteq> []"
  then obtain raw where raw: "raw \<in> set emails" "trim_space raw = email" by auto
  then obtain ys where ys: "lookup_client db raw = Inr ys" using cl unfolding collect_ok_iff by blast
  then have "(email, c) \<in> set ys" using raw r lookup_client_found[OF uniq, of c raw ys] by simp
  with ys raw(1) show "(email, c) \<in> set clients" unfolding collect_set[OF cl] by blast
qed

lemma map_of_rev_functional:
  assumes "\<And>b b'. (a, b) \<in> set xs \<Longrightarrow> (a, b') \<in> set xs \<Longrightarrow> b = b'"
  shows "map_of (rev xs) a = Some b \<longleftrightarrow> (a, b) \<in> set xs"
proof
  assume "(a, b) \<in> set xs"
  then obtain b' where "map_of (rev xs) a = Some b'"
    by (metis fst_conv image_eqI list.set_map map_of_eq_None_iff not_Some_eq set_rev)
  then show "map_of (rev xs) a = Some b" using assms \<open>(a, b) \<in> set xs\<close> by (metis map_of_SomeD set_rev)
qed (metis map_of_SomeD set_rev)

lemma client_decision_mem:
  assumes "map_of (rev clients) email = Some c \<longleftrightarrow> (email, c) \<in> set clients"
    and "client_decision env now db at clients email = Inr ys" "(email, c) \<in> set clients"
  shows "d \<in> set ys \<longleftrightarrow> ResolveDecision env now db (cl_Email c) (cl_Group c) at = Inr (Some d)"
    and "ys = [] \<or> (\<exists>y. ys = [y] \<and> dec_ClientEmail y = cl_Email c)"
proof -
  obtain od where od: "ResolveDecision env now db (cl_Email c) (cl_Group c) at = Inr od"
      "ys = (case od of None \<Rightarrow> [] | Some d \<Rightarrow> [d])"
    using assms by (auto simp: client_decision_def elim!: bind_resE)
  then show "d \<in> set ys \<longleftrightarrow> ResolveDecision env now db (cl_Email c) (cl_Group c) at = Inr (Some d)"
    by (auto split: option.splits)
  show "ys = [] \<or> (\<exists>y. ys = [y] \<and> dec_ClientEmail y = cl_Email c)"
    using od by (auto split: option.splits elim!: ResolveDecision_cases dest: make_decision_fields(1))
qed

text \<open>\<open>ResolveDecisions\<close> returns one decision per known client, in the order of the emails and
  without repetition: each decision is the client's own \<open>ResolveDecision\<close>, and no requested
  client with a decision is left out.\<close>

lemma ResolveDecisions_per_client:
  assumes uniq: "clients_uniq (db_clients db)" and run: "ResolveDecisions env now db emails at = Inr ds"
  shows "sorted (map dec_ClientEmail ds) \<and> distinct (map dec_ClientEmail ds)
    \<and> (\<forall>d. d \<in> set ds \<longleftrightarrow> (\<exists>c \<in> set (db_clients db). cl_Email c \<noteq> [] \<and> cl_Email c \<in> trim_space ` set emails
             \<and> ResolveDecision env now db (cl_Email c) (cl_Group c) at = Inr (Some d)))"
proof -
  obtain clients where cl: "collect (lookup_client db) emails = Inr clients"
    and ds: "collect (client_decision env now db at clients) (sorted_keys (map fst clients)) = Inr ds"
    using run unfolding ResolveDecisions_def by (rule bind_resE)
  note mem = lookup_clients_mem[OF uniq cl]
  have "c = c'" if "(e, c) \<in> set clients" "(e, c') \<in> set clients" for e c c'
    using that uniq by (auto simp: mem clients_uniq_def distinct_map dest: inj_onD)
  then have look: "map_of (rev clients) e = Some c \<longleftrightarrow> (e, c) \<in> set clients" for e c
    by (intro map_of_rev_functional)
  have keys: "ys = [] \<or> (\<exists>y. ys = [y] \<and> dec_ClientEmail y = e)"
    if "e \<in> set (sorted_keys (map fst clients))" "client_decision env now db at clients e = Inr ys" for e ys
  proof -
    from that(1) obtain c where "(e, c) \<in> set clients" by auto
    then show ?thesis using client_decision_mem(2)[OF look that(2)] mem by metis
  qed
  have "map dec_ClientEmail ds
      = filter (\<lambda>x. client_decision env now db at clients x \<noteq> Inr []) (sorted_keys (map fst clients))"
    by (rule collect_keys[OF ds keys])
  then have "sorted (map dec_ClientEmail ds)" "distinct (map dec_ClientEmail ds)"
    by (simp_all add: sorted_filter[of id, simplified])
  moreover have "d \<in> set ds \<longleftrightarrow> (\<exists>e c. (e, c) \<in> set clients
      \<and> ResolveDecision env now db (cl_Email c) (cl_Group c) at = Inr (Some d))" for d
  proof -
    have dec: "\<exists>ys. client_decision env now db at clients e = Inr ys" if "(e, c) \<in> set clients" for e c
      using ds that unfolding collect_ok_iff by force
    have "d \<in> set ds \<longleftrightarrow> (\<exists>e c. (e, c) \<in> set clients
        \<and> (\<exists>ys. client_decision env now db at clients e = Inr ys \<and> d \<in> set ys))"
      using collect_set[OF ds, of d] by auto
    also have "\<dots> \<longleftrightarrow> (\<exists>e c. (e, c) \<in> set clients
        \<and> ResolveDecision env now db (cl_Email c) (cl_Group c) at = Inr (Some d))"
      using dec client_decision_mem(1)[OF look] by meson
    finally show ?thesis .
  qed
  ultimately show ?thesis unfolding mem by blast
qed

end
