(* ===== verification/Policy_API.thy ===== *)
theory Policy_API
  imports Policy_Decision
begin

text \<open>
  The HTTP handlers of the policy package, \<open>src/internal/policy/api.go\<close>. The package state is the
  repository pointer and the \<open>enabled\<close> flag that \<open>Configure\<close> sets; the database the repository
  works on is \<open>policy_db\<close>. A handler takes the package state, the part of the request it reads
  and the database, and returns its answer with the database after it. Routing, the decoding of
  the JSON body (\<open>ShouldBindJSON\<close>, \<open>None\<close> is a decoding error) and the encoding of the answer are
  the web framework's. A handler asks the clock twice, in the repository (\<open>ae_now\<close>) and for its
  answer (\<open>ae_after\<close>); \<open>ae_nid\<close> is the key the database assigns and \<open>ae_text\<close> renders an error.
\<close>

section \<open>Package state\<close>

record policy_state =
  ps_repo :: bool
  ps_enabled :: bool

definition policy_Configure :: "bool \<Rightarrow> bool \<Rightarrow> policy_state \<Rightarrow> policy_state" where
  "policy_Configure has_db enabled st =
     (let st = st\<lparr>ps_enabled := enabled \<and> has_db\<rparr>
      in if ps_enabled st then st\<lparr>ps_repo := True\<rparr> else st\<lparr>ps_repo := False\<rparr>)"

definition policy_Enabled :: "policy_state \<Rightarrow> bool" where
  "policy_Enabled st = ps_enabled st"

definition current :: "policy_state \<Rightarrow> bool \<times> bool" where
  "current st = (ps_repo st, ps_enabled st)"

definition ResolveCurrent ::
  "policy_env \<Rightarrow> int \<Rightarrow> policy_state \<Rightarrow> policy_db \<Rightarrow> string list \<Rightarrow> int \<Rightarrow> decision list res" where
  "ResolveCurrent env now st db emails at =
     (if \<not> snd (current st) then Inr [] else ResolveDecisions env now db emails at)"

definition ResolveCurrentDecision ::
  "policy_env \<Rightarrow> int \<Rightarrow> policy_state \<Rightarrow> policy_db \<Rightarrow> string \<Rightarrow> string \<Rightarrow> int \<Rightarrow> decision option res" where
  "ResolveCurrentDecision env now st db clientEmail groupName at =
     (if \<not> snd (current st) then Inr None else ResolveDecision env now db clientEmail groupName at)"

section \<open>Requests and answers\<close>

record api_env =
  ae_env :: policy_env
  ae_now :: int
  ae_after :: int
  ae_nid :: nat
  ae_text :: "go_error \<Rightarrow> string"

record schedule_view =
  sw_row :: schedule_row
  sw_active :: bool
  sw_nextActiveAt :: int

text \<open>The values of \<open>obj\<close>. The items of a list and the result of \<open>resolve\<close> carry the flag \<open>enabled\<close>.\<close>

datatype reply_obj =
    StatusObj bool
  | PolicyObj policy_row | AssignmentObj assignment_row | OverrideObj override_row
  | TemporaryObj temporary_row | ScheduleObj schedule_view | Deleted nat
  | PolicyItems bool "policy_row list" | AssignmentItems bool "assignment_row list"
  | OverrideItems bool "override_row list" | TemporaryItems bool "temporary_row list"
  | ScheduleItems bool "schedule_view list" | NoResolution | Resolved resolved_policy

datatype reply = Response reply_obj | Fail nat string

definition unavailable :: reply where
  "unavailable = Fail 409 ''policies are disabled''"

definition parseID :: "string \<Rightarrow> reply + nat" where
  "parseID param =
     (case parse_uint32 param of
        None \<Rightarrow> Inl (Fail 400 ''invalid id'')
      | Some n \<Rightarrow> if n = 0 then Inl (Fail 400 ''invalid id'') else Inr n)"

definition repoOrUnavailable :: "policy_state \<Rightarrow> reply + unit" where
  "repoOrUnavailable st = (if \<not> snd (current st) then Inl unavailable else Inr ())"

definition mapError :: "api_env \<Rightarrow> go_error \<Rightarrow> reply" where
  "mapError ae e =
     (if e = ErrRecordNotFound then Fail 404 ''not found'' else Fail 400 (ae_text ae e))"

text \<open>\<open>if err != nil \<dots> return\<close> around the parts of a handler: the first failure is the answer.\<close>

definition guarded :: "reply + 'a \<Rightarrow> ('a \<Rightarrow> policy_db \<Rightarrow> reply \<times> policy_db) \<Rightarrow> policy_db \<Rightarrow> reply \<times> policy_db" where
  "guarded g k db = (case g of Inl r \<Rightarrow> (r, db) | Inr a \<Rightarrow> k a db)"

definition bound :: "string \<Rightarrow> 'a option \<Rightarrow> reply + 'a" where
  "bound msg body = (case body of None \<Rightarrow> Inl (Fail 400 msg) | Some a \<Rightarrow> Inr a)"

text \<open>A call that changes the repository, then the answer; a call that reads it.\<close>

definition changed :: "api_env \<Rightarrow> policy_db res \<Rightarrow> reply_obj \<Rightarrow> policy_db \<Rightarrow> reply \<times> policy_db" where
  "changed ae r obj db = (case r of Inl e \<Rightarrow> (mapError ae e, db) | Inr db' \<Rightarrow> (Response obj, db'))"

definition got :: "api_env \<Rightarrow> 'a res \<Rightarrow> ('a \<Rightarrow> reply_obj) \<Rightarrow> policy_db \<Rightarrow> reply \<times> policy_db" where
  "got ae r obj db = (case r of Inl e \<Rightarrow> (mapError ae e, db) | Inr a \<Rightarrow> (Response (obj a), db))"

definition listed :: "policy_state \<Rightarrow> 'a list res \<Rightarrow> (bool \<Rightarrow> 'a list \<Rightarrow> reply_obj) \<Rightarrow> reply" where
  "listed st rows items =
     (if \<not> snd (current st) then Response (items False [])
      else case rows of Inl e \<Rightarrow> Fail 500 ''policy data unavailable'' | Inr rs \<Rightarrow> Response (items True rs))"

definition or_default :: "'a \<Rightarrow> 'a option \<Rightarrow> 'a" where
  "or_default d x = (case x of None \<Rightarrow> d | Some v \<Rightarrow> v)"

section \<open>Inputs\<close>

record policyInput =
  pi_Name :: string
  pi_Description :: string
  pi_Spec :: string
  pi_Priority :: "int option"
  pi_Enabled :: "bool option"

definition policyInput_model :: "nat \<Rightarrow> policyInput \<Rightarrow> policy_row" where
  "policyInput_model pid inp =
     \<lparr>p_ID = pid, p_Name = pi_Name inp, p_Description = pi_Description inp,
      p_Spec = (if pi_Spec inp = [] then ''{}'' else pi_Spec inp),
      p_Priority = or_default 0 (pi_Priority inp), p_Enabled = or_default True (pi_Enabled inp),
      p_CreatedAt = 0, p_UpdatedAt = 0\<rparr>"

record assignmentInput =
  ai_PolicyID :: nat
  ai_TargetType :: string
  ai_TargetRef :: string
  ai_Priority :: int
  ai_Enabled :: "bool option"

definition assignment_from :: "nat \<Rightarrow> assignmentInput \<Rightarrow> assignment_row" where
  "assignment_from aid inp =
     \<lparr>a_ID = aid, a_PolicyID = ai_PolicyID inp, a_TargetType = ai_TargetType inp,
      a_TargetRef = ai_TargetRef inp, a_Priority = ai_Priority inp,
      a_Enabled = or_default True (ai_Enabled inp), a_CreatedAt = 0, a_UpdatedAt = 0\<rparr>"

record overrideInput =
  oi_PolicyID :: nat
  oi_TargetType :: string
  oi_TargetRef :: string
  oi_Scope :: string
  oi_Value :: string
  oi_Priority :: int
  oi_Enabled :: "bool option"

definition override_from :: "nat \<Rightarrow> overrideInput \<Rightarrow> override_row" where
  "override_from oid inp =
     \<lparr>o_ID = oid, o_PolicyID = oi_PolicyID inp, o_TargetType = oi_TargetType inp,
      o_TargetRef = oi_TargetRef inp, o_Scope = oi_Scope inp, o_Value = oi_Value inp,
      o_Priority = oi_Priority inp, o_Enabled = or_default True (oi_Enabled inp),
      o_CreatedAt = 0, o_UpdatedAt = 0\<rparr>"

record temporaryInput =
  ti_PolicyID :: nat
  ti_TargetType :: string
  ti_TargetRef :: string
  ti_Scope :: string
  ti_Value :: string
  ti_Priority :: int
  ti_StartsAt :: int
  ti_ExpiresAt :: int
  ti_Enabled :: "bool option"

definition temporary_from :: "nat \<Rightarrow> temporaryInput \<Rightarrow> temporary_row" where
  "temporary_from tid inp =
     \<lparr>t_ID = tid, t_PolicyID = ti_PolicyID inp, t_TargetType = ti_TargetType inp,
      t_TargetRef = ti_TargetRef inp, t_Scope = ti_Scope inp, t_Value = ti_Value inp,
      t_Priority = ti_Priority inp, t_StartsAt = ti_StartsAt inp, t_ExpiresAt = ti_ExpiresAt inp,
      t_Enabled = or_default True (ti_Enabled inp), t_CreatedAt = 0, t_UpdatedAt = 0\<rparr>"

record scheduleInput =
  si_PolicyID :: nat
  si_Timezone :: string
  si_Weekdays :: string
  si_StartMinute :: int
  si_EndMinute :: int
  si_Enabled :: "bool option"

definition scheduleFromInput :: "scheduleInput \<Rightarrow> nat \<Rightarrow> schedule_row" where
  "scheduleFromInput inp sid =
     \<lparr>s_ID = sid, s_PolicyID = si_PolicyID inp, s_Timezone = si_Timezone inp,
      s_Weekdays = si_Weekdays inp, s_StartMinute = si_StartMinute inp, s_EndMinute = si_EndMinute inp,
      s_Enabled = or_default True (si_Enabled inp), s_CreatedAt = 0, s_UpdatedAt = 0\<rparr>"

definition scheduleResponse :: "policy_env \<Rightarrow> schedule_row \<Rightarrow> int \<Rightarrow> schedule_view" where
  "scheduleResponse env s at =
     (case ScheduleState env s at of (active, next_at) \<Rightarrow>
        \<lparr>sw_row = s, sw_active = active, sw_nextActiveAt = next_at\<rparr>)"

text \<open>
  What the repository leaves in the row it is given by pointer. Validation rewrites a policy's
  name and document and a schedule's weekdays; \<open>Create\<close> fills a zero key and zero time
  stamps, \<open>Updates\<close> on a fresh model changes nothing of it.
\<close>

definition validated :: "'r res \<Rightarrow> 'r \<Rightarrow> 'r" where
  "validated v r = (case v of Inl _ \<Rightarrow> r | Inr q \<Rightarrow> q)"

definition stored_policy :: "api_env \<Rightarrow> policy_row \<Rightarrow> policy_row" where
  "stored_policy ae p =
     (let q = p\<lparr>p_CreatedAt := stamp (ae_now ae) (p_CreatedAt p), p_UpdatedAt := stamp (ae_now ae) (p_UpdatedAt p)\<rparr>
      in if p_ID q = 0 then q\<lparr>p_ID := ae_nid ae\<rparr> else q)"

definition stored_assignment :: "api_env \<Rightarrow> assignment_row \<Rightarrow> assignment_row" where
  "stored_assignment ae a =
     (let q = a\<lparr>a_CreatedAt := stamp (ae_now ae) (a_CreatedAt a), a_UpdatedAt := stamp (ae_now ae) (a_UpdatedAt a)\<rparr>
      in if a_ID q = 0 then q\<lparr>a_ID := ae_nid ae\<rparr> else q)"

definition stored_override :: "api_env \<Rightarrow> override_row \<Rightarrow> override_row" where
  "stored_override ae ov =
     (let q = ov\<lparr>o_CreatedAt := stamp (ae_now ae) (o_CreatedAt ov), o_UpdatedAt := stamp (ae_now ae) (o_UpdatedAt ov)\<rparr>
      in if o_ID q = 0 then q\<lparr>o_ID := ae_nid ae\<rparr> else q)"

definition stored_temporary :: "api_env \<Rightarrow> temporary_row \<Rightarrow> temporary_row" where
  "stored_temporary ae ov =
     (let q = ov\<lparr>t_CreatedAt := stamp (ae_now ae) (t_CreatedAt ov), t_UpdatedAt := stamp (ae_now ae) (t_UpdatedAt ov)\<rparr>
      in if t_ID q = 0 then q\<lparr>t_ID := ae_nid ae\<rparr> else q)"

definition stored_schedule :: "api_env \<Rightarrow> schedule_row \<Rightarrow> schedule_row" where
  "stored_schedule ae s =
     (let q = s\<lparr>s_CreatedAt := stamp (ae_now ae) (s_CreatedAt s), s_UpdatedAt := stamp (ae_now ae) (s_UpdatedAt s)\<rparr>
      in if s_ID q = 0 then q\<lparr>s_ID := ae_nid ae\<rparr> else q)"

section \<open>Policies\<close>

type_synonym handler = "policy_db \<Rightarrow> reply \<times> policy_db"

definition listPolicies_route :: "policy_state \<Rightarrow> handler" where
  "listPolicies_route st db = (listed st (ListPolicies db) PolicyItems, db)"

definition createPolicy :: "api_env \<Rightarrow> policy_state \<Rightarrow> policyInput option \<Rightarrow> handler" where
  "createPolicy ae st body =
     guarded (repoOrUnavailable st) (\<lambda>_.
     guarded (bound ''invalid policy'' body) (\<lambda>inp db.
       let p = policyInput_model 0 inp in
       changed ae (CreatePolicy (ae_env ae) (ae_now ae) (ae_nid ae) p db)
         (PolicyObj (stored_policy ae (validated (validatePolicy (ae_env ae) p) p))) db))"

definition getPolicy :: "api_env \<Rightarrow> policy_state \<Rightarrow> string \<Rightarrow> handler" where
  "getPolicy ae st param =
     guarded (repoOrUnavailable st) (\<lambda>_.
     guarded (parseID param) (\<lambda>pid db. got ae (GetPolicy db pid) PolicyObj db))"

definition updatePolicy :: "api_env \<Rightarrow> policy_state \<Rightarrow> string \<Rightarrow> policyInput option \<Rightarrow> handler" where
  "updatePolicy ae st param body =
     guarded (repoOrUnavailable st) (\<lambda>_.
     guarded (parseID param) (\<lambda>pid.
     guarded (bound ''invalid policy'' body) (\<lambda>inp db.
       let p = policyInput_model pid inp in
       changed ae (UpdatePolicy (ae_env ae) (ae_now ae) p db)
         (PolicyObj (validated (validatePolicy (ae_env ae) p) p)) db)))"

definition deletePolicy :: "api_env \<Rightarrow> policy_state \<Rightarrow> string \<Rightarrow> handler" where
  "deletePolicy ae st param =
     guarded (repoOrUnavailable st) (\<lambda>_.
     guarded (parseID param) (\<lambda>pid db. changed ae (DeletePolicy pid db) (Deleted pid) db))"

section \<open>Assignments\<close>

definition createAssignment :: "api_env \<Rightarrow> policy_state \<Rightarrow> assignmentInput option \<Rightarrow> handler" where
  "createAssignment ae st body =
     guarded (repoOrUnavailable st) (\<lambda>_.
     guarded (bound ''invalid assignment'' body) (\<lambda>inp db.
       let a = assignment_from 0 inp in
       changed ae (CreateAssignment (ae_now ae) (ae_nid ae) a db) (AssignmentObj (stored_assignment ae a)) db))"

definition listAssignments :: "policy_state \<Rightarrow> handler" where
  "listAssignments st db = (listed st (ListAssignments db) AssignmentItems, db)"

definition deleteAssignment :: "api_env \<Rightarrow> policy_state \<Rightarrow> string \<Rightarrow> handler" where
  "deleteAssignment ae st param =
     guarded (repoOrUnavailable st) (\<lambda>_.
     guarded (parseID param) (\<lambda>aid db. changed ae (DeleteAssignment aid db) (Deleted aid) db))"

definition updateAssignment :: "api_env \<Rightarrow> policy_state \<Rightarrow> string \<Rightarrow> assignmentInput option \<Rightarrow> handler" where
  "updateAssignment ae st param body =
     guarded (repoOrUnavailable st) (\<lambda>_.
     guarded (parseID param) (\<lambda>aid.
     guarded (bound ''invalid assignment'' body) (\<lambda>inp db.
       let a = assignment_from aid inp in
       changed ae (UpdateAssignment (ae_now ae) a db) (AssignmentObj a) db)))"

section \<open>Overrides\<close>

definition createOverride :: "api_env \<Rightarrow> policy_state \<Rightarrow> overrideInput option \<Rightarrow> handler" where
  "createOverride ae st body =
     guarded (repoOrUnavailable st) (\<lambda>_.
     guarded (bound ''invalid override'' body) (\<lambda>inp db.
       let ov = override_from 0 inp in
       changed ae (CreateOverride (ae_env ae) (ae_now ae) (ae_nid ae) ov db) (OverrideObj (stored_override ae ov)) db))"

definition listOverrides :: "policy_state \<Rightarrow> handler" where
  "listOverrides st db = (listed st (ListOverrides db) OverrideItems, db)"

definition deleteOverride :: "api_env \<Rightarrow> policy_state \<Rightarrow> string \<Rightarrow> handler" where
  "deleteOverride ae st param =
     guarded (repoOrUnavailable st) (\<lambda>_.
     guarded (parseID param) (\<lambda>oid db. changed ae (DeleteOverride oid db) (Deleted oid) db))"

definition updateOverride :: "api_env \<Rightarrow> policy_state \<Rightarrow> string \<Rightarrow> overrideInput option \<Rightarrow> handler" where
  "updateOverride ae st param body =
     guarded (repoOrUnavailable st) (\<lambda>_.
     guarded (parseID param) (\<lambda>oid.
     guarded (bound ''invalid override'' body) (\<lambda>inp db.
       let ov = override_from oid inp in
       changed ae (UpdateOverride (ae_env ae) (ae_now ae) ov db) (OverrideObj ov) db)))"

section \<open>Temporary overrides\<close>

definition createTemporary :: "api_env \<Rightarrow> policy_state \<Rightarrow> temporaryInput option \<Rightarrow> handler" where
  "createTemporary ae st body =
     guarded (repoOrUnavailable st) (\<lambda>_.
     guarded (bound ''invalid temporary override'' body) (\<lambda>inp db.
       let ov = temporary_from 0 inp in
       changed ae (CreateTemporaryOverride (ae_env ae) (ae_now ae) (ae_nid ae) ov db)
         (TemporaryObj (stored_temporary ae ov)) db))"

definition listTemporary :: "api_env \<Rightarrow> policy_state \<Rightarrow> handler" where
  "listTemporary ae st db = (listed st (ListTemporaryOverrides db (ae_now ae)) TemporaryItems, db)"

definition deleteTemporary :: "api_env \<Rightarrow> policy_state \<Rightarrow> string \<Rightarrow> handler" where
  "deleteTemporary ae st param =
     guarded (repoOrUnavailable st) (\<lambda>_.
     guarded (parseID param) (\<lambda>tid db. changed ae (DeleteTemporaryOverride tid db) (Deleted tid) db))"

definition updateTemporary :: "api_env \<Rightarrow> policy_state \<Rightarrow> string \<Rightarrow> temporaryInput option \<Rightarrow> handler" where
  "updateTemporary ae st param body =
     guarded (repoOrUnavailable st) (\<lambda>_.
     guarded (parseID param) (\<lambda>tid.
     guarded (bound ''invalid temporary override'' body) (\<lambda>inp db.
       let ov = temporary_from tid inp in
       changed ae (UpdateTemporaryOverride (ae_env ae) (ae_now ae) ov db) (TemporaryObj ov) db)))"

section \<open>Schedules\<close>

definition listSchedules :: "api_env \<Rightarrow> policy_state \<Rightarrow> handler" where
  "listSchedules ae st db =
     (listed st
        (case ListSchedules db of Inl e \<Rightarrow> Inl e
         | Inr rows \<Rightarrow> Inr (map (\<lambda>row. scheduleResponse (ae_env ae) row (ae_after ae)) rows)) ScheduleItems, db)"

definition createSchedule :: "api_env \<Rightarrow> policy_state \<Rightarrow> scheduleInput option \<Rightarrow> handler" where
  "createSchedule ae st body =
     guarded (repoOrUnavailable st) (\<lambda>_.
     guarded (bound ''invalid schedule'' body) (\<lambda>inp db.
       let s = scheduleFromInput inp 0 in
       changed ae (CreateSchedule (ae_env ae) (ae_now ae) (ae_nid ae) (Some s) db)
         (ScheduleObj (scheduleResponse (ae_env ae)
            (stored_schedule ae (validated (validateSchedule (ae_env ae) (Some s)) s)) (ae_after ae))) db))"

definition getSchedule :: "api_env \<Rightarrow> policy_state \<Rightarrow> string \<Rightarrow> handler" where
  "getSchedule ae st param =
     guarded (repoOrUnavailable st) (\<lambda>_.
     guarded (parseID param) (\<lambda>sid db.
       got ae (GetSchedule db sid) (\<lambda>s. ScheduleObj (scheduleResponse (ae_env ae) s (ae_after ae))) db))"

definition updateSchedule :: "api_env \<Rightarrow> policy_state \<Rightarrow> string \<Rightarrow> scheduleInput option \<Rightarrow> handler" where
  "updateSchedule ae st param body =
     guarded (repoOrUnavailable st) (\<lambda>_.
     guarded (parseID param) (\<lambda>sid.
     guarded (bound ''invalid schedule'' body) (\<lambda>inp db.
       let s = scheduleFromInput inp sid in
       changed ae (UpdateSchedule (ae_env ae) (ae_now ae) (Some s) db)
         (ScheduleObj (scheduleResponse (ae_env ae) (validated (validateSchedule (ae_env ae) (Some s)) s) (ae_after ae))) db)))"

definition deleteSchedule :: "api_env \<Rightarrow> policy_state \<Rightarrow> string \<Rightarrow> handler" where
  "deleteSchedule ae st param =
     guarded (repoOrUnavailable st) (\<lambda>_.
     guarded (parseID param) (\<lambda>sid db. changed ae (DeleteSchedule sid db) (Deleted sid) db))"

section \<open>Resolution\<close>

definition resolve_at :: "string \<Rightarrow> reply + int" where
  "resolve_at raw =
     (if raw = [] then Inr 0
      else case atoi raw of
             None \<Rightarrow> Inl (Fail 400 ''invalid at'')
           | Some at \<Rightarrow> if at \<le> 0 then Inl (Fail 400 ''invalid at'') else Inr at)"

definition resolve :: "api_env \<Rightarrow> policy_state \<Rightarrow> string \<Rightarrow> string \<Rightarrow> string \<Rightarrow> handler" where
  "resolve ae st at_param email grp db =
     (if \<not> snd (current st) then (Response NoResolution, db)
      else guarded (resolve_at at_param) (\<lambda>at db.
        (case Resolve (ae_env ae) (ae_now ae) db email grp at of
           Inl e \<Rightarrow> (Fail 500 ''policy data unavailable'', db)
         | Inr result \<Rightarrow> (Response (Resolved result), db))) db)"

text \<open>\<open>RegisterRoutes\<close>: one constructor per route, and the handler it is bound to.\<close>

datatype request =
    GetStatus | GetPolicies | PostPolicy "policyInput option" | GetPolicyByID string
  | PutPolicy string "policyInput option" | DelPolicy string
  | GetAssignments | PostAssignment "assignmentInput option" | DelAssignment string
  | PutAssignment string "assignmentInput option"
  | GetOverrides | PostOverride "overrideInput option" | DelOverride string
  | PutOverride string "overrideInput option"
  | GetTemporaries | PostTemporary "temporaryInput option" | DelTemporary string
  | PutTemporary string "temporaryInput option"
  | GetSchedules | PostSchedule "scheduleInput option" | GetScheduleByID string
  | PutSchedule string "scheduleInput option" | DelSchedule string
  | GetResolve string string string

fun serve :: "api_env \<Rightarrow> policy_state \<Rightarrow> request \<Rightarrow> handler" where
  "serve ae st GetStatus = (\<lambda>db. (Response (StatusObj (policy_Enabled st)), db))"
| "serve ae st GetPolicies = listPolicies_route st"
| "serve ae st (PostPolicy body) = createPolicy ae st body"
| "serve ae st (GetPolicyByID pid) = getPolicy ae st pid"
| "serve ae st (PutPolicy pid body) = updatePolicy ae st pid body"
| "serve ae st (DelPolicy pid) = deletePolicy ae st pid"
| "serve ae st GetAssignments = listAssignments st"
| "serve ae st (PostAssignment body) = createAssignment ae st body"
| "serve ae st (DelAssignment aid) = deleteAssignment ae st aid"
| "serve ae st (PutAssignment aid body) = updateAssignment ae st aid body"
| "serve ae st GetOverrides = listOverrides st"
| "serve ae st (PostOverride body) = createOverride ae st body"
| "serve ae st (DelOverride oid) = deleteOverride ae st oid"
| "serve ae st (PutOverride oid body) = updateOverride ae st oid body"
| "serve ae st GetTemporaries = listTemporary ae st"
| "serve ae st (PostTemporary body) = createTemporary ae st body"
| "serve ae st (DelTemporary tid) = deleteTemporary ae st tid"
| "serve ae st (PutTemporary tid body) = updateTemporary ae st tid body"
| "serve ae st GetSchedules = listSchedules ae st"
| "serve ae st (PostSchedule body) = createSchedule ae st body"
| "serve ae st (GetScheduleByID sid) = getSchedule ae st sid"
| "serve ae st (PutSchedule sid body) = updateSchedule ae st sid body"
| "serve ae st (DelSchedule sid) = deleteSchedule ae st sid"
| "serve ae st (GetResolve at email grp) = resolve ae st at email grp"

fun changing :: "request \<Rightarrow> bool" where
  "changing (PostPolicy _) = True" | "changing (PutPolicy _ _) = True" | "changing (DelPolicy _) = True"
| "changing (PostAssignment _) = True" | "changing (PutAssignment _ _) = True" | "changing (DelAssignment _) = True"
| "changing (PostOverride _) = True" | "changing (PutOverride _ _) = True" | "changing (DelOverride _) = True"
| "changing (PostTemporary _) = True" | "changing (PutTemporary _ _) = True" | "changing (DelTemporary _) = True"
| "changing (PostSchedule _) = True" | "changing (PutSchedule _ _) = True" | "changing (DelSchedule _) = True"
| "changing _ = False"

section \<open>What a request can do\<close>

text \<open>An answered request leaves the repository alone, or it succeeded with one step of the repository.\<close>

definition effect_ok :: "policy_env \<Rightarrow> policy_state \<Rightarrow> policy_db \<Rightarrow> reply \<times> policy_db \<Rightarrow> bool" where
  "effect_ok env st db out \<longleftrightarrow>
     snd out = db \<or> ps_enabled st \<and> (\<exists>obj. fst out = Response obj) \<and> policy_step env db (snd out)"

lemma repo_available [simp]: "repoOrUnavailable st = Inr u \<longleftrightarrow> ps_enabled st"
  by (simp add: repoOrUnavailable_def current_def)

lemma effect_guarded:
  "(\<And>a. g = Inr a \<Longrightarrow> effect_ok env st db (k a db)) \<Longrightarrow> effect_ok env st db (guarded g k db)"
  by (auto simp: guarded_def effect_ok_def split: sum.split)

lemma effect_changed:
  "ps_enabled st \<Longrightarrow> (\<And>db'. r = Inr db' \<Longrightarrow> policy_step env db db') \<Longrightarrow> effect_ok env st db (changed ae r obj db)"
  by (auto simp: changed_def effect_ok_def split: sum.split)

lemma effect_read:
  "effect_ok env st db (got ae r obj' db)" "effect_ok env st db (q, db)"
  by (auto simp: got_def effect_ok_def split: sum.split)

lemmas handler_defs = listPolicies_route_def createPolicy_def getPolicy_def updatePolicy_def deletePolicy_def
  createAssignment_def listAssignments_def deleteAssignment_def updateAssignment_def
  createOverride_def listOverrides_def deleteOverride_def updateOverride_def
  createTemporary_def listTemporary_def deleteTemporary_def updateTemporary_def
  listSchedules_def createSchedule_def getSchedule_def updateSchedule_def deleteSchedule_def

lemma resolve_effect: "snd (resolve ae st at_param email grp db) = db"
  by (auto simp: resolve_def guarded_def split: sum.splits)

lemma serve_effect:
  assumes "ae_env ae = env"
  shows "effect_ok env st db (serve ae st req db)"
proof (cases req)
  case (GetResolve at email grp)
  then show ?thesis by (simp add: effect_ok_def resolve_effect)
qed (auto simp: handler_defs Let_def assms intro!: effect_guarded effect_changed effect_read
    intro: policy_step.intros)

text \<open>A request that may change the repository is refused while the package is disabled.\<close>

lemma disabled_refuses: "\<not> ps_enabled st \<Longrightarrow> changing req \<Longrightarrow> serve ae st req db = (unavailable, db)"
  by (cases req) (simp_all add: handler_defs guarded_def repoOrUnavailable_def current_def)

lemma reading_keeps: "\<not> changing req \<Longrightarrow> snd (serve ae st req db) = db"
  by (cases req)
    (auto simp: handler_defs guarded_def got_def resolve_effect split: sum.split)

section \<open>The package as a machine\<close>

text \<open>The panel configures the package, serves requests, and the rest of the panel changes the clients.\<close>

inductive api_reachable :: "policy_env \<Rightarrow> policy_state \<Rightarrow> policy_db \<Rightarrow> bool" for env where
  start: "api_reachable env \<lparr>ps_repo = False, ps_enabled = False\<rparr>
     \<lparr>db_policies = [], db_assignments = [], db_overrides = [], db_temporaries = [], db_schedules = [],
      db_clients = cs, db_groups = gs, db_down = f\<rparr>"
| configure: "api_reachable env st db \<Longrightarrow> api_reachable env (policy_Configure has_db enabled st) db"
| request: "api_reachable env st db \<Longrightarrow> ae_env ae = env \<Longrightarrow> api_reachable env st (snd (serve ae st req db))"
| panel: "api_reachable env st db \<Longrightarrow> api_reachable env st (db\<lparr>db_clients := cs, db_groups := gs, db_down := f\<rparr>)"

lemma api_reachable_policy: "api_reachable env st db \<Longrightarrow> policy_reachable env db \<and> ps_repo st = ps_enabled st"
proof (induction rule: api_reachable.induct)
  case (start cs gs f)
  then show ?case by (simp add: policy_reachable.initial)
next
  case (configure st db has_db enabled)
  then show ?case by (simp add: policy_Configure_def Let_def)
next
  case (request st db ae req)
  then show ?case
    using serve_effect[OF request.hyps(2), of st db req] by (auto simp: effect_ok_def intro: policy_reachable.step)
next
  case (panel st db cs gs f)
  then show ?case using policy_reachable.step policy_step.clients_change by blast
qed


definition one_policy_api :: api_env where
  "one_policy_api = \<lparr>ae_env = one_policy_env, ae_now = 5, ae_after = 6, ae_nid = 1, ae_text = (\<lambda>e. [])\<rparr>"

definition base_policy :: policyInput where
  "base_policy = \<lparr>pi_Name = '' base '', pi_Description = [], pi_Spec = [], pi_Priority = Some 7, pi_Enabled = None\<rparr>"

abbreviation enabled_api :: policy_state where
  "enabled_api \<equiv> \<lparr>ps_repo = True, ps_enabled = True\<rparr>"

lemma one_policy_served:
  "fst (serve one_policy_api enabled_api (PostPolicy (Some base_policy)) one_policy_start) =
     Response (PolicyObj \<lparr>p_ID = 1, p_Name = ''base'', p_Description = [], p_Spec = ''{}'', p_Priority = 7,
       p_Enabled = True, p_CreatedAt = 5, p_UpdatedAt = 5\<rparr>)"
  "map p_Name (db_policies (snd (serve one_policy_api enabled_api (PostPolicy (Some base_policy)) one_policy_start))) = [''base'']"
  by code_simp+

lemma one_policy_api_reachable: "api_reachable one_policy_env enabled_api one_policy_start"
proof -
  have "api_reachable one_policy_env (policy_Configure True True \<lparr>ps_repo = False, ps_enabled = False\<rparr>) one_policy_start"
    unfolding one_policy_start_def by (rule api_reachable.configure[OF api_reachable.start])
  then show ?thesis by (simp add: policy_Configure_def Let_def)
qed


section \<open>Reading back what was created\<close>

lemma parseID_print: "0 < n \<Longrightarrow> n < 4294967296 \<Longrightarrow> parseID (nat_to_dec n) = Inr n"
  by (simp add: parseID_def parse_uint32_def)

lemma createPolicy_cases:
  assumes "createPolicy ae st body db = (Response obj, db')"
  obtains inp q rows where "ps_enabled st" "body = Some inp"
    "validatePolicy (ae_env ae) (policyInput_model 0 inp) = Inr q" "p_ID q = 0"
    "obj = PolicyObj (stored_policy ae q)" "db' = db\<lparr>db_policies := rows\<rparr>"
    "q_create (db_down db ''fork_policies'') p_ID (\<lambda>n r. r\<lparr>p_ID := n\<rparr>) policies_uniq (ae_nid ae)
       (q\<lparr>p_CreatedAt := stamp (ae_now ae) (p_CreatedAt q), p_UpdatedAt := stamp (ae_now ae) (p_UpdatedAt q)\<rparr>)
       (db_policies db) = Inr rows"
proof -
  obtain inp where inp: "ps_enabled st" "body = Some inp"
    using assms by (auto simp: createPolicy_def guarded_def bound_def unavailable_def repoOrUnavailable_def current_def
        split: if_splits option.splits)
  define p where "p = policyInput_model 0 inp"
  have out: "changed ae (CreatePolicy (ae_env ae) (ae_now ae) (ae_nid ae) p db)
      (PolicyObj (stored_policy ae (validated (validatePolicy (ae_env ae) p) p))) db = (Response obj, db')"
    using assms inp by (simp add: createPolicy_def guarded_def bound_def repoOrUnavailable_def current_def p_def Let_def)
  then obtain q where q: "validatePolicy (ae_env ae) p = Inr q"
    by (auto simp: changed_def CreatePolicy_def mapError_def split: sum.splits if_splits)
  then have "p_ID q = 0" using validatePolicy_ok(1)[OF q] by (simp add: p_def policyInput_model_def)
  moreover obtain rows where "db' = db\<lparr>db_policies := rows\<rparr>" "obj = PolicyObj (stored_policy ae q)"
    "q_create (db_down db ''fork_policies'') p_ID (\<lambda>n r. r\<lparr>p_ID := n\<rparr>) policies_uniq (ae_nid ae)
       (q\<lparr>p_CreatedAt := stamp (ae_now ae) (p_CreatedAt q), p_UpdatedAt := stamp (ae_now ae) (p_UpdatedAt q)\<rparr>)
       (db_policies db) = Inr rows"
    using out q by (auto simp: changed_def CreatePolicy_def mapError_def validated_def split: sum.splits if_splits)
  ultimately show ?thesis using that inp q unfolding p_def by blast
qed

lemma createSchedule_cases:
  assumes "createSchedule ae st body db = (Response obj, db')"
  obtains inp s rows where "ps_enabled st" "body = Some inp"
    "validateSchedule (ae_env ae) (Some (scheduleFromInput inp 0)) = Inr s" "s_ID s = 0"
    "obj = ScheduleObj (scheduleResponse (ae_env ae) (stored_schedule ae s) (ae_after ae))"
    "db' = db\<lparr>db_schedules := rows\<rparr>"
    "q_create (db_down db ''fork_policy_schedules'') s_ID (\<lambda>n r. r\<lparr>s_ID := n\<rparr>) schedules_uniq (ae_nid ae)
       (s\<lparr>s_CreatedAt := stamp (ae_now ae) (s_CreatedAt s), s_UpdatedAt := stamp (ae_now ae) (s_UpdatedAt s)\<rparr>)
       (db_schedules db) = Inr rows"
proof -
  obtain inp where inp: "ps_enabled st" "body = Some inp"
    using assms by (auto simp: createSchedule_def guarded_def bound_def unavailable_def repoOrUnavailable_def current_def
        split: if_splits option.splits)
  define s0 where "s0 = scheduleFromInput inp 0"
  have out: "changed ae (CreateSchedule (ae_env ae) (ae_now ae) (ae_nid ae) (Some s0) db)
      (ScheduleObj (scheduleResponse (ae_env ae) (stored_schedule ae (validated (validateSchedule (ae_env ae) (Some s0)) s0))
        (ae_after ae))) db = (Response obj, db')"
    using assms inp by (simp add: createSchedule_def guarded_def bound_def repoOrUnavailable_def current_def s0_def Let_def)
  then obtain s where s: "validateSchedule (ae_env ae) (Some s0) = Inr s"
    by (auto simp: changed_def CreateSchedule_def mapError_def split: sum.splits if_splits)
  then have "s_ID s = 0"
    by (auto simp: validateSchedule_def s0_def scheduleFromInput_def split: if_splits option.splits sum.splits)
  moreover obtain rows where "db' = db\<lparr>db_schedules := rows\<rparr>"
    "obj = ScheduleObj (scheduleResponse (ae_env ae) (stored_schedule ae s) (ae_after ae))"
    "q_create (db_down db ''fork_policy_schedules'') s_ID (\<lambda>n r. r\<lparr>s_ID := n\<rparr>) schedules_uniq (ae_nid ae)
       (s\<lparr>s_CreatedAt := stamp (ae_now ae) (s_CreatedAt s), s_UpdatedAt := stamp (ae_now ae) (s_UpdatedAt s)\<rparr>)
       (db_schedules db) = Inr rows"
    using out s by (auto simp: changed_def CreateSchedule_def mapError_def validated_def split: sum.splits if_splits)
  ultimately show ?thesis using that inp s unfolding s0_def by blast
qed

lemma created_down: "q_create down rid set_rid uniq nid r rows = Inr rows' \<Longrightarrow> \<not> down"
  by (auto simp: q_create_def split: if_splits)

lemma createPolicy_get:
  assumes "policy_db_ok db" "0 < ae_nid ae" "ae_nid ae < 4294967296"
    and "createPolicy ae st body db = (Response (PolicyObj p), db')"
  shows "getPolicy ae st (nat_to_dec (p_ID p)) db' = (Response (PolicyObj p), db')"
proof -
  obtain inp q rows where st: "ps_enabled st" and q: "p_ID q = 0" "p = stored_policy ae q"
    and db': "db' = db\<lparr>db_policies := rows\<rparr>"
    and rows: "q_create (db_down db ''fork_policies'') p_ID (\<lambda>n r. r\<lparr>p_ID := n\<rparr>) policies_uniq (ae_nid ae)
       (q\<lparr>p_CreatedAt := stamp (ae_now ae) (p_CreatedAt q), p_UpdatedAt := stamp (ae_now ae) (p_UpdatedAt q)\<rparr>)
       (db_policies db) = Inr rows"
    using assms(4) by (rule createPolicy_cases) auto
  have "table_ok p_ID policies_uniq (db_policies db)" using assms(1) by (simp add: policy_db_ok_defs)
  from policies.create_first[OF this rows, of p] have "q_first False (\<lambda>x. p_ID x = p_ID p) rows = Inr p"
    using q by (simp add: stored_policy_def Let_def)
  moreover have "parseID (nat_to_dec (p_ID p)) = Inr (p_ID p)"
    by (rule parseID_print) (use q assms(2,3) in \<open>simp_all add: stored_policy_def Let_def\<close>)
  ultimately show ?thesis using created_down[OF rows] st
    by (simp add: getPolicy_def guarded_def got_def GetPolicy_def db' repoOrUnavailable_def current_def)
qed

lemma createSchedule_get:
  assumes "policy_db_ok db" "0 < ae_nid ae" "ae_nid ae < 4294967296"
    and "createSchedule ae st body db = (Response (ScheduleObj v), db')"
  shows "getSchedule ae st (nat_to_dec (s_ID (sw_row v))) db' = (Response (ScheduleObj v), db')"
proof -
  obtain inp s rows where st: "ps_enabled st"
    and s: "s_ID s = 0" "v = scheduleResponse (ae_env ae) (stored_schedule ae s) (ae_after ae)"
    and db': "db' = db\<lparr>db_schedules := rows\<rparr>"
    and rows: "q_create (db_down db ''fork_policy_schedules'') s_ID (\<lambda>n r. r\<lparr>s_ID := n\<rparr>) schedules_uniq (ae_nid ae)
       (s\<lparr>s_CreatedAt := stamp (ae_now ae) (s_CreatedAt s), s_UpdatedAt := stamp (ae_now ae) (s_UpdatedAt s)\<rparr>)
       (db_schedules db) = Inr rows"
    using assms(4) by (rule createSchedule_cases) auto
  define w where "w = stored_schedule ae s"
  have v: "sw_row v = w" "scheduleResponse (ae_env ae) w (ae_after ae) = v"
    by (simp_all add: s(2) w_def scheduleResponse_def split: prod.split)
  have "table_ok s_ID schedules_uniq (db_schedules db)" using assms(1) by (simp add: policy_db_ok_defs)
  from schedules.create_first[OF this rows, of w] have "q_first False (\<lambda>x. s_ID x = s_ID w) rows = Inr w"
    using s(1) by (simp add: w_def stored_schedule_def Let_def)
  moreover have "parseID (nat_to_dec (s_ID w)) = Inr (s_ID w)"
    by (rule parseID_print) (use s(1) assms(2,3) in \<open>simp_all add: w_def stored_schedule_def Let_def\<close>)
  ultimately show ?thesis using created_down[OF rows] st
    by (simp add: getSchedule_def guarded_def got_def GetSchedule_def db' v repoOrUnavailable_def current_def)
qed



text \<open>Reading a policy that does not exist answers 404, but updating and deleting it answer with
  success, echo the input or the key, and change nothing.\<close>

lemma missing_policy_answers:
  assumes "policy_db_ok db" "\<And>t. \<not> db_down db t" "ps_enabled st" "parseID param = Inr pid"
    and "\<forall>p \<in> set (db_policies db). p_ID p \<noteq> pid"
    and "validatePolicy (ae_env ae) (policyInput_model pid inp) = Inr q"
  shows "getPolicy ae st param db = (Fail 404 ''not found'', db) \<and>
    updatePolicy ae st param (Some inp) db = (Response (PolicyObj q), db) \<and>
    deletePolicy ae st param db = (Response (Deleted pid), db)"
proof -
  have id: "p_ID q = pid" using validatePolicy_ok(1)[OF assms(6)] by (simp add: policyInput_model_def)
  have get: "GetPolicy db pid = Inl ErrRecordNotFound"
    using assms(2,5) by (simp add: GetPolicy_def q_first_not_found)
  have same: "map (\<lambda>r. if p_ID r = pid then f r else r) (db_policies db) = db_policies db" for f
    using assms(5) by (simp add: map_idI)
  have "policies_uniq (db_policies db)" using assms(1) by (simp add: policy_db_ok_defs table_ok_def)
  then have update: "UpdatePolicy (ae_env ae) (ae_now ae) (policyInput_model pid inp) db = Inr db"
    using assms(2) by (simp add: UpdatePolicy_def assms(6) q_update_def Let_def id same)
  have "DeletePolicy pid db = Inr db"
  proof -
    obtain db' where del: "DeletePolicy pid db = Inr db'" using assms(2) by (simp add: DeletePolicy_def q_delete_def)
    have none: "\<forall>a \<in> set (db_assignments db). a_PolicyID a \<noteq> pid" "\<forall>r \<in> set (db_overrides db). o_PolicyID r \<noteq> pid"
      "\<forall>t \<in> set (db_temporaries db). t_PolicyID t \<noteq> pid" "\<forall>s \<in> set (db_schedules db). s_PolicyID s \<noteq> pid"
      using assms(1,5) unfolding policy_db_ok_def references_ok_def image_iff by metis+
    show ?thesis using del DeletePolicy_eq[OF del] assms(5) none by (simp cong: filter_cong)
  qed
  then show ?thesis
    using get update assms(3,4,6)
    by (simp add: getPolicy_def updatePolicy_def deletePolicy_def guarded_def bound_def got_def changed_def mapError_def
        validated_def repoOrUnavailable_def current_def Let_def)
qed

end
