(* ===== verification/Policy_Compiler.thy ===== *)
theory Policy_Compiler
  imports Policy_Decision "HOL-Library.AList"
begin

text \<open>
  From decisions to Xray routing rules, \<open>src/internal/policycompiler/compiler.go\<close>, and the
  simulator's route matching, \<open>src/internal/policysim/api.go\<close>. \<open>Compile\<close> rewrites the routing
  section of an Xray configuration: it removes the rules an earlier run tagged, puts the DNS and
  quarantine rules in front and appends the policy rules. \<open>Preview\<close> lists the rules without a
  configuration.

  JSON decoding and encoding and the address parsers of package \<open>net\<close> are the fields of
  \<open>compiler_env\<close>. A configuration is a record with the two raw sections that \<open>Compile\<close> reads;
  the other fields of \<open>xray.Config\<close>, which it copies, are the extension of the record.
\<close>

record xray_config =
  cfg_RouterConfig :: string
  cfg_OutboundConfigs :: string

text \<open>
  \<open>ce_object\<close>: \<open>json.Unmarshal\<close> into \<open>map[string]any\<close>, \<open>Some None\<close> for the document \<open>null\<close>;
  \<open>ce_objects\<close>: into \<open>[]map[string]any\<close>, a \<open>null\<close> element being the empty map; \<open>ce_marshal\<close>:
  \<open>json.Marshal\<close> of an object.
\<close>

record compiler_env =
  ce_object :: "string \<Rightarrow> json_map option option"
  ce_objects :: "string \<Rightarrow> json_map list option"
  ce_marshal :: "json_map \<Rightarrow> string option"
  ce_parse_ip :: "string \<Rightarrow> bool"
  ce_parse_cidr :: "string \<Rightarrow> bool"
  ce_cidr_contains :: "string \<Rightarrow> string \<Rightarrow> bool"
  ce_lower :: "string \<Rightarrow> string"

definition RuleTagPrefix :: string where "RuleTagPrefix = ''catx-policy-''"
definition QuarantineRuleTagPrefix :: string where "QuarantineRuleTagPrefix = ''catx-quarantine-''"
definition DNSRuleTagPrefix :: string where "DNSRuleTagPrefix = ''catx-dns-''"

record rule_preview =
  rv_RuleTag :: string
  rv_Destination :: string
  rv_User :: string
  rv_OutboundTag :: string
  rv_Order :: nat
  rv_PolicyID :: nat
  rv_Source :: string
  rv_Emitted :: bool
  rv_Reason :: string
  rv_Matched :: bool

section \<open>Helpers\<close>

definition stableClient :: "string \<Rightarrow> string" where
  "stableClient email =
     map (\<lambda>c. if c = CHR ''@'' \<or> c = CHR ''.'' \<or> c = CHR '':'' then CHR ''-'' else c) email"

text \<open>
  \<open>strings.EqualFold(s, t)\<close> for an ASCII lower-case \<open>t\<close>: besides the ASCII letters only U+017F
  (bytes C5 BF) and U+212A (bytes E2 84 AA) fold to ASCII letters, to \<open>s\<close> and \<open>k\<close>.
\<close>

fun fold_ascii :: "string \<Rightarrow> string" where
  "fold_ascii [] = []"
| "fold_ascii (c # cs) =
     (if c = CHR 0xC5 \<and> has_prefix [CHR 0xBF] cs then CHR ''s'' # fold_ascii (drop 1 cs)
      else if c = CHR 0xE2 \<and> has_prefix [CHR 0x84, CHR 0xAA] cs then CHR ''k'' # fold_ascii (drop 2 cs)
      else ascii_lower c # fold_ascii cs)"

definition equal_fold :: "string \<Rightarrow> string \<Rightarrow> bool" where
  "equal_fold s t \<longleftrightarrow> fold_ascii s = t"

text \<open>One destination: its normal form, nothing for a blank one, or an error.\<close>

definition supported_destination :: "compiler_env \<Rightarrow> string \<Rightarrow> string list res" where
  "supported_destination ce raw =
     (let s = to_lower (ce_lower ce) (trim_space raw) in
      if s = [] then Inr []
      else (let s1 = trim_prefix ''domain:'' s in
        if has_prefix ''ip:'' s1
        then (if ce_parse_ip ce (trim_prefix ''ip:'' s1) then Inr [s1]
              else Inl (Err ''malformed IP destination''))
        else if contains_str ''/'' s1
        then (if ce_parse_cidr ce s1 then Inr [''ip:'' @ s1] else Inl (Err ''malformed CIDR destination''))
        else if list_ex (\<lambda>c. c = CHR '' '' \<or> c = CHR ''/'' \<or> c = CHR 0x5C) s1 \<or> \<not> contains_str ''.'' s1
        then Inl (Err ''unsupported destination'')
        else Inr [s1]))"

definition supportedDestinations :: "compiler_env \<Rightarrow> string list \<Rightarrow> string list res" where
  "supportedDestinations ce destinations =
     bind_res (collect (supported_destination ce) destinations) (\<lambda>ds. Inr (sorted_keys ds))"

fun first_tag :: "(json_map \<Rightarrow> bool) \<Rightarrow> json_map list \<Rightarrow> string option" where
  "first_tag P [] = None"
| "first_tag P (o1 # os) = (if P o1 then Some (json_string o1 ''tag'') else first_tag P os)"

definition selectOutbound :: "compiler_env \<Rightarrow> string \<Rightarrow> string \<Rightarrow> string res" where
  "selectOutbound ce raw action =
     (case ce_objects ce raw of
        None \<Rightarrow> Inl (Err ''policy outbounds decode'')
      | Some outbounds \<Rightarrow>
         (let want = (if action = ''allow'' then ''direct'' else ''blocked'') in
          case first_tag (\<lambda>m. json_string m ''tag'' = want) outbounds of
            Some tag \<Rightarrow> Inr tag
          | None \<Rightarrow>
             (case first_tag (\<lambda>m. action = ''allow'' \<and> equal_fold (json_string m ''protocol'') ''freedom''
                                 \<or> action = ''deny'' \<and> equal_fold (json_string m ''protocol'') ''blackhole'')
                     outbounds of
                Some tag \<Rightarrow> Inr tag
              | None \<Rightarrow> Inl (Err ''no compatible outbound''))))"

definition selectDNSOutbound :: "compiler_env \<Rightarrow> string \<Rightarrow> string \<Rightarrow> string res" where
  "selectDNSOutbound ce raw requested =
     (case ce_objects ce raw of
        None \<Rightarrow> Inl (Err ''policy outbounds decode'')
      | Some outbounds \<Rightarrow>
         (case first_tag (\<lambda>m. equal_fold (json_string m ''protocol'') ''dns''
                             \<and> (requested = [] \<or> map_of m ''tag'' = Some (JString requested))
                             \<and> json_string m ''tag'' \<noteq> []) outbounds of
            Some tag \<Rightarrow> Inr tag
          | None \<Rightarrow> Inl (Err ''no compatible dns outbound'')))"

text \<open>The order of the decisions: by client, then by policy.\<close>

definition decision_less :: "decision \<Rightarrow> decision \<Rightarrow> bool" where
  "decision_less a b =
     (if dec_ClientEmail a \<noteq> dec_ClientEmail b then dec_ClientEmail a < dec_ClientEmail b
      else dec_PolicyID a < dec_PolicyID b)"

definition order_decisions :: "decision list \<Rightarrow> decision list" where
  "order_decisions ds = sort_stable decision_less ds"

definition policy_tag :: "decision \<Rightarrow> nat \<Rightarrow> string" where
  "policy_tag d i = RuleTagPrefix @ nat_to_dec (dec_PolicyID d) @ ''-'' @ stableClient (dec_ClientEmail d)
     @ ''-'' @ nat_to_dec i"

definition quarantine_tag :: "decision \<Rightarrow> string" where
  "quarantine_tag d = QuarantineRuleTagPrefix @ stableClient (dec_ClientEmail d)"

definition allow_tag :: "decision \<Rightarrow> nat \<Rightarrow> string" where
  "allow_tag d i = QuarantineRuleTagPrefix @ stableClient (dec_ClientEmail d) @ ''-'' @ nat_to_dec i"

definition dns_tag :: "decision \<Rightarrow> string" where
  "dns_tag d = DNSRuleTagPrefix @ stableClient (dec_ClientEmail d)"

section \<open>Preview\<close>

definition preview_base :: "decision \<Rightarrow> nat \<Rightarrow> rule_preview" where
  "preview_base d order = \<lparr>rv_RuleTag = [], rv_Destination = [], rv_User = dec_ClientEmail d, rv_OutboundTag = [],
     rv_Order = order, rv_PolicyID = dec_PolicyID d, rv_Source = k_Source (dec_Winner d), rv_Emitted = True,
     rv_Reason = [], rv_Matched = False\<rparr>"

definition preview_dns :: "decision \<Rightarrow> string \<Rightarrow> rule_preview list \<Rightarrow> rule_preview list" where
  "preview_dns d reason previews =
     (if dec_ManagedDNS d
      then previews @ [(preview_base d (length previews))\<lparr>rv_RuleTag := dns_tag d,
             rv_Destination := ''dns:53/udp,tcp'', rv_OutboundTag := dec_DNSOutboundTag d, rv_Reason := reason\<rparr>]
      else previews)"

fun preview_allow :: "decision \<Rightarrow> nat \<Rightarrow> string list \<Rightarrow> rule_preview list \<Rightarrow> rule_preview list" where
  "preview_allow d i [] previews = previews"
| "preview_allow d i (dest # ds) previews =
     preview_allow d (Suc i) ds
       (previews @ [(preview_base d (length previews))\<lparr>rv_RuleTag := allow_tag d i, rv_Destination := dest,
                      rv_OutboundTag := ''direct''\<rparr>])"

fun preview_policy ::
  "decision \<Rightarrow> string \<Rightarrow> nat \<Rightarrow> string list \<Rightarrow> string list \<times> rule_preview list \<Rightarrow> string list \<times> rule_preview list" where
  "preview_policy d outbound i [] st = st"
| "preview_policy d outbound i (dest # ds) (seen, previews) =
     (let tag = policy_tag d i in
      preview_policy d outbound (Suc i) ds
        (if tag \<in> set seen then (seen, previews)
         else (tag # seen, previews @ [(preview_base d (length previews))\<lparr>rv_RuleTag := tag, rv_Destination := dest,
                 rv_OutboundTag := outbound\<rparr>])))"

text \<open>A decision that emits nothing leaves a line with the reason; its order is the zero value.\<close>

definition preview_skip :: "decision \<Rightarrow> string \<Rightarrow> string \<Rightarrow> rule_preview" where
  "preview_skip d outbound reason =
     (preview_base d 0)\<lparr>rv_OutboundTag := outbound, rv_Emitted := False, rv_Reason := reason\<rparr>"

fun error_text :: "go_error \<Rightarrow> string" where
  "error_text (Err s) = s"
| "error_text ErrRecordNotFound = ''record not found''"
| "error_text ErrDuplicatedKey = ''duplicated key not allowed''"
| "error_text ErrDB = ''database error''"

definition preview_step ::
  "compiler_env \<Rightarrow> decision \<Rightarrow> string list \<times> rule_preview list \<Rightarrow> string list \<times> rule_preview list" where
  "preview_step ce d st =
     (case st of (seen, previews) \<Rightarrow>
       if dec_Quarantined d
       then (let p1 = preview_allow d 0 (dec_QuarantineAllowlist d)
                        (preview_dns d ''managed DNS infrastructure exception'' previews)
             in (seen, p1 @ [(preview_base d (length p1))\<lparr>rv_RuleTag := quarantine_tag d,
                               rv_OutboundTag := ''blocked'', rv_Reason := ''quarantine catch-all''\<rparr>]))
       else (let p1 = preview_dns d ''intercepted plaintext DNS only'' previews in
         case supportedDestinations ce (dec_Destinations d) of
           Inl e \<Rightarrow> (seen, p1 @ [preview_skip d [] (error_text e)])
         | Inr destinations \<Rightarrow>
            (if dec_Action d \<noteq> ''allow'' \<and> dec_Action d \<noteq> ''deny''
             then (seen, p1 @ [preview_skip d [] ''unsupported action''])
             else (let outbound = (if dec_Action d = ''allow'' then ''direct'' else ''blocked'') in
                   if destinations = []
                   then (seen, p1 @ [preview_skip d outbound ''no supported destination''])
                   else preview_policy d outbound 0 destinations (seen, p1)))))"

definition Preview :: "compiler_env \<Rightarrow> decision list \<Rightarrow> rule_preview list" where
  "Preview ce decisions = snd (fold (preview_step ce) (order_decisions decisions) ([], []))"

section \<open>Compilation\<close>

definition strings_json :: "string list \<Rightarrow> jval" where
  "strings_json xs = JArray (map JString xs)"

text \<open>The generated rules; an object is a map, so the order of its keys has no meaning.\<close>

definition dns_rule :: "decision \<Rightarrow> string \<Rightarrow> jval" where
  "dns_rule d dnsTag = JObject [(''type'', JString ''field''), (''user'', strings_json [dec_ClientEmail d]),
     (''port'', JString ''53''), (''network'', JString ''tcp,udp''), (''outboundTag'', JString dnsTag),
     (''ruleTag'', JString (dns_tag d))]"

definition allow_rule :: "decision \<Rightarrow> nat \<Rightarrow> string \<Rightarrow> jval" where
  "allow_rule d i dest = JObject [(''type'', JString ''field''), (''user'', strings_json [dec_ClientEmail d]),
     (''domain'', strings_json [dest]), (''outboundTag'', JString ''direct''), (''ruleTag'', JString (allow_tag d i))]"

definition block_rule :: "decision \<Rightarrow> jval" where
  "block_rule d = JObject [(''type'', JString ''field''), (''user'', strings_json [dec_ClientEmail d]),
     (''outboundTag'', JString ''blocked''), (''ruleTag'', JString (quarantine_tag d))]"

definition policy_rule :: "decision \<Rightarrow> string \<Rightarrow> nat \<Rightarrow> string \<Rightarrow> jval" where
  "policy_rule d outbound i dest =
     JObject ([(''type'', JString ''field''), (''user'', strings_json [dec_ClientEmail d]),
       (''outboundTag'', JString outbound), (''ruleTag'', JString (policy_tag d i))]
       @ (if has_prefix ''ip:'' dest then [(''ip'', strings_json [trim_prefix ''ip:'' dest])]
          else [(''domain'', strings_json [dest])]))"

record compile_state =
  co_generated :: "string list"
  co_quarantine :: "jval list"
  co_policy :: "jval list"

definition compile_dns :: "compiler_env \<Rightarrow> string \<Rightarrow> decision \<Rightarrow> jval list res" where
  "compile_dns ce outbounds d =
     (if \<not> dec_ManagedDNS d then Inr []
      else if dec_SafeSearch d \<and> dec_DNSOutboundTag d = []
      then Inl (Err ''SafeSearch requires an explicit dnsOutboundTag'')
      else case selectDNSOutbound ce outbounds (dec_DNSOutboundTag d) of
             Inl _ \<Rightarrow> Inl (Err ''managed DNS requires an existing Xray dns outbound'')
           | Inr dnsTag \<Rightarrow> Inr [dns_rule d dnsTag])"

definition compile_allow :: "compiler_env \<Rightarrow> decision \<Rightarrow> nat \<times> string \<Rightarrow> jval list res" where
  "compile_allow ce d item =
     (case item of (i, destination) \<Rightarrow>
       bind_res (supportedDestinations ce [destination]) (\<lambda>normalized.
       if length normalized \<noteq> 1 then Inl (Err ''malformed quarantine allowlist'')
       else Inr [allow_rule d i (hd normalized)]))"

fun compile_policy ::
  "decision \<Rightarrow> string \<Rightarrow> nat \<Rightarrow> string list \<Rightarrow> string list \<times> jval list \<Rightarrow> string list \<times> jval list" where
  "compile_policy d outbound i [] st = st"
| "compile_policy d outbound i (dest # ds) (gen, rules) =
     (let tag = policy_tag d i in
      compile_policy d outbound (Suc i) ds
        (if tag \<in> set gen then (gen, rules) else (tag # gen, rules @ [policy_rule d outbound i dest])))"

definition compile_decision ::
  "compiler_env \<Rightarrow> string \<Rightarrow> decision \<Rightarrow> compile_state \<Rightarrow> compile_state res" where
  "compile_decision ce outbounds d st =
     (if dec_Action d \<noteq> ''allow'' \<and> dec_Action d \<noteq> ''deny'' then Inl (Err ''unsupported action'')
      else
        bind_res (compile_dns ce outbounds d) (\<lambda>dns.
        if dec_Quarantined d
        then bind_res (collect (compile_allow ce d) (enumerate 0 (dec_QuarantineAllowlist d))) (\<lambda>allow.
               Inr (st\<lparr>co_quarantine := co_quarantine st @ dns @ allow @ [block_rule d]\<rparr>))
        else bind_res (selectOutbound ce outbounds (dec_Action d)) (\<lambda>outbound.
             bind_res (supportedDestinations ce (dec_Destinations d)) (\<lambda>destinations.
             (case compile_policy d outbound 0 destinations (co_generated st, co_policy st) of
                (gen, rules) \<Rightarrow>
                  Inr (st\<lparr>co_generated := gen, co_quarantine := co_quarantine st @ dns, co_policy := rules\<rparr>))))))"

definition is_catx_rule :: "json_map \<Rightarrow> bool" where
  "is_catx_rule m \<longleftrightarrow>
     (let tag = json_string m ''ruleTag'' in
      has_prefix RuleTagPrefix tag \<or> has_prefix QuarantineRuleTagPrefix tag \<or> has_prefix DNSRuleTagPrefix tag)"

definition keep_rule :: "jval \<Rightarrow> jval list res" where
  "keep_rule raw =
     (case raw of JObject m \<Rightarrow> Inr (if is_catx_rule m then [] else [raw])
      | _ \<Rightarrow> Inl (Err ''policy routing rule has invalid shape''))"

text \<open>The new rule list from the old one; \<open>None\<close> is a missing or \<open>null\<close> list.\<close>

definition compile_rules ::
  "compiler_env \<Rightarrow> string \<Rightarrow> decision list \<Rightarrow> jval list \<Rightarrow> jval list res" where
  "compile_rules ce outbounds decisions rules =
     bind_res (collect keep_rule rules) (\<lambda>kept.
     bind_res (fold_res (compile_decision ce outbounds) (order_decisions decisions)
                 \<lparr>co_generated = [], co_quarantine = [], co_policy = []\<rparr>) (\<lambda>st.
     Inr (co_quarantine st @ kept @ co_policy st)))"

definition routing_rules :: "json_map \<Rightarrow> jval list res" where
  "routing_rules routing =
     (case map_of routing ''rules'' of
        None \<Rightarrow> Inr [] | Some JNull \<Rightarrow> Inr [] | Some (JArray rules) \<Rightarrow> Inr rules
      | Some _ \<Rightarrow> Inl (Err ''policy routing rules have invalid shape''))"

definition decode_routing :: "compiler_env \<Rightarrow> string \<Rightarrow> json_map res" where
  "decode_routing ce raw =
     (if raw = [] \<or> raw = ''null'' then Inr []
      else case ce_object ce raw of
             None \<Rightarrow> Inl (Err ''policy routing decode'')
           | Some None \<Rightarrow> Inr []
           | Some (Some m) \<Rightarrow> Inr m)"

definition Compile ::
  "compiler_env \<Rightarrow> 'x xray_config_scheme option \<Rightarrow> decision list \<Rightarrow> 'x xray_config_scheme option res" where
  "Compile ce cfgo decisions =
     (case cfgo of
        None \<Rightarrow> Inr None
      | Some cfg \<Rightarrow>
         if decisions = [] then Inr (Some cfg)
         else
           bind_res (decode_routing ce (cfg_RouterConfig cfg)) (\<lambda>routing.
           bind_res (routing_rules routing) (\<lambda>rules.
           bind_res (compile_rules ce (cfg_OutboundConfigs cfg) decisions rules) (\<lambda>kept.
           if length kept = length rules \<and> length decisions > 0 then Inr (Some cfg)
           else case ce_marshal ce (AList.update ''rules'' (JArray kept) routing) of
                  None \<Rightarrow> Inl (Err ''policy routing encode'')
                | Some raw \<Rightarrow> Inr (Some (cfg\<lparr>cfg_RouterConfig := raw\<rparr>))))))"

section \<open>The simulator\<close>

record sim_input =
  in_ClientEmail :: string
  in_GroupName :: string
  in_Domain :: string
  in_IP :: string
  in_Category :: string
  in_Service :: string
  in_At :: int

definition routeMatches :: "compiler_env \<Rightarrow> string \<Rightarrow> sim_input \<Rightarrow> bool" where
  "routeMatches ce destination i =
     (if destination = [] then False
      else if has_prefix ''ip:'' destination
      then (let target = trim_prefix ''ip:'' destination in
            if in_IP i = [] then False
            else if contains_str ''/'' target
            then ce_parse_cidr ce target \<and> ce_parse_ip ce (in_IP i) \<and> ce_cidr_contains ce target (in_IP i)
            else ce_parse_ip ce target \<and> target = in_IP i)
      else if in_Domain i = [] then False
      else (let domain = trim_prefix ''domain:'' destination in
            in_Domain i = domain \<or> has_suffix (''.'' @ domain) (in_Domain i)))"

record sim_result =
  sr_Enabled :: bool
  sr_Input :: sim_input
  sr_Decision :: "decision option"
  sr_Route :: "rule_preview list"
  sr_NoOpReason :: string

text \<open>
  The handler, on the request's query parameters; the answer is the HTTP status with the result,
  or the message. \<open>time.Now\<close> is \<open>now\<close>, and \<open>policy.Enabled\<close> is \<open>enabled\<close>.
\<close>

definition parseInput :: "compiler_env \<Rightarrow> int \<Rightarrow> (string \<Rightarrow> string) \<Rightarrow> sim_input res" where
  "parseInput ce now query =
     (let i = \<lparr>in_ClientEmail = trim_space (query ''clientEmail''), in_GroupName = trim_space (query ''groupName''),
               in_Domain = to_lower (ce_lower ce) (trim_space (query ''domain'')), in_IP = trim_space (query ''ip''),
               in_Category = trim_space (query ''category''), in_Service = trim_space (query ''service''), in_At = 0\<rparr>
      in if in_ClientEmail i = [] then Inl (Err ''clientEmail is required'')
         else if query ''at'' = [] then Inr (i\<lparr>in_At := now\<rparr>)
         else case atoi (query ''at'') of
                None \<Rightarrow> Inl (Err ''invalid at'')
              | Some parsed \<Rightarrow> (if parsed \<le> 0 then Inl (Err ''invalid at'') else Inr (i\<lparr>in_At := parsed\<rparr>)))"

definition simulate ::
  "policy_env \<Rightarrow> compiler_env \<Rightarrow> bool \<Rightarrow> int \<Rightarrow> policy_db \<Rightarrow> (string \<Rightarrow> string) \<Rightarrow> nat \<times> (string + sim_result)" where
  "simulate env ce enabled now db query =
     (case parseInput ce now query of
        Inl e \<Rightarrow> (400, Inl (error_text e))
      | Inr i \<Rightarrow>
         (let base = \<lparr>sr_Enabled = True, sr_Input = i, sr_Decision = None, sr_Route = [], sr_NoOpReason = []\<rparr> in
          if \<not> enabled
          then (200, Inr (base\<lparr>sr_Enabled := False, sr_NoOpReason := ''policies are disabled''\<rparr>))
          else case ResolveDecision env now db (in_ClientEmail i) (in_GroupName i) (in_At i) of
                 Inl _ \<Rightarrow> (500, Inl ''policy simulation unavailable'')
               | Inr None \<Rightarrow> (200, Inr (base\<lparr>sr_NoOpReason := ''no effective policy''\<rparr>))
               | Inr (Some d) \<Rightarrow>
                  (200, Inr (base\<lparr>sr_Decision := Some d,
                     sr_Route := map (\<lambda>p. p\<lparr>rv_Matched := routeMatches ce (rv_Destination p) i\<rparr>) (Preview ce [d])\<rparr>))))"

section \<open>The generated rules\<close>

fun rule_tag :: "jval \<Rightarrow> string" where
  "rule_tag (JObject m) = json_string m ''ruleTag''"
| "rule_tag _ = []"

definition catx :: "jval \<Rightarrow> bool" where
  "catx r \<longleftrightarrow> has_prefix RuleTagPrefix (rule_tag r) \<or> has_prefix QuarantineRuleTagPrefix (rule_tag r)
     \<or> has_prefix DNSRuleTagPrefix (rule_tag r)"

lemma rule_tags [simp]:
  "rule_tag (dns_rule d t) = dns_tag d" "rule_tag (allow_rule d i dest) = allow_tag d i"
  "rule_tag (block_rule d) = quarantine_tag d" "rule_tag (policy_rule d ob i dest) = policy_tag d i"
  by (simp_all add: dns_rule_def allow_rule_def block_rule_def policy_rule_def json_string_def)

lemma generated_catx [simp]:
  "catx (dns_rule d t)" "catx (allow_rule d i dest)" "catx (block_rule d)" "catx (policy_rule d ob i dest)"
  by (simp_all add: catx_def dns_tag_def allow_tag_def quarantine_tag_def policy_tag_def)

lemma generated_is_object [simp]:
  "\<exists>m. dns_rule d t = JObject m" "\<exists>m. allow_rule d i dest = JObject m" "\<exists>m. block_rule d = JObject m"
  "\<exists>m. policy_rule d ob i dest = JObject m"
  by (simp_all add: dns_rule_def allow_rule_def block_rule_def policy_rule_def)

lemma tag_prefixes [simp]:
  "has_prefix RuleTagPrefix (policy_tag d i)" "\<not> has_prefix RuleTagPrefix (dns_tag d)"
  "\<not> has_prefix RuleTagPrefix (allow_tag d i)" "\<not> has_prefix RuleTagPrefix (quarantine_tag d)"
  by (simp_all add: policy_tag_def dns_tag_def allow_tag_def quarantine_tag_def RuleTagPrefix_def
      DNSRuleTagPrefix_def QuarantineRuleTagPrefix_def has_prefix_def)

lemma keep_rule_object: "keep_rule (JObject m) = Inr (if catx (JObject m) then [] else [JObject m])"
  by (simp add: keep_rule_def catx_def is_catx_rule_def Let_def)

lemma keep_rule_eq:
  "keep_rule r = (if \<exists>m. r = JObject m then Inr (if catx r then [] else [r])
                  else Inl (Err ''policy routing rule has invalid shape''))"
proof (cases "\<exists>m. r = JObject m")
  case True
  then show ?thesis using keep_rule_object by auto
next
  case False
  then show ?thesis by (cases r) (simp_all add: keep_rule_def)
qed

lemma collect_keep_rule:
  "collect keep_rule rules = Inr kept \<longleftrightarrow>
     (\<forall>r \<in> set rules. \<exists>m. r = JObject m) \<and> kept = filter (\<lambda>r. \<not> catx r) rules"
proof -
  have "concat (map (\<lambda>r. projr (keep_rule r)) rules) = filter (\<lambda>r. \<not> catx r) rules"
    if "\<forall>r \<in> set rules. \<exists>m. r = JObject m"
    using that by (induction rules) (auto simp: keep_rule_eq)
  moreover have "(\<exists>ys. keep_rule r = Inr ys) \<longleftrightarrow> (\<exists>m. r = JObject m)" for r
    by (simp add: keep_rule_eq)
  ultimately show ?thesis unfolding collect_ok_iff by metis
qed

text \<open>Where a rule of the leading block comes from.\<close>

definition leading_rule :: "decision set \<Rightarrow> jval \<Rightarrow> bool" where
  "leading_rule D r \<longleftrightarrow> (\<exists>d \<in> D. (dec_ManagedDNS d \<and> (\<exists>t. r = dns_rule d t))
     \<or> (dec_Quarantined d \<and> ((\<exists>i dest. r = allow_rule d i dest) \<or> r = block_rule d)))"

definition compile_inv :: "decision set \<Rightarrow> compile_state \<Rightarrow> bool" where
  "compile_inv D st \<longleftrightarrow> (\<forall>r \<in> set (co_quarantine st). leading_rule D r)
     \<and> (\<forall>r \<in> set (co_policy st). \<exists>d \<in> D. \<not> dec_Quarantined d \<and> (\<exists>ob i dest. r = policy_rule d ob i dest))
     \<and> map rule_tag (co_policy st) = rev (co_generated st) \<and> distinct (co_generated st)"

lemma compile_dns_rules:
  "compile_dns ce ob d = Inr dns \<Longrightarrow> r \<in> set dns \<Longrightarrow> dec_ManagedDNS d \<and> (\<exists>t. r = dns_rule d t)"
  by (auto simp: compile_dns_def split: if_splits sum.splits)

lemma compile_allow_rules:
  "compile_allow ce d item = Inr ys \<Longrightarrow> \<exists>dest. ys = [allow_rule d (fst item) dest]"
  by (auto simp: compile_allow_def elim!: bind_resE split: prod.splits if_splits)

lemma collect_allow_rules:
  assumes "collect (compile_allow ce d) items = Inr rules" "r \<in> set rules"
  shows "\<exists>i dest. r = allow_rule d i dest"
  using collect_set[OF assms(1)] assms(2) compile_allow_rules by (metis list.set_intros(1) list.set(1,2) insertE empty_iff)

lemma compile_policy_inv:
  assumes "compile_policy d ob i ds (gen, rules) = (gen', rules')"
    and "map rule_tag rules = rev gen" "distinct gen"
  shows "map rule_tag rules' = rev gen' \<and> distinct gen' \<and> set rules \<subseteq> set rules'
    \<and> (\<forall>r \<in> set rules'. r \<in> set rules \<or> (\<exists>i dest. r = policy_rule d ob i dest))"
  using assms
proof (induction ds arbitrary: i gen rules)
  case Nil
  then show ?case by simp
next
  case (Cons dest ds)
  show ?case
  proof (cases "policy_tag d i \<in> set gen")
    case True
    then show ?thesis using Cons.IH[of "Suc i" gen rules] Cons.prems by (simp add: Let_def)
  next
    case False
    then have step: "compile_policy d ob (Suc i) ds (policy_tag d i # gen, rules @ [policy_rule d ob i dest]) = (gen', rules')"
      using Cons.prems(1) by (simp add: Let_def)
    show ?thesis using Cons.IH[OF step] Cons.prems(2,3) False by auto
  qed
qed

lemma leading_rule_mono: "leading_rule D r \<Longrightarrow> D \<subseteq> E \<Longrightarrow> leading_rule E r"
  unfolding leading_rule_def by blast

lemma compile_decision_inv:
  assumes run: "compile_decision ce ob d st = Inr st'" and inv: "compile_inv D st" and d: "d \<in> D"
  shows "compile_inv D st' \<and> (\<exists>more. co_quarantine st' = co_quarantine st @ more)
     \<and> (dec_Quarantined d \<longrightarrow> block_rule d \<in> set (co_quarantine st'))"
proof -
  from run obtain dns where dns: "compile_dns ce ob d = Inr dns"
    by (auto simp: compile_decision_def elim!: bind_resE split: if_splits)
  show ?thesis
  proof (cases "dec_Quarantined d")
    case True
    then obtain allow where allow: "collect (compile_allow ce d) (enumerate 0 (dec_QuarantineAllowlist d)) = Inr allow"
      and st': "st' = st\<lparr>co_quarantine := co_quarantine st @ dns @ allow @ [block_rule d]\<rparr>"
      using run dns by (auto simp: compile_decision_def elim!: bind_resE split: if_splits)
    have "leading_rule D r" if "r \<in> set (dns @ allow @ [block_rule d])" for r
      using that d True compile_dns_rules[OF dns] collect_allow_rules[OF allow] unfolding leading_rule_def by auto
    then show ?thesis using inv by (auto simp: compile_inv_def st')
  next
    case False
    then obtain outbound ds gen rules where
      st': "st' = st\<lparr>co_generated := gen, co_quarantine := co_quarantine st @ dns, co_policy := rules\<rparr>"
      and pol: "compile_policy d outbound 0 ds (co_generated st, co_policy st) = (gen, rules)"
      using run dns by (auto simp: compile_decision_def elim!: bind_resE split: if_splits prod.splits)
    have "leading_rule D r" if "r \<in> set dns" for r
      using d compile_dns_rules[OF dns that] unfolding leading_rule_def by blast
    then show ?thesis using inv compile_policy_inv[OF pol] d False by (fastforce simp: compile_inv_def st')
  qed
qed

lemma compile_fold_inv:
  assumes "fold_res (compile_decision ce ob) ds st = Inr st'" "compile_inv D st" "set ds \<subseteq> D"
  shows "compile_inv D st' \<and> (\<exists>more. co_quarantine st' = co_quarantine st @ more)
     \<and> (\<forall>d \<in> set ds. dec_Quarantined d \<longrightarrow> block_rule d \<in> set (co_quarantine st'))"
  using assms
proof (induction ds arbitrary: st)
  case Nil
  then show ?case by simp
next
  case (Cons d ds)
  then obtain t where t: "compile_decision ce ob d st = Inr t" "fold_res (compile_decision ce ob) ds t = Inr st'"
    by (auto split: sum.splits)
  from compile_decision_inv[OF t(1) Cons.prems(2)] Cons.prems(3)
  have t_inv: "compile_inv D t" "\<exists>more. co_quarantine t = co_quarantine st @ more"
    "dec_Quarantined d \<longrightarrow> block_rule d \<in> set (co_quarantine t)" by auto
  from Cons.IH[OF t(2) t_inv(1)] Cons.prems(3) t_inv(2,3) show ?case by auto
qed

lemma compile_rules_Inr:
  assumes "compile_rules ce ob ds rules = Inr out"
  obtains lead pol where "out = lead @ filter (\<lambda>r. \<not> catx r) rules @ pol"
    "\<forall>r \<in> set rules. \<exists>m. r = JObject m" "\<forall>r \<in> set lead. leading_rule (set ds) r"
    "\<forall>r \<in> set pol. \<exists>d \<in> set ds. \<not> dec_Quarantined d \<and> (\<exists>ob i dest. r = policy_rule d ob i dest)"
    "distinct (map rule_tag pol)" "\<forall>d \<in> set ds. dec_Quarantined d \<longrightarrow> block_rule d \<in> set lead"
    "\<forall>rules'. (\<forall>r \<in> set rules'. \<exists>m. r = JObject m) \<longrightarrow>
        compile_rules ce ob ds rules' = Inr (lead @ filter (\<lambda>r. \<not> catx r) rules' @ pol)"
proof -
  from assms obtain kept st where kept: "collect keep_rule rules = Inr kept"
    and st: "fold_res (compile_decision ce ob) (order_decisions ds) \<lparr>co_generated = [], co_quarantine = [], co_policy = []\<rparr> = Inr st"
    and out: "out = co_quarantine st @ kept @ co_policy st"
    unfolding compile_rules_def by (auto elim!: bind_resE)
  have "compile_inv (set ds) \<lparr>co_generated = [], co_quarantine = [], co_policy = []\<rparr>"
    by (simp add: compile_inv_def)
  from compile_fold_inv[OF st this] have inv: "compile_inv (set ds) st"
    "\<forall>d \<in> set ds. dec_Quarantined d \<longrightarrow> block_rule d \<in> set (co_quarantine st)"
    by (auto simp: order_decisions_def)
  have "compile_rules ce ob ds rules' = Inr (co_quarantine st @ filter (\<lambda>r. \<not> catx r) rules' @ co_policy st)"
    if "\<forall>r \<in> set rules'. \<exists>m. r = JObject m" for rules'
  proof -
    have "collect keep_rule rules' = Inr (filter (\<lambda>r. \<not> catx r) rules')"
      using that by (simp add: collect_keep_rule)
    then show ?thesis using st by (simp add: compile_rules_def)
  qed
  moreover have "out = co_quarantine st @ filter (\<lambda>r. \<not> catx r) rules @ co_policy st"
    "\<forall>r \<in> set rules. \<exists>m. r = JObject m"
    using kept out by (simp_all add: collect_keep_rule)
  moreover have "distinct (map rule_tag (co_policy st))"
    using inv(1) by (simp add: compile_inv_def)
  ultimately show ?thesis
    using inv that[of "co_quarantine st" "co_policy st"] by (simp add: compile_inv_def)
qed

lemma compile_rules_again:
  assumes "compile_rules ce ob ds rules = Inr out"
  shows "compile_rules ce ob ds out = Inr out
    \<and> filter (\<lambda>r. \<not> catx r) out = filter (\<lambda>r. \<not> catx r) rules
    \<and> distinct (filter (has_prefix RuleTagPrefix) (map rule_tag out))"
proof -
  obtain lead pol where out: "out = lead @ filter (\<lambda>r. \<not> catx r) rules @ pol"
    and rules: "\<forall>r \<in> set rules. \<exists>m. r = JObject m"
    and lead: "\<forall>r \<in> set lead. leading_rule (set ds) r"
    and pol: "\<forall>r \<in> set pol. \<exists>d \<in> set ds. \<not> dec_Quarantined d \<and> (\<exists>ob i dest. r = policy_rule d ob i dest)"
    and tags: "distinct (map rule_tag pol)"
    and again: "\<forall>rules'. (\<forall>r \<in> set rules'. \<exists>m. r = JObject m) \<longrightarrow>
        compile_rules ce ob ds rules' = Inr (lead @ filter (\<lambda>r. \<not> catx r) rules' @ pol)"
    using assms by (rule compile_rules_Inr)
  have catx: "\<forall>r \<in> set lead. catx r \<and> (\<exists>m. r = JObject m) \<and> \<not> has_prefix RuleTagPrefix (rule_tag r)"
    using lead by (auto simp: leading_rule_def)
  have catx': "\<forall>r \<in> set pol. catx r \<and> (\<exists>m. r = JObject m) \<and> has_prefix RuleTagPrefix (rule_tag r)"
    using pol by auto
  have keep: "filter (\<lambda>r. \<not> catx r) out = filter (\<lambda>r. \<not> catx r) rules"
    using catx catx' by (auto simp: out filter_empty_conv)
  have "\<forall>r \<in> set out. \<exists>m. r = JObject m" using rules catx catx' by (auto simp: out)
  then have "compile_rules ce ob ds out = Inr out" using again keep by (simp add: out)
  moreover have "filter (has_prefix RuleTagPrefix) (map rule_tag out) = map rule_tag pol"
  proof -
    have "filter (has_prefix RuleTagPrefix) (map rule_tag lead) = []"
      "filter (has_prefix RuleTagPrefix) (map rule_tag (filter (\<lambda>r. \<not> catx r) rules)) = []"
      using catx by (auto simp: filter_empty_conv catx_def)
    moreover have "filter (has_prefix RuleTagPrefix) (map rule_tag pol) = map rule_tag pol"
      using catx' by (auto simp: filter_id_conv)
    ultimately show ?thesis by (simp add: out)
  qed
  ultimately show ?thesis using keep tags by simp
qed

section \<open>Preview and compilation name the same rules\<close>

text \<open>The tags of the emitted lines of a preview, of policy rules or of the other rules.\<close>

definition emitted_tags :: "bool \<Rightarrow> rule_preview list \<Rightarrow> string list" where
  "emitted_tags pol ps =
     map rv_RuleTag (filter (\<lambda>p. rv_Emitted p \<and> has_prefix RuleTagPrefix (rv_RuleTag p) = pol) ps)"

lemma emitted_tags_append [simp]: "emitted_tags b (ps @ qs) = emitted_tags b ps @ emitted_tags b qs"
  by (simp add: emitted_tags_def)

lemma emitted_tags_Nil [simp]: "emitted_tags b [] = []"
  by (simp add: emitted_tags_def)

lemma emitted_tags_skip [simp]: "emitted_tags b [preview_skip d ob reason] = []"
  by (simp add: emitted_tags_def preview_skip_def)

lemma emitted_tags_line [simp]:
  "rv_Emitted p \<Longrightarrow> emitted_tags b [p] = (if has_prefix RuleTagPrefix (rv_RuleTag p) = b then [rv_RuleTag p] else [])"
  by (simp add: emitted_tags_def)

lemma preview_base_emitted [simp]: "rv_Emitted (preview_base d n)"
  by (simp add: preview_base_def)

lemma preview_dns_tags:
  "emitted_tags b (preview_dns d reason ps) = emitted_tags b ps @ (if dec_ManagedDNS d \<and> \<not> b then [dns_tag d] else [])"
  by (cases b) (simp_all add: preview_dns_def)

lemma preview_allow_tags:
  "emitted_tags b (preview_allow d i ds ps) =
     emitted_tags b ps @ (if b then [] else map (allow_tag d) [i ..< i + length ds])"
proof (induction ds arbitrary: i ps)
  case Nil
  show ?case by simp
next
  case (Cons dest ds)
  have "[i ..< i + length (dest # ds)] = i # [Suc i ..< Suc i + length ds]"
    by (simp add: upt_rec)
  then show ?case using Cons.IH by (cases b) simp_all
qed

lemma preview_policy_tags:
  assumes "map rule_tag rules = emitted_tags True ps"
  shows "fst (preview_policy d ob i ds (gen, ps)) = fst (compile_policy d ob' i ds (gen, rules))
     \<and> emitted_tags True (snd (preview_policy d ob i ds (gen, ps))) = map rule_tag (snd (compile_policy d ob' i ds (gen, rules)))
     \<and> emitted_tags False (snd (preview_policy d ob i ds (gen, ps))) = emitted_tags False ps"
  using assms
proof (induction ds arbitrary: i gen ps rules)
  case Nil
  then show ?case by simp
next
  case (Cons dest ds)
  let ?p = "(preview_base d (length ps))\<lparr>rv_RuleTag := policy_tag d i, rv_Destination := dest, rv_OutboundTag := ob\<rparr>"
  have new: "map rule_tag (rules @ [policy_rule d ob' i dest]) = emitted_tags True (ps @ [?p])"
    using Cons.prems by simp
  show ?case using Cons.IH[OF new] Cons.IH[OF Cons.prems] by (simp add: Let_def)
qed

lemma compile_allow_tags:
  "collect (compile_allow ce d) (enumerate i xs) = Inr rules \<Longrightarrow>
     map rule_tag rules = map (allow_tag d) [i ..< i + length xs]"
proof (induction xs arbitrary: i rules)
  case Nil
  then show ?case by simp
next
  case (Cons x xs)
  then obtain ys zs where ys: "compile_allow ce d (i, x) = Inr ys"
    and zs: "collect (compile_allow ce d) (enumerate (Suc i) xs) = Inr zs" "rules = ys @ zs"
    by (auto split: sum.splits)
  from compile_allow_rules[OF ys] have "map rule_tag ys = [allow_tag d i]" by auto
  moreover have "[i ..< i + length (x # xs)] = i # [Suc i ..< Suc i + length xs]"
    by (simp add: upt_rec)
  ultimately show ?case using Cons.IH[OF zs(1)] zs(2) by simp
qed

lemma compile_dns_tags:
  "compile_dns ce ob d = Inr dns \<Longrightarrow> map rule_tag dns = (if dec_ManagedDNS d then [dns_tag d] else [])"
  by (auto simp: compile_dns_def split: if_splits sum.splits)

definition preview_agrees :: "string list \<times> rule_preview list \<Rightarrow> compile_state \<Rightarrow> bool" where
  "preview_agrees pv st \<longleftrightarrow> fst pv = co_generated st
     \<and> emitted_tags False (snd pv) = map rule_tag (co_quarantine st)
     \<and> emitted_tags True (snd pv) = map rule_tag (co_policy st)"

lemma preview_step_agrees:
  assumes run: "compile_decision ce ob d st = Inr st'" and rel: "preview_agrees (seen, ps) st"
  shows "preview_agrees (preview_step ce d (seen, ps)) st'"
proof -
  from run have action: "dec_Action d = ''allow'' \<or> dec_Action d = ''deny''"
    by (auto simp: compile_decision_def split: if_splits)
  from run obtain dns where dns: "compile_dns ce ob d = Inr dns"
    by (auto simp: compile_decision_def elim!: bind_resE split: if_splits)
  note rel = rel[unfolded preview_agrees_def fst_conv snd_conv]
  show ?thesis
  proof (cases "dec_Quarantined d")
    case True
    then obtain allow where allow: "collect (compile_allow ce d) (enumerate 0 (dec_QuarantineAllowlist d)) = Inr allow"
      and st': "st' = st\<lparr>co_quarantine := co_quarantine st @ dns @ allow @ [block_rule d]\<rparr>"
      using run dns by (auto simp: compile_decision_def elim!: bind_resE split: if_splits)
    show ?thesis
      using True rel compile_allow_tags[OF allow] compile_dns_tags[OF dns]
      by (auto simp: preview_agrees_def preview_step_def st' Let_def preview_allow_tags preview_dns_tags)
  next
    case False
    then obtain outbound ds gen rules where
      st': "st' = st\<lparr>co_generated := gen, co_quarantine := co_quarantine st @ dns, co_policy := rules\<rparr>"
      and pol: "compile_policy d outbound 0 ds (co_generated st, co_policy st) = (gen, rules)"
      and ds: "supportedDestinations ce (dec_Destinations d) = Inr ds"
      using run dns by (auto simp: compile_decision_def elim!: bind_resE split: if_splits prod.splits)
    define ps1 where "ps1 = preview_dns d ''intercepted plaintext DNS only'' ps"
    have ps1: "map rule_tag (co_policy st) = emitted_tags True ps1"
      "emitted_tags False ps1 = map rule_tag (co_quarantine st @ dns)"
      using rel compile_dns_tags[OF dns] by (simp_all add: ps1_def preview_dns_tags)
    show ?thesis
    proof (cases "ds = []")
      case True
      then show ?thesis using False action ds ps1 rel pol
        by (auto simp: preview_agrees_def preview_step_def st' ps1_def[symmetric])
    next
      case nonempty: False
      show ?thesis using False action ds nonempty ps1(2) rel pol
          preview_policy_tags[OF ps1(1), of d _ 0 ds "co_generated st" outbound]
        by (auto simp: preview_agrees_def preview_step_def st' ps1_def[symmetric] Let_def)
    qed
  qed
qed

lemma preview_fold_agrees:
  "fold_res (compile_decision ce ob) ds st = Inr st' \<Longrightarrow> preview_agrees pv st \<Longrightarrow>
     preview_agrees (fold (preview_step ce) ds pv) st'"
proof (induction ds arbitrary: st pv)
  case Nil
  then show ?case by simp
next
  case (Cons d ds)
  then obtain t where t: "compile_decision ce ob d st = Inr t" "fold_res (compile_decision ce ob) ds t = Inr st'"
    by (auto split: sum.splits)
  have "preview_agrees (preview_step ce d pv) t"
    using preview_step_agrees[OF t(1)] Cons.prems(2) by (cases pv) simp
  then show ?case using Cons.IH[OF t(2)] by simp
qed

section \<open>Properties\<close>


definition sample_ce :: compiler_env where
  "sample_ce = \<lparr>ce_object = (\<lambda>s. Some None),
     ce_objects = (\<lambda>s. Some [[(''tag'', JString ''direct''), (''protocol'', JString ''freedom'')],
                             [(''tag'', JString ''drop''), (''protocol'', JString ''BlackHole'')]]),
     ce_marshal = (\<lambda>m. Some ''{}''), ce_parse_ip = (\<lambda>s. True), ce_parse_cidr = (\<lambda>s. True),
     ce_cidr_contains = (\<lambda>n s. False), ce_lower = (\<lambda>s. s)\<rparr>"

definition user_rule :: jval where
  "user_rule = JObject [(''ruleTag'', JString ''mine''), (''outboundTag'', JString ''direct'')]"

definition stale_rule :: jval where
  "stale_rule = JObject [(''ruleTag'', JString ''catx-policy-1-alice-0''), (''outboundTag'', JString ''direct'')]"

definition deny_decision :: decision where
  "deny_decision = sample_decision\<lparr>dec_Quarantined := False, dec_Destinations := [''Example.org '', ''example.org'', ''10.0.0.0/8'']\<rparr>"

definition quarantined_decision :: decision where
  "quarantined_decision = sample_decision\<lparr>dec_ClientEmail := ''bob'', dec_Quarantined := True\<rparr>"

lemma sample_compile:
  "ok (compile_rules sample_ce [] [quarantined_decision, deny_decision] [user_rule, stale_rule])"
  "map rule_tag (projr (compile_rules sample_ce [] [quarantined_decision, deny_decision] [user_rule, stale_rule]))
   = [''catx-quarantine-bob-0'', ''catx-quarantine-bob'', ''mine'', ''catx-policy-1-alice-0'', ''catx-policy-1-alice-1'']"
  by code_simp+


text \<open>Compilation owns exactly the rules it tagged. The result is the leading block, then all
  untagged rules of the input in their order, then the policy rules; policy rules carry pairwise
  different tags; and compiling the result again gives the same list, so repeated application
  neither duplicates nor loses a rule.\<close>

lemma compile_rules_idempotent:
  assumes "compile_rules ce ob ds rules = Inr out"
  shows "compile_rules ce ob ds out = Inr out
    \<and> filter (\<lambda>r. \<not> catx r) out = filter (\<lambda>r. \<not> catx r) rules
    \<and> distinct (filter (has_prefix RuleTagPrefix) (map rule_tag out))"
  using assms by (rule compile_rules_again)

text \<open>C7: The preview is faithful: whenever the decisions compile, the emitted lines of the preview
  carry exactly the tags of the generated rules, the DNS and quarantine rules first and the
  policy rules after them, in the order of the compiled list.\<close>

theorem Preview_matches_Compile:
  assumes "compile_rules ce ob ds [] = Inr out"
  shows "emitted_tags False (Preview ce ds) @ emitted_tags True (Preview ce ds) = map rule_tag out"
proof -
  from assms obtain st where st: "fold_res (compile_decision ce ob) (order_decisions ds)
      \<lparr>co_generated = [], co_quarantine = [], co_policy = []\<rparr> = Inr st"
    and out: "out = co_quarantine st @ co_policy st"
    unfolding compile_rules_def by (auto elim!: bind_resE)
  have "preview_agrees ([], []) \<lparr>co_generated = [], co_quarantine = [], co_policy = []\<rparr>"
    by (simp add: preview_agrees_def)
  from preview_fold_agrees[OF st this] show ?thesis
    by (simp add: Preview_def preview_agrees_def out)
qed

theorem Preview_matches_Compile_witness:
  "(let ds = [quarantined_decision, deny_decision] in
    emitted_tags False (Preview sample_ce ds) @ emitted_tags True (Preview sample_ce ds)
      = map rule_tag (projr (compile_rules sample_ce [] ds []))
    \<and> length (Preview sample_ce ds) = 4)"
proof -
  have "ok (compile_rules sample_ce [] [quarantined_decision, deny_decision] [])"
    "length (Preview sample_ce [quarantined_decision, deny_decision]) = 4" by code_simp+
  then show ?thesis using Preview_matches_Compile[OF ok_projr] by (simp add: Let_def)
qed

text \<open>What \<open>encoding/json\<close> documents of an encoded object: decoding gives the same map back.\<close>

definition json_round_trip :: "compiler_env \<Rightarrow> bool" where
  "json_round_trip ce \<longleftrightarrow> (\<forall>m raw. ce_marshal ce m = Some raw \<longrightarrow>
     raw \<noteq> [] \<and> raw \<noteq> ''null'' \<and> (\<exists>m'. ce_object ce raw = Some (Some m') \<and> map_of m' = map_of m))"

lemma Compile_cases:
  assumes "Compile ce (Some cfg) ds = Inr (Some cfg')" "cfg' \<noteq> cfg"
  obtains routing rules out raw where "ds \<noteq> []"
    "decode_routing ce (cfg_RouterConfig cfg) = Inr routing" "routing_rules routing = Inr rules"
    "compile_rules ce (cfg_OutboundConfigs cfg) ds rules = Inr out"
    "ce_marshal ce (AList.update ''rules'' (JArray out) routing) = Some raw"
    "cfg' = cfg\<lparr>cfg_RouterConfig := raw\<rparr>"
  using assms by (auto simp: Compile_def elim!: bind_resE split: if_splits option.splits)


text \<open>A routing section with one generated rule that allows, and a decision that now denies.\<close>

definition stale_routing :: json_map where
  "stale_routing = [(''rules'', JArray [stale_rule])]"

definition stale_ce :: compiler_env where
  "stale_ce = sample_ce\<lparr>ce_object := (\<lambda>s. Some (Some (if s = ''new'' then [(''rules'', JArray [])] else stale_routing))),
     ce_marshal := (\<lambda>m. if m = [(''rules'', JArray [])] then Some ''new'' else None)\<rparr>"

definition stale_cfg :: xray_config where
  "stale_cfg = \<lparr>cfg_RouterConfig = ''old'', cfg_OutboundConfigs = []\<rparr>"

definition fresh_decision :: decision where
  "fresh_decision = deny_decision\<lparr>dec_Destinations := [''example.org'']\<rparr>"

definition idle_decision :: decision where
  "idle_decision = deny_decision\<lparr>dec_Destinations := []\<rparr>"


text \<open>The comparison of lengths before the section is rewritten has a consequence that idempotence does
  not show: when a recompilation yields as many rules as the section has, the old rules stay,
  whatever they say. Here the section keeps a generated rule that allows a client while the
  decision, and the rule compiled from it, deny.\<close>

lemma Compile_keeps_stale_rule:
  "Compile stale_ce (Some stale_cfg) [fresh_decision] = Inr (Some stale_cfg)
   \<and> dec_Action fresh_decision = ''deny''
   \<and> map (\<lambda>r. case r of JObject m \<Rightarrow> json_string m ''outboundTag'')
       (projr (compile_rules stale_ce [] [fresh_decision] [stale_rule])) = [''drop'']
   \<and> map (\<lambda>r. case r of JObject m \<Rightarrow> json_string m ''outboundTag'') [stale_rule] = [''direct'']"
proof (intro conjI)
  have c: "ok (compile_rules stale_ce [] [fresh_decision] [stale_rule])"
    "length (projr (compile_rules stale_ce [] [fresh_decision] [stale_rule])) = 1" by code_simp+
  show "Compile stale_ce (Some stale_cfg) [fresh_decision] = Inr (Some stale_cfg)"
    using ok_projr[OF c(1)] c(2)
    by (cases "compile_rules stale_ce [] [fresh_decision] [stale_rule]")
       (simp_all add: Compile_def decode_routing_def stale_cfg_def routing_rules_def stale_ce_def stale_routing_def)
qed code_simp+

end
