(* ===== verification/Group_Quota.thy ===== *)
theory Group_Quota
  imports Client_Tables
begin

text \<open>
  Group quotas, \<open>src/internal/forkext/groupquota/groupquota.go\<close>: a group of clients shares a byte
  quota. The counters of \<open>client_traffics\<close> stay authoritative; a group state holds the quota, a
  multiplier in parts per million and the carry of usage whose counters are gone, and a
  membership row holds the counter values at which the client joined.

  The state is \<open>gq_db\<close>: the two quota tables, the two panel tables the code reads and writes, the
  key sequence of the created rows, and which tables fail. \<open>now\<close> is the time in Unix
  milliseconds. GORM stamps the integer field \<open>UpdatedAt\<close> of the quota tables with Unix
  \<^emph>\<open>seconds\<close> on an update that does not set it, and \<open>updated_at\<close> of \<open>clients\<close> with milliseconds
  (its tag says so). A sum or a carry outside 64 bits is an error of the database. Row locks
  (\<open>SELECT ... FOR UPDATE\<close>) have no effect on the values read.
\<close>

definition Scale :: int where "Scale = 1000000"
definition quota_cap :: int where "quota_cap = 9000000000000000000"

record quota_state =
  qs_ID :: nat
  qs_GroupName :: string
  qs_QuotaBytes :: int
  qs_CarryUp :: int
  qs_CarryDown :: int
  qs_ActiveMultiplierPPM :: int
  qs_PendingMultiplierPPM :: int
  qs_ResetPeriod :: string
  qs_ResetDay :: int
  qs_LastResetAt :: int
  qs_Depleted :: bool
  qs_UpdatedAt :: int

record membership =
  qm_ID :: nat
  qm_GroupName :: string
  qm_ClientEmail :: string
  qm_BaseUp :: int
  qm_BaseDown :: int
  qm_DisabledByGroup :: bool
  qm_UpdatedAt :: int

record group_view =
  gv_GroupName :: string
  gv_QuotaBytes :: int
  gv_UsedBytes :: int
  gv_RemainingBytes :: int
  gv_QuotaEnabled :: bool
  gv_Depleted :: bool
  gv_ActiveMultiplierPPM :: int
  gv_PendingMultiplierPPM :: int
  gv_ResetPeriod :: string
  gv_ResetDay :: int

record gq_db =
  gq_states :: "quota_state list"
  gq_members :: "membership list"
  gq_traffics :: "traffic_row list"
  gq_clients :: "client_row list"
  gq_next :: nat
  gq_down :: "string \<Rightarrow> bool"
  gq_enabled :: bool

definition states_uniq :: "quota_state list \<Rightarrow> bool" where
  "states_uniq rows \<longleftrightarrow> distinct (map qs_GroupName rows)"

definition members_uniq :: "membership list \<Rightarrow> bool" where
  "members_uniq rows \<longleftrightarrow> distinct (map (\<lambda>m. (qm_GroupName m, qm_ClientEmail m)) rows)"

interpretation quota_states: table qs_ID "\<lambda>n r. r\<lparr>qs_ID := n\<rparr>" states_uniq
  by unfold_locales (auto simp: states_uniq_def distinct_map_filter)

interpretation memberships: table qm_ID "\<lambda>n r. r\<lparr>qm_ID := n\<rparr>" members_uniq
  by unfold_locales (auto simp: members_uniq_def distinct_map_filter)

section \<open>Queries\<close>

definition find_state :: "gq_db \<Rightarrow> string \<Rightarrow> quota_state res" where
  "find_state db g = q_first (gq_down db ''fork_group_quota_states'') (\<lambda>s. qs_GroupName s = g) (gq_states db)"

definition find_member :: "gq_db \<Rightarrow> string \<Rightarrow> string \<Rightarrow> membership res" where
  "find_member db g email =
     q_first (gq_down db ''fork_group_quota_members'') (\<lambda>m. qm_GroupName m = g \<and> qm_ClientEmail m = email) (gq_members db)"

definition find_traffic :: "gq_db \<Rightarrow> string \<Rightarrow> traffic_row res" where
  "find_traffic db email = q_first (gq_down db ''client_traffics'') (\<lambda>t. ct_Email t = email) (gq_traffics db)"

definition find_client :: "gq_db \<Rightarrow> string \<Rightarrow> client_row res" where
  "find_client db email = q_first (gq_down db ''clients'') (\<lambda>c. cl_Email c = email) (gq_clients db)"

definition update_states ::
  "(quota_state \<Rightarrow> bool) \<Rightarrow> (quota_state \<Rightarrow> quota_state) \<Rightarrow> gq_db \<Rightarrow> gq_db res" where
  "update_states P f db =
     bind_res (q_update (gq_down db ''fork_group_quota_states'') states_uniq P f (gq_states db)) (\<lambda>rows.
     Inr (db\<lparr>gq_states := rows\<rparr>))"

definition update_members ::
  "(membership \<Rightarrow> bool) \<Rightarrow> (membership \<Rightarrow> membership) \<Rightarrow> gq_db \<Rightarrow> gq_db res" where
  "update_members P f db =
     bind_res (q_update (gq_down db ''fork_group_quota_members'') members_uniq P f (gq_members db)) (\<lambda>rows.
     Inr (db\<lparr>gq_members := rows\<rparr>))"

definition update_state :: "nat \<Rightarrow> (quota_state \<Rightarrow> quota_state) \<Rightarrow> gq_db \<Rightarrow> gq_db res" where
  "update_state sid f = update_states (\<lambda>s. qs_ID s = sid) f"

definition update_member :: "nat \<Rightarrow> (membership \<Rightarrow> membership) \<Rightarrow> gq_db \<Rightarrow> gq_db res" where
  "update_member mid f = update_members (\<lambda>m. qm_ID m = mid) f"

text \<open>The column assignments of the updates.\<close>

definition configured :: "int \<Rightarrow> int \<Rightarrow> int \<Rightarrow> string \<Rightarrow> int \<Rightarrow> quota_state \<Rightarrow> quota_state" where
  "configured now quota ppm period day s = s\<lparr>qs_QuotaBytes := quota, qs_PendingMultiplierPPM := ppm,
     qs_ResetPeriod := period, qs_ResetDay := day, qs_UpdatedAt := now\<rparr>"

definition restarted :: "int \<Rightarrow> int \<Rightarrow> quota_state \<Rightarrow> quota_state" where
  "restarted now ppm s = s\<lparr>qs_CarryUp := 0, qs_CarryDown := 0, qs_ActiveMultiplierPPM := ppm,
     qs_Depleted := False, qs_LastResetAt := now, qs_UpdatedAt := now\<rparr>"

definition marked :: "int \<Rightarrow> bool \<Rightarrow> quota_state \<Rightarrow> quota_state" where
  "marked now depleted s = s\<lparr>qs_Depleted := depleted, qs_UpdatedAt := now div 1000\<rparr>"

definition carried :: "int \<Rightarrow> int \<Rightarrow> int \<Rightarrow> quota_state \<Rightarrow> quota_state" where
  "carried at up down s = s\<lparr>qs_CarryUp := qs_CarryUp s + up, qs_CarryDown := qs_CarryDown s + down, qs_UpdatedAt := at\<rparr>"

definition rebased :: "int \<Rightarrow> int \<Rightarrow> int \<Rightarrow> membership \<Rightarrow> membership" where
  "rebased now up down m = m\<lparr>qm_BaseUp := up, qm_BaseDown := down, qm_UpdatedAt := now\<rparr>"

definition reset_row :: "int \<Rightarrow> traffic_row \<Rightarrow> membership \<Rightarrow> membership" where
  "reset_row now ct m = m\<lparr>qm_BaseUp := ct_Up ct, qm_BaseDown := ct_Down ct, qm_DisabledByGroup := False, qm_UpdatedAt := now\<rparr>"

definition owned_by :: "int \<Rightarrow> bool \<Rightarrow> membership \<Rightarrow> membership" where
  "owned_by now b m = m\<lparr>qm_DisabledByGroup := b, qm_UpdatedAt := now div 1000\<rparr>"

lemmas row_updates = configured_def restarted_def marked_def carried_def rebased_def reset_row_def
  owned_by_def

definition delete_members :: "(membership \<Rightarrow> bool) \<Rightarrow> gq_db \<Rightarrow> gq_db res" where
  "delete_members P db =
     bind_res (q_delete (gq_down db ''fork_group_quota_members'') P (gq_members db)) (\<lambda>rows.
     Inr (db\<lparr>gq_members := rows\<rparr>))"

text \<open>The two updates \<open>WHERE email IN ?\<close> of the \<open>enable\<close> columns.\<close>

definition set_enable :: "int \<Rightarrow> string list \<Rightarrow> bool \<Rightarrow> gq_db \<Rightarrow> gq_db res" where
  "set_enable now emails on db =
     bind_res (q_update (gq_down db ''client_traffics'') traffics_uniq (\<lambda>t. ct_Email t \<in> set emails)
                 (\<lambda>t. t\<lparr>ct_Enable := on\<rparr>) (gq_traffics db)) (\<lambda>ts.
     bind_res (q_update (gq_down db ''clients'') clients_uniq (\<lambda>c. cl_Email c \<in> set emails)
                 (\<lambda>c. c\<lparr>cl_Enable := on, cl_UpdatedAt := now\<rparr>) (gq_clients db)) (\<lambda>cs.
     Inr (db\<lparr>gq_traffics := ts, gq_clients := cs\<rparr>)))"

section \<open>Arithmetic\<close>

definition validateMultiplier :: "int \<Rightarrow> unit res" where
  "validateMultiplier v =
     (if v < 1 \<or> v > 100 * Scale then Inl (Err ''multiplier must be between 0.000001 and 100'') else Inr ())"

definition clamp :: "int \<Rightarrow> int" where
  "clamp v = (if v < 0 \<or> v > quota_cap then quota_cap else v)"

definition ceilMul :: "int \<Rightarrow> int \<Rightarrow> int" where
  "ceilMul v ppm =
     (if v \<le> 0 \<or> ppm \<le> 0 then 0
      else if v > quot max_int64 ppm then quota_cap
      else clamp (quot (sub64 (add64 (mul64 v ppm) Scale) 1) Scale))"

definition max_i :: "int \<Rightarrow> int \<Rightarrow> int" where
  "max_i a b = (if a > b then a else b)"

section \<open>Reading states and usage\<close>

definition lock_one :: "gq_db \<Rightarrow> string \<Rightarrow> quota_state list res" where
  "lock_one db name =
     (case find_state db name of
        Inl e \<Rightarrow> (if e = ErrRecordNotFound then Inr [] else Inl e)
      | Inr row \<Rightarrow> Inr [row])"

definition lockState :: "gq_db \<Rightarrow> string list \<Rightarrow> quota_state list res" where
  "lockState db names = collect (lock_one db) (sort names)"

definition ensureMembership :: "int \<Rightarrow> string \<Rightarrow> string \<Rightarrow> int \<Rightarrow> int \<Rightarrow> gq_db \<Rightarrow> gq_db res" where
  "ensureMembership now g email baseUp baseDown db =
     (if g = [] \<or> email = [] then Inr db
      else case find_member db g email of
             Inr _ \<Rightarrow> Inr db
           | Inl e \<Rightarrow>
              (if e \<noteq> ErrRecordNotFound then Inl e
               else bind_res (q_create (gq_down db ''fork_group_quota_members'') qm_ID (\<lambda>n r. r\<lparr>qm_ID := n\<rparr>)
                       members_uniq (gq_next db)
                       \<lparr>qm_ID = 0, qm_GroupName = g, qm_ClientEmail = email, qm_BaseUp = baseUp,
                        qm_BaseDown = baseDown, qm_DisabledByGroup = False, qm_UpdatedAt = now\<rparr>
                       (gq_members db)) (\<lambda>rows.
                    Inr (db\<lparr>gq_members := rows, gq_next := Suc (gq_next db)\<rparr>))))"

text \<open>
  A report of the traffic poll is an entry \<open>(email, up, down)\<close>; a \<open>nil\<close> entry is \<open>None\<close>. The first
  loop only collects the groups to lock.
\<close>

type_synonym delta = "(string \<times> int \<times> int) option"

definition delta_group :: "gq_db \<Rightarrow> delta \<Rightarrow> string list" where
  "delta_group db t =
     (case t of
        None \<Rightarrow> []
      | Some (email, _, _) \<Rightarrow>
         (if email = [] then []
          else case find_client db email of
                 Inl _ \<Rightarrow> [] | Inr c \<Rightarrow> (if cl_Group c \<noteq> [] then [cl_Group c] else [])))"

definition apply_delta :: "int \<Rightarrow> delta \<Rightarrow> gq_db \<Rightarrow> gq_db res" where
  "apply_delta now t db =
     (case t of
        None \<Rightarrow> Inr db
      | Some (email, up, down) \<Rightarrow>
         (if email = [] \<or> up = 0 \<and> down = 0 then Inr db
          else case find_client db email of
                 Inl _ \<Rightarrow> Inr db
               | Inr c \<Rightarrow>
                  bind_res (find_traffic db email) (\<lambda>row.
                  if cl_Group c \<noteq> []
                  then ensureMembership now (cl_Group c) (cl_Email c)
                         (max_i (sub64 (ct_Up row) up) 0) (max_i (sub64 (ct_Down row) down) 0) db
                  else Inr db)))"

definition ApplyClientDeltas :: "int \<Rightarrow> delta list \<Rightarrow> gq_db \<Rightarrow> gq_db res" where
  "ApplyClientDeltas now traffics db =
     (if \<not> gq_enabled db \<or> traffics = [] then Inr db
      else bind_res (lockState db (remdups (concat (map (delta_group db) traffics)))) (\<lambda>_.
           fold_res (apply_delta now) traffics db))"

text \<open>
  The joined sum of one direction, given by its counter \<open>ctr\<close> and its baseline \<open>base\<close>: what the
  counters exceed the baselines by.
\<close>

definition member_use :: "(traffic_row \<Rightarrow> int) \<Rightarrow> (membership \<Rightarrow> int) \<Rightarrow> gq_db \<Rightarrow> membership \<Rightarrow> int" where
  "member_use ctr base db m = sum_list (map (\<lambda>t. if ctr t > base m then ctr t - base m else 0)
     (filter (\<lambda>t. ct_Email t = qm_ClientEmail m) (gq_traffics db)))"

definition total_use :: "(traffic_row \<Rightarrow> int) \<Rightarrow> (membership \<Rightarrow> int) \<Rightarrow> gq_db \<Rightarrow> string \<Rightarrow> int" where
  "total_use ctr base db g =
     sum_list (map (member_use ctr base db) (filter (\<lambda>m. qm_GroupName m = g) (gq_members db)))"

definition memberTotals :: "gq_db \<Rightarrow> string \<Rightarrow> (int \<times> int) res" where
  "memberTotals db g =
     (if gq_down db ''fork_group_quota_members'' \<or> gq_down db ''client_traffics''
         \<or> \<not> is_int64 (total_use ct_Up qm_BaseUp db g) \<or> \<not> is_int64 (total_use ct_Down qm_BaseDown db g)
      then Inl ErrDB
      else Inr (total_use ct_Up qm_BaseUp db g, total_use ct_Down qm_BaseDown db g))"

definition viewTx :: "gq_db \<Rightarrow> quota_state \<Rightarrow> group_view res" where
  "viewTx db s =
     bind_res (memberTotals db (qs_GroupName s)) (\<lambda>(up0, down0).
     (let up = clamp (add64 up0 (qs_CarryUp s));
          down = clamp (add64 down0 (qs_CarryDown s));
          used = clamp (add64 (ceilMul up (qs_ActiveMultiplierPPM s)) (ceilMul down (qs_ActiveMultiplierPPM s)));
          remaining = (if qs_QuotaBytes s \<le> 0 \<or> used < qs_QuotaBytes s
                       then (if qs_QuotaBytes s \<le> 0 then 0 else sub64 (qs_QuotaBytes s) used) else 0)
      in Inr \<lparr>gv_GroupName = qs_GroupName s, gv_QuotaBytes = qs_QuotaBytes s, gv_UsedBytes = used,
              gv_RemainingBytes = remaining, gv_QuotaEnabled = (qs_QuotaBytes s > 0),
              gv_Depleted = (qs_QuotaBytes s > 0 \<and> used \<ge> qs_QuotaBytes s),
              gv_ActiveMultiplierPPM = qs_ActiveMultiplierPPM s, gv_PendingMultiplierPPM = qs_PendingMultiplierPPM s,
              gv_ResetPeriod = qs_ResetPeriod s, gv_ResetDay = qs_ResetDay s\<rparr>))"

definition View :: "gq_db \<Rightarrow> string \<Rightarrow> group_view res" where
  "View db g =
     (if \<not> gq_enabled db then Inl ErrRecordNotFound
      else bind_res (find_state db (trim_space g)) (viewTx db))"

definition ListViews :: "gq_db \<Rightarrow> group_view list res" where
  "ListViews db =
     (if \<not> gq_enabled db then Inr []
      else if gq_down db ''fork_group_quota_states'' then Inl ErrDB
      else collect (\<lambda>s. bind_res (viewTx db s) (\<lambda>v. Inr [v])) (sort_key qs_GroupName (gq_states db)))"

section \<open>Configuration\<close>

definition syncMemberships :: "int \<Rightarrow> string \<Rightarrow> gq_db \<Rightarrow> gq_db res" where
  "syncMemberships now g db =
     (if gq_down db ''clients'' \<or> gq_down db ''client_traffics'' then Inl ErrDB
      else fold_res (\<lambda>c. ensureMembership now g (cl_Email c)
                           (case find_traffic db (cl_Email c) of Inr t \<Rightarrow> ct_Up t | Inl _ \<Rightarrow> 0)
                           (case find_traffic db (cl_Email c) of Inr t \<Rightarrow> ct_Down t | Inl _ \<Rightarrow> 0))
             (filter (\<lambda>c. cl_Group c = g) (gq_clients db)) db)"

definition zero_state :: quota_state where
  "zero_state = \<lparr>qs_ID = 0, qs_GroupName = [], qs_QuotaBytes = 0, qs_CarryUp = 0, qs_CarryDown = 0,
     qs_ActiveMultiplierPPM = 0, qs_PendingMultiplierPPM = 0, qs_ResetPeriod = [], qs_ResetDay = 0,
     qs_LastResetAt = 0, qs_Depleted = False, qs_UpdatedAt = 0\<rparr>"

definition owned_members :: "gq_db \<Rightarrow> string \<Rightarrow> membership list" where
  "owned_members db g = filter (\<lambda>m. qm_GroupName m = g \<and> qm_DisabledByGroup m) (gq_members db)"

text \<open>A group without a state row is viewed as the zero state, which has no quota.\<close>

definition recoverGroup :: "int \<Rightarrow> string \<Rightarrow> gq_db \<Rightarrow> gq_db res" where
  "recoverGroup now g db =
     bind_res (lockState db [g]) (\<lambda>rows.
     bind_res (viewTx db (case rows of [] \<Rightarrow> zero_state | s # _ \<Rightarrow> s)) (\<lambda>v.
     if gv_Depleted v then Inr db
     else if gq_down db ''fork_group_quota_members'' then Inl ErrDB
     else (let emails = map qm_ClientEmail (owned_members db g) in
       if emails = [] then Inr db
       else bind_res (update_members (\<lambda>m. qm_GroupName m = g \<and> qm_DisabledByGroup m) (owned_by now False) db)
              (set_enable now emails True))))"

definition valid_period :: "string \<Rightarrow> bool" where
  "valid_period p \<longleftrightarrow> p \<in> {''never'', ''hourly'', ''daily'', ''weekly'', ''monthly''}"

definition create_state :: "quota_state \<Rightarrow> gq_db \<Rightarrow> gq_db res" where
  "create_state s db =
     bind_res (q_create (gq_down db ''fork_group_quota_states'') qs_ID (\<lambda>n r. r\<lparr>qs_ID := n\<rparr>) states_uniq
                 (gq_next db) s (gq_states db)) (\<lambda>rows.
     Inr (db\<lparr>gq_states := rows, gq_next := Suc (gq_next db)\<rparr>))"

definition UpsertConfig :: "int \<Rightarrow> string \<Rightarrow> int \<Rightarrow> int \<Rightarrow> string \<Rightarrow> int \<Rightarrow> gq_db \<Rightarrow> gq_db res" where
  "UpsertConfig now group0 quota pendingMultiplier period day db =
     (if \<not> gq_enabled db then Inl (Err ''group quota is disabled'')
      else (let g = trim_space group0 in
        if g = [] \<or> quota < 0 then Inl (Err ''invalid group quota configuration'')
        else bind_res (validateMultiplier pendingMultiplier) (\<lambda>_.
          if \<not> valid_period period then Inl (Err ''invalid group quota reset period'')
          else if day < 1 \<or> day > 31 then Inl (Err ''group quota reset day must be between 1 and 31'')
          else case find_state db g of
                 Inl e \<Rightarrow>
                   (if e = ErrRecordNotFound
                    then bind_res (create_state (zero_state\<lparr>qs_GroupName := g, qs_QuotaBytes := quota,
                                qs_ActiveMultiplierPPM := Scale, qs_PendingMultiplierPPM := pendingMultiplier,
                                qs_ResetPeriod := period, qs_ResetDay := day, qs_UpdatedAt := now\<rparr>) db)
                           (syncMemberships now g)
                    else Inl e)
               | Inr row \<Rightarrow>
                   bind_res (lockState db [g]) (\<lambda>_.
                   bind_res (update_state (qs_ID row) (configured now quota pendingMultiplier period day) db) (\<lambda>db1.
                   bind_res (syncMemberships now g db1) (recoverGroup now g))))))"

section \<open>Reset\<close>

definition reset_member :: "int \<Rightarrow> membership \<Rightarrow> string list \<times> gq_db \<Rightarrow> (string list \<times> gq_db) res" where
  "reset_member now m st =
     (case st of (owned, db) \<Rightarrow>
       (case find_traffic db (qm_ClientEmail m) of
          Inl _ \<Rightarrow> Inr (owned, db)
        | Inr ct \<Rightarrow>
           bind_res (update_member (qm_ID m) (reset_row now ct) db) (\<lambda>db'.
           Inr (if qm_DisabledByGroup m then owned @ [qm_ClientEmail m] else owned, db'))))"

definition Reset :: "int \<Rightarrow> string \<Rightarrow> gq_db \<Rightarrow> (string list \<times> gq_db) res" where
  "Reset now g db =
     (if \<not> gq_enabled db then Inr ([], db)
      else bind_res (lockState db [g]) (\<lambda>states.
        if states = [] then Inl ErrRecordNotFound
        else bind_res (find_state db g) (\<lambda>s.
             bind_res (q_find (gq_down db ''fork_group_quota_members'') (\<lambda>m. qm_GroupName m = g) (gq_members db)) (\<lambda>members.
             bind_res (fold_res (reset_member now) members ([], db)) (\<lambda>(owned, db1).
             bind_res (update_state (qs_ID s) (restarted now (qs_PendingMultiplierPPM s)) db1) (\<lambda>db2.
             Inr (owned, db2)))))))"

section \<open>Depletion and recovery\<close>

definition deplete_member :: "int \<Rightarrow> membership \<Rightarrow> string list \<times> gq_db \<Rightarrow> (string list \<times> gq_db) res" where
  "deplete_member now m st =
     (case st of (out, db) \<Rightarrow>
       (case find_traffic db (qm_ClientEmail m) of
          Inl _ \<Rightarrow> Inr (out, db)
        | Inr ct \<Rightarrow>
           (if \<not> ct_Enable ct then Inr (out, db)
            else bind_res (if qm_DisabledByGroup m then Inr db
                           else update_member (qm_ID m) (owned_by now True) db) (\<lambda>db'.
                 Inr (if qm_ClientEmail m \<in> set out then out else out @ [qm_ClientEmail m], db')))))"

definition deplete_group :: "int \<Rightarrow> quota_state \<Rightarrow> string list \<times> gq_db \<Rightarrow> (string list \<times> gq_db) res" where
  "deplete_group now s st =
     (case st of (out, db) \<Rightarrow>
       bind_res (viewTx db s) (\<lambda>v.
       bind_res (update_state (qs_ID s) (marked now (gv_Depleted v)) db) (\<lambda>db1.
       if \<not> gv_Depleted v then Inr (out, db1)
       else bind_res (q_find (gq_down db1 ''fork_group_quota_members'') (\<lambda>m. qm_GroupName m = qs_GroupName s) (gq_members db1))
              (\<lambda>members. fold_res (deplete_member now) (sort_key qm_ClientEmail members) (out, db1)))))"

definition DepletedEmails :: "int \<Rightarrow> gq_db \<Rightarrow> (string list \<times> gq_db) res" where
  "DepletedEmails now db =
     (if \<not> gq_enabled db then Inr ([], db)
      else if gq_down db ''fork_group_quota_states'' then Inl ErrDB
      else bind_res (lockState db (sort (map qs_GroupName (gq_states db)))) (\<lambda>states.
           fold_res (deplete_group now) states ([], db)))"

definition ReconcileEnabled :: "int \<Rightarrow> gq_db \<Rightarrow> gq_db res" where
  "ReconcileEnabled now db =
     (if \<not> gq_enabled db then Inr db
      else bind_res (DepletedEmails now db) (\<lambda>(emails, db1).
           bind_res (if emails = [] then Inr db1 else set_enable now emails False db1) (\<lambda>db2.
           if gq_down db2 ''fork_group_quota_states'' then Inl ErrDB
           else fold_res (recoverGroup now) (map qs_GroupName (filter (\<lambda>s. \<not> qs_Depleted s) (gq_states db2))) db2)))"

definition IsBlocked :: "gq_db \<Rightarrow> string \<Rightarrow> bool res" where
  "IsBlocked db email =
     (if \<not> gq_enabled db then Inr False
      else case q_first (gq_down db ''fork_group_quota_members'')
                  (\<lambda>m. qm_ClientEmail m = email \<and> qm_DisabledByGroup m) (gq_members db) of
             Inr _ \<Rightarrow> Inr True
           | Inl e \<Rightarrow>
              (if e \<noteq> ErrRecordNotFound then Inl e
               else case find_client db email of
                      Inl _ \<Rightarrow> Inr False
                    | Inr c \<Rightarrow>
                       (if cl_Group c = [] then Inr False
                        else case find_state db (cl_Group c) of
                               Inl e \<Rightarrow> (if e = ErrRecordNotFound then Inr False else Inl e)
                             | Inr s \<Rightarrow> bind_res (viewTx db s) (\<lambda>v. Inr (gv_Depleted v)))))"

definition IsGroupDepleted :: "gq_db \<Rightarrow> string \<Rightarrow> bool res" where
  "IsGroupDepleted db g =
     (if \<not> gq_enabled db \<or> trim_space g = [] then Inr False
      else case find_state db (trim_space g) of
             Inl e \<Rightarrow> (if e = ErrRecordNotFound then Inr False else Inl e)
           | Inr s \<Rightarrow> bind_res (viewTx db s) (\<lambda>v. Inr (gv_Depleted v)))"

section \<open>Keeping usage when counters or memberships change\<close>

text \<open>\<open>UPDATE ... SET carry_up = carry_up + ?, carry_down = carry_down + ?\<close> on one state row.\<close>

definition add_carry :: "int \<Rightarrow> nat \<Rightarrow> int \<Rightarrow> int \<Rightarrow> gq_db \<Rightarrow> gq_db res" where
  "add_carry stamp_at sid up down db =
     (if list_ex (\<lambda>s. qs_ID s = sid \<and> (\<not> is_int64 (qs_CarryUp s + up) \<or> \<not> is_int64 (qs_CarryDown s + down))) (gq_states db)
      then Inl ErrDB
      else update_state sid (carried stamp_at up down) db)"

definition PreserveReset :: "int \<Rightarrow> string \<Rightarrow> int \<Rightarrow> int \<Rightarrow> gq_db \<Rightarrow> gq_db res" where
  "PreserveReset now email newUp newDown db =
     (if \<not> gq_enabled db then Inr db
      else bind_res (find_client db email) (\<lambda>c.
        if cl_Group c = [] then Inr db
        else bind_res (lockState db [cl_Group c]) (\<lambda>states.
          (case states of
             [] \<Rightarrow> Inr db
           | s # _ \<Rightarrow>
              bind_res (find_member db (cl_Group c) email) (\<lambda>m.
              bind_res (find_traffic db email) (\<lambda>old.
              bind_res (add_carry now (qs_ID s) (max_i (sub64 (ct_Up old) (qm_BaseUp m)) 0)
                          (max_i (sub64 (ct_Down old) (qm_BaseDown m)) 0) db) (\<lambda>db1.
              update_member (qm_ID m) (rebased now newUp newDown) db1)))))))"

definition RebaselineClient :: "int \<Rightarrow> string \<Rightarrow> int \<Rightarrow> int \<Rightarrow> gq_db \<Rightarrow> gq_db res" where
  "RebaselineClient now email newUp newDown db =
     (if \<not> gq_enabled db then Inr db
      else bind_res (find_client db email) (\<lambda>c.
        if cl_Group c = [] then Inr db
        else bind_res (find_traffic db email) (\<lambda>old.
          if newUp < ct_Up old \<or> newDown < ct_Down old then PreserveReset now email newUp newDown db
          else Inr db)))"

definition ClearOwnership :: "int \<Rightarrow> string \<Rightarrow> gq_db \<Rightarrow> gq_db res" where
  "ClearOwnership now email db =
     (if \<not> gq_enabled db then Inr db
      else update_members (\<lambda>m. qm_ClientEmail m = email) (owned_by now False) db)"

text \<open>A client without a traffic row is read as the zero row.\<close>

definition carry_member :: "int \<Rightarrow> quota_state list \<Rightarrow> traffic_row \<Rightarrow> membership \<Rightarrow> gq_db \<Rightarrow> gq_db res" where
  "carry_member now states ct m db =
     (case find (\<lambda>s. qs_GroupName s = qm_GroupName m) states of
        None \<Rightarrow> Inr db
      | Some s \<Rightarrow> add_carry now (qs_ID s) (max_i (sub64 (ct_Up ct) (qm_BaseUp m)) 0)
                    (max_i (sub64 (ct_Down ct) (qm_BaseDown m)) 0) db)"

definition RemoveMembershipByEmail :: "int \<Rightarrow> string \<Rightarrow> gq_db \<Rightarrow> gq_db res" where
  "RemoveMembershipByEmail now email db =
     (if \<not> gq_enabled db \<or> email = [] then Inr db
      else bind_res (q_find (gq_down db ''fork_group_quota_members'') (\<lambda>m. qm_ClientEmail m = email) (gq_members db)) (\<lambda>members.
           bind_res (lockState db (map qm_GroupName members)) (\<lambda>states.
           bind_res (case find_traffic db email of
                       Inl e \<Rightarrow> (if e = ErrRecordNotFound then Inr zero_traffic else Inl e)
                     | Inr ct \<Rightarrow> Inr ct) (\<lambda>ct.
           bind_res (fold_res (carry_member now states ct) members db)
             (delete_members (\<lambda>m. qm_ClientEmail m = email))))))"

definition leave_group :: "int \<Rightarrow> string \<Rightarrow> string \<Rightarrow> gq_db \<Rightarrow> gq_db res" where
  "leave_group now email g db =
     bind_res (case find_member db g email of
                 Inl e \<Rightarrow> (if e = ErrRecordNotFound then Inr db else Inl e)
               | Inr m \<Rightarrow>
                  (case find_traffic db email of
                     Inl _ \<Rightarrow> Inr db
                   | Inr ct \<Rightarrow>
                      (case find_state db g of
                         Inl _ \<Rightarrow> Inr db
                       | Inr s \<Rightarrow> add_carry (now div 1000) (qs_ID s) (max_i (sub64 (ct_Up ct) (qm_BaseUp m)) 0)
                                    (max_i (sub64 (ct_Down ct) (qm_BaseDown m)) 0) db)))
       (delete_members (\<lambda>m. qm_GroupName m = g \<and> qm_ClientEmail m = email))"

definition ChangeMembership :: "int \<Rightarrow> string \<Rightarrow> string \<Rightarrow> string \<Rightarrow> gq_db \<Rightarrow> gq_db res" where
  "ChangeMembership now email oldGroup newGroup db =
     (if \<not> gq_enabled db \<or> oldGroup = newGroup then Inr db
      else bind_res (lockState db [oldGroup, newGroup]) (\<lambda>_.
           bind_res (if oldGroup \<noteq> [] then leave_group now email oldGroup db else Inr db) (\<lambda>db1.
           if newGroup = [] then Inr db1
           else case find_traffic db1 email of
                  Inl _ \<Rightarrow> Inr db1
                | Inr ct \<Rightarrow> ensureMembership now newGroup email (ct_Up ct) (ct_Down ct) db1)))"

definition preserve_or_missing :: "int \<Rightarrow> membership \<Rightarrow> gq_db \<Rightarrow> gq_db res" where
  "preserve_or_missing now m db =
     (case PreserveReset now (qm_ClientEmail m) 0 0 db of
        Inl e \<Rightarrow> (if e = ErrRecordNotFound then Inr db else Inl e) | Inr db' \<Rightarrow> Inr db')"

definition RenameGroup :: "int \<Rightarrow> string \<Rightarrow> string \<Rightarrow> gq_db \<Rightarrow> gq_db res" where
  "RenameGroup now oldName newName db =
     (if \<not> gq_enabled db \<or> oldName = newName then Inr db
      else bind_res (lockState db [oldName, newName]) (\<lambda>_.
        if newName = []
        then bind_res (q_find (gq_down db ''fork_group_quota_members'') (\<lambda>m. qm_GroupName m = oldName) (gq_members db)) (\<lambda>members.
             bind_res (fold_res (preserve_or_missing now) members db) (\<lambda>db1.
             bind_res (delete_members (\<lambda>m. qm_GroupName m = oldName) db1) (\<lambda>db2.
             bind_res (q_delete (gq_down db2 ''fork_group_quota_states'') (\<lambda>s. qs_GroupName s = oldName) (gq_states db2)) (\<lambda>rows.
             Inr (db2\<lparr>gq_states := rows\<rparr>)))))
        else bind_res (update_states (\<lambda>s. qs_GroupName s = oldName)
                         (\<lambda>s. s\<lparr>qs_GroupName := newName, qs_UpdatedAt := now div 1000\<rparr>) db)
               (update_members (\<lambda>m. qm_GroupName m = oldName)
                  (\<lambda>m. m\<lparr>qm_GroupName := newName, qm_UpdatedAt := now div 1000\<rparr>))))"

section \<open>The periodic reset\<close>

text \<open>
  \<open>now.Year()\<close> and \<open>now.Month()\<close> of the local time are the parameter \<open>month_of\<close>. Instants in
  milliseconds: \<open>now\<close> has a finer clock, and the model compares whole milliseconds.
\<close>

definition resetDue :: "(int \<Rightarrow> int \<times> int) \<Rightarrow> quota_state \<Rightarrow> int \<Rightarrow> bool" where
  "resetDue month_of s now =
     (if qs_LastResetAt s = 0 then True
      else if qs_ResetPeriod s = ''hourly'' then now > qs_LastResetAt s + 3600000
      else if qs_ResetPeriod s = ''daily'' then now > qs_LastResetAt s + 24 * 3600000
      else if qs_ResetPeriod s = ''weekly'' then now > qs_LastResetAt s + 7 * 24 * 3600000
      else if qs_ResetPeriod s = ''monthly'' then month_of now \<noteq> month_of (qs_LastResetAt s)
      else False)"

definition reset_and_enable :: "int \<Rightarrow> string \<Rightarrow> gq_db \<Rightarrow> (string list \<times> gq_db) res" where
  "reset_and_enable now g db =
     bind_res (Reset now g db) (\<lambda>(owned, db1).
     if owned = [] then Inr (owned, db1)
     else bind_res (set_enable now owned True db1) (\<lambda>db2. Inr (owned, db2)))"

text \<open>The job: each due state in its own transaction; a failed one leaves the state as it was.\<close>

definition reset_job_step :: "(int \<Rightarrow> int \<times> int) \<Rightarrow> int \<Rightarrow> quota_state \<Rightarrow> gq_db \<Rightarrow> gq_db" where
  "reset_job_step month_of now s db =
     (if \<not> resetDue month_of s now then db
      else case reset_and_enable now (qs_GroupName s) db of Inl _ \<Rightarrow> db | Inr (_, db') \<Rightarrow> db')"

definition reset_job :: "(int \<Rightarrow> int \<times> int) \<Rightarrow> int \<Rightarrow> gq_db \<Rightarrow> gq_db" where
  "reset_job month_of now db =
     (case q_find (gq_down db ''fork_group_quota_states'')
             (\<lambda>s. qs_ResetPeriod s \<noteq> ''never'' \<and> qs_QuotaBytes s > 0) (gq_states db) of
        Inl _ \<Rightarrow> db
      | Inr states \<Rightarrow> fold (reset_job_step month_of now) states db)"

text \<open>The body of the PUT handler's transaction; a zero multiplier means one.\<close>

definition put_quota :: "int \<Rightarrow> string \<Rightarrow> int \<Rightarrow> int \<Rightarrow> string \<Rightarrow> int \<Rightarrow> gq_db \<Rightarrow> gq_db res" where
  "put_quota now name quota ppm period day db =
     bind_res (UpsertConfig now name quota (if ppm = 0 then Scale else ppm) period day db) (ReconcileEnabled now)"

section \<open>Well-formed states and the usage of a group\<close>

definition counters_ok :: "gq_db \<Rightarrow> bool" where
  "counters_ok db \<longleftrightarrow>
     (\<forall>t \<in> set (gq_traffics db). 0 \<le> ct_Up t \<and> ct_Up t \<le> max_int64 \<and> 0 \<le> ct_Down t \<and> ct_Down t \<le> max_int64)
     \<and> (\<forall>m \<in> set (gq_members db). 0 \<le> qm_BaseUp m \<and> qm_BaseUp m \<le> max_int64
            \<and> 0 \<le> qm_BaseDown m \<and> qm_BaseDown m \<le> max_int64)"

definition gq_ok :: "gq_db \<Rightarrow> bool" where
  "gq_ok db \<longleftrightarrow> table_ok qs_ID states_uniq (gq_states db) \<and> table_ok qm_ID members_uniq (gq_members db)
     \<and> traffics_uniq (gq_traffics db) \<and> clients_uniq (gq_clients db) \<and> counters_ok db
     \<and> (\<forall>s \<in> set (gq_states db). qs_ID s < gq_next db) \<and> (\<forall>m \<in> set (gq_members db). qm_ID m < gq_next db)
     \<and> 0 < gq_next db"

definition group_carry :: "(quota_state \<Rightarrow> int) \<Rightarrow> gq_db \<Rightarrow> string \<Rightarrow> int" where
  "group_carry carry db g = sum_list (map (\<lambda>s. if qs_GroupName s = g then carry s else 0) (gq_states db))"

text \<open>The traffic a group has consumed in one direction since its last reset.\<close>

definition usage ::
  "(traffic_row \<Rightarrow> int) \<Rightarrow> (membership \<Rightarrow> int) \<Rightarrow> (quota_state \<Rightarrow> int) \<Rightarrow> gq_db \<Rightarrow> string \<Rightarrow> int" where
  "usage ctr base carry db g = total_use ctr base db g + group_carry carry db g"

definition usage_up :: "gq_db \<Rightarrow> string \<Rightarrow> int" where
  "usage_up = usage ct_Up qm_BaseUp qs_CarryUp"

definition usage_down :: "gq_db \<Rightarrow> string \<Rightarrow> int" where
  "usage_down = usage ct_Down qm_BaseDown qs_CarryDown"

lemma sum_list_update_key:
  fixes F :: "'a \<Rightarrow> int"
  assumes "distinct (map k xs)" "m \<in> set xs"
  shows "sum_list (map F (map (\<lambda>r. if k r = k m then h r else r) xs)) = sum_list (map F xs) + (F (h m) - F m)"
  using assms
proof (induction xs)
  case Nil
  then show ?case by simp
next
  case (Cons x xs)
  show ?case
  proof (cases "k x = k m")
    case True
    then have "x = m" "k m \<notin> k ` set xs" using Cons.prems by (force simp: image_iff)+
    then have "map (\<lambda>r. if k r = k m then h r else r) xs = xs"
      by (intro map_idI) (metis image_eqI)
    then show ?thesis using \<open>x = m\<close> by simp
  next
    case False
    then show ?thesis using Cons by auto
  qed
qed

lemma sum_list_delete:
  fixes F :: "'a \<Rightarrow> int"
  shows "sum_list (map F (filter (\<lambda>x. \<not> P x) xs)) = sum_list (map F xs) - sum_list (map F (filter P xs))"
  by (induction xs) auto

lemma sum_list_insort:
  fixes F :: "'a \<Rightarrow> int"
  shows "sum_list (map F (insort_key k x xs)) = F x + sum_list (map F xs)"
  by (induction xs) auto

lemma sum_list_filter_if:
  fixes F :: "'a \<Rightarrow> int"
  shows "sum_list (map F (filter P xs)) = sum_list (map (\<lambda>x. if P x then F x else 0) xs)"
  by (induction xs) auto

lemma filter_unique: "distinct (map f xs) \<Longrightarrow> t \<in> set xs \<Longrightarrow> filter (\<lambda>x. f x = f t) xs = [t]"
proof (induction xs)
  case (Cons x xs)
  show ?case
  proof (cases "x = t")
    case True
    then have "\<forall>y \<in> set xs. f y \<noteq> f t" using Cons.prems by (metis distinct.simps(2) list.map(2) image_eqI list.set_map)
    then show ?thesis using True by (simp add: filter_empty_conv)
  next
    case False
    then have "t \<in> set xs" "f x \<noteq> f t" using Cons.prems by auto
    then show ?thesis using Cons by simp
  qed
qed simp

lemma total_use_if:
  "total_use ctr base db g = sum_list (map (\<lambda>m. if qm_GroupName m = g then member_use ctr base db m else 0) (gq_members db))"
  by (simp add: total_use_def sum_list_filter_if)

text \<open>The two directions: a counter, a baseline and a carry that are the same component of a pair.\<close>

locale direction =
  fixes ctr :: "traffic_row \<Rightarrow> int" and base :: "membership \<Rightarrow> int" and carry :: "quota_state \<Rightarrow> int"
    and pick :: "int \<Rightarrow> int \<Rightarrow> int"
  assumes pick_cases: "pick = (\<lambda>a b. a) \<or> pick = (\<lambda>a b. b)"
    and ctr_pick: "ctr t = pick (ct_Up t) (ct_Down t)"
    and base_pick: "base m = pick (qm_BaseUp m) (qm_BaseDown m)"
    and carry_pick: "carry s = pick (qs_CarryUp s) (qs_CarryDown s)"
begin

lemma pick_add: "pick (a + c) (b + d) = pick a b + pick c d"
  using pick_cases by auto

lemma pick_same: "pick a a = a"
  using pick_cases by auto

lemma pick_excess: "pick (max_i (sub64 a c) 0) (max_i (sub64 b d) 0) = max_i (sub64 (pick a b) (pick c d)) 0"
  using pick_cases by auto

lemma pick_row_excess:
  "pick (max_i (sub64 (ct_Up t) (qm_BaseUp m)) 0) (max_i (sub64 (ct_Down t) (qm_BaseDown m)) 0)
     = max_i (sub64 (ctr t) (base m)) 0"
  by (simp add: pick_excess ctr_pick base_pick)

lemma bounds:
  assumes "counters_ok db"
  shows "t \<in> set (gq_traffics db) \<Longrightarrow> 0 \<le> ctr t \<and> ctr t \<le> max_int64"
    and "m \<in> set (gq_members db) \<Longrightarrow> 0 \<le> base m \<and> base m \<le> max_int64"
  using pick_cases assms by (auto simp: counters_ok_def ctr_pick base_pick)

lemma member_use_found:
  assumes "traffics_uniq (gq_traffics db)" "t \<in> set (gq_traffics db)" "ct_Email t = qm_ClientEmail m"
  shows "member_use ctr base db m = max_i (ctr t - base m) 0"
proof -
  have "filter (\<lambda>t. ct_Email t = qm_ClientEmail m) (gq_traffics db) = [t]"
    using filter_unique[of ct_Email "gq_traffics db" t] assms by (simp add: traffics_uniq_def)
  then show ?thesis by (simp add: member_use_def max_i_def)
qed

lemma member_use_missing:
  "\<forall>t \<in> set (gq_traffics db). ct_Email t \<noteq> qm_ClientEmail m \<Longrightarrow> member_use ctr base db m = 0"
  by (simp add: member_use_def filter_empty_conv[THEN iffD2])

lemma excess_eq:
  assumes "gq_ok db" "t \<in> set (gq_traffics db)" "m \<in> set (gq_members db)" "ct_Email t = qm_ClientEmail m"
  shows "max_i (sub64 (ctr t) (base m)) 0 = member_use ctr base db m"
proof -
  have "is_int64 (ctr t - base m)"
    using bounds(1)[of db t] bounds(2)[of db m] assms by (simp add: gq_ok_def is_int64_def max_int64_def)
  then show ?thesis
    using member_use_found[of db t m] assms by (simp add: gq_ok_def sub64_def wrap64_id)
qed

end

interpretation upload: direction ct_Up qm_BaseUp qs_CarryUp "\<lambda>a b. a"
  by unfold_locales simp_all

interpretation download: direction ct_Down qm_BaseDown qs_CarryDown "\<lambda>a b. b"
  by unfold_locales auto

section \<open>Every operation keeps the state well-formed\<close>

definition base_ok :: "membership \<Rightarrow> bool" where
  "base_ok m \<longleftrightarrow> 0 \<le> qm_BaseUp m \<and> qm_BaseUp m \<le> max_int64 \<and> 0 \<le> qm_BaseDown m \<and> qm_BaseDown m \<le> max_int64"

lemma row_update_keys [simp]:
  "qs_ID (configured n q x p d s) = qs_ID s" "qs_ID (restarted n x s) = qs_ID s" "qs_ID (marked n b s) = qs_ID s"
  "qs_ID (carried n u d s) = qs_ID s" "qm_ID (rebased n u d m) = qm_ID m" "qm_ID (reset_row n ct m) = qm_ID m"
  "qm_ID (owned_by n b m) = qm_ID m" "base_ok (owned_by n b m) \<longleftrightarrow> base_ok m"
  by (simp_all add: row_updates base_ok_def)

lemma update_states_Inr:
  "update_states P f db = Inr db' \<longleftrightarrow>
     \<not> gq_down db ''fork_group_quota_states'' \<and> states_uniq (map (\<lambda>r. if P r then f r else r) (gq_states db))
     \<and> db' = db\<lparr>gq_states := map (\<lambda>r. if P r then f r else r) (gq_states db)\<rparr>"
  by (auto simp: update_states_def bind_res_Inr q_update_Inr)

lemma update_members_Inr:
  "update_members P f db = Inr db' \<longleftrightarrow>
     \<not> gq_down db ''fork_group_quota_members'' \<and> members_uniq (map (\<lambda>r. if P r then f r else r) (gq_members db))
     \<and> db' = db\<lparr>gq_members := map (\<lambda>r. if P r then f r else r) (gq_members db)\<rparr>"
  by (auto simp: update_members_def bind_res_Inr q_update_Inr)

lemma delete_members_Inr:
  "delete_members P db = Inr db' \<longleftrightarrow> \<not> gq_down db ''fork_group_quota_members''
     \<and> db' = db\<lparr>gq_members := filter (\<lambda>m. \<not> P m) (gq_members db)\<rparr>"
  by (auto simp: delete_members_def bind_res_Inr q_delete_Inr)

lemma update_states_ok:
  assumes "update_states P f db = Inr db'" "\<And>r. qs_ID (f r) = qs_ID r" "gq_ok db"
  shows "gq_ok db'"
proof -
  have keys: "map qs_ID (map (\<lambda>r. if P r then f r else r) (gq_states db)) = map qs_ID (gq_states db)"
    using assms(2) by simp
  show ?thesis
    using assms(1,3) by (auto simp: update_states_Inr gq_ok_def table_ok_def counters_ok_def keys assms(2) simp del: map_map)
qed

lemma update_members_ok:
  assumes "update_members P f db = Inr db'" "\<And>r. qm_ID (f r) = qm_ID r" "\<And>r. base_ok r \<Longrightarrow> base_ok (f r)" "gq_ok db"
  shows "gq_ok db'"
proof -
  have keys: "map qm_ID (map (\<lambda>r. if P r then f r else r) (gq_members db)) = map qm_ID (gq_members db)"
    using assms(2) by simp
  have "\<forall>m \<in> set (gq_members db). base_ok (if P m then f m else m)"
    using assms(3,4) by (auto simp: gq_ok_def counters_ok_def base_ok_def)
  then show ?thesis
    using assms(1,4)
    by (auto simp: update_members_Inr gq_ok_def table_ok_def counters_ok_def keys assms(2) base_ok_def simp del: map_map)
qed

lemma update_state_ok: "update_state sid f db = Inr db' \<Longrightarrow> (\<And>r. qs_ID (f r) = qs_ID r) \<Longrightarrow> gq_ok db \<Longrightarrow> gq_ok db'"
  unfolding update_state_def by (rule update_states_ok)

lemma update_member_ok:
  "update_member mid f db = Inr db' \<Longrightarrow> (\<And>r. qm_ID (f r) = qm_ID r) \<Longrightarrow> (\<And>r. base_ok r \<Longrightarrow> base_ok (f r)) \<Longrightarrow> gq_ok db \<Longrightarrow> gq_ok db'"
  unfolding update_member_def by (rule update_members_ok)

lemma delete_members_ok: "delete_members P db = Inr db' \<Longrightarrow> gq_ok db \<Longrightarrow> gq_ok db'"
  by (auto simp: delete_members_Inr gq_ok_def table_ok_def counters_ok_def members_uniq_def sorted_filter distinct_map_filter)

lemma create_ok_rows:
  assumes "q_create down rid set_rid uniq nid r rows = Inr rows'" "rid r = 0"
  shows "rows' = insort_key rid (set_rid nid r) rows"
  using assms by (auto simp: q_create_def Let_def split: if_splits)

definition new_member :: "int \<Rightarrow> string \<Rightarrow> string \<Rightarrow> int \<Rightarrow> int \<Rightarrow> nat \<Rightarrow> membership" where
  "new_member now g email bu bd n = \<lparr>qm_ID = n, qm_GroupName = g, qm_ClientEmail = email, qm_BaseUp = bu,
     qm_BaseDown = bd, qm_DisabledByGroup = False, qm_UpdatedAt = now\<rparr>"

lemma ensureMembership_cases:
  assumes "ensureMembership now g email bu bd db = Inr db'"
  obtains (same) "db' = db" | (new) "table_ok qm_ID members_uniq (gq_members db) \<Longrightarrow> table_ok qm_ID members_uniq (gq_members db')"
    "db' = db\<lparr>gq_members := insort_key qm_ID (new_member now g email bu bd (gq_next db)) (gq_members db), gq_next := Suc (gq_next db)\<rparr>"
    "find_member db g email = Inl ErrRecordNotFound"
proof (cases "db' = db")
  case False
  with assms obtain rows where rows: "q_create (gq_down db ''fork_group_quota_members'') qm_ID
      (\<lambda>n r. r\<lparr>qm_ID := n\<rparr>) members_uniq (gq_next db) (new_member now g email bu bd 0) (gq_members db) = Inr rows"
    and db': "db' = db\<lparr>gq_members := rows, gq_next := Suc (gq_next db)\<rparr>"
    and missing: "find_member db g email = Inl ErrRecordNotFound"
    by (auto simp: ensureMembership_def new_member_def elim!: bind_resE split: if_splits sum.splits)
  show ?thesis
    using new create_ok_rows[OF rows] memberships.create_ok[OF _ rows] missing db' by (simp add: new_member_def)
qed (rule same)

lemma ensureMembership_ok:
  assumes "ensureMembership now g email bu bd db = Inr db'"
    and "0 \<le> bu" "bu \<le> max_int64" "0 \<le> bd" "bd \<le> max_int64" "gq_ok db"
  shows "gq_ok db'"
  using assms(1)
proof (cases rule: ensureMembership_cases)
  case new
  then show ?thesis using assms(2-) by (auto simp: gq_ok_def counters_ok_def new_member_def set_insort_key less_SucI)
qed (use assms in simp)

lemma create_state_ok:
  assumes "create_state s db = Inr db'" "qs_ID s = 0" "gq_ok db"
  shows "gq_ok db'"
proof -
  from assms(1) obtain rows where rows: "q_create (gq_down db ''fork_group_quota_states'') qs_ID
      (\<lambda>n r. r\<lparr>qs_ID := n\<rparr>) states_uniq (gq_next db) s (gq_states db) = Inr rows"
    and db': "db' = db\<lparr>gq_states := rows, gq_next := Suc (gq_next db)\<rparr>"
    by (auto simp: create_state_def elim!: bind_resE)
  show ?thesis
    using assms quota_states.create_ok[OF _ rows] quota_states.create_Inr[OF rows]
    by (auto simp: gq_ok_def counters_ok_def db' less_SucI)
qed

definition enable_traffic :: "string list \<Rightarrow> bool \<Rightarrow> traffic_row \<Rightarrow> traffic_row" where
  "enable_traffic emails on t = (if ct_Email t \<in> set emails then t\<lparr>ct_Enable := on\<rparr> else t)"

definition enable_client :: "int \<Rightarrow> string list \<Rightarrow> bool \<Rightarrow> client_row \<Rightarrow> client_row" where
  "enable_client now emails on c =
     (if cl_Email c \<in> set emails then c\<lparr>cl_Enable := on, cl_UpdatedAt := now\<rparr> else c)"

lemma enable_traffic_keeps [simp]:
  "ct_Email (enable_traffic es on t) = ct_Email t" "ct_Up (enable_traffic es on t) = ct_Up t"
  "ct_Down (enable_traffic es on t) = ct_Down t"
  by (simp_all add: enable_traffic_def)

lemma enable_client_keeps [simp]:
  "cl_Email (enable_client now es on c) = cl_Email c" "cl_Group (enable_client now es on c) = cl_Group c"
  by (simp_all add: enable_client_def)

lemma set_enable_Inr:
  "set_enable now emails on db = Inr db' \<Longrightarrow>
     db' = db\<lparr>gq_traffics := map (enable_traffic emails on) (gq_traffics db),
              gq_clients := map (enable_client now emails on) (gq_clients db)\<rparr>"
  by (auto simp: set_enable_def q_update_Inr enable_traffic_def enable_client_def elim!: bind_resE)

lemma set_enable_ok: "set_enable now emails on db = Inr db' \<Longrightarrow> gq_ok db \<Longrightarrow> gq_ok db'"
  by (drule set_enable_Inr) (auto simp: gq_ok_def counters_ok_def traffics_uniq_def clients_uniq_def comp_def)

lemma fold_ok:
  assumes "fold_res f xs db = Inr db'" "gq_ok db"
    and "\<And>x d d'. f x d = Inr d' \<Longrightarrow> gq_ok d \<Longrightarrow> gq_ok d'"
  shows "gq_ok db'"
  using fold_res_invariant[of xs gq_ok f db db'] assms by blast

text \<open>The same for loops that also collect emails.\<close>

lemma fold_pair_ok:
  assumes "fold_res f xs (out, db) = Inr (out', db')" "gq_ok db"
    and "\<And>x p d p' d'. f x (p, d) = Inr (p', d') \<Longrightarrow> gq_ok d \<Longrightarrow> gq_ok d'"
  shows "gq_ok db'"
  using fold_res_invariant[of xs "\<lambda>p. gq_ok (snd p)" f "(out, db)" "(out', db')"] assms by (metis prod.collapse snd_conv)

lemma find_traffic_bounds:
  assumes "find_traffic db email = Inr t" "gq_ok db"
  shows "t \<in> set (gq_traffics db)" "ct_Email t = email" "0 \<le> ct_Up t" "ct_Up t \<le> max_int64"
    "0 \<le> ct_Down t" "ct_Down t \<le> max_int64"
  using q_first_InrD[OF assms(1)[unfolded find_traffic_def]] assms(2) by (auto simp: gq_ok_def counters_ok_def)

lemma excess_range: "0 \<le> max_i (sub64 a b) 0" "max_i (sub64 a b) 0 \<le> max_int64"
  using wrap64_is_int64[of "a - b"] by (auto simp: max_i_def sub64_def max_int64_def is_int64_def)

lemmas ensure_excess_ok =
  ensureMembership_ok[OF _ excess_range(1) excess_range(2) excess_range(1) excess_range(2)]

lemma apply_delta_ok: "apply_delta now t db = Inr db' \<Longrightarrow> gq_ok db \<Longrightarrow> gq_ok db'"
  by (auto simp: apply_delta_def elim!: bind_resE ensure_excess_ok
      split: option.splits if_splits sum.splits)

lemma ApplyClientDeltas_ok: "ApplyClientDeltas now ts db = Inr db' \<Longrightarrow> gq_ok db \<Longrightarrow> gq_ok db'"
  by (auto simp: ApplyClientDeltas_def elim!: bind_resE fold_ok apply_delta_ok split: if_splits)

lemma syncMemberships_ok:
  assumes "syncMemberships now g db = Inr db'" "gq_ok db"
  shows "gq_ok db'"
proof -
  have "0 \<le> (case find_traffic db e of Inr t \<Rightarrow> ct_Up t | Inl _ \<Rightarrow> 0)"
    "(case find_traffic db e of Inr t \<Rightarrow> ct_Up t | Inl _ \<Rightarrow> 0) \<le> max_int64"
    "0 \<le> (case find_traffic db e of Inr t \<Rightarrow> ct_Down t | Inl _ \<Rightarrow> 0)"
    "(case find_traffic db e of Inr t \<Rightarrow> ct_Down t | Inl _ \<Rightarrow> 0) \<le> max_int64" for e
    using find_traffic_bounds[OF _ assms(2)] by (auto simp: max_int64_def split: sum.splits)
  note step = ensureMembership_ok[OF _ this]
  from assms(1) have "fold_res (\<lambda>c. ensureMembership now g (cl_Email c)
        (case find_traffic db (cl_Email c) of Inr t \<Rightarrow> ct_Up t | Inl _ \<Rightarrow> 0)
        (case find_traffic db (cl_Email c) of Inr t \<Rightarrow> ct_Down t | Inl _ \<Rightarrow> 0))
      (filter (\<lambda>c. cl_Group c = g) (gq_clients db)) db = Inr db'"
    by (simp add: syncMemberships_def split: if_splits)
  then show ?thesis using assms(2) step by (rule fold_ok)
qed

lemma owned_members_update_ok:
  "update_members P (owned_by now b) db = Inr db' \<Longrightarrow> gq_ok db \<Longrightarrow> gq_ok db'"
  by (erule update_members_ok) simp_all

lemma recoverGroup_ok: "recoverGroup now g db = Inr db' \<Longrightarrow> gq_ok db \<Longrightarrow> gq_ok db'"
  by (auto simp: recoverGroup_def Let_def elim!: bind_resE set_enable_ok owned_members_update_ok split: if_splits)

lemma UpsertConfig_ok: "UpsertConfig now g q ppm p d db = Inr db' \<Longrightarrow> gq_ok db \<Longrightarrow> gq_ok db'"
  unfolding UpsertConfig_def Let_def
  by (auto simp: zero_state_def elim!: bind_resE syncMemberships_ok create_state_ok recoverGroup_ok update_state_ok
      split: if_splits sum.splits)

lemma reset_member_ok: "reset_member now m (out, db) = Inr (out', db') \<Longrightarrow> gq_ok db \<Longrightarrow> gq_ok db'"
  by (auto simp: reset_member_def reset_row_def base_ok_def elim!: bind_resE update_member_ok
      dest: find_traffic_bounds split: sum.splits)

lemma Reset_cases:
  assumes "Reset now g db = Inr (owned, db')" "gq_enabled db"
  obtains s db1 where "find_state db g = Inr s" "\<not> gq_down db ''fork_group_quota_members''"
    "fold_res (reset_member now) (filter (\<lambda>m. qm_GroupName m = g) (gq_members db)) ([], db) = Inr (owned, db1)"
    "update_state (qs_ID s) (restarted now (qs_PendingMultiplierPPM s)) db1 = Inr db'"
  using assms by (auto simp: Reset_def q_find_Inr elim!: bind_resE split: if_splits prod.splits)

lemma Reset_ok: "Reset now g db = Inr (owned, db') \<Longrightarrow> gq_ok db \<Longrightarrow> gq_ok db'"
proof (cases "gq_enabled db")
  case True
  assume "Reset now g db = Inr (owned, db')" "gq_ok db"
  then show ?thesis
    using True by (elim Reset_cases) (auto elim!: update_state_ok fold_pair_ok reset_member_ok)
qed (simp add: Reset_def)

lemma deplete_member_ok: "deplete_member now m (out, db) = Inr (out', db') \<Longrightarrow> gq_ok db \<Longrightarrow> gq_ok db'"
  by (auto simp: deplete_member_def elim!: bind_resE update_member_ok split: sum.splits if_splits)

lemma deplete_group_ok: "deplete_group now s (out, db) = Inr (out', db') \<Longrightarrow> gq_ok db \<Longrightarrow> gq_ok db'"
  by (auto simp: deplete_group_def elim!: bind_resE update_state_ok fold_pair_ok deplete_member_ok split: if_splits)

lemma DepletedEmails_ok: "DepletedEmails now db = Inr (emails, db') \<Longrightarrow> gq_ok db \<Longrightarrow> gq_ok db'"
  by (auto simp: DepletedEmails_def elim!: bind_resE fold_pair_ok deplete_group_ok split: if_splits)

lemma ReconcileEnabled_ok: "ReconcileEnabled now db = Inr db' \<Longrightarrow> gq_ok db \<Longrightarrow> gq_ok db'"
  by (auto simp: ReconcileEnabled_def elim!: bind_resE fold_ok recoverGroup_ok DepletedEmails_ok set_enable_ok
      split: if_splits)

lemma add_carry_ok: "add_carry n sid up down db = Inr db' \<Longrightarrow> gq_ok db \<Longrightarrow> gq_ok db'"
  by (auto simp: add_carry_def elim!: update_state_ok split: if_splits)

lemma PreserveReset_ok:
  "PreserveReset now email nu nd db = Inr db' \<Longrightarrow> 0 \<le> nu \<Longrightarrow> nu \<le> max_int64 \<Longrightarrow> 0 \<le> nd \<Longrightarrow> nd \<le> max_int64 \<Longrightarrow> gq_ok db
     \<Longrightarrow> gq_ok db'"
  by (auto simp: PreserveReset_def elim!: bind_resE update_member_ok add_carry_ok split: if_splits list.splits)
     (simp_all add: base_ok_def rebased_def)

lemma RebaselineClient_ok:
  "RebaselineClient now email nu nd db = Inr db' \<Longrightarrow> 0 \<le> nu \<Longrightarrow> nu \<le> max_int64 \<Longrightarrow> 0 \<le> nd \<Longrightarrow> nd \<le> max_int64 \<Longrightarrow> gq_ok db
     \<Longrightarrow> gq_ok db'"
  by (auto simp: RebaselineClient_def elim!: bind_resE PreserveReset_ok split: if_splits)

lemma ClearOwnership_ok: "ClearOwnership now email db = Inr db' \<Longrightarrow> gq_ok db \<Longrightarrow> gq_ok db'"
  by (auto simp: ClearOwnership_def elim!: owned_members_update_ok split: if_splits)

lemma carry_member_ok: "carry_member now states ct m db = Inr db' \<Longrightarrow> gq_ok db \<Longrightarrow> gq_ok db'"
  by (auto simp: carry_member_def elim!: add_carry_ok split: option.splits)

lemma RemoveMembershipByEmail_ok: "RemoveMembershipByEmail now email db = Inr db' \<Longrightarrow> gq_ok db \<Longrightarrow> gq_ok db'"
  by (auto simp: RemoveMembershipByEmail_def elim!: bind_resE delete_members_ok fold_ok carry_member_ok split: if_splits)

lemma leave_group_ok: "leave_group now email g db = Inr db' \<Longrightarrow> gq_ok db \<Longrightarrow> gq_ok db'"
  by (auto simp: leave_group_def elim!: bind_resE delete_members_ok add_carry_ok split: sum.splits if_splits)

lemma join_ok:
  "find_traffic db e = Inr ct \<Longrightarrow> ensureMembership now g email (ct_Up ct) (ct_Down ct) db = Inr db' \<Longrightarrow> gq_ok db \<Longrightarrow> gq_ok db'"
  by (rule ensureMembership_ok) (auto dest: find_traffic_bounds)

lemma ChangeMembership_ok: "ChangeMembership now email g h db = Inr db' \<Longrightarrow> gq_ok db \<Longrightarrow> gq_ok db'"
  by (auto simp: ChangeMembership_def elim!: bind_resE leave_group_ok join_ok split: if_splits sum.splits)

lemma preserve_or_missing_ok: "preserve_or_missing now m db = Inr db' \<Longrightarrow> gq_ok db \<Longrightarrow> gq_ok db'"
  using PreserveReset_ok[of now "qm_ClientEmail m" 0 0 db db']
  by (auto simp: preserve_or_missing_def max_int64_def split: sum.splits if_splits)

lemma RenameGroup_ok: "RenameGroup now g h db = Inr db' \<Longrightarrow> gq_ok db \<Longrightarrow> gq_ok db'"
proof (cases "h = []")
  case True
  assume "RenameGroup now g h db = Inr db'" and ok: "gq_ok db"
  then obtain members db1 db2 rows where "db' = db \<or> fold_res (preserve_or_missing now) members db = Inr db1
      \<and> delete_members (\<lambda>m. qm_GroupName m = g) db1 = Inr db2
      \<and> q_delete (gq_down db2 ''fork_group_quota_states'') (\<lambda>s. qs_GroupName s = g) (gq_states db2) = Inr rows
      \<and> db' = db2\<lparr>gq_states := rows\<rparr>"
    using True by (auto simp: RenameGroup_def elim!: bind_resE split: if_splits)
  moreover from this ok have "db' \<noteq> db \<Longrightarrow> gq_ok db2"
    by (metis delete_members_ok fold_ok preserve_or_missing_ok)
  ultimately show ?thesis
    using ok quota_states.delete_ok[of "gq_states db2" _ _ rows]
    by (cases "db' = db") (auto simp: gq_ok_def counters_ok_def q_delete_Inr)
next
  case False
  assume "RenameGroup now g h db = Inr db'" "gq_ok db"
  then show ?thesis using False
    by (auto simp: RenameGroup_def base_ok_def elim!: bind_resE update_members_ok update_states_ok split: if_splits)
qed

text \<open>
  The module as a machine. Besides its operations, the panel changes clients and counters: emails
  stay unique and counters stay nonnegative 64-bit numbers.
\<close>

inductive gq_step :: "gq_db \<Rightarrow> gq_db \<Rightarrow> bool" where
  deltas: "ApplyClientDeltas now ts db = Inr db' \<Longrightarrow> gq_step db db'"
| upsert: "UpsertConfig now g q ppm p d db = Inr db' \<Longrightarrow> gq_step db db'"
| reset: "Reset now g db = Inr (owned, db') \<Longrightarrow> gq_step db db'"
| reconcile: "ReconcileEnabled now db = Inr db' \<Longrightarrow> gq_step db db'"
| preserve: "PreserveReset now e nu nd db = Inr db' \<Longrightarrow> 0 \<le> nu \<Longrightarrow> nu \<le> max_int64 \<Longrightarrow> 0 \<le> nd \<Longrightarrow> nd \<le> max_int64
    \<Longrightarrow> gq_step db db'"
| rebaseline: "RebaselineClient now e nu nd db = Inr db' \<Longrightarrow> 0 \<le> nu \<Longrightarrow> nu \<le> max_int64 \<Longrightarrow> 0 \<le> nd \<Longrightarrow> nd \<le> max_int64
    \<Longrightarrow> gq_step db db'"
| clear: "ClearOwnership now e db = Inr db' \<Longrightarrow> gq_step db db'"
| remove: "RemoveMembershipByEmail now e db = Inr db' \<Longrightarrow> gq_step db db'"
| change: "ChangeMembership now e g h db = Inr db' \<Longrightarrow> gq_step db db'"
| rename: "RenameGroup now g h db = Inr db' \<Longrightarrow> gq_step db db'"
| panel: "traffics_uniq ts \<Longrightarrow> clients_uniq cs
    \<Longrightarrow> \<forall>t \<in> set ts. 0 \<le> ct_Up t \<and> ct_Up t \<le> max_int64 \<and> 0 \<le> ct_Down t \<and> ct_Down t \<le> max_int64
    \<Longrightarrow> gq_step db (db\<lparr>gq_traffics := ts, gq_clients := cs, gq_down := dn, gq_enabled := en\<rparr>)"

inductive gq_reachable :: "gq_db \<Rightarrow> bool" where
  initial: "gq_reachable \<lparr>gq_states = [], gq_members = [], gq_traffics = [], gq_clients = [], gq_next = 1,
     gq_down = dn, gq_enabled = en\<rparr>"
| step: "gq_reachable db \<Longrightarrow> gq_step db db' \<Longrightarrow> gq_reachable db'"

lemma gq_step_ok: "gq_step db db' \<Longrightarrow> gq_ok db \<Longrightarrow> gq_ok db'"
proof (induction rule: gq_step.induct)
  case (panel ts cs db dn en)
  then show ?case by (simp add: gq_ok_def counters_ok_def)
qed (blast intro: ApplyClientDeltas_ok UpsertConfig_ok Reset_ok ReconcileEnabled_ok PreserveReset_ok RebaselineClient_ok
    ClearOwnership_ok RemoveMembershipByEmail_ok ChangeMembership_ok RenameGroup_ok)+

lemma gq_reachable_ok: "gq_reachable db \<Longrightarrow> gq_ok db"
proof (induction rule: gq_reachable.induct)
  case (initial dn en)
  show ?case
    by (simp add: gq_ok_def counters_ok_def traffics_uniq_def clients_uniq_def quota_states.empty_ok memberships.empty_ok)
next
  case (step db db')
  then show ?case using gq_step_ok by blast
qed

end
