(* ===== verification/Group_Quota_Usage.thy ===== *)
theory Group_Quota_Usage
  imports Group_Quota
begin

text \<open>
  What the quota operations do to the usage of a group, and the properties of the module. Usage is
  the amount by which the counters of the members exceed their baselines, plus the carry of the
  group. Operations that change memberships or counters move usage between the two parts and
  conserve their sum; a reset clears it.
\<close>

section \<open>Usage under the operations\<close>

lemma find_member_cases:
  assumes "gq_ok db"
  obtains (down) "find_member db g e = Inl ErrDB"
  | (missing) "find_member db g e = Inl ErrRecordNotFound"
      "filter (\<lambda>m. qm_GroupName m = g \<and> qm_ClientEmail m = e) (gq_members db) = []"
  | (found) m where "find_member db g e = Inr m" "m \<in> set (gq_members db)" "qm_GroupName m = g" "qm_ClientEmail m = e"
      "filter (\<lambda>m. qm_GroupName m = g \<and> qm_ClientEmail m = e) (gq_members db) = [m]"
proof (cases rule: q_first_cases[of "gq_down db ''fork_group_quota_members''"
      "\<lambda>m. qm_GroupName m = g \<and> qm_ClientEmail m = e" "gq_members db"])
  case db
  then show ?thesis using down by (simp add: find_member_def)
next
  case missing
  then show ?thesis using that(2) by (simp add: find_member_def filter_empty_conv)
next
  case (found m)
  then have "filter (\<lambda>x. (qm_GroupName x, qm_ClientEmail x) = (qm_GroupName m, qm_ClientEmail m)) (gq_members db) = [m]"
    using assms filter_unique[of "\<lambda>x. (qm_GroupName x, qm_ClientEmail x)" "gq_members db" m]
    by (simp add: gq_ok_def table_ok_def members_uniq_def)
  then show ?thesis using found that(3) by (simp add: find_member_def)
qed

lemma find_state_mem: "find_state db g = Inr s \<Longrightarrow> s \<in> set (gq_states db) \<and> qs_GroupName s = g"
  using q_first_InrD by (fastforce simp: find_state_def)

lemma find_traffic_missing:
  "\<not> gq_down db ''client_traffics'' \<Longrightarrow> find_traffic db e = Inl x \<Longrightarrow> \<forall>t \<in> set (gq_traffics db). ct_Email t \<noteq> e"
  by (rule q_first_cases[of "gq_down db ''client_traffics''" "\<lambda>t. ct_Email t = e" "gq_traffics db"])
     (simp_all add: find_traffic_def)

lemma add_carry_Inr:
  "add_carry n sid u d db = Inr db' \<Longrightarrow>
     db' = db\<lparr>gq_states := map (\<lambda>r. if qs_ID r = sid then carried n u d r else r) (gq_states db)\<rparr>"
  by (simp add: add_carry_def update_state_def update_states_Inr split: if_splits)

lemma member_use_cong: "gq_traffics db = gq_traffics db' \<Longrightarrow> member_use c b db = member_use c b db'"
  by (simp add: member_use_def fun_eq_iff)

lemma ids_distinct: "gq_ok db \<Longrightarrow> distinct (map qs_ID (gq_states db))" "gq_ok db \<Longrightarrow> distinct (map qm_ID (gq_members db))"
  by (simp_all add: gq_ok_def table_ok_def)

context direction
begin

lemma usage_add_carry:
  assumes "add_carry n (qs_ID s) u d db = Inr db'" "s \<in> set (gq_states db)" "gq_ok db"
  shows "usage ctr base carry db' g = usage ctr base carry db g + (if qs_GroupName s = g then pick u d else 0)"
proof -
  note db' = add_carry_Inr[OF assms(1)]
  have use: "member_use ctr base db' = member_use ctr base db" by (rule member_use_cong) (simp add: db')
  have "total_use ctr base db' g = total_use ctr base db g"
    unfolding total_use_def use by (simp add: db')
  moreover have "group_carry carry db' g = group_carry carry db g + (if qs_GroupName s = g then pick u d else 0)"
    using sum_list_update_key[OF ids_distinct(1)[OF assms(3)] assms(2),
        of "\<lambda>s. if qs_GroupName s = g then carry s else 0" "carried n u d"]
    by (simp add: group_carry_def db' carry_pick carried_def pick_add del: map_map)
  ultimately show ?thesis by (simp add: usage_def)
qed

lemma usage_delete_members:
  assumes "delete_members P db = Inr db'"
  shows "usage ctr base carry db' g = usage ctr base carry db g
    - sum_list (map (member_use ctr base db) (filter (\<lambda>m. qm_GroupName m = g) (filter P (gq_members db))))"
proof -
  have db': "db' = db\<lparr>gq_members := filter (\<lambda>m. \<not> P m) (gq_members db)\<rparr>" using assms by (simp add: delete_members_Inr)
  have use: "member_use ctr base db' = member_use ctr base db" by (rule member_use_cong) (simp add: db')
  have "total_use ctr base db' g = sum_list (map (member_use ctr base db)
      (filter (\<lambda>m. \<not> P m) (filter (\<lambda>m. qm_GroupName m = g) (gq_members db))))"
    unfolding total_use_def use by (simp add: db' conj_commute)
  also have "\<dots> = total_use ctr base db g - sum_list (map (member_use ctr base db)
      (filter P (filter (\<lambda>m. qm_GroupName m = g) (gq_members db))))"
    by (simp only: sum_list_delete total_use_def)
  finally have "total_use ctr base db' g = total_use ctr base db g - sum_list (map (member_use ctr base db)
      (filter (\<lambda>m. qm_GroupName m = g) (filter P (gq_members db))))"
    by (simp add: conj_commute)
  moreover have "group_carry carry db' g = group_carry carry db g" by (simp add: group_carry_def db')
  ultimately show ?thesis by (simp add: usage_def)
qed

lemma usage_update_member:
  assumes "update_member (qm_ID m) f db = Inr db'" "m \<in> set (gq_members db)" "gq_ok db"
    and "qm_GroupName (f m) = qm_GroupName m"
  shows "usage ctr base carry db' g = usage ctr base carry db g
    + (if qm_GroupName m = g then member_use ctr base db (f m) - member_use ctr base db m else 0)"
proof -
  have db': "db' = db\<lparr>gq_members := map (\<lambda>r. if qm_ID r = qm_ID m then f r else r) (gq_members db)\<rparr>"
    using assms(1) by (simp add: update_member_def update_members_Inr)
  have use: "member_use ctr base db' = member_use ctr base db" by (rule member_use_cong) (simp add: db')
  have "total_use ctr base db' g = total_use ctr base db g
      + (if qm_GroupName m = g then member_use ctr base db (f m) - member_use ctr base db m else 0)"
    using sum_list_update_key[OF ids_distinct(2)[OF assms(3)] assms(2),
        of "\<lambda>m. if qm_GroupName m = g then member_use ctr base db m else 0" f] assms(4)
    unfolding total_use_if use by (simp add: db' del: map_map)
  moreover have "group_carry carry db' g = group_carry carry db g" by (simp add: group_carry_def db')
  ultimately show ?thesis by (simp add: usage_def)
qed

text \<open>A client that joins with its current counters brings no usage along.\<close>

lemma usage_join:
  assumes "ensureMembership now h e (ct_Up ct) (ct_Down ct) db = Inr db'" "find_traffic db e = Inr ct" "gq_ok db"
  shows "usage ctr base carry db' g = usage ctr base carry db g"
  using assms(1)
proof (cases rule: ensureMembership_cases)
  case new
  note ct = find_traffic_bounds[OF assms(2,3)]
  have use: "member_use ctr base db' = member_use ctr base db" by (rule member_use_cong) (simp add: new(2))
  have "member_use ctr base db (new_member now h e (ct_Up ct) (ct_Down ct) (gq_next db)) = 0"
    using member_use_found[of db ct] ct(1,2) assms(3)
    by (simp add: new_member_def gq_ok_def base_pick ctr_pick max_i_def)
  then have "total_use ctr base db' g = total_use ctr base db g"
    unfolding total_use_if use by (simp add: new(2) sum_list_insort)
  then show ?thesis by (simp add: usage_def group_carry_def new(2))
qed simp

lemma usage_leave_group:
  assumes "leave_group now e h db = Inr db'" "gq_ok db" "\<not> gq_down db ''client_traffics''" "find_state db h = Inr s"
  shows "usage ctr base carry db' g = usage ctr base carry db g"
  using assms(2)
proof (cases rule: find_member_cases[of db h e])
  case down
  then show ?thesis using assms(1) by (simp add: leave_group_def)
next
  case missing
  then have "delete_members (\<lambda>m. qm_GroupName m = h \<and> qm_ClientEmail m = e) db = Inr db'"
    using assms(1) by (simp add: leave_group_def)
  from usage_delete_members[OF this] missing(2) show ?thesis by simp
next
  case (found m)
  note s = find_state_mem[OF assms(4)]
  show ?thesis
  proof (cases "find_traffic db e")
    case (Inl x)
    then have "delete_members (\<lambda>m. qm_GroupName m = h \<and> qm_ClientEmail m = e) db = Inr db'"
      using assms(1) found(1) by (simp add: leave_group_def)
    from usage_delete_members[OF this] found show ?thesis
      using member_use_missing[of db m] find_traffic_missing[OF assms(3) Inl] by simp
  next
    case (Inr ct)
    note ct = find_traffic_bounds[OF Inr assms(2)]
    from assms(1) Inr found(1) assms(4) obtain db1 where
      db1: "add_carry (now div 1000) (qs_ID s) (max_i (sub64 (ct_Up ct) (qm_BaseUp m)) 0)
          (max_i (sub64 (ct_Down ct) (qm_BaseDown m)) 0) db = Inr db1"
      and db': "delete_members (\<lambda>m. qm_GroupName m = h \<and> qm_ClientEmail m = e) db1 = Inr db'"
      by (auto simp: leave_group_def elim!: bind_resE)
    have same: "gq_members db1 = gq_members db" "gq_traffics db1 = gq_traffics db"
      using add_carry_Inr[OF db1] by simp_all
    have "max_i (sub64 (ctr ct) (base m)) 0 = member_use ctr base db m"
      using excess_eq[OF assms(2) ct(1) found(2)] ct(2) found(4) by simp
    then show ?thesis
      using usage_delete_members[OF db', of g] usage_add_carry[OF db1 _ assms(2), of g] s found
        member_use_cong[OF same(2), of ctr base]
      by (simp add: same pick_row_excess)
  qed
qed

lemma usage_ChangeMembership:
  assumes "ChangeMembership now e old new db = Inr db'" "gq_ok db" "\<not> gq_down db ''client_traffics''"
    and "old = [] \<or> find_state db old = Inr s"
  shows "usage ctr base carry db' g = usage ctr base carry db g"
proof (cases "db' = db")
  case False
  from assms(1) False obtain db1 where
    db1: "(if old \<noteq> [] then leave_group now e old db else Inr db) = Inr db1"
    and db': "db' = db1 \<or> (\<exists>ct. find_traffic db1 e = Inr ct
        \<and> ensureMembership now new e (ct_Up ct) (ct_Down ct) db1 = Inr db')"
    by (auto simp: ChangeMembership_def elim!: bind_resE split: if_splits sum.splits)
  have "usage ctr base carry db1 g = usage ctr base carry db g" "gq_ok db1"
    using db1 assms usage_leave_group leave_group_ok by (auto split: if_splits)
  then show ?thesis using db' usage_join by metis
qed simp

end

lemma lock_one_mem: "lock_one db n = Inr ys \<Longrightarrow> s \<in> set ys \<longleftrightarrow> find_state db n = Inr s"
  by (cases "find_state db n") (auto simp: lock_one_def split: if_splits)

lemma lockState_mem:
  assumes "lockState db names = Inr states"
  shows "s \<in> set states \<longleftrightarrow> (\<exists>n \<in> set names. find_state db n = Inr s)"
proof -
  have "s \<in> set states \<longleftrightarrow> (\<exists>n \<in> set names. \<exists>ys. lock_one db n = Inr ys \<and> s \<in> set ys)"
    using collect_set[OF assms[unfolded lockState_def]] by simp
  moreover have "\<exists>ys. lock_one db n = Inr ys" if "n \<in> set names" for n
    using assms that unfolding lockState_def collect_ok_iff by simp
  ultimately show ?thesis using lock_one_mem by blast
qed

lemma lockState_find:
  assumes "lockState db names = Inr states" "gq_ok db" "k \<in> set names"
  shows "find (\<lambda>s. qs_GroupName s = k) states = (case find_state db k of Inr s \<Rightarrow> Some s | Inl _ \<Rightarrow> None)"
proof -
  note mem = lockState_mem[OF assms(1)]
  show ?thesis
  proof (cases "find_state db k")
    case (Inl e)
    then have "\<forall>s \<in> set states. qs_GroupName s \<noteq> k" using mem find_state_mem by fastforce
    then show ?thesis using Inl by (simp add: find_None_iff)
  next
    case (Inr s)
    then have "s \<in> set states" using mem assms(3) by blast
    then obtain x where x: "find (\<lambda>s. qs_GroupName s = k) states = Some x"
      using find_state_mem[OF Inr] by (cases "find (\<lambda>s. qs_GroupName s = k) states") (auto simp: find_None_iff)
    then have "x \<in> set states" "qs_GroupName x = k" by (auto simp: find_Some_iff)
    then have "find_state db k = Inr x" using mem find_state_mem by metis
    then show ?thesis using x Inr by simp
  qed
qed

text \<open>The loop of \<open>RemoveMembershipByEmail\<close> only touches the carries.\<close>

lemma carry_member_keeps:
  "carry_member now states ct m db = Inr db' \<Longrightarrow>
     gq_members db' = gq_members db \<and> gq_traffics db' = gq_traffics db
     \<and> map qs_ID (gq_states db') = map qs_ID (gq_states db) \<and> gq_down db' = gq_down db
     \<and> map qs_GroupName (gq_states db') = map qs_GroupName (gq_states db)"
  by (auto simp: carry_member_def carried_def dest!: add_carry_Inr split: option.splits)

lemma state_with_keys:
  assumes "map qs_ID ss' = map qs_ID ss" "map qs_GroupName ss' = map qs_GroupName ss" "s \<in> set ss"
  shows "\<exists>s' \<in> set ss'. qs_ID s' = qs_ID s \<and> qs_GroupName s' = qs_GroupName s"
proof -
  from assms(3) obtain i where i: "i < length ss" "ss ! i = s" by (auto simp: in_set_conv_nth)
  have "length ss' = length ss" using assms(1) map_eq_imp_length_eq by blast
  then show ?thesis using i assms(1,2) by (metis nth_map nth_mem)
qed

text \<open>The panel's write of new counter values for one client, as the callers of \<open>PreserveReset\<close> do.\<close>

definition write_counters :: "string \<Rightarrow> int \<Rightarrow> int \<Rightarrow> gq_db \<Rightarrow> gq_db" where
  "write_counters e up down db =
     db\<lparr>gq_traffics := map (\<lambda>t. if ct_Email t = e then t\<lparr>ct_Up := up, ct_Down := down\<rparr> else t) (gq_traffics db)\<rparr>"

lemma sum_list_change_one:
  fixes F F' :: "'a \<Rightarrow> int"
  assumes "distinct xs" "m \<in> set xs" "\<And>x. x \<in> set xs \<Longrightarrow> x \<noteq> m \<Longrightarrow> F' x = F x"
  shows "sum_list (map F' xs) = sum_list (map F xs) + (F' m - F m)"
  using assms
proof (induction xs)
  case (Cons x xs)
  show ?case
  proof (cases "x = m")
    case True
    then have "map F' xs = map F xs" using Cons.prems by auto
    then have "sum_list (map F' xs) = sum_list (map F xs)" by (rule arg_cong)
    then show ?thesis using True by simp
  next
    case False
    then show ?thesis using Cons by auto
  qed
qed simp

lemma write_counters_other:
  "qm_ClientEmail x \<noteq> e \<Longrightarrow> member_use c b (write_counters e u d db) x = member_use c b db x"
proof -
  assume "qm_ClientEmail x \<noteq> e"
  then have "filter (\<lambda>t. ct_Email t = qm_ClientEmail x) (map (\<lambda>t. if ct_Email t = e then t\<lparr>ct_Up := u, ct_Down := d\<rparr> else t) ts)
      = filter (\<lambda>t. ct_Email t = qm_ClientEmail x) ts" for ts :: "traffic_row list"
    by (induction ts) auto
  then show ?thesis by (simp add: member_use_def write_counters_def)
qed

lemma write_counters_uniq: "traffics_uniq (gq_traffics db) \<Longrightarrow> traffics_uniq (gq_traffics (write_counters e u d db))"
  by (simp add: traffics_uniq_def write_counters_def comp_def if_distrib[of ct_Email] cong: if_cong)

context direction
begin

lemma usage_carry_fold:
  assumes "fold_res (carry_member now states ct) ms d = Inr d'" "gq_ok db" "gq_ok d"
    and "\<forall>m \<in> set ms. m \<in> set (gq_members db)"
    and "gq_members d = gq_members db" "gq_traffics d = gq_traffics db"
    and "map qs_ID (gq_states d) = map qs_ID (gq_states db)" "map qs_GroupName (gq_states d) = map qs_GroupName (gq_states db)"
    and "\<forall>m \<in> set ms. max_i (sub64 (ctr ct) (base m)) 0 = member_use ctr base db m"
    and "\<forall>m \<in> set ms. qm_GroupName m = g \<longrightarrow> find (\<lambda>s. qs_GroupName s = g) states = Some s \<and> s \<in> set (gq_states db)"
    and "\<forall>x \<in> set states. x \<in> set (gq_states db)"
  shows "usage ctr base carry d' g = usage ctr base carry d g
      + sum_list (map (member_use ctr base db) (filter (\<lambda>m. qm_GroupName m = g) ms))
    \<and> gq_members d' = gq_members db \<and> gq_traffics d' = gq_traffics db"
  using assms
proof (induction ms arbitrary: d)
  case Nil
  then show ?case by simp
next
  case (Cons m ms)
  then obtain e where e: "carry_member now states ct m d = Inr e" "fold_res (carry_member now states ct) ms e = Inr d'"
    by (auto split: sum.splits)
  note keeps = carry_member_keeps[OF e(1)]
  have rest: "usage ctr base carry d' g = usage ctr base carry e g
      + sum_list (map (member_use ctr base db) (filter (\<lambda>m. qm_GroupName m = g) ms))
    \<and> gq_members d' = gq_members db \<and> gq_traffics d' = gq_traffics db"
    using Cons.IH[OF e(2) Cons.prems(2) carry_member_ok[OF e(1) Cons.prems(3)]] Cons.prems keeps by simp
  have "usage ctr base carry e g = usage ctr base carry d g + (if qm_GroupName m = g then member_use ctr base db m else 0)"
  proof (cases "find (\<lambda>s. qs_GroupName s = qm_GroupName m) states")
    case None
    then show ?thesis using e(1) Cons.prems(10) by (auto simp: carry_member_def)
  next
    case (Some t)
    then have t: "t \<in> set states" "qs_GroupName t = qm_GroupName m" by (auto simp: find_Some_iff)
    then obtain t' where t': "t' \<in> set (gq_states d)" "qs_ID t' = qs_ID t" "qs_GroupName t' = qs_GroupName t"
      using state_with_keys[OF Cons.prems(7,8)] Cons.prems(11) by blast
    have "add_carry now (qs_ID t') (max_i (sub64 (ct_Up ct) (qm_BaseUp m)) 0)
        (max_i (sub64 (ct_Down ct) (qm_BaseDown m)) 0) d = Inr e"
      using e(1) Some t'(2) by (simp add: carry_member_def)
    from usage_add_carry[OF this t'(1) Cons.prems(3), of g] show ?thesis
      using Cons.prems(9) t t' by (simp add: pick_row_excess)
  qed
  with rest show ?case by simp
qed

lemma usage_RemoveMembership:
  assumes "RemoveMembershipByEmail now e db = Inr db'" "gq_ok db"
    and "\<forall>m \<in> set (gq_members db). qm_ClientEmail m = e \<and> qm_GroupName m = g \<longrightarrow> find_state db g = Inr s"
  shows "usage ctr base carry db' g = usage ctr base carry db g"
proof (cases "db' = db")
  case False
  define ms where "ms = filter (\<lambda>m. qm_ClientEmail m = e) (gq_members db)"
  from assms(1) False obtain states ct db1 where states: "lockState db (map qm_GroupName ms) = Inr states"
    and ct: "(case find_traffic db e of Inl x \<Rightarrow> (if x = ErrRecordNotFound then Inr zero_traffic else Inl x)
        | Inr ct \<Rightarrow> Inr ct) = Inr ct"
    and db1: "fold_res (carry_member now states ct) ms db = Inr db1"
    and db': "delete_members (\<lambda>m. qm_ClientEmail m = e) db1 = Inr db'"
    by (auto simp: RemoveMembershipByEmail_def q_find_Inr ms_def elim!: bind_resE split: if_splits)
  have excess: "max_i (sub64 (ctr ct) (base m)) 0 = member_use ctr base db m" if m: "m \<in> set ms" for m
  proof (cases "find_traffic db e")
    case (Inl x)
    then have x: "x = ErrRecordNotFound" "ct = zero_traffic" using ct by (auto split: if_splits)
    have none: "\<forall>t \<in> set (gq_traffics db). ct_Email t \<noteq> qm_ClientEmail m"
      using Inl m unfolding x(1) find_traffic_def q_first_not_found ms_def by simp
    have "ctr ct = 0" using x(2) pick_cases by (auto simp: ctr_pick zero_traffic_def)
    moreover have "0 \<le> base m" "base m \<le> max_int64"
      using bounds(2)[of db m] assms(2) m by (auto simp: gq_ok_def ms_def)
    then have "sub64 0 (base m) = - base m"
      unfolding sub64_def by (subst wrap64_id) (auto simp: is_int64_def max_int64_def)
    ultimately show ?thesis using member_use_missing[OF none] \<open>0 \<le> base m\<close> by (simp add: max_i_def)
  next
    case (Inr t)
    then show ?thesis
      using ct find_traffic_bounds[OF Inr assms(2)] m excess_eq[OF assms(2), of t m] by (simp add: ms_def)
  qed
  have state: "find (\<lambda>s. qs_GroupName s = g) states = Some s \<and> s \<in> set (gq_states db)"
    if "m \<in> set ms" "qm_GroupName m = g" for m
  proof -
    have "find_state db g = Inr s" using that assms(3) by (auto simp: ms_def)
    then show ?thesis
      using lockState_find[OF states assms(2), of g] that find_state_mem by force
  qed
  have "\<forall>x \<in> set states. x \<in> set (gq_states db)"
    using lockState_mem[OF states] find_state_mem by blast
  from usage_carry_fold[OF db1 assms(2,2) _ refl refl refl refl _ _ this, of g s] excess state
  have "usage ctr base carry db1 g = usage ctr base carry db g
      + sum_list (map (member_use ctr base db) (filter (\<lambda>m. qm_GroupName m = g) ms))"
    and same: "gq_members db1 = gq_members db" "gq_traffics db1 = gq_traffics db"
    by (auto simp: ms_def)
  then show ?thesis
    using usage_delete_members[OF db', of g] member_use_cong[OF same(2), of ctr base] by (simp add: same ms_def)
qed simp

lemma usage_write_counters:
  assumes "gq_ok db" "m \<in> set (gq_members db)" "t \<in> set (gq_traffics db)" "ct_Email t = qm_ClientEmail m"
  shows "usage ctr base carry (write_counters (qm_ClientEmail m) u d db) (qm_GroupName m)
    = usage ctr base carry db (qm_GroupName m) + (max_i (pick u d - base m) 0 - member_use ctr base db m)"
proof -
  let ?db = "write_counters (qm_ClientEmail m) u d db"
  let ?F = "\<lambda>db x. if qm_GroupName x = qm_GroupName m then member_use ctr base db x else 0"
  have "sum_list (map (?F ?db) (gq_members db)) = sum_list (map (?F db) (gq_members db)) + (?F ?db m - ?F db m)"
  proof (rule sum_list_change_one)
    show "distinct (gq_members db)" using ids_distinct(2)[OF assms(1)] by (simp add: distinct_map)
    fix x
    assume x: "x \<in> set (gq_members db)" "x \<noteq> m"
    then have "(qm_GroupName x, qm_ClientEmail x) \<noteq> (qm_GroupName m, qm_ClientEmail m)"
      using assms(1,2) by (auto simp: gq_ok_def table_ok_def members_uniq_def distinct_map dest: inj_onD)
    then show "?F ?db x = ?F db x" using write_counters_other by simp
  qed (rule assms(2))
  moreover have "member_use ctr base ?db m = max_i (pick u d - base m) 0"
  proof -
    have "t\<lparr>ct_Up := u, ct_Down := d\<rparr> \<in> set (gq_traffics ?db)" using assms(3,4) by (auto simp: write_counters_def)
    then show ?thesis
      using member_use_found[of ?db "t\<lparr>ct_Up := u, ct_Down := d\<rparr>" m] write_counters_uniq assms(1,4)
      by (simp add: gq_ok_def ctr_pick)
  qed
  moreover have "gq_members ?db = gq_members db" "group_carry carry ?db = group_carry carry db"
    by (simp_all add: write_counters_def group_carry_def fun_eq_iff)
  ultimately show ?thesis by (simp add: usage_def total_use_if)
qed

lemma usage_PreserveReset:
  assumes "PreserveReset now e nu nd db = Inr db'" "gq_ok db" "gq_enabled db" "find_client db e = Inr c"
    and "cl_Group c \<noteq> []" "find_state db (cl_Group c) = Inr s" "0 \<le> nu" "nu \<le> max_int64" "0 \<le> nd" "nd \<le> max_int64"
  shows "usage ctr base carry (write_counters e nu nd db') (cl_Group c) = usage ctr base carry db (cl_Group c)"
proof -
  let ?g = "cl_Group c"
  have "lockState db [?g] = Inr [s]" using assms(6) by (simp add: lockState_def lock_one_def)
  with assms(1,3-5) obtain m old db1 where m: "find_member db ?g e = Inr m" and old: "find_traffic db e = Inr old"
    and db1: "add_carry now (qs_ID s) (max_i (sub64 (ct_Up old) (qm_BaseUp m)) 0)
        (max_i (sub64 (ct_Down old) (qm_BaseDown m)) 0) db = Inr db1"
    and db': "update_member (qm_ID m) (rebased now nu nd) db1 = Inr db'"
    by (auto simp: PreserveReset_def elim!: bind_resE)
  have mem: "m \<in> set (gq_members db)" "qm_GroupName m = ?g" "qm_ClientEmail m = e"
    using q_first_InrD[OF m[unfolded find_member_def]] by simp_all
  note bo = find_traffic_bounds[OF old assms(2)]
  have same: "gq_members db1 = gq_members db" "gq_traffics db1 = gq_traffics db"
    using add_carry_Inr[OF db1] by simp_all
  have ok: "gq_ok db1" "gq_ok db'"
    using add_carry_ok[OF db1 assms(2)] PreserveReset_ok[OF assms(1,7-10,2)] by simp_all
  let ?m = "rebased now nu nd m"
  have m': "?m \<in> set (gq_members db')" "gq_traffics db' = gq_traffics db"
    using db' mem(1) by (auto simp: update_member_def update_members_Inr same)
  have "usage ctr base carry db1 ?g = usage ctr base carry db ?g + member_use ctr base db m"
    using usage_add_carry[OF db1 _ assms(2), of ?g] find_state_mem[OF assms(6)]
      excess_eq[OF assms(2) bo(1) mem(1)] bo(2) mem(3) by (simp add: pick_row_excess)
  moreover have "usage ctr base carry db' ?g = usage ctr base carry db1 ?g
      + (member_use ctr base db1 ?m - member_use ctr base db1 m)"
    using usage_update_member[OF db' _ ok(1), of ?g] mem by (simp add: same rebased_def)
  moreover have "usage ctr base carry (write_counters e nu nd db') ?g
      = usage ctr base carry db' ?g + (max_i (pick nu nd - base ?m) 0 - member_use ctr base db' ?m)"
    using usage_write_counters[OF ok(2) m'(1), of old nu nd] bo(1,2) mem m'(2) by (simp add: rebased_def)
  moreover have "base ?m = pick nu nd" by (simp add: base_pick rebased_def)
  moreover have "member_use ctr base db' = member_use ctr base db" "member_use ctr base db1 = member_use ctr base db"
    using member_use_cong m'(2) same(2) by blast+
  ultimately show ?thesis by (simp add: max_i_def)
qed

end

text \<open>The loop of \<open>Reset\<close> as one map over the membership rows.\<close>

definition reset_rows :: "int \<Rightarrow> gq_db \<Rightarrow> membership list \<Rightarrow> membership \<Rightarrow> membership" where
  "reset_rows now d ms r =
     (if qm_ID r \<in> qm_ID ` set ms
      then (case find_traffic d (qm_ClientEmail r) of Inl _ \<Rightarrow> r | Inr ct \<Rightarrow> reset_row now ct r) else r)"

lemma reset_fold_map:
  assumes "fold_res (reset_member now) ms (out, d) = Inr (out', d')" "distinct (map qm_ID ms)"
    and "\<forall>m \<in> set ms. \<forall>r \<in> set (gq_members d). qm_ID r = qm_ID m \<longrightarrow> qm_ClientEmail r = qm_ClientEmail m"
  shows "d' = d\<lparr>gq_members := map (reset_rows now d ms) (gq_members d)\<rparr>"
  using assms
proof (induction ms arbitrary: out d)
  case Nil
  then show ?case by (simp add: reset_rows_def)
next
  case (Cons m ms)
  from Cons.prems(1) obtain o1 e where e: "reset_member now m (out, d) = Inr (o1, e)"
    "fold_res (reset_member now) ms (o1, e) = Inr (out', d')"
    by (cases "reset_member now m (out, d)") auto
  have email: "qm_ClientEmail r = qm_ClientEmail m" if "r \<in> set (gq_members d)" "qm_ID r = qm_ID m" for r
    using Cons.prems(3) that by simp
  have step: "e = d\<lparr>gq_members := map (reset_rows now d [m]) (gq_members d)\<rparr>"
  proof (cases "find_traffic d (qm_ClientEmail m)")
    case (Inl x)
    have "map (reset_rows now d [m]) (gq_members d) = gq_members d"
      using Inl by (intro map_idI) (simp add: reset_rows_def email)
    then show ?thesis using e(1) Inl by (simp add: reset_member_def)
  next
    case (Inr ct)
    have "map (\<lambda>r. if qm_ID r = qm_ID m then reset_row now ct r else r) (gq_members d)
        = map (reset_rows now d [m]) (gq_members d)"
      using Inr by (intro map_cong refl) (simp add: reset_rows_def email)
    moreover have "update_member (qm_ID m) (reset_row now ct) d = Inr e"
      using e(1) Inr by (auto simp: reset_member_def elim!: bind_resE)
    ultimately show ?thesis by (simp only: update_member_def update_members_Inr)
  qed
  have traffic: "find_traffic e = find_traffic d" by (simp add: step find_traffic_def fun_eq_iff)
  have keys: "qm_ID (reset_rows now d xs r) = qm_ID r" "qm_ClientEmail (reset_rows now d xs r) = qm_ClientEmail r" for xs r
    by (simp_all add: reset_rows_def reset_row_def split: sum.split)
  have "d' = e\<lparr>gq_members := map (reset_rows now e ms) (gq_members e)\<rparr>"
  proof (rule Cons.IH[OF e(2)])
    show "distinct (map qm_ID ms)" using Cons.prems(2) by simp
    show "\<forall>m \<in> set ms. \<forall>r \<in> set (gq_members e). qm_ID r = qm_ID m \<longrightarrow> qm_ClientEmail r = qm_ClientEmail m"
    proof (intro ballI impI)
      fix x r
      assume x: "x \<in> set ms" and "r \<in> set (gq_members e)" and id: "qm_ID r = qm_ID x"
      then obtain y where "y \<in> set (gq_members d)" "r = reset_rows now d [m] y" by (auto simp: step)
      then show "qm_ClientEmail r = qm_ClientEmail x" using Cons.prems(3) x id by (simp add: keys)
    qed
  qed
  moreover have "reset_rows now e ms (reset_rows now d [m] r) = reset_rows now d (m # ms) r" for r
  proof (cases "qm_ID r = qm_ID m")
    case True
    then have "qm_ID r \<notin> qm_ID ` set ms" using Cons.prems(2) by simp
    then show ?thesis using True by (simp add: reset_rows_def[of now e] keys) (simp add: reset_rows_def)
  next
    case False
    then show ?thesis by (simp add: reset_rows_def traffic)
  qed
  ultimately show ?case by (simp add: step comp_def)
qed

lemma sum_list_zero:
  fixes F :: "'a \<Rightarrow> int"
  shows "(\<And>x. x \<in> set xs \<Longrightarrow> F x = 0) \<Longrightarrow> sum_list (map F xs) = 0"
  by (induction xs) auto

context direction
begin

lemma usage_Reset:
  assumes "Reset now g db = Inr (owned, db')" "gq_enabled db" "gq_ok db" "\<not> gq_down db ''client_traffics''"
  shows "usage ctr base carry db' g = 0"
proof -
  define ms where "ms = filter (\<lambda>m. qm_GroupName m = g) (gq_members db)"
  obtain s db1 where s: "find_state db g = Inr s"
    and fold: "fold_res (reset_member now) ms ([], db) = Inr (owned, db1)"
    and db': "update_state (qs_ID s) (restarted now (qs_PendingMultiplierPPM s)) db1 = Inr db'"
    using Reset_cases[OF assms(1,2)] unfolding ms_def by metis
  have inj: "x = y" if "x \<in> set (gq_members db)" "y \<in> set (gq_members db)" "qm_ID x = qm_ID y" for x y
    using that ids_distinct(2)[OF assms(3)] by (auto simp: distinct_map dest: inj_onD)
  have db1: "db1 = db\<lparr>gq_members := map (reset_rows now db ms) (gq_members db)\<rparr>"
    using reset_fold_map[OF fold] ids_distinct(2)[OF assms(3)] inj by (auto simp: ms_def distinct_map_filter)
  have db'_eq: "db' = db1\<lparr>gq_states := map (\<lambda>r. if qs_ID r = qs_ID s then restarted now (qs_PendingMultiplierPPM s) r else r) (gq_states db)\<rparr>"
    using db' by (simp add: update_state_def update_states_Inr db1)
  have use: "member_use ctr base db' = member_use ctr base db" by (rule member_use_cong) (simp add: db'_eq db1)
  have "member_use ctr base db (reset_rows now db ms r) = 0" if "r \<in> set (gq_members db)" "qm_GroupName r = g" for r
  proof -
    have "qm_ID r \<in> qm_ID ` set ms" using that by (auto simp: ms_def)
    then show ?thesis
      using member_use_missing[of db r] find_traffic_missing[OF assms(4), of "qm_ClientEmail r"]
        find_traffic_bounds[OF _ assms(3), of "qm_ClientEmail r"] assms(3)
        member_use_found[of db _ "reset_row now _ r"]
      by (auto simp: reset_rows_def reset_row_def gq_ok_def base_pick ctr_pick max_i_def split: sum.splits)
  qed
  moreover have "qm_GroupName (reset_rows now db ms r) = qm_GroupName r" for r
    by (simp add: reset_rows_def reset_row_def split: sum.split)
  ultimately have "total_use ctr base db' g = 0"
    unfolding total_use_def use by (intro sum_list_zero) (auto simp: db'_eq db1)
  moreover have "group_carry carry db' g = 0"
  proof -
    have "s \<in> set (gq_states db)" "qs_GroupName s = g" using find_state_mem[OF s] by auto
    then have "qs_ID r = qs_ID s" if "r \<in> set (gq_states db)" "qs_GroupName r = g" for r
      using that assms(3) by (auto simp: gq_ok_def table_ok_def states_uniq_def distinct_map dest!: inj_onD)
    then show ?thesis
      unfolding group_carry_def by (intro sum_list_zero) (auto simp: db'_eq restarted_def carry_pick pick_same)
  qed
  ultimately show ?thesis by (simp add: usage_def)
qed

end

section \<open>The multiplier and the view\<close>

lemma sub64_add64: "sub64 (add64 a b) c = wrap64 (a + b - c)"
  by (simp add: sub64_def add64_def wrap64_def mod_simps algebra_simps)

lemma div_less_mult:
  fixes n m v :: int
  assumes "0 < m"
  shows "n div m < v \<longleftrightarrow> n < v * m"
proof -
  have n: "n = n div m * m + n mod m" and r: "0 \<le> n mod m" "n mod m < m" using assms by simp_all
  show ?thesis
  proof
    assume "n div m < v"
    then have "(n div m + 1) * m \<le> v * m" using assms by (intro mult_right_mono) auto
    then have "n div m * m + m \<le> v * m" by (simp add: distrib_right)
    then show "n < v * m" using n r(2) by linarith
  next
    assume "n < v * m"
    then show "n div m < v" using assms n r by (metis add.commute add_less_cancel_left le_less_trans less_le_trans
        mult_less_cancel_right_pos not_le order_less_irrefl zero_le_mult_iff add_increasing2 order_refl)
  qed
qed

lemma ceilMul_nonpos: "v \<le> 0 \<Longrightarrow> ceilMul v ppm = 0"
  by (simp add: ceilMul_def)

lemma ceilMul_pos:
  assumes "0 < v" "0 < ppm"
  shows "ceilMul v ppm = (if v * ppm \<le> max_int64 - (Scale - 1) then (v * ppm + Scale - 1) div Scale else quota_cap)"
proof -
  have gt: "v > quot max_int64 ppm \<longleftrightarrow> v * ppm > max_int64"
  proof -
    have "quot max_int64 ppm = max_int64 div ppm" using assms(2) by (simp add: quot_nonneg max_int64_def)
    then show ?thesis using div_less_mult[OF assms(2)] by simp
  qed
  show ?thesis
  proof (cases "v * ppm > max_int64")
    case True
    then show ?thesis using assms gt by (simp add: ceilMul_def Scale_def)
  next
    case False
    have prod: "0 < v * ppm" using assms by simp
    then have "mul64 v ppm = v * ppm" using False by (intro mul64_id) (simp add: is_int64_def max_int64_def)
    then have val: "ceilMul v ppm = clamp (quot (wrap64 (v * ppm + Scale - 1)) Scale)"
      using assms gt False by (simp add: ceilMul_def sub64_add64)
    show ?thesis
    proof (cases "v * ppm \<le> max_int64 - (Scale - 1)")
      case True
      then have "wrap64 (v * ppm + Scale - 1) = v * ppm + Scale - 1"
        using prod by (intro wrap64_id) (simp add: is_int64_def max_int64_def Scale_def)
      moreover have "quot (v * ppm + Scale - 1) Scale = (v * ppm + Scale - 1) div Scale"
        using prod by (intro quot_nonneg) (simp_all add: Scale_def)
      moreover have "(v * ppm + Scale - 1) div Scale \<le> max_int64 div Scale"
        using True by (intro zdiv_mono1) (simp_all add: Scale_def)
      moreover have "0 \<le> (v * ppm + Scale - 1) div Scale" using prod by (simp add: Scale_def)
      ultimately show ?thesis using val True by (simp add: clamp_def quota_cap_def max_int64_def Scale_def)
    next
      case big: False
      let ?x = "v * ppm + Scale - 1"
      have "wrap64 ?x = ?x - 18446744073709551616"
      proof -
        have "(?x + 9223372036854775808) mod 18446744073709551616 = (?x - 9223372036854775808) mod 18446744073709551616"
          using mod_add_self2[of "?x - 9223372036854775808" "18446744073709551616"] by simp
        also have "\<dots> = ?x - 9223372036854775808"
          using big False by (intro mod_pos_pos_trivial) (simp_all add: max_int64_def Scale_def)
        finally show ?thesis by (simp add: wrap64_def)
      qed
      then have neg: "wrap64 ?x < - Scale" using False by (simp add: max_int64_def Scale_def)
      then have "\<bar>wrap64 ?x\<bar> div Scale \<ge> 1" by (simp add: Scale_def)
      then have "quot (wrap64 ?x) Scale < 0" using neg by (simp add: quot_def Scale_def)
      then show ?thesis using val big by (simp add: clamp_def)
    qed
  qed
qed

definition charged :: "int \<Rightarrow> int \<Rightarrow> int" where
  "charged v ppm = (v * ppm + Scale - 1) div Scale"

lemma charged_range: "0 \<le> v \<Longrightarrow> 0 < ppm \<Longrightarrow> v * ppm \<le> max_int64 - (Scale - 1) \<Longrightarrow>
    0 \<le> charged v ppm \<and> charged v ppm \<le> 9223372036855"
proof -
  assume a: "0 \<le> v" "0 < ppm" "v * ppm \<le> max_int64 - (Scale - 1)"
  have "(v * ppm + Scale - 1) div Scale \<le> max_int64 div Scale" using a(3) by (intro zdiv_mono1) (simp_all add: Scale_def)
  moreover have "0 \<le> v * ppm" using a by simp
  ultimately show ?thesis by (simp add: charged_def Scale_def max_int64_def)
qed

lemma ceilMul_charged:
  assumes "0 \<le> v" "0 < ppm"
  shows "ceilMul v ppm = (if v * ppm \<le> max_int64 - (Scale - 1) then charged v ppm else quota_cap)"
  using assms ceilMul_pos[of v ppm]
  by (cases "v = 0") (simp_all add: ceilMul_nonpos charged_def Scale_def max_int64_def)

lemma group_carry_state:
  assumes "gq_ok db" "s \<in> set (gq_states db)"
  shows "group_carry carry db (qs_GroupName s) = carry s"
proof -
  have "filter (\<lambda>x. qs_GroupName x = qs_GroupName s) (gq_states db) = [s]"
    using assms filter_unique[of qs_GroupName "gq_states db" s] by (simp add: gq_ok_def table_ok_def states_uniq_def)
  then show ?thesis by (simp add: group_carry_def flip: sum_list_filter_if)
qed

lemma used_bytes:
  assumes "0 \<le> u" "u \<le> quota_cap" "0 \<le> d" "d \<le> quota_cap" "0 < ppm"
  shows "clamp (add64 (ceilMul (clamp u) ppm) (ceilMul (clamp d) ppm)) =
     (if max u d * ppm \<le> max_int64 - (Scale - 1) then charged u ppm + charged d ppm else quota_cap)"
proof -
  have cl: "clamp u = u" "clamp d = d" using assms by (simp_all add: clamp_def)
  have max: "max u d * ppm \<le> x \<longleftrightarrow> u * ppm \<le> x \<and> d * ppm \<le> x" for x
    using assms(5) by (auto simp: max_def mult_right_mono intro: order_trans[rotated])
  let ?b = "max_int64 - (Scale - 1)"
  note r = charged_range[OF _ assms(5)]
  consider (both) "u * ppm \<le> ?b" "d * ppm \<le> ?b" | (down) "u * ppm \<le> ?b" "\<not> d * ppm \<le> ?b"
    | (up) "\<not> u * ppm \<le> ?b" "d * ppm \<le> ?b" | (none) "\<not> u * ppm \<le> ?b" "\<not> d * ppm \<le> ?b" by blast
  then show ?thesis
  proof cases
    case both
    then have "is_int64 (charged u ppm + charged d ppm)" "0 \<le> charged u ppm + charged d ppm"
      "charged u ppm + charged d ppm \<le> quota_cap"
      using r[of u] r[of d] assms by (auto simp: is_int64_def quota_cap_def)
    then show ?thesis using both assms by (simp add: cl ceilMul_charged add64_id clamp_def max)
  next
    case down
    then have "is_int64 (charged u ppm + quota_cap)" using r[of u] assms by (simp add: is_int64_def quota_cap_def)
    then show ?thesis using down assms r[of u] by (simp add: cl ceilMul_charged add64_id clamp_def max quota_cap_def)
  next
    case up
    then have "is_int64 (quota_cap + charged d ppm)" using r[of d] assms by (simp add: is_int64_def quota_cap_def)
    then show ?thesis using up assms r[of d] by (simp add: cl ceilMul_charged add64_id clamp_def max quota_cap_def)
  next
    case none
    have "add64 quota_cap quota_cap < 0" by (simp add: add64_def wrap64_def quota_cap_def)
    then show ?thesis using none assms by (simp add: cl ceilMul_charged clamp_def max)
  qed
qed

lemma viewTx_Inr:
  assumes "viewTx db s = Inr v"
  shows "gv_UsedBytes v = clamp (add64
      (ceilMul (clamp (add64 (total_use ct_Up qm_BaseUp db (qs_GroupName s)) (qs_CarryUp s))) (qs_ActiveMultiplierPPM s))
      (ceilMul (clamp (add64 (total_use ct_Down qm_BaseDown db (qs_GroupName s)) (qs_CarryDown s))) (qs_ActiveMultiplierPPM s)))"
    and "gv_Depleted v \<longleftrightarrow> 0 < qs_QuotaBytes s \<and> qs_QuotaBytes s \<le> gv_UsedBytes v"
    and "gv_QuotaBytes v = qs_QuotaBytes s"
  using assms by (auto simp: viewTx_def Let_def memberTotals_def elim!: bind_resE split: if_splits)

section \<open>A sample group\<close>

text \<open>Alice has used 30 and 50 bytes above her baseline, and the group carries 5 and 6 from former members.\<close>

definition team_db :: gq_db where
  "team_db = \<lparr>gq_states = [zero_state\<lparr>qs_ID := 1, qs_GroupName := ''team'', qs_QuotaBytes := 90, qs_CarryUp := 5,
        qs_CarryDown := 6, qs_ActiveMultiplierPPM := Scale, qs_PendingMultiplierPPM := 2 * Scale\<rparr>,
       zero_state\<lparr>qs_ID := 2, qs_GroupName := ''lab'', qs_ActiveMultiplierPPM := Scale\<rparr>],
     gq_members = [\<lparr>qm_ID = 3, qm_GroupName = ''team'', qm_ClientEmail = ''alice'', qm_BaseUp = 10, qm_BaseDown = 20,
        qm_DisabledByGroup = True, qm_UpdatedAt = 0\<rparr>],
     gq_traffics = [zero_traffic\<lparr>ct_Id := 1, ct_Email := ''alice'', ct_Up := 40, ct_Down := 70\<rparr>,
        zero_traffic\<lparr>ct_Id := 2, ct_Email := ''bob'', ct_Up := 8, ct_Down := 9, ct_Enable := True\<rparr>],
     gq_clients = [zero_client\<lparr>cl_Id := 1, cl_Email := ''alice'', cl_Group := ''team''\<rparr>,
        zero_client\<lparr>cl_Id := 2, cl_Email := ''bob'', cl_Group := ''team''\<rparr>],
     gq_next = 4, gq_down = (\<lambda>t. False), gq_enabled = True\<rparr>"

lemma team_ok: "gq_ok team_db"
  by (simp add: gq_ok_def team_db_def table_ok_def states_uniq_def members_uniq_def traffics_uniq_def clients_uniq_def
      counters_ok_def zero_state_def zero_traffic_def zero_client_def max_int64_def)

lemma team_facts: "gq_enabled team_db" "\<not> gq_down team_db ''client_traffics''"
  "find_state team_db ''team'' = Inr (hd (gq_states team_db))"
  "usage_up team_db ''team'' = 35" "usage_down team_db ''team'' = 56"
  by code_simp+

section \<open>Properties\<close>

text \<open>C8: Moving a client between groups conserves usage: what it used in the old group stays charged to
  the old group, as carry, and nothing of it is charged to the new group or to any other.\<close>

theorem ChangeMembership_conserves_usage:
  assumes "ChangeMembership now email old new db = Inr db'" "gq_ok db" "\<not> gq_down db ''client_traffics''"
    and "old = [] \<or> find_state db old = Inr s"
  shows "usage_up db' g = usage_up db g \<and> usage_down db' g = usage_down db g"
  unfolding usage_up_def usage_down_def
  using upload.usage_ChangeMembership[OF assms] download.usage_ChangeMembership[OF assms] by simp

theorem ChangeMembership_conserves_usage_witness:
  "(let db' = projr (ChangeMembership 9000 ''alice'' ''team'' ''lab'' team_db) in
    usage_up db' ''team'' = 35 \<and> usage_down db' ''team'' = 56 \<and> usage_up db' ''lab'' = 0
    \<and> map qs_CarryUp (gq_states db') = [35, 0] \<and> map qm_GroupName (gq_members db') = [''lab''])"
proof -
  let ?r = "ChangeMembership 9000 ''alice'' ''team'' ''lab'' team_db"
  have "ok ?r" "map qs_CarryUp (gq_states (projr ?r)) = [35, 0]" "map qm_GroupName (gq_members (projr ?r)) = [''lab'']"
    "usage_up team_db ''lab'' = 0" by code_simp+
  then show ?thesis
    using ChangeMembership_conserves_usage[OF ok_projr[of ?r] team_ok] team_facts by (simp add: Let_def)
qed

text \<open>Deleting a client conserves the usage of every group with a quota state: what the client
  consumed becomes the group's carry before its membership rows go.\<close>

lemma RemoveMembership_conserves_usage:
  assumes "RemoveMembershipByEmail now email db = Inr db'" "gq_ok db"
    and "\<forall>m \<in> set (gq_members db). qm_ClientEmail m = email \<and> qm_GroupName m = g \<longrightarrow> find_state db g = Inr s"
  shows "usage_up db' g = usage_up db g \<and> usage_down db' g = usage_down db g"
  unfolding usage_up_def usage_down_def
  using upload.usage_RemoveMembership[OF assms] download.usage_RemoveMembership[OF assms] by simp

text \<open>Resetting a client's counters does not refund the group: when the panel calls
  \<open>PreserveReset\<close> and then writes the new counter values, the usage of the client's group is
  what it was before.\<close>

lemma PreserveReset_conserves_usage:
  assumes "PreserveReset now email nu nd db = Inr db'" "gq_ok db" "gq_enabled db" "find_client db email = Inr c"
    and "cl_Group c \<noteq> []" "find_state db (cl_Group c) = Inr s" "0 \<le> nu" "nu \<le> max_int64" "0 \<le> nd" "nd \<le> max_int64"
  shows "usage_up (write_counters email nu nd db') (cl_Group c) = usage_up db (cl_Group c)
    \<and> usage_down (write_counters email nu nd db') (cl_Group c) = usage_down db (cl_Group c)"
  unfolding usage_up_def usage_down_def
  using upload.usage_PreserveReset[OF assms] download.usage_PreserveReset[OF assms] by simp

lemma reset_member_traffic: "reset_member now m (out, d) = Inr (out', d') \<Longrightarrow> find_traffic d' = find_traffic d"
  by (auto simp: reset_member_def update_member_def update_members_Inr find_traffic_def fun_eq_iff elim!: bind_resE
      split: sum.splits)

lemma reset_fold_owned:
  "fold_res (reset_member now) ms (out, d) = Inr (out', d') \<Longrightarrow>
     out' = out @ map qm_ClientEmail (filter (\<lambda>m. qm_DisabledByGroup m \<and> ok (find_traffic d (qm_ClientEmail m))) ms)"
proof (induction ms arbitrary: out d)
  case Nil
  then show ?case by simp
next
  case (Cons m ms)
  from Cons.prems obtain o1 e where e: "reset_member now m (out, d) = Inr (o1, e)"
    "fold_res (reset_member now) ms (o1, e) = Inr (out', d')"
    by (cases "reset_member now m (out, d)") auto
  have "o1 = out @ (if qm_DisabledByGroup m \<and> ok (find_traffic d (qm_ClientEmail m)) then [qm_ClientEmail m] else [])"
    using e(1) by (auto simp: reset_member_def elim!: bind_resE split: sum.splits)
  then show ?case using Cons.IH[OF e(2)] reset_member_traffic[OF e(1)] by simp
qed

lemma reset_fold_states: "fold_res (reset_member now) ms (out, d) = Inr (out', d') \<Longrightarrow> gq_states d' = gq_states d"
proof (induction ms arbitrary: out d)
  case (Cons m ms)
  from Cons.prems obtain o1 e where e: "reset_member now m (out, d) = Inr (o1, e)"
    "fold_res (reset_member now) ms (o1, e) = Inr (out', d')"
    by (cases "reset_member now m (out, d)") auto
  have "gq_states e = gq_states d"
    using e(1) by (auto simp: reset_member_def update_member_def update_members_Inr elim!: bind_resE split: sum.splits)
  then show ?case using Cons.IH[OF e(2)] by simp
qed simp

text \<open>A reset leaves no usage: after \<open>Reset\<close> of a group both directions are zero, its state is not
  depleted and runs with the multiplier that was pending, and the returned emails are those of the
  members that the quota had disabled and that still have a traffic row.\<close>

lemma Reset_clears_usage:
  assumes "Reset now g db = Inr (owned, db')" "gq_enabled db" "gq_ok db" "\<not> gq_down db ''client_traffics''"
  shows "usage_up db' g = 0 \<and> usage_down db' g = 0
    \<and> (\<forall>s \<in> set (gq_states db'). qs_GroupName s = g \<longrightarrow> \<not> qs_Depleted s \<and> qs_ActiveMultiplierPPM s = qs_PendingMultiplierPPM s)
    \<and> owned = map qm_ClientEmail (filter (\<lambda>m. qm_DisabledByGroup m \<and> ok (find_traffic db (qm_ClientEmail m)))
                (filter (\<lambda>m. qm_GroupName m = g) (gq_members db)))"
proof -
  obtain s db1 where s: "find_state db g = Inr s"
    and fold: "fold_res (reset_member now) (filter (\<lambda>m. qm_GroupName m = g) (gq_members db)) ([], db) = Inr (owned, db1)"
    and db': "update_state (qs_ID s) (restarted now (qs_PendingMultiplierPPM s)) db1 = Inr db'"
    using Reset_cases[OF assms(1,2)] by metis
  have row: "r = s" if "r \<in> set (gq_states db)" "qs_GroupName r = g" for r
    using that find_state_mem[OF s] assms(3) by (auto simp: gq_ok_def table_ok_def states_uniq_def distinct_map dest: inj_onD)
  have states: "gq_states db' = map (\<lambda>r. if qs_ID r = qs_ID s then restarted now (qs_PendingMultiplierPPM s) r else r) (gq_states db)"
    using db' reset_fold_states[OF fold] by (simp add: update_state_def update_states_Inr)
  have "\<not> qs_Depleted x \<and> qs_ActiveMultiplierPPM x = qs_PendingMultiplierPPM x"
    if "x \<in> set (gq_states db')" "qs_GroupName x = g" for x
  proof -
    from that obtain r where r: "r \<in> set (gq_states db)" "qs_GroupName r = g"
      "x = (if qs_ID r = qs_ID s then restarted now (qs_PendingMultiplierPPM s) r else r)"
      by (auto simp: states restarted_def split: if_splits)
    then show ?thesis using row by (simp add: restarted_def)
  qed
  then show ?thesis
    unfolding usage_up_def usage_down_def
    using upload.usage_Reset[OF assms] download.usage_Reset[OF assms] reset_fold_owned[OF fold] by simp
qed

text \<open>C9: What a group is charged. With usage up to the cap, the used bytes of the view are the usage of each
  direction times the multiplier, rounded up to whole bytes, as long as both products fit in 64
  bits; beyond that they jump to the cap of nine quintillion. The group counts as depleted exactly
  when it has a quota and the used bytes reach it.\<close>

theorem view_charges_usage:
  assumes "viewTx db s = Inr v" "gq_ok db" "s \<in> set (gq_states db)" "0 < qs_ActiveMultiplierPPM s"
    and "0 \<le> usage_up db (qs_GroupName s)" "usage_up db (qs_GroupName s) \<le> quota_cap"
    and "0 \<le> usage_down db (qs_GroupName s)" "usage_down db (qs_GroupName s) \<le> quota_cap"
  defines "u \<equiv> usage_up db (qs_GroupName s)" and "d \<equiv> usage_down db (qs_GroupName s)"
    and "ppm \<equiv> qs_ActiveMultiplierPPM s"
  shows "gv_UsedBytes v = (if max u d * ppm \<le> max_int64 - (Scale - 1) then charged u ppm + charged d ppm else quota_cap)
    \<and> (gv_Depleted v \<longleftrightarrow> 0 < qs_QuotaBytes s \<and> qs_QuotaBytes s \<le> gv_UsedBytes v)"
proof -
  have u: "total_use ct_Up qm_BaseUp db (qs_GroupName s) + qs_CarryUp s = u"
    and d: "total_use ct_Down qm_BaseDown db (qs_GroupName s) + qs_CarryDown s = d"
    using group_carry_state[OF assms(2,3)] by (simp_all add: u_def d_def usage_up_def usage_down_def usage_def)
  have "add64 (total_use ct_Up qm_BaseUp db (qs_GroupName s)) (qs_CarryUp s) = u"
    "add64 (total_use ct_Down qm_BaseDown db (qs_GroupName s)) (qs_CarryDown s) = d"
    using assms(5-8) u d
    by (subst add64_id, simp_all add: is_int64_def quota_cap_def u_def[symmetric] d_def[symmetric])+
  then show ?thesis
    using viewTx_Inr[OF assms(1)] used_bytes[of u d ppm] assms(4-8) by (simp add: u_def d_def ppm_def)
qed

theorem view_charges_usage_witness:
  "(let v = projr (viewTx team_db (hd (gq_states team_db))) in gv_UsedBytes v = 91 \<and> gv_Depleted v)"
proof -
  let ?s = "hd (gq_states team_db)"
  have r: "ok (viewTx team_db ?s)" "qs_GroupName ?s = ''team''" "qs_ActiveMultiplierPPM ?s = Scale"
    "qs_QuotaBytes ?s = 90" "?s \<in> set (gq_states team_db)" by code_simp+
  show ?thesis
    using view_charges_usage[OF ok_projr[OF r(1)] team_ok r(5)] r team_facts
    by (simp add: Let_def Scale_def quota_cap_def charged_def max_int64_def)
qed

text \<open>C17: Whatever the module and the panel do, the quota tables stay well-formed: one state per group, one
  membership per group and client, baselines and counters within 64 bits, and keys below the
  sequence.\<close>

theorem group_quota_stays_consistent:
  assumes "gq_reachable db"
  shows "gq_ok db"
  using assms by (rule gq_reachable_ok)

definition empty_gq :: gq_db where
  "empty_gq = \<lparr>gq_states = [], gq_members = [], gq_traffics = [], gq_clients = [], gq_next = 1,
     gq_down = (\<lambda>t. False), gq_enabled = True\<rparr>"

theorem group_quota_stays_consistent_witness:
  "gq_ok (projr (UpsertConfig 9000 '' team '' 100 Scale ''daily'' 1 empty_gq))
   \<and> map qs_GroupName (gq_states (projr (UpsertConfig 9000 '' team '' 100 Scale ''daily'' 1 empty_gq))) = [''team'']"
proof -
  let ?r = "UpsertConfig 9000 '' team '' 100 Scale ''daily'' 1 empty_gq"
  have r: "ok ?r" "map qs_GroupName (gq_states (projr ?r)) = [''team'']" by code_simp+
  have "gq_reachable empty_gq" unfolding empty_gq_def by (rule gq_reachable.initial)
  then have "gq_reachable (projr ?r)" using gq_reachable.step gq_step.upsert ok_projr[OF r(1)] by blast
  from group_quota_stays_consistent[OF this] r(2) show ?thesis by blast
qed

lemma recoverGroup_cases:
  assumes "recoverGroup now g db = Inr db'"
  obtains (same) "db' = db"
  | (released) "\<not> gq_down db ''fork_group_quota_members''"
      "gq_members db' = map (\<lambda>m. if qm_GroupName m = g \<and> qm_DisabledByGroup m then owned_by now False m else m) (gq_members db)"
      "gq_traffics db' = map (enable_traffic (map qm_ClientEmail (owned_members db g)) True) (gq_traffics db)"
      "gq_clients db' = map (enable_client now (map qm_ClientEmail (owned_members db g)) True) (gq_clients db)"
      "gq_states db' = gq_states db"
proof (cases "db' = db")
  case False
  then obtain db1 where db1: "update_members (\<lambda>m. qm_GroupName m = g \<and> qm_DisabledByGroup m) (owned_by now False) db = Inr db1"
    and db': "set_enable now (map qm_ClientEmail (owned_members db g)) True db1 = Inr db'"
    using assms by (auto simp: recoverGroup_def Let_def elim!: bind_resE split: if_splits)
  show ?thesis using released set_enable_Inr[OF db'] db1 by (simp add: update_members_Inr)
qed (rule same)

text \<open>C10: Recovery releases only what the quota took. \<open>recoverGroup\<close> leaves every client and traffic row
  alone whose email is not marked as disabled by this group, so clients disabled for another
  reason stay disabled; it clears no other group's marks, and changes no counter and no state.\<close>

theorem recoverGroup_releases_only_owned:
  assumes "recoverGroup now g db = Inr db'"
  shows "(\<forall>t \<in> set (gq_traffics db). ct_Email t \<notin> qm_ClientEmail ` set (owned_members db g) \<longrightarrow> t \<in> set (gq_traffics db'))
    \<and> (\<forall>c \<in> set (gq_clients db). cl_Email c \<notin> qm_ClientEmail ` set (owned_members db g) \<longrightarrow> c \<in> set (gq_clients db'))
    \<and> (\<forall>m \<in> set (gq_members db). qm_GroupName m \<noteq> g \<longrightarrow> m \<in> set (gq_members db'))
    \<and> map (\<lambda>t. (ct_Email t, ct_Up t, ct_Down t)) (gq_traffics db') = map (\<lambda>t. (ct_Email t, ct_Up t, ct_Down t)) (gq_traffics db)
    \<and> gq_states db' = gq_states db"
  using assms
proof (cases rule: recoverGroup_cases)
  case released
  have "t \<in> set (gq_traffics db')" if "t \<in> set (gq_traffics db)" "ct_Email t \<notin> qm_ClientEmail ` set (owned_members db g)" for t
    using that by (force simp: released(3) enable_traffic_def)
  moreover have "c \<in> set (gq_clients db')" if "c \<in> set (gq_clients db)" "cl_Email c \<notin> qm_ClientEmail ` set (owned_members db g)" for c
    using that by (force simp: released(4) enable_client_def)
  moreover have "m \<in> set (gq_members db')" if "m \<in> set (gq_members db)" "qm_GroupName m \<noteq> g" for m
    using that by (force simp: released(2))
  ultimately show ?thesis by (simp add: released(3,5) comp_def)
qed simp

definition recovering_db :: gq_db where
  "recovering_db = team_db\<lparr>gq_states := map (\<lambda>s. s\<lparr>qs_QuotaBytes := 1000\<rparr>) (gq_states team_db)\<rparr>"

theorem recoverGroup_releases_only_owned_witness:
  "(let db' = projr (recoverGroup 9000 ''team'' recovering_db) in
    map ct_Enable (gq_traffics db') = [True, True] \<and> gq_states db' = gq_states recovering_db
    \<and> (\<exists>t \<in> set (gq_traffics db'). ct_Email t = ''bob'' \<and> ct_Up t = 8))"
proof -
  let ?r = "recoverGroup 9000 ''team'' recovering_db"
  have r: "ok ?r" "map ct_Enable (gq_traffics (projr ?r)) = [True, True]"
    "gq_traffics recovering_db ! 1 \<in> set (gq_traffics recovering_db)"
    "ct_Email (gq_traffics recovering_db ! 1) = ''bob''" "ct_Up (gq_traffics recovering_db ! 1) = 8"
    "''bob'' \<notin> qm_ClientEmail ` set (owned_members recovering_db ''team'')" by code_simp+
  note p = recoverGroup_releases_only_owned[OF ok_projr[OF r(1)]]
  define t where "t = gq_traffics recovering_db ! 1"
  have t: "t \<in> set (gq_traffics (projr ?r))"
    using bspec[OF conjunct1[OF p] r(3)] r(4,6) unfolding t_def by simp
  have "gq_states (projr ?r) = gq_states recovering_db" using p by (elim conjE)
  then show ?thesis
    unfolding Let_def using r(2) t r(4,5)[folded t_def] by (intro conjI bexI[of _ t]) simp_all
qed

context direction
begin

text \<open>A client whose membership is made from the counters before the poll is charged the poll.\<close>

lemma usage_first_delta:
  assumes "ensureMembership now g e (max_i (sub64 (ct_Up t) up) 0) (max_i (sub64 (ct_Down t) down) 0) db = Inr db'"
    and "find_member db g e = Inl ErrRecordNotFound" "g \<noteq> []" "e \<noteq> []" "find_traffic db e = Inr t" "gq_ok db"
    and "0 \<le> up" "up \<le> ct_Up t" "0 \<le> down" "down \<le> ct_Down t"
  shows "usage ctr base carry db' g = usage ctr base carry db g + pick up down"
  using assms(1)
proof (cases rule: ensureMembership_cases)
  case same
  then show ?thesis
    using assms(1-4) by (auto simp: ensureMembership_def elim!: bind_resE dest: arg_cong[of _ _ gq_next])
next
  case new
  note bo = find_traffic_bounds[OF assms(5,6)]
  have sub: "max_i (sub64 (ct_Up t) up) 0 = ct_Up t - up" "max_i (sub64 (ct_Down t) down) 0 = ct_Down t - down"
    using bo assms(7-10) by (auto simp: sub64_id is_int64_def max_int64_def max_i_def)
  define m where "m = new_member now g e (ct_Up t - up) (ct_Down t - down) (gq_next db)"
  have use: "member_use ctr base db' = member_use ctr base db" by (rule member_use_cong) (simp add: new(2))
  have "member_use ctr base db m = pick up down"
    using member_use_found[of db t m] bo(1,2) assms(6-10) pick_cases
    by (auto simp: m_def new_member_def gq_ok_def base_pick ctr_pick max_i_def)
  then have "total_use ctr base db' g = total_use ctr base db g + pick up down"
    unfolding total_use_if use by (simp add: new(2) sum_list_insort sub m_def new_member_def)
  then show ?thesis by (simp add: usage_def group_carry_def new(2))
qed

end

text \<open>The poll in which a client first appears is charged exactly once. When the counters already
  include the reported bytes and the client of a group has no membership yet, applying the report
  raises the usage of the group by just these bytes.\<close>

lemma first_poll_charged_once:
  assumes "apply_delta now (Some (email, up, down)) db = Inr db'" "gq_ok db" "email \<noteq> []" "up \<noteq> 0 \<or> down \<noteq> 0"
    and "find_client db email = Inr c" "cl_Group c \<noteq> []" "find_traffic db email = Inr t"
    and "find_member db (cl_Group c) email = Inl ErrRecordNotFound"
    and "0 \<le> up" "up \<le> ct_Up t" "0 \<le> down" "down \<le> ct_Down t"
  shows "usage_up db' (cl_Group c) = usage_up db (cl_Group c) + up
    \<and> usage_down db' (cl_Group c) = usage_down db (cl_Group c) + down"
proof -
  have "cl_Email c = email" using q_first_InrD[OF assms(5)[unfolded find_client_def]] by simp
  with assms have step: "ensureMembership now (cl_Group c) email (max_i (sub64 (ct_Up t) up) 0)
      (max_i (sub64 (ct_Down t) down) 0) db = Inr db'"
    by (auto simp: apply_delta_def)
  show ?thesis
    unfolding usage_up_def usage_down_def
    using upload.usage_first_delta[OF step assms(8,6,3,7,2,9-12)]
      download.usage_first_delta[OF step assms(8,6,3,7,2,9-12)] by simp
qed

end
