(* ===== verification/Traffic_Control.thy ===== *)
theory Traffic_Control
  imports Go_Runtime "HOL-Library.State_Monad"
begin

text \<open>
  The traffic-control substrate, \<open>src/internal/forkext/trafficcontrol\<close>: marks of clients
  (\<open>marks.go\<close>), the backend that reconciles kernel state through \<open>tc\<close>, \<open>ip\<close> and \<open>nft\<close> commands
  (\<open>backend.go\<close>), and the service around it (\<open>service.go\<close>).

  The commands a run of the code issues are its history, and the executor is a parameter
  \<open>run\<close>: what a command answers (its standard output, or the text of its error) may depend on
  every command issued before it. A kernel that changes under the commands, fails at any of them
  or is changed by somebody else is such a function, so a theorem for every \<open>run\<close> is one for
  every behaviour of the system. Code that issues commands is a computation of the state monad
  over the history.

  \<open>uint32\<close> marks and \<open>uint64\<close> rates are natural numbers; the one sum that can wrap does so
  explicitly. The iteration order of the Go map \<open>desired\<close> is the parameter \<open>order\<close>.
\<close>

section \<open>Types\<close>

text \<open>
  What the code takes from outside: the hash of \<open>crypto/sha256\<close> (32 bytes), \<open>net.ParseCIDR\<close> (an
  error text, or whether the address is one of IPv4), \<open>strconv.Quote\<close>, the Unicode lower case
  tables, \<open>runtime.GOOS\<close>, and \<open>CATX_TRAFFIC_CONTROL_INTERFACES\<close>.
\<close>

record tc_env =
  te_sha256 :: "string \<Rightarrow> nat list"
  te_parse_cidr :: "string \<Rightarrow> string + bool"
  te_quote :: "string \<Rightarrow> string"
  te_unicode_lower :: "string \<Rightarrow> string"
  te_goos :: string
  te_interfaces :: string

record tc_capabilities =
  cap_Platform :: string
  cap_State :: string
  cap_Reason :: string
  cap_Interfaces :: "string list"
  cap_Tc :: bool
  cap_Nftables :: bool
  cap_ConntrackMarks :: bool
  cap_IFB :: bool
  cap_NetAdmin :: bool
  cap_UserAttribution :: bool

record tc_status =
  st_Capabilities :: tc_capabilities
  st_AppliedInterfaces :: "string list"
  st_Generation :: int
  st_LastError :: string

record desired_rule =
  dr_NodeKey :: string
  dr_ClientKey :: string
  dr_Interface :: string
  dr_Mark :: nat
  dr_UploadRateBps :: nat
  dr_DownloadRateBps :: nat
  dr_Selectors :: "string list"

definition zero_caps :: tc_capabilities where
  "zero_caps = \<lparr>cap_Platform = [], cap_State = [], cap_Reason = [], cap_Interfaces = [], cap_Tc = False,
     cap_Nftables = False, cap_ConntrackMarks = False, cap_IFB = False, cap_NetAdmin = False,
     cap_UserAttribution = False\<rparr>"

definition status_of :: "tc_capabilities \<Rightarrow> tc_status" where
  "status_of cap = \<lparr>st_Capabilities = cap, st_AppliedInterfaces = [], st_Generation = 0, st_LastError = []\<rparr>"

definition zero_status :: tc_status where
  "zero_status = status_of zero_caps"

definition caps :: "string \<Rightarrow> string \<Rightarrow> tc_capabilities" where
  "caps state reason = zero_caps\<lparr>cap_State := state, cap_Reason := reason\<rparr>"

text \<open>\<open>status.State, status.Reason = ...\<close>: the fields are those of the embedded capabilities.\<close>

definition with_state :: "string \<Rightarrow> string \<Rightarrow> tc_status \<Rightarrow> tc_status" where
  "with_state state reason s =
     s\<lparr>st_Capabilities := (st_Capabilities s)\<lparr>cap_State := state, cap_Reason := reason\<rparr>\<rparr>"

abbreviation st_State :: "tc_status \<Rightarrow> string" where
  "st_State s \<equiv> cap_State (st_Capabilities s)"

definition ErrUnsupported :: string where "ErrUnsupported = ''traffic shaping is unsupported''"

section \<open>Marks\<close>

definition markMin :: int where "markMin = 1"
definition markMax :: int where "markMax = 65534"

definition nul :: string where "nul = [CHR 0x00]"

text \<open>The owner of a rule, the key of the maps \<open>desired\<close>, \<open>marks\<close> and \<open>occupied\<close>.\<close>

definition owner_key :: "string \<Rightarrow> string \<Rightarrow> string" where
  "owner_key nodeKey clientKey = nodeKey @ nul @ clientKey"

text \<open>\<open>binary.BigEndian.Uint32(h[:4])\<close>.\<close>

definition be_uint32 :: "nat list \<Rightarrow> int" where
  "be_uint32 h = foldl (\<lambda>n b. 256 * n + int b) 0 (take 4 h)"

definition AllocateMark :: "tc_env \<Rightarrow> string \<Rightarrow> string \<Rightarrow> (nat \<rightharpoonup> string) \<Rightarrow> string + nat" where
  "AllocateMark env nodeKey clientKey occupied =
     (if nodeKey = [] \<or> clientKey = [] then Inl ''node and client keys are required''
      else let h = te_sha256 env (owner_key nodeKey clientKey);
               span = markMax - markMin + 1;
               mark = nat (markMin + be_uint32 h mod span)
           in case occupied mark of
                None \<Rightarrow> Inr mark
              | Some owner \<Rightarrow>
                 (if owner \<noteq> owner_key nodeKey clientKey
                  then Inl (''mark collision: '' @ nat_to_dec mark @ '' belongs to '' @ te_quote env owner)
                  else Inr mark))"

text \<open>\<open>fmt.Sprintf("%x", bytes)\<close>.\<close>

definition hex_digit :: "nat \<Rightarrow> char" where
  "hex_digit n = (if n < 10 then digit_char n else char_of (87 + n))"

definition to_hex :: "nat list \<Rightarrow> string" where
  "to_hex bs = concat (map (\<lambda>b. [hex_digit (b div 16 mod 16), hex_digit (b mod 16)]) bs)"

definition ownedName :: "tc_env \<Rightarrow> string \<Rightarrow> string \<Rightarrow> string \<Rightarrow> string" where
  "ownedName env prefix nodeKey clientKey =
     prefix @ ''-'' @ to_hex (take 6 (te_sha256 env (owner_key nodeKey clientKey)))"

definition RuleName :: "tc_env \<Rightarrow> string \<Rightarrow> string \<Rightarrow> string" where
  "RuleName env nodeKey clientKey = ownedName env ''catx-rule'' nodeKey clientKey"

section \<open>Commands\<close>

datatype command = Command (cmd_name: string) (cmd_args: "string list") (cmd_input: string)

type_synonym history = "command list"
type_synonym executor = "history \<Rightarrow> command \<Rightarrow> string + string"
type_synonym 'a act = "(history, 'a) state"

definition exec_input :: "executor \<Rightarrow> string \<Rightarrow> string list \<Rightarrow> string \<Rightarrow> (string + string) act" where
  "exec_input run name args inp =
     State (\<lambda>h. (run h (Command name args inp), h @ [Command name args inp]))"

abbreviation exec :: "executor \<Rightarrow> string \<Rightarrow> string list \<Rightarrow> (string + string) act" where
  "exec run name args \<equiv> exec_input run name args []"

text \<open>\<open>execSimple\<close>, \<open>execSimpleInput\<close>: the error, if any.\<close>

definition error_of :: "string + 'a \<Rightarrow> string option" where
  "error_of r = (case r of Inl e \<Rightarrow> Some e | Inr _ \<Rightarrow> None)"

definition execSimpleInput :: "executor \<Rightarrow> string \<Rightarrow> string list \<Rightarrow> string \<Rightarrow> string option act" where
  "execSimpleInput run name args inp =
     State_Monad.bind (exec_input run name args inp) (\<lambda>r. State_Monad.return (error_of r))"

definition execSimple :: "executor \<Rightarrow> string \<Rightarrow> string list \<Rightarrow> string option act" where
  "execSimple run name args = execSimpleInput run name args []"

section \<open>What the output of \<open>tc qdisc show\<close> says\<close>

definition newline :: char where "newline = CHR 0x0A"

definition hasQdisc :: "string \<Rightarrow> string \<Rightarrow> string \<Rightarrow> bool" where
  "hasQdisc qdisc kind handle \<longleftrightarrow>
     list_ex (\<lambda>line. let f = str_fields line
                     in 3 \<le> length f \<and> f ! 0 = ''qdisc'' \<and> f ! 1 = kind \<and> f ! 2 = handle)
       (split_on newline qdisc)"

definition hasQdiscKind :: "string \<Rightarrow> string \<Rightarrow> bool" where
  "hasQdiscKind qdisc kind \<longleftrightarrow>
     list_ex (\<lambda>line. let f = str_fields line in 2 \<le> length f \<and> f ! 0 = ''qdisc'' \<and> f ! 1 = kind)
       (split_on newline qdisc)"

definition hasRootQdisc :: "string \<Rightarrow> string \<Rightarrow> bool" where
  "hasRootQdisc qdisc kind \<longleftrightarrow>
     list_ex (\<lambda>line. let f = str_fields line
                     in 4 \<le> length f \<and> f ! 0 = ''qdisc'' \<and> f ! 1 = kind \<and> ''root'' \<in> set (drop 3 f))
       (split_on newline qdisc)"

definition isCatXRootQdisc :: "string \<Rightarrow> bool" where
  "isCatXRootQdisc qdisc \<longleftrightarrow> hasQdisc qdisc ''htb'' ''1:'' \<and> hasRootQdisc qdisc ''htb''"

section \<open>The backend\<close>

definition nftFamily :: string where "nftFamily = ''inet''"
definition nftTable :: string where "nftTable = ''catx_traffic_control''"

record tc_backend =
  be_platform :: string
  be_interfaces :: "string list"
  be_status :: tc_status
  be_desired :: "(string \<times> desired_rule) list"

record interfacePlan =
  pl_rootOwned :: bool
  pl_ingressOwned :: bool
  pl_ifbOwned :: bool
  pl_ifbPresent :: bool

record interfaceMutation =
  mu_iface :: string
  mu_ifb :: string
  mu_mutated :: bool
  mu_rootCreated :: bool
  mu_ingressCreated :: bool
  mu_ifbCreated :: bool
  mu_ifbRootCreated :: bool

definition mu_changed :: "interfaceMutation \<Rightarrow> bool" where
  "mu_changed m \<longleftrightarrow> mu_mutated m \<or> mu_rootCreated m \<or> mu_ingressCreated m \<or> mu_ifbCreated m \<or> mu_ifbRootCreated m"

definition valid_interface_char :: "char \<Rightarrow> bool" where
  "valid_interface_char c \<longleftrightarrow>
     (let n = (of_char c :: nat)
      in 97 \<le> n \<and> n \<le> 122 \<or> 65 \<le> n \<and> n \<le> 90 \<or> 48 \<le> n \<and> n \<le> 57 \<or>
         c = CHR ''_'' \<or> c = CHR ''-'' \<or> c = CHR ''.'' \<or> c = CHR '':'')"

definition validInterfaceName :: "string \<Rightarrow> bool" where
  "validInterfaceName name \<longleftrightarrow> list_all valid_interface_char name"

definition cleanInterfaces :: "string list \<Rightarrow> string list" where
  "cleanInterfaces xs =
     sorted_keys (filter (\<lambda>v. v \<noteq> [] \<and> length v \<le> 15 \<and> validInterfaceName v) (map trim_space xs))"

text \<open>\<open>NewBackend(nil, "", interfaces)\<close>: the executor is the argument \<open>run\<close> of the operations.\<close>

definition NewBackend :: "tc_env \<Rightarrow> string \<Rightarrow> string list \<Rightarrow> tc_backend" where
  "NewBackend env platform interfaces =
     \<lparr>be_platform = (if platform = [] then te_goos env else platform),
      be_interfaces = cleanInterfaces interfaces, be_status = zero_status, be_desired = []\<rparr>"

definition ifbName :: "tc_env \<Rightarrow> string \<Rightarrow> string" where
  "ifbName env iface =
     (let n = ''catx-'' @ iface
      in if length n > 15 then ''catx-ifb'' @ take 7 (to_hex (te_sha256 env iface)) else n)"

definition rate :: "nat \<Rightarrow> string" where
  "rate bps = (if bps < 8 then ''1bit'' else nat_to_dec (nat ((int bps + 7) mod 18446744073709551616 div 8)) @ ''bit'')"

text \<open>\<open>capabilitiesLocked\<close> and \<open>probeNetAdmin\<close>. The first interface that is not there decides.\<close>

fun missing_interface :: "executor \<Rightarrow> string list \<Rightarrow> string option act" where
  "missing_interface run [] = State_Monad.return None"
| "missing_interface run (iface # ifaces) =
     do { r \<leftarrow> exec run ''ip'' [''link'', ''show'', ''dev'', iface];
          case r of Inl _ \<Rightarrow> State_Monad.return (Some iface) | Inr _ \<Rightarrow> missing_interface run ifaces }"

definition probeNetAdmin :: "executor \<Rightarrow> tc_backend \<Rightarrow> bool act" where
  "probeNetAdmin run b =
     do { r \<leftarrow> exec run ''tc'' [''qdisc'', ''show'', ''dev'', be_interfaces b ! 0];
          State_Monad.return (error_of r = None) }"

definition capabilitiesLocked :: "executor \<Rightarrow> tc_backend \<Rightarrow> tc_capabilities act" where
  "capabilitiesLocked run b =
     (let cap = zero_caps\<lparr>cap_Platform := be_platform b, cap_Interfaces := be_interfaces b\<rparr>
      in if be_platform b \<noteq> ''linux''
         then State_Monad.return (cap\<lparr>cap_State := ''unsupported'', cap_Reason := ''Linux is required''\<rparr>)
         else if be_interfaces b = []
         then State_Monad.return (cap\<lparr>cap_State := ''unsupported'', cap_Reason := ''no explicit managed interface configured''\<rparr>)
         else do {
           tc \<leftarrow> exec run ''tc'' [''-V''];
           nft \<leftarrow> exec run ''nft'' [''--version''];
           let cap = cap\<lparr>cap_Tc := (error_of tc = None), cap_Nftables := (error_of nft = None)\<rparr>;
           missing \<leftarrow> missing_interface run (be_interfaces b);
           case missing of
             Some iface \<Rightarrow> State_Monad.return
               (cap\<lparr>cap_State := ''unsupported'', cap_Reason := ''managed interface unavailable: '' @ iface\<rparr>)
           | None \<Rightarrow> do {
               admin \<leftarrow> probeNetAdmin run b;
               let cap = cap\<lparr>cap_NetAdmin := admin, cap_ConntrackMarks := cap_Nftables cap \<and> cap_Tc cap,
                             cap_IFB := cap_Nftables cap \<and> cap_Tc cap\<rparr>;
               State_Monad.return
                 (if \<not> cap_Tc cap \<or> \<not> cap_Nftables cap \<or> \<not> cap_NetAdmin cap
                  then cap\<lparr>cap_State := ''unsupported'', cap_Reason := ''tc, nftables, and CAP_NET_ADMIN are required''\<rparr>
                  else cap\<lparr>cap_State := ''ready''\<rparr>) } })"

definition list_table :: "executor \<Rightarrow> (string + string) act" where
  "list_table run = exec run ''nft'' [''list'', ''table'', nftFamily, nftTable]"

definition ownedTable :: "executor \<Rightarrow> (string + bool) act" where
  "ownedTable run =
     do { r \<leftarrow> list_table run;
          State_Monad.return (case r of Inl e \<Rightarrow> Inl e | Inr out \<Rightarrow> Inr (contains_str ''catx-managed-v1'' out)) }"

text \<open>
  \<open>preflightInterface\<close>. An error of \<open>ownedTable\<close> is not inspected: its first result is then
  \<open>false\<close>.
\<close>

definition zero_plan :: interfacePlan where
  "zero_plan = \<lparr>pl_rootOwned = False, pl_ingressOwned = False, pl_ifbOwned = False, pl_ifbPresent = False\<rparr>"

text \<open>The checks on the queueing disciplines of the interface: whether the root is owned, and the ingress.\<close>

definition check_qdiscs :: "string \<Rightarrow> string \<Rightarrow> bool \<Rightarrow> string + interfacePlan" where
  "check_qdiscs iface q owned =
     (let rootNoqueue = hasRootQdisc q ''noqueue'';
          rootOwned = (owned \<and> isCatXRootQdisc q)
      in if hasQdiscKind q ''clsact'' then Inl (''refusing admin-owned clsact qdisc on '' @ iface)
         else if rootNoqueue \<and> hasQdiscKind q ''ingress'' then Inl (''refusing admin-owned ingress qdisc on '' @ iface)
         else if \<not> rootNoqueue \<and> \<not> rootOwned then Inl (''refusing admin-owned qdisc on '' @ iface)
         else if hasQdiscKind q ''ingress'' \<and> (\<not> rootOwned \<or> \<not> hasQdisc q ''ingress'' ''ffff:'')
         then Inl (''refusing admin-owned ingress qdisc on '' @ iface)
         else Inr (zero_plan\<lparr>pl_rootOwned := rootOwned, pl_ingressOwned := hasQdiscKind q ''ingress''\<rparr>))"

definition absent_device :: "tc_env \<Rightarrow> string \<Rightarrow> bool" where
  "absent_device env e \<longleftrightarrow>
     (let failure = to_lower (te_unicode_lower env) e
      in contains_str ''does not exist'' failure \<or> contains_str ''cannot find device'' failure \<or>
         contains_str ''not found'' failure)"

definition preflightInterface :: "tc_env \<Rightarrow> executor \<Rightarrow> string \<Rightarrow> (string + interfacePlan) act" where
  "preflightInterface env run iface =
     do { qdisc \<leftarrow> exec run ''tc'' [''qdisc'', ''show'', ''dev'', iface];
          case qdisc of Inl e \<Rightarrow> State_Monad.return (Inl e)
          | Inr q \<Rightarrow> do {
              r \<leftarrow> ownedTable run;
              let owned = (case r of Inl _ \<Rightarrow> False | Inr ow \<Rightarrow> ow);
              case check_qdiscs iface q owned of Inl e \<Rightarrow> State_Monad.return (Inl e)
              | Inr plan \<Rightarrow> do {
                  let ifb = ifbName env iface;
                  link \<leftarrow> exec run ''ip'' [''link'', ''show'', ''dev'', ifb];
                  case link of
                    Inl e \<Rightarrow> State_Monad.return
                      (if absent_device env e then Inr plan
                       else Inl (''checking IFB '' @ ifb @ '' failed: '' @ e))
                  | Inr _ \<Rightarrow>
                      (if \<not> pl_rootOwned plan \<or> \<not> owned
                       then State_Monad.return (Inl (''refusing pre-existing IFB '' @ ifb @ '' on '' @ iface))
                       else do {
                         ifbQdisc \<leftarrow> exec run ''tc'' [''qdisc'', ''show'', ''dev'', ifb];
                         State_Monad.return (case ifbQdisc of Inl e \<Rightarrow> Inl e
                           | Inr iq \<Rightarrow>
                               (if \<not> isCatXRootQdisc iq then Inl (''refusing non-CatX IFB '' @ ifb)
                                else Inr (plan\<lparr>pl_ifbPresent := True, pl_ifbOwned := True\<rparr>))) }) } } }"

text \<open>
  The mutating commands of \<open>reconcileInterface\<close>, in order. A step says what the code records in
  the mutation before it runs the command, and what it takes back when the command fails.
\<close>

type_synonym step = "(interfaceMutation \<Rightarrow> interfaceMutation) \<times> (string \<times> string list) \<times> (string \<Rightarrow> interfaceMutation \<Rightarrow> interfaceMutation)"

definition no_mark :: "interfaceMutation \<Rightarrow> interfaceMutation" where "no_mark m = m"
definition mark_root :: "interfaceMutation \<Rightarrow> interfaceMutation" where "mark_root m = m\<lparr>mu_rootCreated := True\<rparr>"
definition mark_ifb :: "interfaceMutation \<Rightarrow> interfaceMutation" where "mark_ifb m = m\<lparr>mu_ifbCreated := True\<rparr>"
definition mark_ifb_root :: "interfaceMutation \<Rightarrow> interfaceMutation" where "mark_ifb_root m = m\<lparr>mu_ifbRootCreated := True\<rparr>"
definition mark_ingress :: "interfaceMutation \<Rightarrow> interfaceMutation" where "mark_ingress m = m\<lparr>mu_ingressCreated := True\<rparr>"

definition keep_mark :: "string \<Rightarrow> interfaceMutation \<Rightarrow> interfaceMutation" where "keep_mark e m = m"

definition unmark_existing :: "string \<Rightarrow> interfaceMutation \<Rightarrow> interfaceMutation" where
  "unmark_existing e m = (if contains_str ''File exists'' e then m\<lparr>mu_ifbCreated := False\<rparr> else m)"

definition plain_step :: "string \<times> string list \<Rightarrow> step" where
  "plain_step c = (no_mark, c, keep_mark)"

definition root_create :: "string \<Rightarrow> string \<times> string list" where
  "root_create dev = (''tc'', [''qdisc'', ''replace'', ''dev'', dev, ''root'', ''handle'', ''1:'', ''htb'', ''default'', ''1''])"

definition ingress_create :: "string \<Rightarrow> string \<times> string list" where
  "ingress_create dev = (''tc'', [''qdisc'', ''replace'', ''dev'', dev, ''handle'', ''ffff:'', ''ingress''])"

definition link_create :: "string \<Rightarrow> string \<times> string list" where
  "link_create dev = (''ip'', [''link'', ''add'', dev, ''type'', ''ifb''])"

definition link_up :: "string \<Rightarrow> string \<times> string list" where
  "link_up dev = (''ip'', [''link'', ''set'', ''dev'', dev, ''up''])"

definition class_replace :: "string \<Rightarrow> string \<Rightarrow> string \<Rightarrow> string \<times> string list" where
  "class_replace dev minor r =
     (''tc'', [''class'', ''replace'', ''dev'', dev, ''parent'', ''1:'', ''classid'', ''1:'' @ minor, ''htb'', ''rate'', r])"

definition filter_replace :: "string \<Rightarrow> string \<Rightarrow> string \<times> string list" where
  "filter_replace dev minor =
     (''tc'', [''filter'', ''replace'', ''dev'', dev, ''parent'', ''1:'', ''protocol'', ''all'', ''pref'', ''100'',
               ''handle'', minor, ''fw'', ''flowid'', ''1:'' @ minor])"

definition redirect_create :: "string \<Rightarrow> string \<Rightarrow> string \<times> string list" where
  "redirect_create dev ifb =
     (''tc'', [''filter'', ''replace'', ''dev'', dev, ''ingress'', ''protocol'', ''all'', ''pref'', ''10'', ''handle'', ''1'',
               ''flower'', ''action'', ''mirred'', ''egress'', ''redirect'', ''dev'', ifb])"

definition rule_steps :: "string \<Rightarrow> string \<Rightarrow> desired_rule \<Rightarrow> step list" where
  "rule_steps iface ifb rule =
     (let minor = nat_to_dec (dr_Mark rule)
      in map plain_step
           [class_replace iface minor (rate (dr_UploadRateBps rule)),
            class_replace ifb minor (rate (dr_DownloadRateBps rule)),
            filter_replace iface minor, filter_replace ifb minor])"

definition reconcile_steps :: "interfacePlan \<Rightarrow> string \<Rightarrow> string \<Rightarrow> desired_rule list \<Rightarrow> step list" where
  "reconcile_steps plan iface ifb rules =
     (if pl_rootOwned plan then [] else [(mark_root, root_create iface, keep_mark)]) @
     [plain_step (class_replace iface ''1'' ''1gbit'')] @
     (if pl_ifbPresent plan then [] else [(mark_ifb, link_create ifb, unmark_existing)]) @
     [plain_step (link_up ifb)] @
     (if pl_ifbOwned plan then [] else [(mark_ifb_root, root_create ifb, keep_mark)]) @
     [plain_step (class_replace ifb ''1'' ''1gbit'')] @
     (if pl_ingressOwned plan then [] else [(mark_ingress, ingress_create iface, keep_mark)]) @
     concat (map (rule_steps iface ifb) rules) @
     [plain_step (redirect_create iface ifb)]"

fun apply_steps :: "executor \<Rightarrow> step list \<Rightarrow> interfaceMutation \<Rightarrow> (interfaceMutation \<times> string option) act" where
  "apply_steps run [] m = State_Monad.return (m, None)"
| "apply_steps run ((before, (name, args), failed) # steps) m =
     do { let m = (before m)\<lparr>mu_mutated := True\<rparr>;
          err \<leftarrow> execSimple run name args;
          case err of Some e \<Rightarrow> State_Monad.return (failed e m, Some e) | None \<Rightarrow> apply_steps run steps m }"

definition new_mutation :: "string \<Rightarrow> string \<Rightarrow> interfaceMutation" where
  "new_mutation iface ifb = \<lparr>mu_iface = iface, mu_ifb = ifb, mu_mutated = False, mu_rootCreated = False,
     mu_ingressCreated = False, mu_ifbCreated = False, mu_ifbRootCreated = False\<rparr>"

definition reconcileInterface ::
  "tc_env \<Rightarrow> executor \<Rightarrow> string \<Rightarrow> desired_rule list \<Rightarrow> (interfaceMutation \<times> string option) act" where
  "reconcileInterface env run iface rules =
     do { let m = new_mutation iface (ifbName env iface);
          r \<leftarrow> preflightInterface env run iface;
          case r of Inl e \<Rightarrow> State_Monad.return (m, Some e)
          | Inr plan \<Rightarrow> apply_steps run (reconcile_steps plan iface (ifbName env iface) rules) m }"

text \<open>
  Running clean-up commands: every command runs, and the first error is kept
  (\<open>if err := ...; err != nil && first == nil { first = err }\<close>).
\<close>

fun run_all :: "executor \<Rightarrow> (string \<times> string list) list \<Rightarrow> string option \<Rightarrow> string option act" where
  "run_all run [] first = State_Monad.return first"
| "run_all run ((name, args) # cs) first =
     do { err \<leftarrow> execSimple run name args;
          run_all run cs (if first = None then err else first) }"

definition root_delete :: "string \<Rightarrow> string \<times> string list" where
  "root_delete dev = (''tc'', [''qdisc'', ''del'', ''dev'', dev, ''root''])"

definition ingress_delete :: "string \<Rightarrow> string \<times> string list" where
  "ingress_delete dev = (''tc'', [''qdisc'', ''del'', ''dev'', dev, ''ingress''])"

definition link_delete :: "string \<Rightarrow> string \<times> string list" where
  "link_delete dev = (''ip'', [''link'', ''del'', dev])"

definition rollback_commands :: "interfaceMutation \<Rightarrow> (string \<times> string list) list" where
  "rollback_commands m =
     (if mu_ingressCreated m then [ingress_delete (mu_iface m)] else []) @
     (if mu_rootCreated m then [root_delete (mu_iface m)] else []) @
     (if mu_ifbRootCreated m then [root_delete (mu_ifb m)] else []) @
     (if mu_ifbCreated m then [link_delete (mu_ifb m)] else [])"

definition deleteOwnedNftTable :: "executor \<Rightarrow> string option act" where
  "deleteOwnedNftTable run =
     do { r \<leftarrow> ownedTable run;
          if r = Inr True then execSimpleInput run ''nft'' [''delete'', ''table'', nftFamily, nftTable] []
          else State_Monad.return None }"

definition rollbackMutations :: "executor \<Rightarrow> interfaceMutation list \<Rightarrow> bool \<Rightarrow> string option act" where
  "rollbackMutations run mutations nftCreated =
     do { first \<leftarrow> run_all run (concat (map rollback_commands mutations)) None;
          if nftCreated
          then do { err \<leftarrow> deleteOwnedNftTable run;
                    State_Monad.return (if first = None then err else first) }
          else State_Monad.return first }"

text \<open>The \<open>nft\<close> script of \<open>applyNft\<close>; an invalid selector is an error before the script runs.\<close>

definition add_chains :: string where
  "add_chains =
     ''add chain inet '' @ nftTable @ '' catx_mark { type filter hook forward priority -150; policy accept; }'' @ [newline] @
     ''add chain inet '' @ nftTable @ '' catx_output { type route hook output priority -150; policy accept; }'' @ [newline]"

definition nft_header :: "(string + string) \<Rightarrow> string + string" where
  "nft_header listed =
     (case listed of
        Inl _ \<Rightarrow> Inr (''add table inet '' @ nftTable @ '' { comment '' @ [CHR 0x22] @ ''catx-managed-v1'' @ [CHR 0x22] @ ''; }'' @
                    [newline] @ add_chains)
      | Inr out \<Rightarrow>
         (if \<not> contains_str ''catx-managed-v1'' out
          then Inl (''refusing nft table '' @ nftTable @ '' without CatX ownership marker'')
          else if \<not> contains_str ''catx_mark'' out \<or> \<not> contains_str ''catx_output'' out then Inr add_chains
          else Inr []))"

definition selector_line :: "tc_env \<Rightarrow> desired_rule \<Rightarrow> string \<Rightarrow> string + string" where
  "selector_line env rule selector =
     (case te_parse_cidr env selector of
        Inl e \<Rightarrow> Inl (''invalid selector '' @ te_quote env selector @ '': '' @ e)
      | Inr is4 \<Rightarrow>
         Inr (''add rule inet '' @ nftTable @ '' catx_mark iifname '' @ [CHR 0x22] @ dr_Interface rule @ [CHR 0x22] @ '' '' @
              (if is4 then ''ip'' else ''ip6'') @ '' saddr '' @ selector @ '' ct mark set '' @
              nat_to_dec (dr_Mark rule) @ '' meta mark set ct mark'' @ [newline]))"

fun append_lines :: "(string + string) list \<Rightarrow> string + string" where
  "append_lines [] = Inr []"
| "append_lines (l # ls) =
     (case l of Inl e \<Rightarrow> Inl e
      | Inr s \<Rightarrow> (case append_lines ls of Inl e \<Rightarrow> Inl e | Inr t \<Rightarrow> Inr (s @ t)))"

definition nft_body :: string where
  "nft_body =
     ''flush chain inet '' @ nftTable @ '' catx_mark'' @ [newline] @
     ''flush chain inet '' @ nftTable @ '' catx_output'' @ [newline] @
     ''add rule inet '' @ nftTable @ '' catx_mark ct mark != 0 meta mark set ct mark'' @ [newline] @
     ''add rule inet '' @ nftTable @ '' catx_output ct mark != 0 meta mark set ct mark'' @ [newline]"

definition applyNft :: "tc_env \<Rightarrow> executor \<Rightarrow> desired_rule list \<Rightarrow> (bool \<times> string option) act" where
  "applyNft env run rules =
     do { table \<leftarrow> list_table run;
          let nftCreated = (error_of table \<noteq> None);
          case nft_header table of Inl e \<Rightarrow> State_Monad.return (False, Some e)
          | Inr header \<Rightarrow>
             (case append_lines (concat (map (\<lambda>r. map (selector_line env r) (dr_Selectors r)) rules)) of
                Inl e \<Rightarrow> State_Monad.return (nftCreated, Some e)
              | Inr selectors \<Rightarrow> do {
                  err \<leftarrow> execSimpleInput run ''nft'' [''-f'', ''-''] (header @ nft_body @ selectors);
                  State_Monad.return (nftCreated, err) }) }"

text \<open>\<open>removeOwnedState\<close>: an interface whose preflight refuses is left alone.\<close>

definition remove_commands :: "tc_env \<Rightarrow> string \<Rightarrow> interfacePlan \<Rightarrow> (string \<times> string list) list" where
  "remove_commands env iface plan =
     (if pl_ingressOwned plan then [ingress_delete iface] else []) @
     (if pl_rootOwned plan then [root_delete iface] else []) @
     (if pl_ifbOwned plan then [root_delete (ifbName env iface), link_delete (ifbName env iface)] else [])"

fun remove_interfaces :: "tc_env \<Rightarrow> executor \<Rightarrow> string list \<Rightarrow> string option \<Rightarrow> string option act" where
  "remove_interfaces env run [] first = State_Monad.return first"
| "remove_interfaces env run (iface # ifaces) first =
     do { r \<leftarrow> preflightInterface env run iface;
          case r of Inl _ \<Rightarrow> remove_interfaces env run ifaces first
          | Inr plan \<Rightarrow> do {
              first \<leftarrow> run_all run (remove_commands env iface plan) first;
              remove_interfaces env run ifaces first } }"

definition removeOwnedState :: "tc_env \<Rightarrow> executor \<Rightarrow> tc_backend \<Rightarrow> string option act" where
  "removeOwnedState env run b =
     do { r \<leftarrow> ownedTable run;
          if r \<noteq> Inr True then State_Monad.return None
          else do { first \<leftarrow> remove_interfaces env run (be_interfaces b) None;
                    err \<leftarrow> deleteOwnedNftTable run;
                    State_Monad.return (if first = None then err else first) } }"

section \<open>Reconciliation\<close>

abbreviation rule_owner :: "desired_rule \<Rightarrow> string" where
  "rule_owner r \<equiv> owner_key (dr_NodeKey r) (dr_ClientKey r)"

text \<open>The validation loop: the reason of the first rule that is refused.\<close>

fun refuse_rules :: "string list \<Rightarrow> (nat \<rightharpoonup> string) \<Rightarrow> desired_rule list \<Rightarrow> string option" where
  "refuse_rules ifaces marks [] = None"
| "refuse_rules ifaces marks (rule # rules) =
     (if dr_Interface rule \<notin> set ifaces then Some ''rule targets an unmanaged interface''
      else if dr_Mark rule = 0 \<or> int (dr_Mark rule) > 65534 \<or> dr_UploadRateBps rule = 0 \<or> dr_DownloadRateBps rule = 0
      then Some ''invalid substrate rule''
      else (case marks (dr_Mark rule) of
              Some previous \<Rightarrow>
                (if previous \<noteq> rule_owner rule then Some ''mark collision''
                 else refuse_rules ifaces (marks(dr_Mark rule \<mapsto> rule_owner rule)) rules)
            | None \<Rightarrow> refuse_rules ifaces (marks(dr_Mark rule \<mapsto> rule_owner rule)) rules))"

definition by_iface :: "desired_rule list \<Rightarrow> string \<Rightarrow> desired_rule list" where
  "by_iface rules iface = filter (\<lambda>r. dr_Interface r = iface) rules"

text \<open>
  The loop over the interfaces: the mutations so far, and the error it stopped at. The applied
  interfaces are counted up to the failing one.
\<close>

fun apply_interfaces ::
  "tc_env \<Rightarrow> executor \<Rightarrow> desired_rule list \<Rightarrow> string list \<Rightarrow> interfaceMutation list \<Rightarrow> string list
     \<Rightarrow> (interfaceMutation list \<times> string list \<times> string option) act" where
  "apply_interfaces env run rules [] mutations applied = State_Monad.return (mutations, applied, None)"
| "apply_interfaces env run rules (iface # ifaces) mutations applied =
     do { r \<leftarrow> reconcileInterface env run iface (by_iface rules iface);
          let mutations = (if mu_changed (fst r) then mutations @ [fst r] else mutations);
          case snd r of Some e \<Rightarrow> State_Monad.return (mutations, applied, Some e)
          | None \<Rightarrow> apply_interfaces env run rules ifaces mutations (applied @ [iface]) }"

definition apply_failed :: "string \<Rightarrow> string option \<Rightarrow> tc_status \<Rightarrow> tc_status" where
  "apply_failed e rollbackErr s =
     (with_state ''degraded'' ''apply failed'' s)\<lparr>st_LastError :=
        (case rollbackErr of None \<Rightarrow> e | Some re \<Rightarrow> e @ ''; rollback: '' @ re)\<rparr>"

text \<open>\<open>m[k] = v\<close> on the map \<open>desired\<close>, which is kept as the list of its entries.\<close>

fun put_rule :: "desired_rule \<Rightarrow> (string \<times> desired_rule) list \<Rightarrow> (string \<times> desired_rule) list" where
  "put_rule r [] = [(rule_owner r, r)]"
| "put_rule r ((k, v) # m) = (if k = rule_owner r then (k, r) # m else (k, v) # put_rule r m)"

definition desired_map :: "desired_rule list \<Rightarrow> (string \<times> desired_rule) list" where
  "desired_map rules = fold put_rule rules []"

type_synonym outcome = "tc_backend \<times> tc_status \<times> string option"

definition finish :: "tc_backend \<Rightarrow> tc_status \<Rightarrow> string option \<Rightarrow> outcome" where
  "finish b status err = (b\<lparr>be_status := status\<rparr>, status, err)"

text \<open>The part of \<open>Reconcile\<close> that applies validated rules: the interfaces, then the \<open>nft\<close> table.\<close>

definition apply_rules :: "tc_env \<Rightarrow> executor \<Rightarrow> tc_backend \<Rightarrow> desired_rule list \<Rightarrow> tc_status \<Rightarrow> outcome act" where
  "apply_rules env run b rules status =
     do { r \<leftarrow> apply_interfaces env run rules (be_interfaces b) [] [];
          let mutations = fst r;
          let status = status\<lparr>st_AppliedInterfaces := fst (snd r)\<rparr>;
          case snd (snd r) of
            Some e \<Rightarrow> do {
              rollbackErr \<leftarrow> rollbackMutations run mutations False;
              State_Monad.return (finish b (apply_failed e rollbackErr status) (Some e)) }
          | None \<Rightarrow> do {
              n \<leftarrow> applyNft env run (concat (map (by_iface rules) (be_interfaces b)));
              case snd n of
                Some e \<Rightarrow> do {
                  rollbackErr \<leftarrow> rollbackMutations run mutations (fst n);
                  State_Monad.return (finish b (apply_failed e rollbackErr status) (Some e)) }
              | None \<Rightarrow> State_Monad.return
                  (finish (b\<lparr>be_desired := desired_map rules\<rparr>)
                     (status\<lparr>st_Generation := (st_Generation status + 1) mod 18446744073709551616\<rparr>) None) } }"

text \<open>\<open>Backend.Reconcile\<close>; \<open>None\<close> is the nil slice, which stands for the rules already desired.\<close>

definition Backend_Reconcile ::
  "tc_env \<Rightarrow> executor \<Rightarrow> (desired_rule list \<Rightarrow> desired_rule list) \<Rightarrow> desired_rule list option
     \<Rightarrow> tc_backend \<Rightarrow> outcome act" where
  "Backend_Reconcile env run order given b =
     do { let rules = (case given of None \<Rightarrow> order (map snd (be_desired b)) | Some rs \<Rightarrow> rs);
          cap \<leftarrow> capabilitiesLocked run b;
          let status = (status_of cap)\<lparr>st_Generation := st_Generation (be_status b)\<rparr>;
          if cap_State cap \<noteq> ''ready'' then State_Monad.return (finish b status None)
          else if rules = [] then do {
            err \<leftarrow> removeOwnedState env run b;
            State_Monad.return (case err of
                Some e \<Rightarrow> finish b ((with_state ''degraded'' ''cleanup failed'' status)\<lparr>st_LastError := e\<rparr>) (Some e)
              | None \<Rightarrow> finish (b\<lparr>be_desired := []\<rparr>)
                  (status\<lparr>st_Generation := (st_Generation status + 1) mod 18446744073709551616\<rparr>) None) }
          else (case refuse_rules (be_interfaces b) Map.empty rules of
                  Some reason \<Rightarrow> State_Monad.return
                    (finish b (with_state ''unsupported'' reason status) (Some ErrUnsupported))
                | None \<Rightarrow> apply_rules env run b rules status) }"

definition replace_rule :: "desired_rule \<Rightarrow> desired_rule list \<Rightarrow> desired_rule list" where
  "replace_rule rule rules =
     (if list_ex (\<lambda>r. rule_owner r = rule_owner rule) rules
      then map (\<lambda>r. if rule_owner r = rule_owner rule then rule else r) rules
      else rules @ [rule])"

definition Backend_ApplyClientLimit ::
  "tc_env \<Rightarrow> executor \<Rightarrow> (desired_rule list \<Rightarrow> desired_rule list) \<Rightarrow> desired_rule \<Rightarrow> tc_backend
     \<Rightarrow> outcome act" where
  "Backend_ApplyClientLimit env run order rule b =
     Backend_Reconcile env run order (Some (replace_rule rule (order (map snd (be_desired b))))) b"

definition Backend_RemoveClientLimit ::
  "tc_env \<Rightarrow> executor \<Rightarrow> (desired_rule list \<Rightarrow> desired_rule list) \<Rightarrow> string \<Rightarrow> string \<Rightarrow> tc_backend
     \<Rightarrow> outcome act" where
  "Backend_RemoveClientLimit env run order nodeKey clientKey b =
     Backend_Reconcile env run order
       (Some (filter (\<lambda>r. rule_owner r \<noteq> owner_key nodeKey clientKey) (order (map snd (be_desired b))))) b"

section \<open>The service\<close>

text \<open>
  \<open>service.go\<close>: the one backend of the process, whether the feature is on, and the last status.
  \<open>ApplyClientLimit\<close> and \<open>RemoveClientLimit\<close> of the service discard the status the backend
  returns; the service's own status is written by \<open>Reconcile\<close> alone.
\<close>

record tc_service =
  sv_enabled :: bool
  sv_backend :: tc_backend
  sv_status :: tc_status

definition configuredInterfaces :: "tc_env \<Rightarrow> string list" where
  "configuredInterfaces env =
     filter (\<lambda>w. w \<noteq> [])
       (split_on (CHR '','')
          (map (\<lambda>c. if c = CHR '' '' \<or> c = CHR 0x09 then CHR '','' else c) (te_interfaces env)))"

definition newService :: "tc_env \<Rightarrow> tc_service" where
  "newService env = \<lparr>sv_enabled = False, sv_backend = NewBackend env [] (configuredInterfaces env),
     sv_status = zero_status\<rparr>"

definition Service_Configure ::
  "tc_env \<Rightarrow> executor \<Rightarrow> (desired_rule list \<Rightarrow> desired_rule list) \<Rightarrow> bool \<Rightarrow> tc_service \<Rightarrow> tc_service act" where
  "Service_Configure env run order enabled s =
     (if enabled \<and> sv_enabled s then State_Monad.return s
      else let s' = \<lparr>sv_enabled = enabled, sv_backend = NewBackend env [] (configuredInterfaces env),
                     sv_status = zero_status\<rparr>
           in if enabled then State_Monad.return s'
              else do { _ \<leftarrow> Backend_Reconcile env run order (Some []) (sv_backend s);
                        State_Monad.return s' })"

definition disabled_caps :: tc_capabilities where
  "disabled_caps = zero_caps\<lparr>cap_Platform := ''disabled'', cap_State := ''disabled'',
     cap_Reason := ''traffic_control.enabled is false''\<rparr>"

definition DetectCapabilities :: "executor \<Rightarrow> tc_service \<Rightarrow> tc_capabilities act" where
  "DetectCapabilities run s =
     (if \<not> sv_enabled s then State_Monad.return disabled_caps else capabilitiesLocked run (sv_backend s))"

definition Service_Reconcile ::
  "tc_env \<Rightarrow> executor \<Rightarrow> (desired_rule list \<Rightarrow> desired_rule list) \<Rightarrow> desired_rule list option
     \<Rightarrow> tc_service \<Rightarrow> (tc_service \<times> tc_status \<times> string option) act" where
  "Service_Reconcile env run order rules s =
     (if \<not> sv_enabled s then State_Monad.return (s, status_of disabled_caps, None)
      else do { r \<leftarrow> Backend_Reconcile env run order rules (sv_backend s);
                State_Monad.return
                  (s\<lparr>sv_backend := fst r, sv_status := fst (snd r)\<rparr>, fst (snd r), snd (snd r)) })"

definition Service_ApplyClientLimit ::
  "tc_env \<Rightarrow> executor \<Rightarrow> (desired_rule list \<Rightarrow> desired_rule list) \<Rightarrow> desired_rule
     \<Rightarrow> tc_service \<Rightarrow> (tc_service \<times> string option) act" where
  "Service_ApplyClientLimit env run order rule s =
     (if \<not> sv_enabled s then State_Monad.return (s, Some ErrUnsupported)
      else do { r \<leftarrow> Backend_ApplyClientLimit env run order rule (sv_backend s);
                State_Monad.return (s\<lparr>sv_backend := fst r\<rparr>, snd (snd r)) })"

definition Service_RemoveClientLimit ::
  "tc_env \<Rightarrow> executor \<Rightarrow> (desired_rule list \<Rightarrow> desired_rule list) \<Rightarrow> string \<Rightarrow> string
     \<Rightarrow> tc_service \<Rightarrow> (tc_service \<times> string option) act" where
  "Service_RemoveClientLimit env run order nodeKey clientKey s =
     (if \<not> sv_enabled s then State_Monad.return (s, Some ErrUnsupported)
      else do { r \<leftarrow> Backend_RemoveClientLimit env run order nodeKey clientKey (sv_backend s);
                State_Monad.return (s\<lparr>sv_backend := fst r\<rparr>, snd (snd r)) })"

definition StatusView :: "executor \<Rightarrow> tc_service \<Rightarrow> tc_status act" where
  "StatusView run s =
     (if st_State (sv_status s) \<noteq> [] then State_Monad.return (sv_status s)
      else do { cap \<leftarrow> DetectCapabilities run s;
                State_Monad.return ((sv_status s)\<lparr>st_Capabilities := cap\<rparr>) })"

text \<open>
  \<open>ReconcileRemote\<close>. The transport answers the capability probe and the reconcile request, or
  fails with a text; the JSON codec of the three messages is the parameter \<open>codec\<close>. The calls
  made are part of the result.
\<close>

record remote_transport =
  rt_capabilities :: "string + string"
  rt_reconcile :: "string \<Rightarrow> string + string"

record tc_codec =
  tj_capabilities :: "string \<Rightarrow> string + tc_capabilities"
  tj_request :: "desired_rule list option \<Rightarrow> string + string"
  tj_response :: "string \<Rightarrow> string + tc_status"

datatype remote_call = ProbeCapabilities | SendReconcile string

definition ReconcileRemote ::
  "tc_codec \<Rightarrow> remote_transport option \<Rightarrow> desired_rule list option
     \<Rightarrow> tc_status \<times> string option \<times> remote_call list" where
  "ReconcileRemote codec remote rules =
     (case remote of
        None \<Rightarrow> (status_of (caps ''unsupported'' ''remote runtime unavailable''), Some ErrUnsupported, [])
      | Some t \<Rightarrow>
         (case rt_capabilities t of
            Inl e \<Rightarrow>
              (if contains_str ''HTTP 404'' e
               then (status_of (caps ''unsupported'' ''remote node does not support shaping''),
                     Some ErrUnsupported, [ProbeCapabilities])
               else ((status_of (caps ''degraded'' ''remote capability probe failed''))\<lparr>st_LastError := e\<rparr>,
                     Some e, [ProbeCapabilities]))
          | Inr raw \<Rightarrow>
             (case tj_capabilities codec raw of
                Inl e \<Rightarrow> (zero_status, Some e, [ProbeCapabilities])
              | Inr cap \<Rightarrow>
                 (if cap_State cap \<noteq> ''ready'' then (status_of cap, Some ErrUnsupported, [ProbeCapabilities])
                  else (case tj_request codec rules of
                          Inl e \<Rightarrow> (zero_status, Some e, [ProbeCapabilities])
                        | Inr body \<Rightarrow>
                           (case rt_reconcile t body of
                              Inl e \<Rightarrow> ((status_of cap)\<lparr>st_LastError := e\<rparr>, Some e,
                                      [ProbeCapabilities, SendReconcile body])
                            | Inr response \<Rightarrow>
                               (case tj_response codec response of
                                  Inl e \<Rightarrow> (zero_status, Some e, [ProbeCapabilities, SendReconcile body])
                                | Inr out \<Rightarrow> (out, None, [ProbeCapabilities, SendReconcile body]))))))))"

end
