(* ===== verification/Traffic_Policy.thy ===== *)
theory Traffic_Policy
  imports Client_Tables Traffic_Control
begin

text \<open>
  Per-client traffic policies, \<open>src/internal/forkext/trafficpolicy/trafficpolicy.go\<close>: a policy gives a
  client a quota per fixed window and two pairs of rates; a state row holds the counter values at
  which the window began, the lifecycle (\<open>active\<close>, \<open>throttled\<close>, \<open>disabled\<close>) with its owner, and what
  is enforced in the kernel. The counters of \<open>client_traffics\<close> stay authoritative.

  The state is \<open>tp_db\<close>: the two policy tables, the traffic table, the key sequence, which tables
  fail, and \<open>tp_enabled\<close> for \<open>enabled && db != nil\<close>. \<open>now\<close> is the time in Unix seconds, \<open>ms\<close> the
  milliseconds within it. GORM stamps \<open>UpdatedAt\<close> with seconds on a save, on an update that does
  not set it and on a create with a zero value. A division by a zero window is a panic of the
  program, an error of the model. A function that commits before it fails returns the state beside
  the error.

  Parameters: \<open>ua\<close> is \<open>trafficcontrol.StatusView().UserAttribution\<close>; the attribution provider
  and the shaper are functions, \<open>None\<close> for nil, the shaper with a state of its own.
\<close>

section \<open>Rows and views\<close>

record tp_policy =
  tp_ID :: nat
  tp_ClientEmail :: string
  tp_Enabled :: bool
  tp_WindowSeconds :: int
  tp_QuotaBytes :: int
  tp_ActiveUploadBps :: nat
  tp_ActiveDownloadBps :: nat
  tp_ThrottleUploadBps :: nat
  tp_ThrottleDownloadBps :: nat
  tp_UpdatedAt :: int

record tp_state =
  ts_ID :: nat
  ts_ClientEmail :: string
  ts_WindowStart :: int
  ts_WindowEnd :: int
  ts_BaselineUp :: int
  ts_BaselineDown :: int
  ts_Lifecycle :: string
  ts_Owner :: string
  ts_Reason :: string
  ts_LastError :: string
  ts_EnforcementActive :: bool
  ts_EnforcementNode :: string
  ts_EnforcementInterface :: string
  ts_EnforcementMark :: nat
  ts_UpdatedAt :: int

record tp_view =
  tv_Policy :: tp_policy
  tv_Lifecycle :: string
  tv_Owner :: string
  tv_Reason :: string
  tv_WindowStart :: int
  tv_WindowEnd :: int
  tv_UsedBytes :: int
  tv_RemainingBytes :: int
  tv_Enforcement :: string
  tv_EnforcementNote :: string
  tv_EnforcementActive :: bool

record attribution =
  at_Supported :: bool
  at_Stable :: bool
  at_NodeKey :: string
  at_Interface :: string
  at_Mark :: nat
  at_Selectors :: "string list"

record tp_db =
  tp_policies :: "tp_policy list"
  tp_states :: "tp_state list"
  tp_traffics :: "traffic_row list"
  tp_next :: nat
  tp_down :: "string \<Rightarrow> bool"
  tp_enabled :: bool

definition StateActive :: string where "StateActive = ''active''"
definition StateThrottled :: string where "StateThrottled = ''throttled''"
definition StateDisabled :: string where "StateDisabled = ''disabled''"
definition StateUnsupported :: string where "StateUnsupported = ''unsupported''"
definition StateDegraded :: string where "StateDegraded = ''degraded''"
definition OwnerSoftQuota :: string where "OwnerSoftQuota = ''soft_quota''"
definition OwnerNone :: string where "OwnerNone = ''none''"

lemmas lifecycle_names = StateActive_def StateThrottled_def StateDisabled_def StateUnsupported_def
  StateDegraded_def OwnerSoftQuota_def OwnerNone_def

definition ErrDisabled :: go_error where "ErrDisabled = Err ''traffic policy is disabled''"

definition tp_policies_uniq :: "tp_policy list \<Rightarrow> bool" where
  "tp_policies_uniq rows \<longleftrightarrow> distinct (map tp_ClientEmail rows)"

definition tp_states_uniq :: "tp_state list \<Rightarrow> bool" where
  "tp_states_uniq rows \<longleftrightarrow> distinct (map ts_ClientEmail rows)"

interpretation tp_policy_table: table tp_ID "\<lambda>n r. r\<lparr>tp_ID := n\<rparr>" tp_policies_uniq
  by unfold_locales (auto simp: tp_policies_uniq_def distinct_map_filter)

interpretation tp_state_table: table ts_ID "\<lambda>n r. r\<lparr>ts_ID := n\<rparr>" tp_states_uniq
  by unfold_locales (auto simp: tp_states_uniq_def distinct_map_filter)

section \<open>Queries\<close>

definition tp_find_policy :: "tp_db \<Rightarrow> string \<Rightarrow> tp_policy res" where
  "tp_find_policy db email =
     q_first (tp_down db ''fork_traffic_policies'') (\<lambda>p. tp_ClientEmail p = email) (tp_policies db)"

definition tp_find_enabled :: "tp_db \<Rightarrow> string \<Rightarrow> tp_policy res" where
  "tp_find_enabled db email =
     q_first (tp_down db ''fork_traffic_policies'') (\<lambda>p. tp_ClientEmail p = email \<and> tp_Enabled p) (tp_policies db)"

definition tp_find_traffic :: "tp_db \<Rightarrow> string \<Rightarrow> traffic_row res" where
  "tp_find_traffic db email =
     q_first (tp_down db ''client_traffics'') (\<lambda>t. ct_Email t = email) (tp_traffics db)"

text \<open>\<open>lockState\<close>: the lock of the row has no effect on the value read.\<close>

definition tp_lockState :: "tp_db \<Rightarrow> string \<Rightarrow> tp_state res" where
  "tp_lockState db email =
     q_first (tp_down db ''fork_traffic_policy_states'') (\<lambda>s. ts_ClientEmail s = email) (tp_states db)"

definition tp_create_state :: "tp_state \<Rightarrow> tp_db \<Rightarrow> (tp_state \<times> tp_db) res" where
  "tp_create_state s db =
     bind_res (q_create (tp_down db ''fork_traffic_policy_states'') ts_ID (\<lambda>n r. r\<lparr>ts_ID := n\<rparr>) tp_states_uniq
                 (tp_next db) s (tp_states db)) (\<lambda>rows.
     Inr (if ts_ID s = 0 then s\<lparr>ts_ID := tp_next db\<rparr> else s,
          db\<lparr>tp_states := rows, tp_next := Suc (tp_next db)\<rparr>))"

definition tp_update_states :: "(tp_state \<Rightarrow> bool) \<Rightarrow> (tp_state \<Rightarrow> tp_state) \<Rightarrow> tp_db \<Rightarrow> tp_db res" where
  "tp_update_states P f db =
     bind_res (q_update (tp_down db ''fork_traffic_policy_states'') tp_states_uniq P f (tp_states db)) (\<lambda>rows.
     Inr (db\<lparr>tp_states := rows\<rparr>))"

text \<open>\<open>tx.Save(&s)\<close>: every column of the row with that key.\<close>

definition tp_save_state :: "int \<Rightarrow> tp_state \<Rightarrow> tp_db \<Rightarrow> tp_db res" where
  "tp_save_state now s = tp_update_states (\<lambda>r. ts_ID r = ts_ID s) (\<lambda>r. s\<lparr>ts_UpdatedAt := now\<rparr>)"

section \<open>Windows and usage\<close>

definition tp_validatePolicy :: "tp_policy \<Rightarrow> unit res" where
  "tp_validatePolicy p =
     (if trim_space (tp_ClientEmail p) = [] \<or> tp_WindowSeconds p < 60 \<or> tp_WindowSeconds p > 366 * 24 * 60 * 60
      then Inl (Err ''client email and fixed window of 60..31622400 seconds are required'')
      else if tp_QuotaBytes p < 0 then Inl (Err ''quotaBytes must not be negative'')
      else Inr ())"

definition tp_window :: "int \<Rightarrow> int \<Rightarrow> (int \<times> int) res" where
  "tp_window now seconds =
     (if seconds = 0 then Inl (Err ''panic: integer divide by zero'')
      else let start = sub64 now (remt now seconds) in Inr (start, add64 start seconds))"

definition clampDelta :: "int \<Rightarrow> int" where
  "clampDelta v = (if v < 0 then 0 else v)"

definition tp_usage :: "traffic_row \<Rightarrow> tp_state \<Rightarrow> int" where
  "tp_usage row s =
     (let up = clampDelta (sub64 (ct_Up row) (ts_BaselineUp s));
          down = clampDelta (sub64 (ct_Down row) (ts_BaselineDown s))
      in if up > sub64 9223372036854775807 down then 9223372036854775807 else add64 up down)"

section \<open>Accounting\<close>

definition tp_new_state :: "string \<Rightarrow> int \<Rightarrow> int \<Rightarrow> int \<Rightarrow> int \<Rightarrow> int \<Rightarrow> tp_state" where
  "tp_new_state email start stop up down at =
     \<lparr>ts_ID = 0, ts_ClientEmail = email, ts_WindowStart = start, ts_WindowEnd = stop, ts_BaselineUp = up,
      ts_BaselineDown = down, ts_Lifecycle = StateActive, ts_Owner = OwnerNone, ts_Reason = [],
      ts_LastError = [], ts_EnforcementActive = False, ts_EnforcementNode = [],
      ts_EnforcementInterface = [], ts_EnforcementMark = 0, ts_UpdatedAt = at\<rparr>"

definition tp_rebase :: "int \<Rightarrow> int \<Rightarrow> tp_state \<Rightarrow> tp_state" where
  "tp_rebase preUp preDown s =
     (if preUp < ts_BaselineUp s \<or> preDown < ts_BaselineDown s
      then s\<lparr>ts_BaselineUp := preUp, ts_BaselineDown := preDown\<rparr> else s)"

definition tp_renew :: "int \<Rightarrow> int \<Rightarrow> int \<Rightarrow> int \<Rightarrow> tp_state \<Rightarrow> tp_state res" where
  "tp_renew now seconds preUp preDown s =
     (if now \<ge> ts_WindowEnd s
      then bind_res (tp_window now seconds) (\<lambda>(start, stop).
           let s = s\<lparr>ts_WindowStart := start, ts_WindowEnd := stop, ts_BaselineUp := preUp, ts_BaselineDown := preDown\<rparr>
           in Inr (if ts_Owner s = OwnerSoftQuota
                   then s\<lparr>ts_Lifecycle := StateActive, ts_Owner := OwnerNone, ts_Reason := ''window reset''\<rparr> else s))
      else Inr s)"

definition tp_advance :: "tp_policy \<Rightarrow> traffic_row \<Rightarrow> tp_state \<Rightarrow> tp_state" where
  "tp_advance p row s =
     (if \<not> ct_Enable row
      then s\<lparr>ts_Lifecycle := StateDisabled, ts_Reason := ''upstream client disabled''\<rparr>
      else if tp_QuotaBytes p > 0 \<and> tp_usage row s \<ge> tp_QuotaBytes p
      then s\<lparr>ts_Lifecycle := StateThrottled, ts_Owner := OwnerSoftQuota, ts_Reason := ''fixed-window quota reached''\<rparr>
      else if ts_Owner s = OwnerSoftQuota
      then s\<lparr>ts_Lifecycle := StateActive, ts_Owner := OwnerNone, ts_Reason := ''quota no longer reached''\<rparr>
      else s)"

text \<open>The state of the client, created at the counters before this poll when there is none.\<close>

definition tp_ensure_state :: "int \<Rightarrow> tp_policy \<Rightarrow> traffic_row \<Rightarrow> traffic_row \<Rightarrow> tp_db \<Rightarrow> (tp_state \<times> tp_db) res" where
  "tp_ensure_state now p row delta db =
     (case tp_lockState db (ct_Email delta) of
        Inr s \<Rightarrow> Inr (s, db)
      | Inl e \<Rightarrow>
         (if e \<noteq> ErrRecordNotFound then Inl e
          else bind_res (tp_window now (tp_WindowSeconds p)) (\<lambda>(start, stop).
               tp_create_state
                 (tp_new_state (tp_ClientEmail p) start stop (clampDelta (sub64 (ct_Up row) (ct_Up delta)))
                    (clampDelta (sub64 (ct_Down row) (ct_Down delta))) now) db)))"

definition tp_apply_delta :: "int \<Rightarrow> traffic_row option \<Rightarrow> tp_db \<Rightarrow> tp_db res" where
  "tp_apply_delta now d db =
     (case d of
        None \<Rightarrow> Inr db
      | Some delta \<Rightarrow>
     (if ct_Email delta = [] then Inr db
      else case tp_find_enabled db (ct_Email delta) of
        Inl e \<Rightarrow> (if e = ErrRecordNotFound then Inr db else Inl e)
      | Inr p \<Rightarrow>
         bind_res (tp_find_traffic db (ct_Email delta)) (\<lambda>row.
         bind_res (tp_ensure_state now p row delta db) (\<lambda>(s, db).
         let preUp = clampDelta (sub64 (ct_Up row) (ct_Up delta));
             preDown = clampDelta (sub64 (ct_Down row) (ct_Down delta))
         in bind_res (tp_renew now (tp_WindowSeconds p) preUp preDown (tp_rebase preUp preDown s)) (\<lambda>s.
            tp_save_state now (tp_advance p row s) db)))))"

text \<open>\<open>ApplyDeltas\<close> runs inside the caller's transaction: an error undoes all of it.\<close>

definition ApplyDeltas :: "int \<Rightarrow> traffic_row option list \<Rightarrow> tp_db \<Rightarrow> tp_db res" where
  "ApplyDeltas now deltas db =
     (if \<not> tp_enabled db \<or> deltas = [] then Inr db else fold_res (tp_apply_delta now) deltas db)"

section \<open>Views and operator actions\<close>

text \<open>
  \<open>effectiveView\<close>. The traffic row is read a second time after the state; nothing between the two
  reads touches that table.
\<close>

definition tp_view_state :: "int \<Rightarrow> tp_policy \<Rightarrow> string \<Rightarrow> tp_db \<Rightarrow> (tp_state \<times> tp_db) res" where
  "tp_view_state now p email db =
     (case tp_lockState db email of
        Inr s \<Rightarrow> Inr (s, db)
      | Inl e \<Rightarrow>
         (if e \<noteq> ErrRecordNotFound then Inl e
          else bind_res (tp_find_traffic db email) (\<lambda>row.
               bind_res (tp_window now (tp_WindowSeconds p)) (\<lambda>(start, stop).
               tp_create_state (tp_new_state email start stop (ct_Up row) (ct_Down row) now) db))))"

definition tp_make_view :: "bool \<Rightarrow> tp_policy \<Rightarrow> tp_state \<Rightarrow> traffic_row \<Rightarrow> tp_view" where
  "tp_make_view ua p s row =
     (let used = tp_usage row s;
          v = \<lparr>tv_Policy = p, tv_Lifecycle = ts_Lifecycle s, tv_Owner = ts_Owner s, tv_Reason = ts_Reason s,
               tv_WindowStart = ts_WindowStart s, tv_WindowEnd = ts_WindowEnd s, tv_UsedBytes = used,
               tv_RemainingBytes = (if tp_QuotaBytes p > used then sub64 (tp_QuotaBytes p) used else 0),
               tv_Enforcement = [], tv_EnforcementNote = [], tv_EnforcementActive = ts_EnforcementActive s\<rparr>
      in if ts_Lifecycle s = StateDisabled
         then v\<lparr>tv_Enforcement := StateDisabled, tv_EnforcementNote := ts_Reason s\<rparr>
         else if \<not> ua
         then v\<lparr>tv_Enforcement := StateUnsupported,
                tv_EnforcementNote := ''kernel attribution is not proven for generic Xray users''\<rparr>
         else v\<lparr>tv_Enforcement := ts_Lifecycle s\<rparr>)"

definition effectiveView :: "bool \<Rightarrow> int \<Rightarrow> string \<Rightarrow> tp_db \<Rightarrow> (tp_view \<times> tp_db) res" where
  "effectiveView ua now email db =
     bind_res (tp_find_policy db email) (\<lambda>p.
     bind_res (tp_view_state now p email db) (\<lambda>(s, db).
     bind_res (tp_find_traffic db email) (\<lambda>row.
     Inr (tp_make_view ua p s row, db))))"

definition tp_Get :: "bool \<Rightarrow> int \<Rightarrow> string \<Rightarrow> tp_db \<Rightarrow> (tp_view \<times> tp_db) res" where
  "tp_Get ua now email db = (if \<not> tp_enabled db then Inl ErrDisabled else effectiveView ua now email db)"

definition tp_configured :: "tp_policy \<Rightarrow> tp_policy \<Rightarrow> tp_policy" where
  "tp_configured i p = p\<lparr>tp_Enabled := tp_Enabled i, tp_WindowSeconds := tp_WindowSeconds i,
     tp_QuotaBytes := tp_QuotaBytes i, tp_ActiveUploadBps := tp_ActiveUploadBps i,
     tp_ActiveDownloadBps := tp_ActiveDownloadBps i, tp_ThrottleUploadBps := tp_ThrottleUploadBps i,
     tp_ThrottleDownloadBps := tp_ThrottleDownloadBps i, tp_UpdatedAt := tp_UpdatedAt i\<rparr>"

text \<open>The transaction of \<open>Upsert\<close>: the policy is looked up by the email as given, and stored under it trimmed.\<close>

definition tp_put_policy :: "string \<Rightarrow> tp_policy \<Rightarrow> tp_db \<Rightarrow> tp_db res" where
  "tp_put_policy email i db =
     (case tp_find_policy db email of
        Inr old \<Rightarrow>
          bind_res (q_update (tp_down db ''fork_traffic_policies'') tp_policies_uniq (\<lambda>p. tp_ID p = tp_ID old)
                      (tp_configured i) (tp_policies db)) (\<lambda>rows.
          Inr (db\<lparr>tp_policies := rows\<rparr>))
      | Inl e \<Rightarrow>
         (if e \<noteq> ErrRecordNotFound then Inl e
          else bind_res (q_create (tp_down db ''fork_traffic_policies'') tp_ID (\<lambda>n r. r\<lparr>tp_ID := n\<rparr>) tp_policies_uniq
                           (tp_next db) i (tp_policies db)) (\<lambda>rows.
               Inr (db\<lparr>tp_policies := rows, tp_next := Suc (tp_next db)\<rparr>))))"

definition Upsert :: "bool \<Rightarrow> int \<Rightarrow> int \<Rightarrow> string \<Rightarrow> tp_policy \<Rightarrow> tp_db \<Rightarrow> tp_db \<times> tp_view res" where
  "Upsert ua now ms email i db =
     (if \<not> tp_enabled db then (db, Inl ErrDisabled)
      else let i = i\<lparr>tp_ClientEmail := trim_space email\<rparr>
      in case tp_validatePolicy i of
           Inl e \<Rightarrow> (db, Inl e)
         | Inr _ \<Rightarrow>
            (case tp_put_policy email (i\<lparr>tp_UpdatedAt := 1000 * now + ms\<rparr>) db of
               Inl e \<Rightarrow> (db, Inl e)
             | Inr db' \<Rightarrow>
                (case tp_Get ua now email db' of
                   Inl e \<Rightarrow> (db', Inl e)
                 | Inr (v, db'') \<Rightarrow> (db'', Inr v))))"

definition tp_restart :: "int \<Rightarrow> int \<Rightarrow> traffic_row \<Rightarrow> tp_state \<Rightarrow> tp_state" where
  "tp_restart start stop row s =
     (let s = s\<lparr>ts_WindowStart := start, ts_WindowEnd := stop, ts_BaselineUp := ct_Up row, ts_BaselineDown := ct_Down row\<rparr>
      in if ts_Owner s = OwnerSoftQuota
         then s\<lparr>ts_Lifecycle := StateActive, ts_Owner := OwnerNone, ts_Reason := ''operator reset''\<rparr> else s)"

definition tp_Reset :: "int \<Rightarrow> string \<Rightarrow> tp_db \<Rightarrow> tp_db res" where
  "tp_Reset now email db =
     (if \<not> tp_enabled db then Inl ErrDisabled
      else bind_res (tp_find_traffic db email) (\<lambda>row.
           bind_res (tp_lockState db email) (\<lambda>s.
           bind_res (tp_find_policy db email) (\<lambda>p.
           bind_res (tp_window now (tp_WindowSeconds p)) (\<lambda>(start, stop).
           tp_save_state now (tp_restart start stop row s) db)))))"

text \<open>One transaction per policy: the states before a failing one stay committed.\<close>

fun tp_reconcile_states :: "int \<Rightarrow> tp_policy list \<Rightarrow> tp_db \<Rightarrow> tp_db \<times> go_error option" where
  "tp_reconcile_states now [] db = (db, None)"
| "tp_reconcile_states now (p # ps) db =
     (case ApplyDeltas now [Some (zero_traffic\<lparr>ct_Email := tp_ClientEmail p\<rparr>)] db of
        Inl e \<Rightarrow> (db, Some e)
      | Inr db' \<Rightarrow> tp_reconcile_states now ps db')"

definition reconcileQuotaState :: "int \<Rightarrow> tp_db \<Rightarrow> tp_db \<times> go_error option" where
  "reconcileQuotaState now db =
     (if \<not> tp_enabled db then (db, None)
      else case q_find (tp_down db ''fork_traffic_policies'') tp_Enabled (tp_policies db) of
             Inl e \<Rightarrow> (db, Some e)
           | Inr ps \<Rightarrow> tp_reconcile_states now ps db)"

section \<open>Enforcement\<close>

type_synonym provider = "string \<Rightarrow> string + attribution"
type_synonym 'k shaper = "'k \<Rightarrow> desired_rule list option \<Rightarrow> 'k \<times> tc_status \<times> string option"

definition desiredRuleForAttribution :: "tp_view \<Rightarrow> attribution \<Rightarrow> string + desired_rule" where
  "desiredRuleForAttribution v i =
     (let p = tv_Policy v;
          upload = (if tv_Lifecycle v = StateThrottled then tp_ThrottleUploadBps p else tp_ActiveUploadBps p);
          download = (if tv_Lifecycle v = StateThrottled then tp_ThrottleDownloadBps p else tp_ActiveDownloadBps p)
      in if \<not> tp_Enabled p \<or> \<not> at_Supported i \<or> \<not> at_Stable i \<or> upload = 0 \<or> download = 0 \<or>
            at_NodeKey i = [] \<or> at_Interface i = [] \<or> at_Mark i = 0 \<or> at_Selectors i = []
         then Inl ErrUnsupported
         else Inr \<lparr>dr_NodeKey = at_NodeKey i, dr_ClientKey = tp_ClientEmail p, dr_Interface = at_Interface i,
                   dr_Mark = at_Mark i, dr_UploadRateBps = upload, dr_DownloadRateBps = download,
                   dr_Selectors = at_Selectors i\<rparr>)"

definition DesiredRule :: "bool \<Rightarrow> tp_view \<Rightarrow> string \<Rightarrow> string \<Rightarrow> nat \<Rightarrow> string list \<Rightarrow> string + desired_rule" where
  "DesiredRule ua v nodeKey iface mark selectors =
     (if \<not> ua then Inl ErrUnsupported
      else desiredRuleForAttribution v
             \<lparr>at_Supported = True, at_Stable = True, at_NodeKey = nodeKey, at_Interface = iface, at_Mark = mark,
              at_Selectors = selectors\<rparr>)"

definition DesiredRuleFor :: "bool \<Rightarrow> tp_view \<Rightarrow> string + desired_rule" where
  "DesiredRuleFor ua v = DesiredRule ua v [] [] 0 []"

text \<open>One turn of the loop of \<open>desiredRules\<close>: the rules, the unsupported clients, the clean-up flag, the state.\<close>

definition desired_step ::
  "bool \<Rightarrow> int \<Rightarrow> provider \<Rightarrow> tp_policy \<Rightarrow> desired_rule list \<times> nat \<times> bool \<times> tp_db
     \<Rightarrow> desired_rule list \<times> nat \<times> bool \<times> tp_db" where
  "desired_step ua now provider p acc =
     (case acc of (rules, unsupported, cleanup, db) \<Rightarrow>
      if \<not> tp_Enabled p then acc
      else case effectiveView ua now (tp_ClientEmail p) db of
        Inl _ \<Rightarrow> (rules, unsupported + 1, cleanup, db)
      | Inr (v, db) \<Rightarrow>
         (let cleanup = (cleanup \<or> tv_EnforcementActive v)
          in if tv_Lifecycle v = StateDisabled then (rules, unsupported, cleanup, db)
             else case provider (tp_ClientEmail p) of
               Inl _ \<Rightarrow> (rules, unsupported + 1, cleanup, db)
             | Inr identity \<Rightarrow>
                (if \<not> at_Supported identity \<or> \<not> at_Stable identity then (rules, unsupported + 1, cleanup, db)
                 else case desiredRuleForAttribution v identity of
                        Inl _ \<Rightarrow> (rules, unsupported + 1, cleanup, db)
                      | Inr rule \<Rightarrow> (rules @ [rule], unsupported, cleanup, db))))"

definition rule_less :: "desired_rule \<Rightarrow> desired_rule \<Rightarrow> bool" where
  "rule_less a b \<longleftrightarrow>
     (if dr_NodeKey a \<noteq> dr_NodeKey b then dr_NodeKey a < dr_NodeKey b else dr_ClientKey a < dr_ClientKey b)"

text \<open>
  The policies are read in the order of their emails, as bytes; the order has no effect on the
  result, which is sorted by keys that differ for different clients.
\<close>

definition desiredRules ::
  "bool \<Rightarrow> int \<Rightarrow> provider option \<Rightarrow> tp_db \<Rightarrow> tp_db \<times> (desired_rule list option \<times> nat \<times> bool) res" where
  "desiredRules ua now provider db =
     (case provider of
        None \<Rightarrow> (db, Inr (None, 0, False))
      | Some pr \<Rightarrow>
     (if \<not> tp_enabled db then (db, Inr (None, 0, False))
      else if tp_down db ''fork_traffic_policies'' then (db, Inl ErrDB)
      else case q_find (tp_down db ''fork_traffic_policy_states'') ts_EnforcementActive (tp_states db) of
             Inl e \<Rightarrow> (db, Inl e)
           | Inr applied \<Rightarrow>
              (case fold (desired_step ua now pr) (sort_key tp_ClientEmail (tp_policies db)) ([], 0, applied \<noteq> [], db) of
                 (rules, unsupported, cleanup, db') \<Rightarrow>
                   (db', Inr (Some (sort_stable rule_less rules), unsupported, cleanup)))))"

definition tp_unenforced :: "int \<Rightarrow> tp_state \<Rightarrow> tp_state" where
  "tp_unenforced now s = s\<lparr>ts_EnforcementActive := False, ts_EnforcementNode := [], ts_EnforcementInterface := [],
     ts_EnforcementMark := 0, ts_UpdatedAt := now\<rparr>"

definition tp_enforced :: "int \<Rightarrow> desired_rule \<Rightarrow> tp_state \<Rightarrow> tp_state" where
  "tp_enforced now r s = s\<lparr>ts_EnforcementActive := True, ts_EnforcementNode := dr_NodeKey r,
     ts_EnforcementInterface := dr_Interface r, ts_EnforcementMark := dr_Mark r, ts_UpdatedAt := now\<rparr>"

definition tp_persist_rule :: "int \<Rightarrow> desired_rule \<Rightarrow> tp_db \<Rightarrow> tp_db res" where
  "tp_persist_rule now r = tp_update_states (\<lambda>s. ts_ClientEmail s = dr_ClientKey r) (tp_enforced now r)"

definition clearAndPersistEnforcement :: "int \<Rightarrow> desired_rule list \<Rightarrow> tp_db \<Rightarrow> tp_db res" where
  "clearAndPersistEnforcement now rules db =
     (if \<not> tp_enabled db then Inr db
      else bind_res (tp_update_states ts_EnforcementActive (tp_unenforced now) db) (\<lambda>db.
           fold_res (tp_persist_rule now) rules db))"

definition hasEnforcementState :: "tp_db \<Rightarrow> bool" where
  "hasEnforcementState db \<longleftrightarrow>
     tp_enabled db \<and> \<not> tp_down db ''fork_traffic_policy_states'' \<and> list_ex ts_EnforcementActive (tp_states db)"

definition persist :: "int \<Rightarrow> desired_rule list \<Rightarrow> tp_db \<Rightarrow> tp_db \<times> go_error option" where
  "persist now rules db =
     (case clearAndPersistEnforcement now rules db of Inl e \<Rightarrow> (db, Some e) | Inr db' \<Rightarrow> (db', None))"

definition no_provider_status :: tc_status where
  "no_provider_status = status_of (caps StateUnsupported ''no production attribution provider is registered'')"

definition attribution_failed_status :: "string \<Rightarrow> tc_status" where
  "attribution_failed_status msg =
     (status_of ((caps StateDegraded ''attribution resolution failed'')\<lparr>cap_UserAttribution := True\<rparr>))
       \<lparr>st_LastError := msg\<rparr>"

text \<open>\<open>ReconcileEnforcement\<close>; \<open>etext\<close> is \<open>err.Error()\<close> of a database error.\<close>

definition ReconcileEnforcement ::
  "(go_error \<Rightarrow> string) \<Rightarrow> bool \<Rightarrow> int \<Rightarrow> provider option \<Rightarrow> 'k shaper option \<Rightarrow> 'k \<Rightarrow> tp_db
     \<Rightarrow> tp_db \<times> 'k \<times> tc_status \<times> go_error option" where
  "ReconcileEnforcement etext ua now provider shaper k db =
     (case provider of
        None \<Rightarrow>
          (case shaper of
             Some sh \<Rightarrow>
               (if hasEnforcementState db
                then case sh k None of (k', status, err) \<Rightarrow>
                       (if err \<noteq> None \<or> st_State status \<noteq> ''ready'' then (db, k', status, map_option Err err)
                        else case persist now [] db of (db', e) \<Rightarrow> (db', k', status, e))
                else (db, k, no_provider_status, None))
           | None \<Rightarrow> (db, k, no_provider_status, None))
      | Some _ \<Rightarrow>
     (case shaper of
        None \<Rightarrow> (db, k, status_of (caps StateUnsupported ''traffic shaper unavailable''), Some (Err ErrUnsupported))
      | Some sh \<Rightarrow>
     (case desiredRules ua now provider db of
        (db, Inl e) \<Rightarrow> (db, k, attribution_failed_status (etext e), Some e)
      | (db, Inr (given, unsupported, cleanup)) \<Rightarrow>
         (let rules = (case given of None \<Rightarrow> [] | Some rs \<Rightarrow> rs)
          in if rules = [] \<and> \<not> cleanup
             then (db, k, status_of (caps StateUnsupported ''no clients have proven stable attribution''), None)
             else case sh k given of (k', status, err) \<Rightarrow>
               (if err \<noteq> None then (db, k', status, map_option Err err)
                else if st_State status \<noteq> ''ready'' then (db, k', status, None)
                else case persist now rules db of
                       (db', Some e) \<Rightarrow> (db', k', status, Some e)
                     | (db', None) \<Rightarrow>
                        (db', k',
                         if unsupported > 0 \<and> rules = []
                         then with_state StateUnsupported ''no clients have proven stable attribution'' status else status,
                         None))))))"

definition tp_Reconcile ::
  "(go_error \<Rightarrow> string) \<Rightarrow> bool \<Rightarrow> int \<Rightarrow> provider option \<Rightarrow> 'k shaper \<Rightarrow> 'k \<Rightarrow> tp_db \<Rightarrow> tp_db \<times> 'k \<times> go_error option" where
  "tp_Reconcile etext ua now provider shaper k db =
     (if \<not> tp_enabled db then (db, k, None)
      else case reconcileQuotaState now db of
        (db, Some e) \<Rightarrow> (db, k, Some e)
      | (db, None) \<Rightarrow>
         (if provider = None then (db, k, None)
          else case ReconcileEnforcement etext ua now provider (Some shaper) k db of
                 (db, k, _, e) \<Rightarrow> (db, k, e)))"

section \<open>Remote enforcement\<close>

definition tp_ReconcileRemote ::
  "tc_codec \<Rightarrow> bool \<Rightarrow> remote_transport option \<Rightarrow> tp_view \<Rightarrow> tc_status \<times> string option \<times> remote_call list" where
  "tp_ReconcileRemote codec ua remote v =
     (if \<not> ua
      then (status_of (caps StateUnsupported ''generic Xray user attribution is not proven''), Some ErrUnsupported, [])
      else case DesiredRuleFor ua v of
             Inl e \<Rightarrow> (zero_status, Some e, [])
           | Inr rule \<Rightarrow> ReconcileRemote codec remote (Some [rule]))"

definition ReconcileRemotePolicies ::
  "(go_error \<Rightarrow> string) \<Rightarrow> tc_codec \<Rightarrow> bool \<Rightarrow> int \<Rightarrow> remote_transport option \<Rightarrow> provider option \<Rightarrow> tp_db
     \<Rightarrow> tp_db \<times> tc_status \<times> go_error option \<times> remote_call list" where
  "ReconcileRemotePolicies etext codec ua now remote provider db =
     (case provider of
        None \<Rightarrow>
          (if hasEnforcementState db
           then case ReconcileRemote codec remote None of (status, err, calls) \<Rightarrow>
                  (case err of
                     Some e \<Rightarrow> (db, status, Some (Err e), calls)
                   | None \<Rightarrow> (case persist now [] db of (db', e) \<Rightarrow> (db', status, e, calls)))
           else (db, no_provider_status, None, []))
      | Some _ \<Rightarrow>
     (case desiredRules ua now provider db of
        (db, Inl e) \<Rightarrow> (db, attribution_failed_status (etext e), Some e, [])
      | (db, Inr (given, _, _)) \<Rightarrow>
         (case ReconcileRemote codec remote given of (status, err, calls) \<Rightarrow>
            (case err of
               Some e \<Rightarrow> (db, status, Some (Err e), calls)
             | None \<Rightarrow>
                (if st_State status = ''ready''
                 then case persist now (case given of None \<Rightarrow> [] | Some rs \<Rightarrow> rs) db of (db', e) \<Rightarrow> (db', status, e, calls)
                 else (db, status, None, calls))))))"

end
