(* ===== verification/Traffic_Policy_Quota.thy ===== *)
theory Traffic_Policy_Quota
  imports Traffic_Policy
begin

text \<open>
  What the traffic policies guarantee: the tables stay well-formed in every reachable state and the
  window arithmetic never divides by zero; a window contains the present; the lifecycle follows the
  usage; what is enforced is what was desired.
\<close>

section \<open>The invariant\<close>

definition tp_policy_ok :: "tp_policy \<Rightarrow> bool" where
  "tp_policy_ok p \<longleftrightarrow> tp_ClientEmail p \<noteq> [] \<and> trim_space (tp_ClientEmail p) = tp_ClientEmail p \<and>
     60 \<le> tp_WindowSeconds p \<and> tp_WindowSeconds p \<le> 31622400 \<and> 0 \<le> tp_QuotaBytes p"

definition tp_state_ok :: "tp_state \<Rightarrow> bool" where
  "tp_state_ok s \<longleftrightarrow>
     ts_Lifecycle s \<in> {StateActive, StateThrottled, StateDisabled} \<and> ts_Owner s \<in> {OwnerSoftQuota, OwnerNone} \<and>
     (ts_Lifecycle s = StateThrottled \<longrightarrow> ts_Owner s = OwnerSoftQuota) \<and>
     (ts_Lifecycle s = StateActive \<longrightarrow> ts_Owner s = OwnerNone)"

definition tp_ok :: "tp_db \<Rightarrow> bool" where
  "tp_ok db \<longleftrightarrow>
     table_ok tp_ID tp_policies_uniq (tp_policies db) \<and> table_ok ts_ID tp_states_uniq (tp_states db) \<and>
     (\<forall>p \<in> set (tp_policies db). tp_policy_ok p) \<and> (\<forall>s \<in> set (tp_states db). tp_state_ok s)"

lemma new_state_ok: "tp_state_ok (tp_new_state email start stop up down at)"
  by (simp add: tp_state_ok_def tp_new_state_def lifecycle_names)

lemma rebase_ok: "tp_state_ok s \<Longrightarrow> tp_state_ok (tp_rebase u d s)"
  by (simp add: tp_state_ok_def tp_rebase_def)

lemma renew_ok: "tp_renew now w u d s = Inr s' \<Longrightarrow> tp_state_ok s \<Longrightarrow> tp_state_ok s'"
  by (auto simp: tp_state_ok_def tp_renew_def Let_def lifecycle_names elim!: bind_resE split: if_splits prod.splits)

lemma advance_ok: "tp_state_ok s \<Longrightarrow> tp_state_ok (tp_advance p row s)"
  by (auto simp: tp_state_ok_def tp_advance_def lifecycle_names)

lemma restart_ok: "tp_state_ok s \<Longrightarrow> tp_state_ok (tp_restart a b row s)"
  by (auto simp: tp_state_ok_def tp_restart_def Let_def lifecycle_names)

text \<open>The key of a state is set once.\<close>

lemma state_keys:
  "ts_ID (tp_rebase u d s) = ts_ID s" "ts_ID (tp_advance p row s) = ts_ID s" "ts_ID (tp_restart a b row s) = ts_ID s"
  "ts_ClientEmail (tp_rebase u d s) = ts_ClientEmail s" "ts_ClientEmail (tp_advance p row s) = ts_ClientEmail s"
  "ts_ClientEmail (tp_restart a b row s) = ts_ClientEmail s"
  "tp_renew now w u d s = Inr s' \<Longrightarrow> ts_ID s' = ts_ID s"
  "tp_renew now w u d s = Inr s' \<Longrightarrow> ts_ClientEmail s' = ts_ClientEmail s"
  by (auto simp: tp_rebase_def tp_advance_def tp_restart_def tp_renew_def Let_def elim!: bind_resE split: if_splits prod.splits)

section \<open>What the table operations keep\<close>

lemma tp_create_state_ok:
  assumes "tp_create_state s db = Inr (s', db')" "tp_ok db" "tp_state_ok s"
  shows "tp_ok db'" "tp_state_ok s'" "s' \<in> set (tp_states db')" "tp_policies db' = tp_policies db"
    "tp_traffics db' = tp_traffics db" "tp_enabled db' = tp_enabled db" "tp_down db' = tp_down db"
proof -
  obtain rows where rows: "q_create (tp_down db ''fork_traffic_policy_states'') ts_ID (\<lambda>n r. r\<lparr>ts_ID := n\<rparr>) tp_states_uniq
      (tp_next db) s (tp_states db) = Inr rows"
    and s': "s' = (if ts_ID s = 0 then s\<lparr>ts_ID := tp_next db\<rparr> else s)"
    and db': "db' = db\<lparr>tp_states := rows, tp_next := Suc (tp_next db)\<rparr>"
    using assms(1) by (auto simp: tp_create_state_def elim!: bind_resE)
  have set: "set rows = insert s' (set (tp_states db))"
    using tp_state_table.create_Inr[OF rows] s' by simp
  show s'_ok: "tp_state_ok s'" using assms(3) s' by (simp add: tp_state_ok_def)
  have "table_ok ts_ID tp_states_uniq rows"
    using tp_state_table.create_ok[OF _ rows] assms(2) by (simp add: tp_ok_def)
  then show "tp_ok db'" using assms(2) set s'_ok by (auto simp: tp_ok_def db')
qed (use assms(1) in \<open>auto simp: tp_create_state_def elim!: bind_resE
      dest: tp_state_table.create_Inr split: if_splits\<close>)

lemma tp_update_states_ok:
  assumes "tp_update_states P f db = Inr db'" "tp_ok db"
    and "\<And>s. P s \<Longrightarrow> ts_ID (f s) = ts_ID s" "\<And>s. s \<in> set (tp_states db) \<Longrightarrow> P s \<Longrightarrow> tp_state_ok (f s)"
  shows "tp_ok db'"
proof -
  obtain rows where rows: "q_update (tp_down db ''fork_traffic_policy_states'') tp_states_uniq P f (tp_states db) = Inr rows"
    and db': "db' = db\<lparr>tp_states := rows\<rparr>"
    using assms(1) by (auto simp: tp_update_states_def elim!: bind_resE)
  have "table_ok ts_ID tp_states_uniq rows"
    using tp_state_table.update_ok_on[OF _ rows assms(3)] assms(2) by (simp add: tp_ok_def)
  moreover have "\<forall>s \<in> set rows. tp_state_ok s"
    using rows assms(2,4) by (auto simp: table_simps tp_ok_def)
  ultimately show ?thesis using assms(2) by (simp add: tp_ok_def db')
qed

lemma save_state_ok:
  assumes "tp_save_state now s db = Inr db'" "tp_ok db" "tp_state_ok s"
  shows "tp_ok db'"
  using assms(1) unfolding tp_save_state_def
  by (rule tp_update_states_ok[OF _ assms(2)]) (use assms(3) in \<open>auto simp: tp_state_ok_def\<close>)

lemma lockState_ok: "tp_lockState db email = Inr s \<Longrightarrow> tp_ok db \<Longrightarrow>
    tp_state_ok s \<and> s \<in> set (tp_states db) \<and> ts_ClientEmail s = email"
  by (auto simp: tp_lockState_def tp_ok_def dest!: q_first_InrD)

section \<open>What the operations keep\<close>

lemma ensure_state_ok:
  assumes "tp_ensure_state now p row delta db = Inr (s, db')" "tp_ok db"
  shows "tp_ok db' \<and> tp_state_ok s"
proof (cases "tp_lockState db (ct_Email delta)")
  case (Inr x)
  then show ?thesis using assms lockState_ok[OF Inr] by (simp add: tp_ensure_state_def)
next
  case (Inl e)
  then obtain start stop where "tp_create_state
      (tp_new_state (tp_ClientEmail p) start stop (clampDelta (sub64 (ct_Up row) (ct_Up delta)))
        (clampDelta (sub64 (ct_Down row) (ct_Down delta))) now) db = Inr (s, db')"
    using assms(1) by (auto simp: tp_ensure_state_def elim!: bind_resE split: if_splits)
  then show ?thesis using tp_create_state_ok(1,2)[OF _ assms(2) new_state_ok] by blast
qed

lemma tp_apply_delta_ok:
  assumes "tp_apply_delta now d db = Inr db'" "tp_ok db"
  shows "tp_ok db'"
proof (cases "db' = db")
  case False
  then obtain delta p row s db1 s1 where run: "d = Some delta"
      "tp_ensure_state now p row delta db = Inr (s, db1)"
      "tp_renew now (tp_WindowSeconds p) (clampDelta (sub64 (ct_Up row) (ct_Up delta)))
         (clampDelta (sub64 (ct_Down row) (ct_Down delta)))
         (tp_rebase (clampDelta (sub64 (ct_Up row) (ct_Up delta))) (clampDelta (sub64 (ct_Down row) (ct_Down delta))) s) = Inr s1"
      "tp_save_state now (tp_advance p row s1) db1 = Inr db'"
    using assms(1)
    by (auto simp: tp_apply_delta_def Let_def elim!: bind_resE split: option.splits if_splits sum.splits)
  have "tp_ok db1" "tp_state_ok s" using ensure_state_ok[OF run(2) assms(2)] by simp_all
  then show ?thesis using save_state_ok[OF run(4)] renew_ok[OF run(3)] rebase_ok advance_ok by blast
qed (use assms(2) in simp)

lemma view_state_ok:
  assumes "tp_view_state now p email db = Inr (s, db')" "tp_ok db"
  shows "tp_ok db' \<and> tp_state_ok s"
proof (cases "tp_lockState db email")
  case (Inr x)
  then show ?thesis using assms lockState_ok[OF Inr] by (simp add: tp_view_state_def)
next
  case (Inl e)
  then obtain start stop up down where "tp_create_state (tp_new_state email start stop up down now) db = Inr (s, db')"
    using assms(1) by (auto simp: tp_view_state_def elim!: bind_resE split: if_splits)
  then show ?thesis using tp_create_state_ok(1,2)[OF _ assms(2) new_state_ok] by blast
qed

lemma effectiveView_ok: "effectiveView ua now email db = Inr (v, db') \<Longrightarrow> tp_ok db \<Longrightarrow> tp_ok db'"
  by (auto simp: effectiveView_def elim!: bind_resE dest: view_state_ok)

lemma put_policy_ok:
  assumes "tp_put_policy email i db = Inr db'" "tp_ok db" "tp_policy_ok i"
  shows "tp_ok db'"
proof (cases "tp_find_policy db email")
  case (Inr old)
  then obtain rows where rows: "q_update (tp_down db ''fork_traffic_policies'') tp_policies_uniq (\<lambda>p. tp_ID p = tp_ID old)
      (tp_configured i) (tp_policies db) = Inr rows" "db' = db\<lparr>tp_policies := rows\<rparr>"
    using assms(1) by (auto simp: tp_put_policy_def elim!: bind_resE)
  have "table_ok tp_ID tp_policies_uniq rows"
    by (rule tp_policy_table.update_ok[OF _ rows(1)]) (use assms(2) in \<open>simp_all add: tp_ok_def tp_configured_def\<close>)
  moreover have "\<forall>p \<in> set rows. tp_policy_ok p"
    using rows(1) assms(2,3) by (auto simp: table_simps tp_ok_def tp_policy_ok_def tp_configured_def)
  ultimately show ?thesis using assms(2) rows(2) by (simp add: tp_ok_def)
next
  case (Inl e)
  then obtain rows where rows: "q_create (tp_down db ''fork_traffic_policies'') tp_ID (\<lambda>n r. r\<lparr>tp_ID := n\<rparr>)
      tp_policies_uniq (tp_next db) i (tp_policies db) = Inr rows"
      "db' = db\<lparr>tp_policies := rows, tp_next := Suc (tp_next db)\<rparr>"
    using assms(1) by (auto simp: tp_put_policy_def elim!: bind_resE split: if_splits)
  have "table_ok tp_ID tp_policies_uniq rows"
    by (rule tp_policy_table.create_ok[OF _ rows(1)]) (use assms(2) in \<open>simp add: tp_ok_def\<close>)
  moreover have "\<forall>p \<in> set rows. tp_policy_ok p"
    using tp_policy_table.create_Inr[OF rows(1)] assms(2,3) by (auto simp: tp_ok_def tp_policy_ok_def)
  ultimately show ?thesis using assms(2) rows(2) by (simp add: tp_ok_def)
qed

lemma validate_policy_ok:
  "tp_validatePolicy (i\<lparr>tp_ClientEmail := trim_space email\<rparr>) = Inr u \<Longrightarrow>
     tp_policy_ok (i\<lparr>tp_ClientEmail := trim_space email, tp_UpdatedAt := at\<rparr>)"
  by (auto simp: tp_validatePolicy_def tp_policy_ok_def trim_space_idem split: if_splits)

lemma Upsert_ok: "tp_ok db \<Longrightarrow> tp_ok (fst (Upsert ua now ms email i db))"
  by (auto simp: Upsert_def Let_def tp_Get_def dest: validate_policy_ok effectiveView_ok put_policy_ok
      split: sum.split if_splits)

lemma tp_Reset_ok: "tp_Reset now email db = Inr db' \<Longrightarrow> tp_ok db \<Longrightarrow> tp_ok db'"
  by (auto simp: tp_Reset_def elim!: bind_resE dest: lockState_ok intro: save_state_ok restart_ok split: if_splits)

lemma persist_rule_ok: "tp_persist_rule now r db = Inr db' \<Longrightarrow> tp_ok db \<Longrightarrow> tp_ok db'"
  unfolding tp_persist_rule_def
  by (erule tp_update_states_ok) (auto simp: tp_enforced_def tp_ok_def tp_state_ok_def)

lemma fold_res_ok:
  assumes "fold_res f xs db = Inr db'" "tp_ok db" "\<And>x db db'. f x db = Inr db' \<Longrightarrow> tp_ok db \<Longrightarrow> tp_ok db'"
  shows "tp_ok db'"
  by (rule fold_res_invariant[where P = tp_ok, OF _ assms(1,2)]) (rule assms(3))

lemma ApplyDeltas_ok: "ApplyDeltas now deltas db = Inr db' \<Longrightarrow> tp_ok db \<Longrightarrow> tp_ok db'"
  unfolding ApplyDeltas_def by (auto split: if_splits elim: fold_res_ok dest: tp_apply_delta_ok)

lemma clear_ok:
  assumes "clearAndPersistEnforcement now rules db = Inr db'" "tp_ok db"
  shows "tp_ok db'"
proof -
  have "tp_ok db1" if "tp_update_states ts_EnforcementActive (tp_unenforced now) db = Inr db1" for db1
    using that assms(2)
    by (rule tp_update_states_ok) (use assms(2) in \<open>auto simp: tp_unenforced_def tp_ok_def tp_state_ok_def\<close>)
  then show ?thesis using assms
    by (auto simp: clearAndPersistEnforcement_def elim!: bind_resE split: if_splits
        elim: fold_res_ok dest: persist_rule_ok)
qed

lemma persist_ok: "tp_ok db \<Longrightarrow> tp_ok (fst (persist now rules db))"
  by (auto simp: persist_def dest: clear_ok split: sum.split)

lemma desired_step_ok:
  "tp_ok (snd (snd (snd acc))) \<Longrightarrow> tp_ok (snd (snd (snd (desired_step ua now pr p acc))))"
  by (auto simp: desired_step_def Let_def dest: effectiveView_ok split: prod.split sum.split)

lemma fold_desired_ok:
  "tp_ok (snd (snd (snd acc))) \<Longrightarrow> tp_ok (snd (snd (snd (fold (desired_step ua now pr) ps acc))))"
  by (induction ps arbitrary: acc) (simp_all add: desired_step_ok)

lemma desiredRules_ok:
  assumes "tp_ok db"
  shows "tp_ok (fst (desiredRules ua now provider db))"
proof -
  have "tp_ok db'" if "fold (desired_step ua now pr) ps ([], 0, c, db) = (rules, u, c', db')" for pr ps c rules u c' db'
    using fold_desired_ok[of "([], 0, c, db)" ua now pr ps] that assms by simp
  then show ?thesis using assms
    by (auto simp: desiredRules_def split: option.split sum.split prod.split)
qed

lemma ReconcileEnforcement_ok:
  assumes "tp_ok db"
  shows "tp_ok (fst (ReconcileEnforcement etext ua now provider shaper k db))"
proof -
  have desired: "tp_ok db1" if "desiredRules ua now provider db = (db1, r)" for db1 r
    using desiredRules_ok[OF assms, of ua now provider] that by simp
  have stored: "tp_ok db2" if "persist now rules db1 = (db2, e)" "tp_ok db1" for rules db1 db2 e
    using persist_ok[OF that(2), of now rules] that(1) by simp
  show ?thesis using assms
    by (auto simp: ReconcileEnforcement_def Let_def dest!: desired stored
        split: option.split prod.split sum.split)
qed

lemma reconcile_states_ok: "tp_ok db \<Longrightarrow> tp_ok (fst (tp_reconcile_states now ps db))"
  by (induction now ps db rule: tp_reconcile_states.induct) (auto dest: ApplyDeltas_ok split: sum.split)

lemma Reconcile_ok:
  assumes "tp_ok db"
  shows "tp_ok (fst (tp_Reconcile etext ua now provider shaper k db))"
proof -
  have quota: "tp_ok db1" if "reconcileQuotaState now db = (db1, e)" for db1 e
    using that assms reconcile_states_ok[OF assms, of now]
    by (auto simp: reconcileQuotaState_def split: if_splits sum.splits) (metis fst_conv)+
  have "tp_ok db2" if "ReconcileEnforcement etext ua now provider (Some shaper) k db1 = (db2, r)" "tp_ok db1" for db1 db2 r
    using ReconcileEnforcement_ok[OF that(2), of etext ua now provider "Some shaper" k] that(1) by simp
  then show ?thesis using assms quota
    by (auto simp: tp_Reconcile_def split: option.split prod.split)
qed

section \<open>Windows\<close>

lemma window_contains_now:
  assumes "tp_window now w = Inr (start, stop)" "0 \<le> now" "now \<le> 4611686018427387904" "60 \<le> w" "w \<le> 31622400"
  shows "start \<le> now \<and> now < stop \<and> stop = start + w"
proof -
  have m: "0 \<le> now mod w" "now mod w < w" "now mod w \<le> now"
    using assms(2,4) by (auto intro: zmod_le_nonneg_dividend)
  have "start = now - now mod w" "stop = start + w"
    using assms m by (auto simp: tp_window_def Let_def remt_nonneg sub64_id add64_id is_int64_def split: if_splits)
  then show ?thesis using m by linarith
qed

lemma window_total: "w \<noteq> 0 \<Longrightarrow> \<exists>a b. tp_window now w = Inr (a, b)"
  by (simp add: tp_window_def Let_def)

section \<open>One poll\<close>

text \<open>The state rows are found by their email.\<close>

lemma lock_saved:
  assumes "tp_save_state now s db = Inr db'" "tp_ok db" "x \<in> set (tp_states db)" "ts_ID x = ts_ID s"
    "\<not> tp_down db ''fork_traffic_policy_states''"
  shows "tp_lockState db' (ts_ClientEmail s) = Inr (s\<lparr>ts_UpdatedAt := now\<rparr>)"
proof -
  let ?s = "s\<lparr>ts_UpdatedAt := now\<rparr>"
  obtain rows where rows: "q_update (tp_down db ''fork_traffic_policy_states'') tp_states_uniq (\<lambda>r. ts_ID r = ts_ID s)
      (\<lambda>r. ?s) (tp_states db) = Inr rows" "db' = db\<lparr>tp_states := rows\<rparr>"
    using assms(1) by (auto simp: tp_save_state_def tp_update_states_def elim!: bind_resE)
  have "?s \<in> set rows" "distinct (map ts_ClientEmail rows)"
    using rows(1) assms(3,4) by (force simp: table_simps tp_states_uniq_def)+
  then have "q_first False (\<lambda>x. ts_ClientEmail x = ts_ClientEmail ?s) rows = Inr ?s"
    by (intro first_by_unique)
  then show ?thesis using rows(2) assms(5) by (simp add: tp_lockState_def)
qed

text \<open>What one poll of an enabled policy computes, step by step.\<close>

abbreviation pre_up :: "traffic_row \<Rightarrow> traffic_row \<Rightarrow> int" where
  "pre_up row d \<equiv> clampDelta (sub64 (ct_Up row) (ct_Up d))"

abbreviation pre_down :: "traffic_row \<Rightarrow> traffic_row \<Rightarrow> int" where
  "pre_down row d \<equiv> clampDelta (sub64 (ct_Down row) (ct_Down d))"

lemma find_enabled_ok:
  assumes "tp_find_enabled db email = Inr p" "tp_ok db"
  shows "tp_policy_ok p" "tp_ClientEmail p = email" "tp_Enabled p" "p \<in> set (tp_policies db)"
  using assms by (auto simp: tp_find_enabled_def tp_ok_def dest!: q_first_InrD)

lemma poll_result:
  assumes run: "ApplyDeltas now [Some d] db = Inr db'"
    and ok: "tp_ok db" and on: "tp_enabled db" and d: "ct_Email d \<noteq> []"
    and p: "tp_find_enabled db (ct_Email d) = Inr p" and row: "tp_find_traffic db (ct_Email d) = Inr row"
  obtains s db1 s1 where
    "tp_ensure_state now p row d db = Inr (s, db1)" "tp_state_ok s" "ts_ClientEmail s = ct_Email d"
    "tp_renew now (tp_WindowSeconds p) (pre_up row d) (pre_down row d) (tp_rebase (pre_up row d) (pre_down row d) s) = Inr s1"
    "tp_lockState db' (ct_Email d) = Inr ((tp_advance p row s1)\<lparr>ts_UpdatedAt := now\<rparr>)"
proof -
  have "tp_apply_delta now (Some d) db = Inr db'"
    using run on by (auto simp: ApplyDeltas_def split: sum.splits)
  then obtain s db1 s1 where r: "tp_ensure_state now p row d db = Inr (s, db1)"
      "tp_renew now (tp_WindowSeconds p) (pre_up row d) (pre_down row d) (tp_rebase (pre_up row d) (pre_down row d) s) = Inr s1"
      "tp_save_state now (tp_advance p row s1) db1 = Inr db'"
    using d p row by (auto simp: tp_apply_delta_def Let_def elim!: bind_resE)
  have ens: "s \<in> set (tp_states db1) \<and> ts_ClientEmail s = ct_Email d"
  proof (cases "tp_lockState db (ct_Email d)")
    case (Inr x)
    then show ?thesis using r(1) lockState_ok[OF Inr ok] by (simp add: tp_ensure_state_def)
  next
    case (Inl e)
    then obtain a b where c: "tp_create_state (tp_new_state (tp_ClientEmail p) a b (pre_up row d) (pre_down row d) now) db = Inr (s, db1)"
      using r(1) by (auto simp: tp_ensure_state_def elim!: bind_resE split: if_splits)
    have "ts_ClientEmail s = tp_ClientEmail p"
      using c by (auto simp: tp_create_state_def tp_new_state_def elim!: bind_resE split: if_splits)
    then show ?thesis using tp_create_state_ok(3)[OF c ok new_state_ok] find_enabled_ok(2)[OF p ok] by simp
  qed
  have ok1: "tp_ok db1" "tp_state_ok s" using ensure_state_ok[OF r(1) ok] by simp_all
  have "\<not> tp_down db1 ''fork_traffic_policy_states''"
    using r(3) by (auto simp: tp_save_state_def tp_update_states_def table_simps elim!: bind_resE)
  then have "tp_lockState db' (ts_ClientEmail (tp_advance p row s1)) = Inr ((tp_advance p row s1)\<lparr>ts_UpdatedAt := now\<rparr>)"
    by (intro lock_saved[OF r(3) ok1(1)]) (use ens state_keys(7)[OF r(2)] in \<open>auto simp: state_keys\<close>)
  moreover have "ts_ClientEmail (tp_advance p row s1) = ct_Email d"
    using ens state_keys(8)[OF r(2)] by (simp add: state_keys)
  ultimately show thesis using that r ok1 ens by metis
qed

lemma usage_cong:
  "ts_BaselineUp s = ts_BaselineUp t \<Longrightarrow> ts_BaselineDown s = ts_BaselineDown t \<Longrightarrow> tp_usage row s = tp_usage row t"
  by (simp add: tp_usage_def)

lemma advance_keeps:
  "ts_BaselineUp (tp_advance p row s) = ts_BaselineUp s" "ts_BaselineDown (tp_advance p row s) = ts_BaselineDown s"
  "ts_WindowEnd (tp_advance p row s) = ts_WindowEnd s" "ts_WindowStart (tp_advance p row s) = ts_WindowStart s"
  by (simp_all add: tp_advance_def)

lemma advance_lifecycle:
  assumes "tp_state_ok s" "ct_Enable row"
  shows "(ts_Lifecycle (tp_advance p row s) = StateThrottled \<longleftrightarrow> 0 < tp_QuotaBytes p \<and> tp_QuotaBytes p \<le> tp_usage row s) \<and>
    (ts_Owner (tp_advance p row s) = OwnerSoftQuota \<longleftrightarrow> 0 < tp_QuotaBytes p \<and> tp_QuotaBytes p \<le> tp_usage row s)"
  using assms by (auto simp: tp_advance_def tp_state_ok_def lifecycle_names)

lemma renewed_window:
  assumes "tp_renew now (tp_WindowSeconds p) u d s = Inr s1" "tp_policy_ok p" "0 \<le> now" "now \<le> 4611686018427387904"
  shows "now < ts_WindowEnd s1"
proof (cases "ts_WindowEnd s \<le> now")
  case True
  then obtain a b where "tp_window now (tp_WindowSeconds p) = Inr (a, b)" "ts_WindowEnd s1 = b"
    using assms(1) by (auto simp: tp_renew_def Let_def elim!: bind_resE split: if_splits)
  then show ?thesis using window_contains_now assms(2-4) by (auto simp: tp_policy_ok_def)
next
  case False
  then show ?thesis using assms(1) by (simp add: tp_renew_def)
qed

section \<open>Reachable states\<close>

text \<open>
  The operations of the module in any order, between changes by the panel: traffic counted, tables
  failing and recovering, the feature switched on and off.
\<close>

inductive tp_reachable :: "tp_db \<Rightarrow> bool" where
  start: "tp_policies db = [] \<Longrightarrow> tp_states db = [] \<Longrightarrow> tp_reachable db"
| panel: "tp_reachable db \<Longrightarrow> tp_reachable (db\<lparr>tp_traffics := ts, tp_down := dn, tp_enabled := en\<rparr>)"
| poll: "tp_reachable db \<Longrightarrow> ApplyDeltas now deltas db = Inr db' \<Longrightarrow> tp_reachable db'"
| upsert: "tp_reachable db \<Longrightarrow> tp_reachable (fst (Upsert ua now ms email i db))"
| get: "tp_reachable db \<Longrightarrow> tp_Get ua now email db = Inr (v, db') \<Longrightarrow> tp_reachable db'"
| reset: "tp_reachable db \<Longrightarrow> tp_Reset now email db = Inr db' \<Longrightarrow> tp_reachable db'"
| enforce: "tp_reachable db \<Longrightarrow> tp_reachable (fst (ReconcileEnforcement etext ua now pr (sh :: nat shaper option) k db))"
| reconcile: "tp_reachable db \<Longrightarrow> tp_reachable (fst (tp_Reconcile etext ua now pr (shp :: nat shaper) k db))"
| remote: "tp_reachable db \<Longrightarrow> tp_reachable (fst (ReconcileRemotePolicies etext codec ua now transport pr db))"

lemma ReconcileRemotePolicies_ok:
  assumes "tp_ok db"
  shows "tp_ok (fst (ReconcileRemotePolicies etext codec ua now transport pr db))"
proof -
  have desired: "tp_ok db1" if "desiredRules ua now q db = (db1, r)" for q db1 r
    using desiredRules_ok[OF assms, of ua now q] that by simp
  have stored: "tp_ok db2" if "persist now rules db1 = (db2, e)" "tp_ok db1" for rules db1 db2 e
    using persist_ok[OF that(2), of now rules] that(1) by simp
  show ?thesis using assms
    by (auto simp: ReconcileRemotePolicies_def dest!: desired stored split: option.split prod.split sum.split)
qed

lemma reachable_ok: "tp_reachable db \<Longrightarrow> tp_ok db"
proof (induction rule: tp_reachable.induct)
  case (start db)
  then show ?case
    by (simp add: tp_ok_def tp_policy_table.empty_ok tp_state_table.empty_ok)
next
  case (panel db ts dn en)
  then show ?case by (simp add: tp_ok_def)
next
  case (get db ua now email v db')
  then show ?case by (auto simp: tp_Get_def dest: effectiveView_ok split: if_splits)
qed (auto dest: ApplyDeltas_ok Upsert_ok tp_Reset_ok ReconcileEnforcement_ok Reconcile_ok ReconcileRemotePolicies_ok)

section \<open>Properties\<close>

text \<open>C25: in every reachable state the traffic-policy tables are well-formed: keys and emails unique,
  policies within their bounds, a throttled client owned by the soft quota and an active one by
  nobody; and no window computation of a stored policy divides by zero.\<close>

theorem traffic_policy_stays_consistent:
  assumes "tp_reachable db"
  shows "tp_ok db \<and> (\<forall>p \<in> set (tp_policies db). \<exists>a b. tp_window now (tp_WindowSeconds p) = Inr (a, b))"
  using reachable_ok[OF assms] window_total[of _ now] by (fastforce simp: tp_ok_def tp_policy_ok_def)

text \<open>A client with a policy of 1000 bytes per hour.\<close>

definition sample_policy :: tp_policy where
  "sample_policy = \<lparr>tp_ID = 1, tp_ClientEmail = ''a'', tp_Enabled = True, tp_WindowSeconds = 3600, tp_QuotaBytes = 1000,
     tp_ActiveUploadBps = 80, tp_ActiveDownloadBps = 80, tp_ThrottleUploadBps = 16, tp_ThrottleDownloadBps = 16,
     tp_UpdatedAt = 0\<rparr>"

definition sample_counters :: "int \<Rightarrow> int \<Rightarrow> bool \<Rightarrow> traffic_row" where
  "sample_counters up down enabled = zero_traffic\<lparr>ct_Id := 1, ct_Email := ''a'', ct_Up := up, ct_Down := down, ct_Enable := enabled\<rparr>"

definition sample_tp_db :: "traffic_row \<Rightarrow> tp_state list \<Rightarrow> tp_db" where
  "sample_tp_db row states = \<lparr>tp_policies = [sample_policy], tp_states = states, tp_traffics = [row], tp_next = 2,
     tp_down = (\<lambda>_. False), tp_enabled = True\<rparr>"

definition empty_tp_db :: "traffic_row \<Rightarrow> tp_db" where
  "empty_tp_db row = \<lparr>tp_policies = [], tp_states = [], tp_traffics = [row], tp_next = 1, tp_down = (\<lambda>_. False),
     tp_enabled = True\<rparr>"

theorem traffic_policy_stays_consistent_witness:
  "tp_reachable (fst (Upsert False 7200 0 ''a'' sample_policy (empty_tp_db (sample_counters 0 0 True)))) \<and>
   tp_policies (fst (Upsert False 7200 0 ''a'' sample_policy (empty_tp_db (sample_counters 0 0 True)))) \<noteq> [] \<and>
   tp_ok (fst (Upsert False 7200 0 ''a'' sample_policy (empty_tp_db (sample_counters 0 0 True))))"
proof -
  let ?db = "fst (Upsert False 7200 0 ''a'' sample_policy (empty_tp_db (sample_counters 0 0 True)))"
  have r: "tp_reachable ?db"
    by (intro tp_reachable.upsert tp_reachable.start) (simp_all add: empty_tp_db_def)
  moreover have "tp_policies ?db \<noteq> []" by code_simp
  ultimately show ?thesis using traffic_policy_stays_consistent[OF r] by blast
qed

text \<open>C23: after a poll of a client with an enabled policy its window contains the present; a client the
  panel has disabled is disabled; any other is throttled, owned by the soft quota, exactly when the
  usage of the window has reached a quota.\<close>

theorem lifecycle_follows_usage:
  assumes "ApplyDeltas now [Some d] db = Inr db'" "tp_ok db" "tp_enabled db" "ct_Email d \<noteq> []"
    and p: "tp_find_enabled db (ct_Email d) = Inr p" and "tp_find_traffic db (ct_Email d) = Inr row"
    and "0 \<le> now" "now \<le> 4611686018427387904"
  shows "\<exists>s. tp_lockState db' (ct_Email d) = Inr s \<and> now < ts_WindowEnd s \<and>
    (if ct_Enable row
     then (ts_Lifecycle s = StateThrottled \<longleftrightarrow> 0 < tp_QuotaBytes p \<and> tp_QuotaBytes p \<le> tp_usage row s) \<and>
          (ts_Owner s = OwnerSoftQuota \<longleftrightarrow> 0 < tp_QuotaBytes p \<and> tp_QuotaBytes p \<le> tp_usage row s)
     else ts_Lifecycle s = StateDisabled)"
proof -
  from poll_result[OF assms(1-6)] obtain s db1 s1 where r:
    "tp_state_ok s"
    "tp_renew now (tp_WindowSeconds p) (pre_up row d) (pre_down row d) (tp_rebase (pre_up row d) (pre_down row d) s) = Inr s1"
    "tp_lockState db' (ct_Email d) = Inr ((tp_advance p row s1)\<lparr>ts_UpdatedAt := now\<rparr>)"
    by metis
  have ok: "tp_state_ok s1" using renew_ok[OF r(2)] rebase_ok[OF r(1)] by blast
  have "now < ts_WindowEnd s1"
    by (rule renewed_window[OF r(2) find_enabled_ok(1)[OF p assms(2)] assms(7,8)])
  moreover have "tp_usage row ((tp_advance p row s1)\<lparr>ts_UpdatedAt := now\<rparr>) = tp_usage row s1"
    by (rule usage_cong) (simp_all add: advance_keeps)
  ultimately show ?thesis
    using r(3) advance_lifecycle[OF ok, of row p] by (cases "ct_Enable row") (simp_all add: advance_keeps tp_advance_def)
qed

definition sample_delta :: "int \<Rightarrow> int \<Rightarrow> traffic_row" where
  "sample_delta up down = zero_traffic\<lparr>ct_Email := ''a'', ct_Up := up, ct_Down := down\<rparr>"

lemma sample_tp_ok: "\<forall>s \<in> set states. tp_state_ok s \<Longrightarrow> table_ok ts_ID tp_states_uniq states \<Longrightarrow> tp_ok (sample_tp_db row states)"
proof -
  assume s: "\<forall>s \<in> set states. tp_state_ok s" "table_ok ts_ID tp_states_uniq states"
  have "tp_policy_ok sample_policy" by code_simp
  moreover have "table_ok tp_ID tp_policies_uniq [sample_policy]"
    by (simp add: table_ok_def tp_policies_uniq_def)
  ultimately show ?thesis using s by (simp add: tp_ok_def sample_tp_db_def)
qed

theorem lifecycle_follows_usage_witness:
  "\<exists>db' s. ApplyDeltas 7300 [Some (sample_delta 600 500)] (sample_tp_db (sample_counters 600 500 True) []) = Inr db' \<and>
    tp_lockState db' ''a'' = Inr s \<and> ts_Lifecycle s = StateThrottled \<and> ts_Owner s = OwnerSoftQuota"
proof -
  let ?row = "sample_counters 600 500 True" and ?d = "sample_delta 600 500"
  let ?db = "sample_tp_db ?row []"
  have "ok (ApplyDeltas 7300 [Some ?d] ?db)" by code_simp
  then obtain db' where run: "ApplyDeltas 7300 [Some ?d] ?db = Inr db'" using ok_projr by blast
  have okdb: "tp_ok ?db" by (rule sample_tp_ok) (simp_all add: tp_state_table.empty_ok)
  have email: "ct_Email ?d = ''a''" by (simp add: sample_delta_def)
  have p: "tp_find_enabled ?db (ct_Email ?d) = Inr sample_policy"
    and row: "tp_find_traffic ?db (ct_Email ?d) = Inr ?row"
    by (simp_all add: email tp_find_enabled_def tp_find_traffic_def sample_tp_db_def q_first_def sample_policy_def
        sample_counters_def)
  from lifecycle_follows_usage[OF run okdb _ _ p row] obtain s where s: "tp_lockState db' (ct_Email ?d) = Inr s"
      "ts_Lifecycle s = StateThrottled \<longleftrightarrow> 0 < tp_QuotaBytes sample_policy \<and> tp_QuotaBytes sample_policy \<le> tp_usage ?row s"
      "ts_Owner s = OwnerSoftQuota \<longleftrightarrow> 0 < tp_QuotaBytes sample_policy \<and> tp_QuotaBytes sample_policy \<le> tp_usage ?row s"
    by (auto simp: sample_tp_db_def sample_delta_def sample_counters_def)
  have "case ApplyDeltas 7300 [Some ?d] ?db of Inl _ \<Rightarrow> False | Inr db' \<Rightarrow>
      (case tp_lockState db' ''a'' of Inl _ \<Rightarrow> False | Inr s \<Rightarrow> tp_usage ?row s = 1100)" by code_simp
  then have "tp_usage ?row s = 1100" using run s(1) by (simp add: email)
  then show ?thesis using run s by (auto simp: email sample_policy_def)
qed

lemma baselines_after:
  assumes "tp_renew now w u v (tp_rebase u v s) = Inr s1"
  shows "ts_BaselineUp s1 = (if now \<ge> ts_WindowEnd s \<or> u < ts_BaselineUp s \<or> v < ts_BaselineDown s then u else ts_BaselineUp s) \<and>
    ts_BaselineDown s1 = (if now \<ge> ts_WindowEnd s \<or> u < ts_BaselineUp s \<or> v < ts_BaselineDown s then v else ts_BaselineDown s)"
  using assms by (auto simp: tp_renew_def tp_rebase_def Let_def elim!: bind_resE split: if_splits)

text \<open>Without saturation the usage is the sum of the two differences.\<close>

lemma usage_sum:
  assumes "0 \<le> ts_BaselineUp t" "ts_BaselineUp t \<le> ct_Up row" "0 \<le> ts_BaselineDown t" "ts_BaselineDown t \<le> ct_Down row"
    "ct_Up row + ct_Down row \<le> max_int64"
  shows "tp_usage row t = (ct_Up row - ts_BaselineUp t) + (ct_Down row - ts_BaselineDown t)"
proof -
  have "sub64 (ct_Up row) (ts_BaselineUp t) = ct_Up row - ts_BaselineUp t"
    "sub64 (ct_Down row) (ts_BaselineDown t) = ct_Down row - ts_BaselineDown t"
    "sub64 9223372036854775807 (ct_Down row - ts_BaselineDown t) = 9223372036854775807 - (ct_Down row - ts_BaselineDown t)"
    "add64 (ct_Up row - ts_BaselineUp t) (ct_Down row - ts_BaselineDown t) =
       (ct_Up row - ts_BaselineUp t) + (ct_Down row - ts_BaselineDown t)"
    using assms by (simp_all add: sub64_id add64_id is_int64_def max_int64_def)
  then show ?thesis using assms by (simp add: tp_usage_def Let_def clampDelta_def max_int64_def)
qed

text \<open>What a window has been charged before a poll.\<close>

definition charged_before :: "int \<Rightarrow> traffic_row \<Rightarrow> traffic_row \<Rightarrow> tp_state res \<Rightarrow> int" where
  "charged_before now row d found =
     (case found of Inl _ \<Rightarrow> 0
      | Inr s \<Rightarrow>
         (if now \<ge> ts_WindowEnd s \<or> ct_Up row - ct_Up d < ts_BaselineUp s \<or> ct_Down row - ct_Down d < ts_BaselineDown s
          then 0 else tp_usage (row\<lparr>ct_Up := ct_Up row - ct_Up d, ct_Down := ct_Down row - ct_Down d\<rparr>) s))"

text \<open>C24: a poll charges a window exactly its own bytes: after it the usage is what the counters before the
  poll amounted to in the window, or nothing when the client is new, its window is over or its counters
  went backwards, plus the bytes of the poll.\<close>

theorem poll_charges_delta:
  assumes "ApplyDeltas now [Some d] db = Inr db'" "tp_ok db" "tp_enabled db" "ct_Email d \<noteq> []"
    and "tp_find_enabled db (ct_Email d) = Inr p" and "tp_find_traffic db (ct_Email d) = Inr row"
    and "0 \<le> ct_Up d" "ct_Up d \<le> ct_Up row" "0 \<le> ct_Down d" "ct_Down d \<le> ct_Down row"
      "ct_Up row + ct_Down row \<le> max_int64"
    and "\<And>s. tp_lockState db (ct_Email d) = Inr s \<Longrightarrow> 0 \<le> ts_BaselineUp s \<and> 0 \<le> ts_BaselineDown s"
  shows "\<exists>s. tp_lockState db' (ct_Email d) = Inr s \<and>
    tp_usage row s = charged_before now row d (tp_lockState db (ct_Email d)) + ct_Up d + ct_Down d"
proof -
  from poll_result[OF assms(1-6)] obtain s db1 s1 where r:
    "tp_ensure_state now p row d db = Inr (s, db1)"
    "tp_renew now (tp_WindowSeconds p) (pre_up row d) (pre_down row d) (tp_rebase (pre_up row d) (pre_down row d) s) = Inr s1"
    "tp_lockState db' (ct_Email d) = Inr ((tp_advance p row s1)\<lparr>ts_UpdatedAt := now\<rparr>)"
    by metis
  have pre: "pre_up row d = ct_Up row - ct_Up d" "pre_down row d = ct_Down row - ct_Down d"
    using assms(7-11) by (simp_all add: clampDelta_def sub64_id is_int64_def max_int64_def)
  note base = baselines_after[OF r(2)[unfolded pre]]
  define before where "before = charged_before now row d (tp_lockState db (ct_Email d))"
  have "0 \<le> ts_BaselineUp s1 \<and> ts_BaselineUp s1 \<le> ct_Up row - ct_Up d \<and>
      0 \<le> ts_BaselineDown s1 \<and> ts_BaselineDown s1 \<le> ct_Down row - ct_Down d \<and>
      before = (ct_Up row - ct_Up d - ts_BaselineUp s1) + (ct_Down row - ct_Down d - ts_BaselineDown s1)"
  proof (cases "tp_lockState db (ct_Email d)")
    case (Inl e)
    then obtain a b where "tp_create_state (tp_new_state (tp_ClientEmail p) a b (pre_up row d) (pre_down row d) now) db = Inr (s, db1)"
      using r(1) by (auto simp: tp_ensure_state_def elim!: bind_resE split: if_splits)
    then have "ts_BaselineUp s = ct_Up row - ct_Up d" "ts_BaselineDown s = ct_Down row - ct_Down d"
      unfolding pre by (auto simp: tp_create_state_def tp_new_state_def elim!: bind_resE split: if_splits)
    then show ?thesis using base Inl assms(7-11) by (simp add: before_def charged_before_def)
  next
    case (Inr x)
    then have x: "x = s" using r(1) by (simp add: tp_ensure_state_def)
    have nonneg: "0 \<le> ts_BaselineUp s" "0 \<le> ts_BaselineDown s" using assms(12) Inr x by simp_all
    show ?thesis
    proof (cases "now \<ge> ts_WindowEnd s \<or> ct_Up row - ct_Up d < ts_BaselineUp s \<or> ct_Down row - ct_Down d < ts_BaselineDown s")
      case True
      then show ?thesis using base Inr x assms(7-11) by (simp add: before_def charged_before_def)
    next
      case False
      then show ?thesis
        using base Inr x nonneg assms(7-11)
          usage_sum[of s "row\<lparr>ct_Up := ct_Up row - ct_Up d, ct_Down := ct_Down row - ct_Down d\<rparr>"]
        by (simp add: before_def charged_before_def)
    qed
  qed
  moreover from this have "tp_usage row s1 = (ct_Up row - ts_BaselineUp s1) + (ct_Down row - ts_BaselineDown s1)"
    by (intro usage_sum) (use assms(7-11) in auto)
  moreover have "tp_usage row ((tp_advance p row s1)\<lparr>ts_UpdatedAt := now\<rparr>) = tp_usage row s1"
    by (rule usage_cong) (simp_all add: advance_keeps)
  ultimately show ?thesis using r(3) by (simp add: before_def)
qed

theorem poll_charges_delta_witness:
  "\<exists>db' s. ApplyDeltas 7300 [Some (sample_delta 600 500)] (sample_tp_db (sample_counters 700 900 True) []) = Inr db' \<and>
    tp_lockState db' ''a'' = Inr s \<and> tp_usage (sample_counters 700 900 True) s = 1100"
proof -
  let ?row = "sample_counters 700 900 True" and ?d = "sample_delta 600 500"
  let ?db = "sample_tp_db ?row []"
  have "ok (ApplyDeltas 7300 [Some ?d] ?db)" by code_simp
  then obtain db' where run: "ApplyDeltas 7300 [Some ?d] ?db = Inr db'" using ok_projr by blast
  have okdb: "tp_ok ?db" by (rule sample_tp_ok) (simp_all add: tp_state_table.empty_ok)
  have none: "tp_lockState ?db (ct_Email ?d) = Inl ErrRecordNotFound"
    by (simp add: tp_lockState_def sample_tp_db_def q_first_def)
  have p: "tp_find_enabled ?db (ct_Email ?d) = Inr sample_policy"
    and row: "tp_find_traffic ?db (ct_Email ?d) = Inr ?row"
    by (simp_all add: sample_delta_def tp_find_enabled_def tp_find_traffic_def sample_tp_db_def q_first_def sample_policy_def
        sample_counters_def)
  have "\<exists>s. tp_lockState db' (ct_Email ?d) = Inr s \<and>
      tp_usage ?row s = charged_before 7300 ?row ?d (tp_lockState ?db (ct_Email ?d)) + ct_Up ?d + ct_Down ?d"
    by (rule poll_charges_delta[OF run okdb _ _ p row])
      (simp_all add: tp_lockState_def q_first_def sample_tp_db_def sample_delta_def sample_counters_def max_int64_def)
  then show ?thesis using run none by (auto simp: charged_before_def sample_delta_def)
qed

text \<open>A client with a policy of rates and no quota, whose state became disabled, stays disabled after
  the panel enables the client again: no poll, in this or any later window, and no reset by the operator
  returns it to the active state.\<close>

lemma reenabled_client_stays_disabled:
  assumes s: "tp_lockState db (ct_Email d) = Inr s" "ts_Lifecycle s = StateDisabled" "ts_Owner s = OwnerNone"
    and db: "tp_ok db" "tp_enabled db" "ct_Email d \<noteq> []"
    and p: "tp_find_enabled db (ct_Email d) = Inr p" and row: "tp_find_traffic db (ct_Email d) = Inr row"
    and "ct_Enable row" "tp_QuotaBytes p = 0"
  shows "(\<forall>db'. ApplyDeltas now [Some d] db = Inr db' \<longrightarrow>
      (\<exists>s'. tp_lockState db' (ct_Email d) = Inr s' \<and> ts_Lifecycle s' = StateDisabled \<and> ts_Owner s' = OwnerNone)) \<and>
    (\<forall>db'. tp_Reset now (ct_Email d) db = Inr db' \<longrightarrow>
      (\<exists>s'. tp_lockState db' (ct_Email d) = Inr s' \<and> ts_Lifecycle s' = StateDisabled \<and> ts_Owner s' = OwnerNone))"
proof (intro conjI allI impI)
  fix db'
  assume run: "ApplyDeltas now [Some d] db = Inr db'"
  from poll_result[OF run db p row] obtain x db1 s1 where r:
    "tp_ensure_state now p row d db = Inr (x, db1)"
    "tp_renew now (tp_WindowSeconds p) (pre_up row d) (pre_down row d) (tp_rebase (pre_up row d) (pre_down row d) x) = Inr s1"
    "tp_lockState db' (ct_Email d) = Inr ((tp_advance p row s1)\<lparr>ts_UpdatedAt := now\<rparr>)"
    by metis
  have x: "x = s" using r(1) s(1) by (simp add: tp_ensure_state_def)
  have "ts_Lifecycle s1 = StateDisabled \<and> ts_Owner s1 = OwnerNone"
    using r(2) s(2,3) unfolding x
    by (auto simp: tp_renew_def tp_rebase_def Let_def lifecycle_names elim!: bind_resE split: if_splits)
  then show "\<exists>s'. tp_lockState db' (ct_Email d) = Inr s' \<and> ts_Lifecycle s' = StateDisabled \<and> ts_Owner s' = OwnerNone"
    using r(3) assms(9,10) by (auto simp: tp_advance_def lifecycle_names)
next
  fix db'
  assume "tp_Reset now (ct_Email d) db = Inr db'"
  then obtain a b row' where save: "tp_save_state now (tp_restart a b row' s) db = Inr db'"
    using s(1) db(2) by (auto simp: tp_Reset_def elim!: bind_resE)
  have mem: "s \<in> set (tp_states db)" "ts_ClientEmail s = ct_Email d" using lockState_ok[OF s(1) db(1)] by simp_all
  have "\<not> tp_down db ''fork_traffic_policy_states''"
    using s(1) by (auto simp: tp_lockState_def dest!: q_first_InrD)
  then have "tp_lockState db' (ts_ClientEmail (tp_restart a b row' s)) = Inr ((tp_restart a b row' s)\<lparr>ts_UpdatedAt := now\<rparr>)"
    by (intro lock_saved[OF save db(1) mem(1)]) (simp_all add: state_keys)
  then show "\<exists>s'. tp_lockState db' (ct_Email d) = Inr s' \<and> ts_Lifecycle s' = StateDisabled \<and> ts_Owner s' = OwnerNone"
    using s mem by (auto simp: state_keys tp_restart_def Let_def lifecycle_names)
qed

definition disabled_state :: tp_state where
  "disabled_state = (tp_new_state ''a'' 3600 7200 0 0 3600)\<lparr>ts_ID := 1, ts_Lifecycle := StateDisabled\<rparr>"

end
