(* ===== verification/Traffic_Control_Safety.thy ===== *)
theory Traffic_Control_Safety
  imports Traffic_Control
begin

text \<open>
  What the traffic-control backend does to the system. A computation is described by the commands
  it adds to the history: \<open>traces m R\<close> says that \<open>m\<close> returns some \<open>x\<close> after issuing \<open>cs\<close> with
  \<open>R x cs\<close>, whatever was issued before. The rules for \<open>traces\<close> follow the structure of the code,
  so that a property of a handler is proved from those of its parts.
\<close>

lemmas mark_defs = no_mark_def mark_root_def mark_ifb_def mark_ifb_root_def mark_ingress_def
  keep_mark_def unmark_existing_def

definition traces :: "'a act \<Rightarrow> ('a \<Rightarrow> history \<Rightarrow> bool) \<Rightarrow> bool" where
  "traces m R \<longleftrightarrow> (\<forall>h. \<exists>x cs. run_state m h = (x, h @ cs) \<and> R x cs)"

lemma traces_return [intro]: "R x [] \<Longrightarrow> traces (State_Monad.return x) R"
  by (auto simp: traces_def State_Monad.return_def)

lemma traces_bind:
  assumes "traces m R" "\<And>x cs. R x cs \<Longrightarrow> traces (f x) (\<lambda>y ds. S y (cs @ ds))"
  shows "traces (State_Monad.bind m f) S"
  unfolding traces_def
proof
  fix h
  obtain x cs where "run_state m h = (x, h @ cs)" "R x cs"
    using assms(1) unfolding traces_def by blast
  moreover obtain y ds where "run_state (f x) (h @ cs) = (y, (h @ cs) @ ds)" "S y (cs @ ds)"
    using assms(2)[OF \<open>R x cs\<close>] unfolding traces_def by blast
  ultimately show "\<exists>x cs. run_state (State_Monad.bind m f) h = (x, h @ cs) \<and> S x cs"
    by (auto simp: State_Monad.bind_def)
qed

lemma traces_mono: "traces m R \<Longrightarrow> (\<And>x cs. R x cs \<Longrightarrow> S x cs) \<Longrightarrow> traces m S"
  unfolding traces_def by blast

lemma traces_conj: "traces m R \<Longrightarrow> traces m S \<Longrightarrow> traces m (\<lambda>x cs. R x cs \<and> S x cs)"
  unfolding traces_def by (metis Pair_inject append_same_eq same_append_eq)

lemma tracesD: "traces m R \<Longrightarrow> run_state m h = (x, h') \<Longrightarrow> \<exists>cs. h' = h @ cs \<and> R x cs"
  unfolding traces_def by (metis Pair_inject)

lemma traces_exec:
  "(\<And>h. R (run h (Command name args inp)) [Command name args inp]) \<Longrightarrow> traces (exec_input run name args inp) R"
  by (auto simp: traces_def exec_input_def)

section \<open>Commands by what they touch\<close>

text \<open>
  The commands that only read; the device a changing command of \<open>tc\<close> or \<open>ip\<close> is about, by the
  position of the argument; and the commands on the \<open>nft\<close> table of the backend.
\<close>

definition read_only :: "command \<Rightarrow> bool" where
  "read_only c \<longleftrightarrow>
     (cmd_name c = ''tc'' \<and> (cmd_args c = [''-V''] \<or> take 2 (cmd_args c) = [''qdisc'', ''show'']) \<or>
      cmd_name c = ''nft'' \<and> (cmd_args c = [''--version''] \<or> take 1 (cmd_args c) = [''list'']) \<or>
      cmd_name c = ''ip'' \<and> take 2 (cmd_args c) = [''link'', ''show''])"

definition target :: "command \<Rightarrow> string option" where
  "target c =
     (if cmd_name c = ''tc'' \<and> 4 \<le> length (cmd_args c) then Some (cmd_args c ! 3)
      else if cmd_name c = ''ip'' \<and> 3 \<le> length (cmd_args c)
      then Some (if cmd_args c ! 1 = ''set'' then cmd_args c ! 3 else cmd_args c ! 2)
      else None)"

definition on_own_table :: "command \<Rightarrow> bool" where
  "on_own_table c \<longleftrightarrow>
     cmd_name c = ''nft'' \<and>
     (cmd_args c = [''delete'', ''table'', nftFamily, nftTable] \<or> cmd_args c = [''-f'', ''-''])"

abbreviation command_of :: "string \<times> string list \<Rightarrow> command" where
  "command_of c \<equiv> Command (fst c) (snd c) []"

lemmas step_commands = root_create_def ingress_create_def link_create_def class_replace_def
  filter_replace_def redirect_create_def link_up_def root_delete_def ingress_delete_def link_delete_def

lemma target_commands:
  "target (command_of (root_create d)) = Some d" "target (command_of (ingress_create d)) = Some d"
  "target (command_of (link_create d)) = Some d" "target (command_of (class_replace d m r)) = Some d"
  "target (command_of (filter_replace d m)) = Some d" "target (command_of (redirect_create d i)) = Some d"
  "target (command_of (root_delete d)) = Some d" "target (command_of (ingress_delete d)) = Some d"
  "target (command_of (link_delete d)) = Some d"
  "target (command_of (link_up d)) = Some d"
  by (simp_all add: target_def step_commands)

text \<open>Every command a computation issues satisfies \<open>P\<close>.\<close>

definition issues :: "(command \<Rightarrow> bool) \<Rightarrow> 'a act \<Rightarrow> bool" where
  "issues P m \<longleftrightarrow> traces m (\<lambda>_ cs. \<forall>c \<in> set cs. P c)"

lemma issues_return [simp, intro]: "issues P (State_Monad.return x)"
  unfolding issues_def by (rule traces_return) simp

lemma issues_bind: "issues P m \<Longrightarrow> (\<And>x. issues P (f x)) \<Longrightarrow> issues P (State_Monad.bind m f)"
  unfolding issues_def by (rule traces_bind, assumption) (rule traces_mono, assumption, auto)

lemma issues_bind_post:
  assumes "traces m (\<lambda>x cs. (\<forall>c \<in> set cs. P c) \<and> Q x)" "\<And>x. Q x \<Longrightarrow> issues P (f x)"
  shows "issues P (State_Monad.bind m f)"
  unfolding issues_def
  by (rule traces_bind[OF assms(1)]) (rule traces_mono[OF assms(2)[unfolded issues_def]], auto)

lemma issues_exec [simp]: "issues P (exec_input run name args inp) \<longleftrightarrow> P (Command name args inp)"
  by (auto simp: issues_def traces_def exec_input_def)

lemma issues_execSimple [simp]:
  "issues P (execSimpleInput run name args inp) \<longleftrightarrow> P (Command name args inp)"
  "issues P (execSimple run name args) \<longleftrightarrow> P (Command name args [])"
  by (auto simp: issues_def traces_def execSimple_def execSimpleInput_def exec_input_def
      State_Monad.bind_def State_Monad.return_def)

lemma issues_run_all:
  "(\<And>c. c \<in> set cs \<Longrightarrow> P (command_of c)) \<Longrightarrow> issues P (run_all run cs first)"
proof (induction cs arbitrary: first)
  case Nil
  show ?case by simp
next
  case (Cons c cs)
  obtain name args where c: "c = (name, args)" by (cases c)
  have "P (Command name args [])" using Cons.prems[of c] c by simp
  moreover have "issues P (run_all run cs f)" for f using Cons by simp
  ultimately show ?case by (auto simp: c intro: issues_bind)
qed

section \<open>Reading\<close>

lemma read_only_exec:
  "read_only (Command ''tc'' [''-V''] [])" "read_only (Command ''nft'' [''--version''] [])"
  "read_only (Command ''tc'' [''qdisc'', ''show'', ''dev'', d] [])"
  "read_only (Command ''ip'' [''link'', ''show'', ''dev'', d] [])"
  "read_only (Command ''nft'' [''list'', ''table'', nftFamily, nftTable] [])"
  by (simp_all add: read_only_def)

lemma missing_interface_reads: "issues read_only (missing_interface run ifaces)"
  by (induction ifaces)
    (auto intro!: issues_bind simp: read_only_exec split: sum.split)

lemma capabilities_reads: "issues read_only (capabilitiesLocked run b)"
  unfolding capabilitiesLocked_def probeNetAdmin_def Let_def
  by (auto intro!: issues_bind missing_interface_reads simp: read_only_exec split: option.split)

lemma ownedTable_reads: "issues read_only (ownedTable run)"
  unfolding ownedTable_def list_table_def by (auto intro!: issues_bind simp: read_only_exec)

lemma preflight_reads: "issues read_only (preflightInterface env run iface)"
  unfolding preflightInterface_def Let_def
  by (auto intro!: issues_bind ownedTable_reads simp: read_only_exec split: sum.split)

lemma issues_mono: "issues P m \<Longrightarrow> (\<And>c. P c \<Longrightarrow> Q c) \<Longrightarrow> issues Q m"
  unfolding issues_def traces_def by metis

section \<open>Confinement\<close>

text \<open>
  A predicate on commands that admits every reading command, every command on the own table, and
  every command on a managed interface, or its intermediate device, that the preflight does not
  refuse, admits every command of a reconciliation, the roll back and the clean-up included.
\<close>

locale command_policy =
  fixes env :: tc_env and run :: executor and ifaces :: "string list"
    and P :: "command \<Rightarrow> bool" and refused :: "string \<Rightarrow> bool"
  assumes reads: "read_only c \<Longrightarrow> P c"
    and own_table: "on_own_table c \<Longrightarrow> P c"
    and changes: "j \<in> set ifaces \<Longrightarrow> \<not> refused j \<Longrightarrow>
      target c = Some j \<or> target c = Some (ifbName env j) \<Longrightarrow> P c"
    and refuses: "refused j \<Longrightarrow> traces (preflightInterface env run j) (\<lambda>r _. \<exists>e. r = Inl e)"
begin

definition accepted :: "string \<Rightarrow> bool" where
  "accepted j \<longleftrightarrow> j \<in> set ifaces \<and> \<not> refused j"

lemma accepted_changes:
  "accepted j \<Longrightarrow> target c = Some j \<or> target c = Some (ifbName env j) \<Longrightarrow> P c"
  using changes by (auto simp: accepted_def)

lemma capabilities_issues: "issues P (capabilitiesLocked run b)"
  by (rule issues_mono[OF capabilities_reads]) (rule reads)

lemma ownedTable_issues: "issues P (ownedTable run)"
  by (rule issues_mono[OF ownedTable_reads]) (rule reads)

lemma preflight_issues:
  assumes "j \<in> set ifaces"
  shows "traces (preflightInterface env run j) (\<lambda>r cs. (\<forall>c \<in> set cs. P c) \<and> (\<forall>plan. r = Inr plan \<longrightarrow> accepted j))"
proof (cases "refused j")
  case True
  have "issues P (preflightInterface env run j)"
    by (rule issues_mono[OF preflight_reads]) (rule reads)
  then have "traces (preflightInterface env run j) (\<lambda>r cs. (\<forall>c \<in> set cs. P c) \<and> (\<exists>e. r = Inl e))"
    unfolding issues_def using refuses[OF True] by (rule traces_conj)
  then show ?thesis by (rule traces_mono) auto
next
  case False
  then have "accepted j" using assms by (simp add: accepted_def)
  moreover have "issues P (preflightInterface env run j)"
    by (rule issues_mono[OF preflight_reads]) (rule reads)
  ultimately show ?thesis unfolding issues_def by (auto elim: traces_mono)
qed

lemma apply_steps_issues:
  assumes "\<And>before c failed. (before, c, failed) \<in> set steps \<Longrightarrow> P (command_of c)"
  shows "issues P (apply_steps run steps m)"
  using assms
proof (induction steps arbitrary: m)
  case Nil
  show ?case by simp
next
  case (Cons step steps)
  obtain before name args failed where step: "step = (before, (name, args), failed)"
    by (metis surj_pair)
  have "P (Command name args [])" using Cons.prems[of before "(name, args)" failed] step by simp
  moreover have "issues P (apply_steps run steps m')" for m'
    by (rule Cons.IH) (use Cons.prems in auto)
  ultimately show ?case
    by (auto simp: step Let_def intro!: issues_bind split: option.split)
qed

lemma step_targets:
  assumes "(before, c, failed) \<in> set (reconcile_steps plan iface ifb rules)"
  shows "target (command_of c) = Some iface \<or> target (command_of c) = Some ifb"
  using assms
  by (auto simp: reconcile_steps_def rule_steps_def plain_step_def Let_def target_commands
      split: if_splits)

text \<open>What a mutation records belongs to an accepted interface once anything has changed.\<close>

definition mutation_ok :: "interfaceMutation \<Rightarrow> bool" where
  "mutation_ok m \<longleftrightarrow> mu_ifb m = ifbName env (mu_iface m) \<and> accepted (mu_iface m)"

lemma apply_steps_mutation:
  assumes "\<And>before c failed m e. (before, c, failed) \<in> set steps \<Longrightarrow>
      mu_iface (before m) = mu_iface m \<and> mu_ifb (before m) = mu_ifb m \<and>
      mu_iface (failed e m) = mu_iface m \<and> mu_ifb (failed e m) = mu_ifb m"
  shows "traces (apply_steps run steps m) (\<lambda>r _. mu_iface (fst r) = mu_iface m \<and> mu_ifb (fst r) = mu_ifb m)"
  using assms
proof (induction steps arbitrary: m)
  case Nil
  show ?case by auto
next
  case (Cons step steps)
  obtain before name args failed where step: "step = (before, (name, args), failed)"
    by (metis surj_pair)
  define m' where "m' = (before m)\<lparr>mu_mutated := True\<rparr>"
  have m': "mu_iface m' = mu_iface m" "mu_ifb m' = mu_ifb m"
    using Cons.prems[of before "(name, args)" failed m] by (simp_all add: m'_def step)
  have failed: "mu_iface (failed e m') = mu_iface m'" "mu_ifb (failed e m') = mu_ifb m'" for e
    using Cons.prems[of before "(name, args)" failed m'] by (simp_all add: step)
  have rest: "traces (apply_steps run steps m') (\<lambda>r _. mu_iface (fst r) = mu_iface m' \<and> mu_ifb (fst r) = mu_ifb m')"
    by (rule Cons.IH) (rule Cons.prems, rule list.set_intros(2), assumption)
  have "traces (execSimple run name args) (\<lambda>_ _. True)"
    using issues_execSimple(2)[of "\<lambda>_. True"] by (auto simp: issues_def elim: traces_mono)
  then show ?case
    unfolding step apply_steps.simps Let_def m'_def[symmetric]
    by (rule traces_bind) (use rest m' failed in \<open>auto split: option.split\<close>)
qed

lemma steps_keep_names:
  assumes "(before, c, failed) \<in> set (reconcile_steps plan iface ifb rules)"
  shows "mu_iface (before m) = mu_iface m \<and> mu_ifb (before m) = mu_ifb m \<and>
      mu_iface (failed e m) = mu_iface m \<and> mu_ifb (failed e m) = mu_ifb m"
  using assms
  by (auto simp: reconcile_steps_def rule_steps_def plain_step_def Let_def mark_defs split: if_splits)

lemma reconcileInterface_issues:
  assumes "j \<in> set ifaces"
  shows "traces (reconcileInterface env run j rules)
    (\<lambda>r cs. (\<forall>c \<in> set cs. P c) \<and> (mu_changed (fst r) \<longrightarrow> mutation_ok (fst r)))"
  unfolding reconcileInterface_def Let_def
proof (rule traces_bind[OF preflight_issues[OF assms]], goal_cases)
  case (1 r cs)
  show ?case
  proof (cases r)
    case (Inl e)
    then show ?thesis using 1 by (auto simp: mu_changed_def new_mutation_def)
  next
    case (Inr plan)
    let ?ifb = "ifbName env j" and ?m = "new_mutation j (ifbName env j)"
    have acc: "accepted j" using 1 Inr by simp
    have "issues P (apply_steps run (reconcile_steps plan j ?ifb rules) ?m)"
      by (rule apply_steps_issues, rule accepted_changes[OF acc], rule step_targets)
    moreover have "traces (apply_steps run (reconcile_steps plan j ?ifb rules) ?m)
        (\<lambda>r _. mu_iface (fst r) = mu_iface ?m \<and> mu_ifb (fst r) = mu_ifb ?m)"
      by (rule apply_steps_mutation, rule steps_keep_names)
    ultimately have "traces (apply_steps run (reconcile_steps plan j ?ifb rules) ?m)
        (\<lambda>r cs. (\<forall>c \<in> set cs. P c) \<and> mu_iface (fst r) = mu_iface ?m \<and> mu_ifb (fst r) = mu_ifb ?m)"
      unfolding issues_def by (rule traces_conj)
    then show ?thesis unfolding Inr sum.case
      by (rule traces_mono) (use 1 acc in \<open>auto simp: mutation_ok_def new_mutation_def\<close>)
  qed
qed

lemma apply_interfaces_issues:
  assumes "set js \<subseteq> set ifaces" "\<forall>m \<in> set ms. mutation_ok m"
  shows "traces (apply_interfaces env run rules js ms applied)
    (\<lambda>r cs. (\<forall>c \<in> set cs. P c) \<and> (\<forall>m \<in> set (fst r). mutation_ok m))"
  using assms
proof (induction js arbitrary: ms applied)
  case Nil
  then show ?case by auto
next
  case (Cons j js)
  have j: "j \<in> set ifaces" using Cons.prems by simp
  show ?case
    unfolding apply_interfaces.simps Let_def
  proof (rule traces_bind[OF reconcileInterface_issues[OF j]], goal_cases)
    case (1 r cs)
    let ?ms = "if mu_changed (fst r) then ms @ [fst r] else ms"
    have ms: "\<forall>m \<in> set ?ms. mutation_ok m" using 1 Cons.prems by auto
    show ?case
    proof (cases "snd r")
      case None
      have "traces (apply_interfaces env run rules js ?ms (applied @ [j]))
          (\<lambda>r cs. (\<forall>c \<in> set cs. P c) \<and> (\<forall>m \<in> set (fst r). mutation_ok m))"
        by (rule Cons.IH[OF _ ms]) (use Cons.prems in simp)
      then show ?thesis unfolding None option.case by (rule traces_mono) (use 1 in auto)
    next
      case (Some e)
      show ?thesis unfolding Some option.case by (rule traces_return) (use 1 ms in auto)
    qed
  qed
qed

lemma deleteOwnedNftTable_issues: "issues P (deleteOwnedNftTable run)"
  unfolding deleteOwnedNftTable_def
  by (rule issues_bind[OF ownedTable_issues]) (auto intro: own_table simp: on_own_table_def)

lemma rollback_issues:
  assumes "\<forall>m \<in> set ms. mutation_ok m"
  shows "issues P (rollbackMutations run ms created)"
proof -
  have "P (command_of c)" if m: "m \<in> set ms" and c: "c \<in> set (rollback_commands m)" for m c
    using assms m c accepted_changes[of "mu_iface m" "command_of c"]
    by (auto simp: rollback_commands_def mutation_ok_def target_commands split: if_splits)
  then have "issues P (run_all run (concat (map rollback_commands ms)) None)"
    by (intro issues_run_all) auto
  then show ?thesis unfolding rollbackMutations_def
    by (auto intro!: issues_bind deleteOwnedNftTable_issues)
qed

lemma applyNft_issues: "issues P (applyNft env run rules)"
proof -
  have "P (Command ''nft'' [''list'', ''table'', nftFamily, nftTable] [])"
    by (rule reads) (rule read_only_exec)
  moreover have "P (Command ''nft'' [''-f'', ''-''] inp)" for inp
    by (rule own_table) (simp add: on_own_table_def)
  ultimately show ?thesis unfolding applyNft_def list_table_def Let_def
    by (auto intro!: issues_bind split: sum.split)
qed

lemma remove_interfaces_issues:
  assumes "set js \<subseteq> set ifaces"
  shows "issues P (remove_interfaces env run js first)"
  using assms
proof (induction js arbitrary: first)
  case Nil
  show ?case by simp
next
  case (Cons j js)
  have j: "j \<in> set ifaces" and rest: "issues P (remove_interfaces env run js f)" for f
    using Cons by simp_all
  have "issues P (run_all run (remove_commands env j plan) first)" if "accepted j" for plan
    by (rule issues_run_all, rule accepted_changes[OF that])
      (auto simp: remove_commands_def target_commands split: if_splits)
  then show ?case unfolding remove_interfaces.simps
    by (intro issues_bind_post[OF preflight_issues[OF j]])
      (auto intro!: issues_bind rest split: sum.split)
qed

lemma apply_rules_issues:
  assumes "be_interfaces b = ifaces"
  shows "issues P (apply_rules env run b rules status)"
  unfolding apply_rules_def Let_def
  by (rule issues_bind_post[OF apply_interfaces_issues])
    (auto simp: assms intro!: issues_bind applyNft_issues rollback_issues split: option.split)

lemma Reconcile_issues:
  assumes "be_interfaces b = ifaces"
  shows "issues P (Backend_Reconcile env run order given b)"
  unfolding Backend_Reconcile_def removeOwnedState_def Let_def
  by (auto intro!: issues_bind capabilities_issues ownedTable_issues deleteOwnedNftTable_issues
      remove_interfaces_issues apply_rules_issues simp: assms split: option.split)

end

text \<open>
  The commands that stay inside what the backend manages: an interface it was given or the
  intermediate device of one, and its own table.
\<close>

definition confined :: "tc_env \<Rightarrow> string list \<Rightarrow> command \<Rightarrow> bool" where
  "confined env ifaces c \<longleftrightarrow>
     read_only c \<or> on_own_table c \<or>
     (\<exists>j \<in> set ifaces. target c = Some j \<or> target c = Some (ifbName env j))"

interpretation confined: command_policy env run ifaces "confined env ifaces" "\<lambda>_. False"
  for env run ifaces
  by unfold_locales (auto simp: confined_def)

section \<open>Rolling back\<close>

text \<open>
  A kind of object the backend creates: the command that makes one on a device, the command that
  removes it, and the devices on which a mutation records one. The step law is the code's comment
  \<^emph>\<open>mark before execution\<close>: the record grows by what the command makes, also when it fails.
\<close>

locale rollback_aspect =
  fixes makes undoes :: "string \<Rightarrow> string \<times> string list"
    and created :: "interfaceMutation \<Rightarrow> string set"
  assumes fresh: "\<not> mu_changed m \<Longrightarrow> created m = {}"
    and step: "(before, c, failed) \<in> set (reconcile_steps plan (mu_iface m) (mu_ifb m) rules) \<Longrightarrow>
      created ((before m)\<lparr>mu_mutated := True\<rparr>) = created m \<union> {d. makes d = c} \<and>
      created (failed e m) = created m \<and> undoes d \<noteq> c"
    and undo: "{d. undoes d \<in> set (rollback_commands m)} = created m"
    and rollback_makes_none: "makes d \<notin> set (rollback_commands m)"
    and changing: "\<not> read_only (command_of (makes d))" "\<not> read_only (command_of (undoes d))"
      "\<not> on_own_table (command_of (makes d))" "\<not> on_own_table (command_of (undoes d))"
begin

definition made :: "history \<Rightarrow> string set" where
  "made cs = {d. command_of (makes d) \<in> set cs}"

definition undone :: "history \<Rightarrow> string set" where
  "undone cs = {d. command_of (undoes d) \<in> set cs}"

definition quiet :: "command \<Rightarrow> bool" where
  "quiet c \<longleftrightarrow> read_only c \<or> on_own_table c"

lemma made_append [simp]: "made (cs @ ds) = made cs \<union> made ds" "made [] = {}"
  and undone_append [simp]: "undone (cs @ ds) = undone cs \<union> undone ds" "undone [] = {}"
  by (auto simp: made_def undone_def)

lemma quiet_history: "\<forall>c \<in> set cs. quiet c \<Longrightarrow> made cs = {} \<and> undone cs = {}"
  using changing by (auto simp: made_def undone_def quiet_def)

lemma quiet_traces: "issues quiet m \<Longrightarrow> traces m (\<lambda>_ cs. made cs = {} \<and> undone cs = {})"
  unfolding issues_def by (erule traces_mono) (auto dest: quiet_history)

lemma reading_quiet: "issues read_only m \<Longrightarrow> traces m (\<lambda>_ cs. made cs = {} \<and> undone cs = {})"
  by (rule quiet_traces, erule issues_mono) (simp add: quiet_def)

lemma execSimple_issued: "traces (execSimple run name args) (\<lambda>_ cs. cs = [Command name args []])"
  by (auto simp: traces_def execSimple_def execSimpleInput_def exec_input_def
      State_Monad.bind_def State_Monad.return_def)

lemma single_command:
  "made (Command name args [] # cs) = {d. makes d = (name, args)} \<union> made cs"
  "undone (Command name args [] # cs) = {d. undoes d = (name, args)} \<union> undone cs"
  by (auto simp: made_def undone_def prod_eq_iff)

lemma apply_steps_made:
  assumes "set steps \<subseteq> set (reconcile_steps plan (mu_iface m) (mu_ifb m) rules)"
  shows "traces (apply_steps run steps m) (\<lambda>r cs. created (fst r) = created m \<union> made cs \<and> undone cs = {})"
  using assms
proof (induction steps arbitrary: m)
  case Nil
  show ?case by (auto simp: made_def undone_def)
next
  case (Cons st steps)
  obtain before name args failed where st: "st = (before, (name, args), failed)"
    by (metis surj_pair)
  have mem: "(before, (name, args), failed) \<in> set (reconcile_steps plan (mu_iface m) (mu_ifb m) rules)"
    using Cons.prems st by simp
  define m' where "m' = (before m)\<lparr>mu_mutated := True\<rparr>"
  have names: "mu_iface m' = mu_iface m" "mu_ifb m' = mu_ifb m"
    using confined.steps_keep_names[OF mem] by (simp_all add: m'_def)
  have m': "created m' = created m \<union> {d. makes d = (name, args)}" "\<And>d. undoes d \<noteq> (name, args)"
    using step[OF mem] by (simp_all add: m'_def)
  have failed: "created (failed e m') = created m'" for e
    using step[of before "(name, args)" failed plan m' rules] mem names by simp
  have rest: "traces (apply_steps run steps m') (\<lambda>r cs. created (fst r) = created m' \<union> made cs \<and> undone cs = {})"
    by (rule Cons.IH) (use Cons.prems names in simp)
  show ?case
    unfolding st apply_steps.simps Let_def m'_def[symmetric]
  proof (rule traces_bind[OF execSimple_issued], goal_cases)
    case (1 err cs)
    show ?case
    proof (cases err)
      case None
      show ?thesis unfolding None option.case
        by (rule traces_mono[OF rest]) (use 1 m' in \<open>auto simp: single_command\<close>)
    next
      case (Some e)
      show ?thesis unfolding Some option.case
        by (rule traces_return) (use 1 m' failed in \<open>auto simp: single_command\<close>)
    qed
  qed
qed

lemma reconcileInterface_made:
  "traces (reconcileInterface env run j rules) (\<lambda>r cs. created (fst r) = made cs \<and> undone cs = {})"
  unfolding reconcileInterface_def Let_def
proof (rule traces_bind[OF reading_quiet[OF preflight_reads]], goal_cases)
  case (1 r cs)
  have fresh': "created (new_mutation j (ifbName env j)) = {}"
    by (rule fresh) (simp add: mu_changed_def new_mutation_def)
  show ?case
  proof (cases r)
    case (Inl e)
    show ?thesis unfolding Inl sum.case by (rule traces_return) (use 1 fresh' in simp)
  next
    case (Inr plan)
    have "traces (apply_steps run (reconcile_steps plan j (ifbName env j) rules) (new_mutation j (ifbName env j)))
        (\<lambda>r cs. created (fst r) = created (new_mutation j (ifbName env j)) \<union> made cs \<and> undone cs = {})"
      by (rule apply_steps_made[of _ plan _ rules]) (simp add: new_mutation_def)
    then show ?thesis unfolding Inr sum.case by (rule traces_mono) (use 1 fresh' in auto)
  qed
qed

lemma apply_interfaces_made:
  "traces (apply_interfaces env run rules js ms applied)
    (\<lambda>r cs. \<Union> (created ` set (fst r)) = \<Union> (created ` set ms) \<union> made cs \<and> undone cs = {})"
proof (induction js arbitrary: ms applied)
  case Nil
  show ?case unfolding apply_interfaces.simps by (rule traces_return) simp
next
  case (Cons j js)
  show ?case
    unfolding apply_interfaces.simps Let_def
  proof (rule traces_bind[OF reconcileInterface_made], goal_cases)
    case (1 r cs)
    let ?ms = "if mu_changed (fst r) then ms @ [fst r] else ms"
    have ms: "\<Union> (created ` set ?ms) = \<Union> (created ` set ms) \<union> made cs"
      using 1 fresh[of "fst r"] by auto
    show ?case
    proof (cases "snd r")
      case None
      show ?thesis unfolding None option.case
        by (rule traces_mono[OF Cons.IH]) (use 1 ms in auto)
    next
      case (Some e)
      show ?thesis unfolding Some option.case by (rule traces_return) (use 1 ms in auto)
    qed
  qed
qed

lemma run_all_issued: "traces (run_all run cs first) (\<lambda>_ ds. ds = map command_of cs)"
proof (induction cs arbitrary: first)
  case Nil
  show ?case unfolding run_all.simps by (rule traces_return) simp
next
  case (Cons c cs)
  obtain name args where c: "c = (name, args)" by (cases c)
  show ?case unfolding c run_all.simps
    by (rule traces_bind[OF execSimple_issued], rule traces_mono[OF Cons.IH]) simp
qed

lemma deleteOwnedNftTable_quiet: "traces (deleteOwnedNftTable run) (\<lambda>_ cs. made cs = {} \<and> undone cs = {})"
  by (rule quiet_traces, unfold deleteOwnedNftTable_def, rule issues_bind,
      rule issues_mono[OF ownedTable_reads]) (auto simp: quiet_def on_own_table_def)

lemma commands_of_rollback:
  "made (map command_of (concat (map rollback_commands ms))) = {}"
  "undone (map command_of (concat (map rollback_commands ms))) = \<Union> (created ` set ms)"
proof -
  have in_map: "command_of c \<in> set (map command_of cs) \<longleftrightarrow> c \<in> set cs" for c cs
    by (auto simp: prod_eq_iff)
  show "made (map command_of (concat (map rollback_commands ms))) = {}"
    unfolding made_def in_map using rollback_makes_none by auto
  show "undone (map command_of (concat (map rollback_commands ms))) = \<Union> (created ` set ms)"
    unfolding undone_def in_map using undo by auto
qed

lemma rollback_undoes:
  "traces (rollbackMutations run ms b) (\<lambda>_ cs. made cs = {} \<and> undone cs = \<Union> (created ` set ms))"
  unfolding rollbackMutations_def
proof (rule traces_bind[OF run_all_issued], goal_cases)
  case (1 first cs)
  show ?case
  proof (cases b)
    case True
    have "traces (State_Monad.bind (deleteOwnedNftTable run) (\<lambda>err. State_Monad.return (if first = None then err else first)))
        (\<lambda>y ds. made (cs @ ds) = {} \<and> undone (cs @ ds) = \<Union> (created ` set ms))"
      by (rule traces_bind[OF deleteOwnedNftTable_quiet], rule traces_return)
        (use 1 commands_of_rollback[of ms] in auto)
    then show ?thesis using True by simp
  next
    case False
    show ?thesis using False 1 commands_of_rollback[of ms] by (auto intro!: traces_return)
  qed
qed

lemma applyNft_quiet: "traces (applyNft env run rules) (\<lambda>_ cs. made cs = {} \<and> undone cs = {})"
  by (rule quiet_traces, unfold applyNft_def list_table_def Let_def)
    (auto intro!: issues_bind simp: quiet_def read_only_exec on_own_table_def split: sum.split)

text \<open>What a failed application has made it has undone, and a successful one undoes nothing.\<close>

definition settled :: "outcome \<Rightarrow> history \<Rightarrow> bool" where
  "settled r cs \<longleftrightarrow> (if snd (snd r) = None then undone cs = {} else undone cs = made cs)"

lemma rollback_settles:
  assumes "\<Union> (created ` set ms) = made cs" "undone cs = {}"
  shows "traces (State_Monad.bind (rollbackMutations run ms b)
      (\<lambda>re. State_Monad.return (finish be (apply_failed e re st) (Some e)))) (\<lambda>r ds. settled r (cs @ ds))"
  by (rule traces_bind[OF rollback_undoes], rule traces_return)
    (use assms in \<open>auto simp: settled_def finish_def\<close>)

lemma apply_rules_settles: "traces (apply_rules env run b rules status) settled"
  unfolding apply_rules_def Let_def
proof (rule traces_bind[OF apply_interfaces_made], goal_cases)
  case (1 r cs)
  then have made: "\<Union> (created ` set (fst r)) = made cs" "undone cs = {}" by simp_all
  show ?case
  proof (cases "snd (snd r)")
    case (Some e)
    show ?thesis unfolding Some option.case by (rule rollback_settles[OF made])
  next
    case None
    show ?thesis unfolding None option.case
    proof (rule traces_bind[OF applyNft_quiet], goal_cases)
      case (1 n ds)
      then have made': "\<Union> (created ` set (fst r)) = made (cs @ ds)" "undone (cs @ ds) = {}"
        using made by simp_all
      show ?case
      proof (cases "snd n")
        case None
        show ?thesis unfolding None option.case
          by (rule traces_return) (use made' in \<open>simp add: settled_def finish_def\<close>)
      next
        case (Some e)
        show ?thesis unfolding Some option.case append_assoc[symmetric]
          by (rule rollback_settles[OF made'])
      qed
    qed
  qed
qed

lemma Reconcile_settles:
  assumes "rules \<noteq> []"
  shows "traces (Backend_Reconcile env run order (Some rules) b) settled"
  unfolding Backend_Reconcile_def Let_def option.case
proof (rule traces_bind[OF reading_quiet[OF capabilities_reads]], goal_cases)
  case (1 cap cs)
  have quiet: "settled r (cs @ ds) \<longleftrightarrow> settled r ds" for r ds
    using 1 by (simp add: settled_def)
  have none: "settled r []" for r by (simp add: settled_def)
  show ?case unfolding quiet
    using assms apply_rules_settles by (auto simp: none split: option.split intro!: traces_return)
qed

end

definition created_roots :: "interfaceMutation \<Rightarrow> string set" where
  "created_roots m = (if mu_rootCreated m then {mu_iface m} else {}) \<union> (if mu_ifbRootCreated m then {mu_ifb m} else {})"

definition created_ingress :: "interfaceMutation \<Rightarrow> string set" where
  "created_ingress m = (if mu_ingressCreated m then {mu_iface m} else {})"

text \<open>The kinds of steps: four record what they make, the others make neither a discipline nor a device.\<close>

definition shaping :: "string \<times> string list \<Rightarrow> bool" where
  "shaping c \<longleftrightarrow> (\<exists>v vs. snd c = v # vs \<and> v \<noteq> ''qdisc'')"

lemma step_kinds:
  assumes "(before, c, failed) \<in> set (reconcile_steps plan iface ifb rules)"
  obtains (root) "before = mark_root" "c = root_create iface" "failed = keep_mark"
  | (link) "before = mark_ifb" "c = link_create ifb" "failed = unmark_existing"
  | (ifb_root) "before = mark_ifb_root" "c = root_create ifb" "failed = keep_mark"
  | (ingress) "before = mark_ingress" "c = ingress_create iface" "failed = keep_mark"
  | (other) "before = no_mark" "shaping c" "failed = keep_mark"
proof -
  have shape: "shaping (class_replace d m r)" "shaping (filter_replace d m)" "shaping (redirect_create d i)"
    "shaping (link_up d)" for d m r i
    by (simp_all add: shaping_def class_replace_def filter_replace_def redirect_create_def link_up_def)
  have "set (reconcile_steps plan iface ifb rules) \<subseteq>
      {(mark_root, root_create iface, keep_mark), (mark_ifb, link_create ifb, unmark_existing),
       (mark_ifb_root, root_create ifb, keep_mark), (mark_ingress, ingress_create iface, keep_mark)} \<union>
      plain_step ` Collect shaping"
    unfolding reconcile_steps_def rule_steps_def Let_def using shape by auto
  with assms have "(before, c, failed) \<in> \<dots>" by (rule rev_subsetD)
  then have "(before, c, failed) = (mark_root, root_create iface, keep_mark) \<or>
      (before, c, failed) = (mark_ifb, link_create ifb, unmark_existing) \<or>
      (before, c, failed) = (mark_ifb_root, root_create ifb, keep_mark) \<or>
      (before, c, failed) = (mark_ingress, ingress_create iface, keep_mark) \<or>
      (\<exists>c'. shaping c' \<and> (before, c, failed) = (no_mark, c', keep_mark))"
    unfolding plain_step_def by blast
  then show thesis using root link ifb_root ingress other by (elim disjE exE conjE) simp_all
qed

lemma create_distinct [simp]:
  "root_create d = root_create e \<longleftrightarrow> d = e" "ingress_create d = ingress_create e \<longleftrightarrow> d = e"
  "root_delete d = root_delete e \<longleftrightarrow> d = e" "ingress_delete d = ingress_delete e \<longleftrightarrow> d = e"
  "root_create d \<noteq> ingress_create e" "ingress_create d \<noteq> root_create e"
  "root_create d \<noteq> link_create e" "ingress_create d \<noteq> link_create e"
  "root_delete d \<noteq> root_create e" "root_delete d \<noteq> ingress_create e" "root_delete d \<noteq> link_create e"
  "ingress_delete d \<noteq> root_create e" "ingress_delete d \<noteq> ingress_create e" "ingress_delete d \<noteq> link_create e"
  "root_create d \<noteq> root_delete e" "root_create d \<noteq> ingress_delete e" "root_create d \<noteq> link_delete e"
  "ingress_create d \<noteq> root_delete e" "ingress_create d \<noteq> ingress_delete e" "ingress_create d \<noteq> link_delete e"
  "root_delete d \<noteq> ingress_delete e" "ingress_delete d \<noteq> root_delete e"
  "root_delete d \<noteq> link_delete e" "ingress_delete d \<noteq> link_delete e"
  by (simp_all add: root_create_def ingress_create_def root_delete_def ingress_delete_def
      link_create_def link_delete_def)

lemma shaping_other:
  assumes "shaping c"
  shows "root_create d \<noteq> c" "ingress_create d \<noteq> c" "root_delete d \<noteq> c" "ingress_delete d \<noteq> c"
  using assms
  by (auto simp: shaping_def root_create_def ingress_create_def root_delete_def ingress_delete_def)

lemma qdisc_commands_change:
  "\<not> read_only (command_of (root_create d))" "\<not> read_only (command_of (root_delete d))"
  "\<not> read_only (command_of (ingress_create d))" "\<not> read_only (command_of (ingress_delete d))"
  "\<not> on_own_table (command_of (root_create d))" "\<not> on_own_table (command_of (root_delete d))"
  "\<not> on_own_table (command_of (ingress_create d))" "\<not> on_own_table (command_of (ingress_delete d))"
  by (simp_all add: read_only_def on_own_table_def root_create_def ingress_create_def root_delete_def
      ingress_delete_def)

interpretation roots: rollback_aspect root_create root_delete created_roots
proof (unfold_locales, goal_cases)
  case (2 before c failed plan m rules e d)
  then show ?case
    by (cases rule: step_kinds) (auto simp: created_roots_def shaping_other mark_defs)
qed (auto simp: created_roots_def mu_changed_def rollback_commands_def qdisc_commands_change split: if_splits)

interpretation ingress: rollback_aspect ingress_create ingress_delete created_ingress
proof (unfold_locales, goal_cases)
  case (2 before c failed plan m rules e d)
  then show ?case
    by (cases rule: step_kinds) (auto simp: created_ingress_def shaping_other mark_defs)
qed (auto simp: created_ingress_def mu_changed_def rollback_commands_def qdisc_commands_change split: if_splits)

end
