(* ===== verification/Traffic_Control_Rules.thy ===== *)
theory Traffic_Control_Rules
  imports Traffic_Control_Safety
begin

text \<open>
  The rules the traffic-control backend remembers: a reconciliation either keeps them or replaces
  them by the rules it was given, which it then has validated and applied; marks stay unique to
  their owners; what applying and removing the limit of one client does to the others.
\<close>

section \<open>The desired rules\<close>

definition rule_ok :: "string list \<Rightarrow> desired_rule \<Rightarrow> bool" where
  "rule_ok ifaces r \<longleftrightarrow> dr_Interface r \<in> set ifaces \<and> 1 \<le> dr_Mark r \<and> dr_Mark r \<le> 65534 \<and>
     0 < dr_UploadRateBps r \<and> 0 < dr_DownloadRateBps r"

definition marks_ok :: "desired_rule set \<Rightarrow> bool" where
  "marks_ok R \<longleftrightarrow> (\<forall>r \<in> R. \<forall>r' \<in> R. dr_Mark r = dr_Mark r' \<longrightarrow> rule_owner r = rule_owner r')"

definition backend_ok :: "tc_backend \<Rightarrow> bool" where
  "backend_ok b \<longleftrightarrow>
     distinct (map fst (be_desired b)) \<and>
     (\<forall>(k, r) \<in> set (be_desired b). k = rule_owner r \<and> rule_ok (be_interfaces b) r) \<and>
     marks_ok (snd ` set (be_desired b))"

lemma marks_ok_insert:
  "marks_ok (insert r R) \<longleftrightarrow> marks_ok R \<and> (\<forall>r' \<in> R. dr_Mark r' = dr_Mark r \<longrightarrow> rule_owner r' = rule_owner r)"
  unfolding marks_ok_def by (metis insertE insertI1 insertI2)

lemma marks_ok_mono: "marks_ok R \<Longrightarrow> S \<subseteq> R \<Longrightarrow> marks_ok S"
  unfolding marks_ok_def by blast

lemma refuse_rules_None:
  "refuse_rules ifaces marks rules = None \<longleftrightarrow>
     (\<forall>r \<in> set rules. rule_ok ifaces r \<and> (\<forall>ow. marks (dr_Mark r) = Some ow \<longrightarrow> ow = rule_owner r)) \<and>
     marks_ok (set rules)"
proof (induction rules arbitrary: marks)
  case Nil
  show ?case by (simp add: marks_ok_def)
next
  case (Cons r rules)
  have "refuse_rules ifaces marks (r # rules) = None \<longleftrightarrow>
      rule_ok ifaces r \<and> (\<forall>ow. marks (dr_Mark r) = Some ow \<longrightarrow> ow = rule_owner r) \<and>
      refuse_rules ifaces (marks(dr_Mark r \<mapsto> rule_owner r)) rules = None"
    by (auto simp: rule_ok_def split: option.split)
  also have "\<dots> \<longleftrightarrow> (\<forall>r \<in> set (r # rules). rule_ok ifaces r \<and> (\<forall>ow. marks (dr_Mark r) = Some ow \<longrightarrow> ow = rule_owner r)) \<and>
     marks_ok (set (r # rules))"
    unfolding Cons.IH list.simps(15) marks_ok_insert by (auto split: if_splits)
  finally show ?case .
qed

lemma map_of_put_rule: "map_of (put_rule r m) = (map_of m)(rule_owner r \<mapsto> r)"
  by (induction r m rule: put_rule.induct) auto

lemma put_rule_keys: "fst ` set (put_rule r m) = insert (rule_owner r) (fst ` set m)"
  by (induction r m rule: put_rule.induct) auto

lemma put_rule_distinct: "distinct (map fst m) \<Longrightarrow> distinct (map fst (put_rule r m))"
proof (induction r m rule: put_rule.induct)
  case (2 r k v m)
  then show ?case using put_rule_keys[of r m] by (auto simp: image_iff)
qed simp

lemma put_rule_set: "set (put_rule r m) \<subseteq> insert (rule_owner r, r) (set m)"
  by (induction r m rule: put_rule.induct) auto

lemma fold_put_rule:
  "distinct (map fst m) \<Longrightarrow> distinct (map fst (fold put_rule rules m))"
  "set (fold put_rule rules m) \<subseteq> (\<lambda>r. (rule_owner r, r)) ` set rules \<union> set m"
proof (induction rules arbitrary: m)
  case (Cons r rules)
  {
    case 1
    then show ?case using Cons.IH(1)[of "put_rule r m"] put_rule_distinct by simp
  next
    case 2
    show ?case using Cons.IH(2)[of "put_rule r m"] put_rule_set[of r m] by auto
  }
qed auto

lemma desired_map_ok:
  assumes "refuse_rules (be_interfaces b) Map.empty rules = None"
  shows "backend_ok (b\<lparr>be_desired := desired_map rules, be_status := s\<rparr>)"
proof -
  have sub: "set (desired_map rules) \<subseteq> (\<lambda>r. (rule_owner r, r)) ` set rules"
    using fold_put_rule(2)[of rules "[]"] by (simp add: desired_map_def)
  have "distinct (map fst (desired_map rules))"
    by (simp add: desired_map_def fold_put_rule(1))
  moreover have "\<forall>(k, r) \<in> set (desired_map rules). k = rule_owner r \<and> rule_ok (be_interfaces b) r"
    using sub assms unfolding refuse_rules_None by auto
  moreover have "marks_ok (snd ` set (desired_map rules))"
    by (rule marks_ok_mono[of "set rules"]) (use sub assms in \<open>auto simp: refuse_rules_None\<close>)
  ultimately show ?thesis by (simp add: backend_ok_def)
qed

text \<open>
  What a reconciliation can do to the backend: keep the desired rules, or replace them by the
  given ones, which were then accepted; the latter exactly when it reports a new generation.
\<close>

definition reconciled :: "desired_rule list \<Rightarrow> tc_backend \<Rightarrow> outcome \<Rightarrow> bool" where
  "reconciled rules b r \<longleftrightarrow>
     be_interfaces (fst r) = be_interfaces b \<and> be_platform (fst r) = be_platform b \<and>
     be_status (fst r) = fst (snd r) \<and>
     (be_desired (fst r) = be_desired b \<and> (snd (snd r) = None \<longrightarrow> st_State (fst (snd r)) \<noteq> ''ready'') \<or>
      be_desired (fst r) = desired_map rules \<and> refuse_rules (be_interfaces b) Map.empty rules = None \<and>
      snd (snd r) = None \<and> st_State (fst (snd r)) = ''ready'')"

lemma issues_traces: "issues P m \<Longrightarrow> traces m (\<lambda>_ _. True)"
  unfolding issues_def traces_def by blast

lemma bind_any:
  assumes "issues P m" "\<And>x. traces (f x) (\<lambda>y _. S y)"
  shows "traces (State_Monad.bind m f) (\<lambda>y _. S y)"
  using issues_traces[OF assms(1)] by (rule traces_bind) (rule assms(2))

lemma traces_issues: "traces m R \<Longrightarrow> issues (\<lambda>_. True) m"
  unfolding issues_def by (erule traces_mono) simp

lemma reconciled_failed: "reconciled rules b (finish b (apply_failed e re s) (Some e'))"
  by (simp add: reconciled_def finish_def)

lemma apply_rules_reconciled:
  assumes "refuse_rules (be_interfaces b) Map.empty rules = None" "st_State status = ''ready''"
  shows "traces (apply_rules env run b rules status) (\<lambda>r _. reconciled rules b r)"
proof -
  have success: "reconciled rules b (finish (b\<lparr>be_desired := desired_map rules\<rparr>)
      (status\<lparr>st_AppliedInterfaces := ifs, st_Generation := g\<rparr>) None)" for ifs g
    using assms by (simp add: reconciled_def finish_def)
  have roll: "issues (\<lambda>_. True) (rollbackMutations run ms c)" for ms c
    by (rule traces_issues[OF roots.rollback_undoes])
  have failed: "traces (State_Monad.bind (rollbackMutations run ms c)
      (\<lambda>re. State_Monad.return (finish b (apply_failed e re st) (Some e)))) (\<lambda>r _. reconciled rules b r)" for ms c e st
    by (rule bind_any[OF roll], rule traces_return, rule reconciled_failed)
  show ?thesis
    unfolding apply_rules_def Let_def
    by (rule bind_any[OF traces_issues[OF roots.apply_interfaces_made]])
      (auto split: option.split intro!: failed bind_any[OF traces_issues[OF roots.applyNft_quiet]]
        traces_return success)
qed

definition effective_rules ::
  "(desired_rule list \<Rightarrow> desired_rule list) \<Rightarrow> desired_rule list option \<Rightarrow> tc_backend \<Rightarrow> desired_rule list" where
  "effective_rules order given b = (case given of None \<Rightarrow> order (map snd (be_desired b)) | Some rs \<Rightarrow> rs)"

lemma Reconcile_reconciled:
  "traces (Backend_Reconcile env run order given b) (\<lambda>r _. reconciled (effective_rules order given b) b r)"
proof -
  let ?rules = "effective_rules order given b"
  have not_ready: "reconciled rs b (finish b s None)" if "st_State s \<noteq> ''ready''" for rs s
    using that by (simp add: reconciled_def finish_def)
  have refused: "reconciled rs b (finish b s (Some e))" for rs s e
    by (simp add: reconciled_def finish_def)
  have cleaned: "reconciled [] b (finish (b\<lparr>be_desired := []\<rparr>) s None)" if "st_State s = ''ready''" for s
    using that by (simp add: reconciled_def finish_def desired_map_def)
  have removal: "issues (confined env (be_interfaces b)) (removeOwnedState env run b)"
    unfolding removeOwnedState_def
    by (auto intro!: issues_bind confined.ownedTable_issues confined.deleteOwnedNftTable_issues
        confined.remove_interfaces_issues)
  show ?thesis
    unfolding Backend_Reconcile_def Let_def effective_rules_def[symmetric]
    by (rule bind_any[OF capabilities_reads])
      (auto split: option.split simp: status_of_def
        intro!: bind_any[OF removal] traces_return not_ready refused cleaned apply_rules_reconciled)
qed

lemma reconciled_ok: "backend_ok b \<Longrightarrow> reconciled rules b r \<Longrightarrow> backend_ok (fst r)"
proof -
  assume ok: "backend_ok b" and r: "reconciled rules b r"
  have same: "fst r = b\<lparr>be_desired := be_desired (fst r), be_status := be_status (fst r)\<rparr>"
    using r by (simp add: reconciled_def)
  show ?thesis
  proof (cases "be_desired (fst r) = be_desired b")
    case True
    then show ?thesis using ok r by (simp add: backend_ok_def reconciled_def)
  next
    case False
    then have "be_desired (fst r) = desired_map rules" "refuse_rules (be_interfaces b) Map.empty rules = None"
      using r by (auto simp: reconciled_def)
    then show ?thesis using desired_map_ok[of b rules "be_status (fst r)"] same by metis
  qed
qed

text \<open>Accepted rules with distinct owners are stored as they are.\<close>

lemma map_of_desired_map:
  "map_of (desired_map rules) = (\<lambda>k. find (\<lambda>r. rule_owner r = k) (rev rules))"
proof (induction rules rule: rev_induct)
  case Nil
  show ?case by (simp add: desired_map_def)
next
  case (snoc r rules)
  have "map_of (desired_map (rules @ [r])) = (map_of (desired_map rules))(rule_owner r \<mapsto> r)"
    by (simp add: desired_map_def map_of_put_rule)
  with snoc.IH show ?case by auto
qed

lemma map_eqI: "(\<And>k r. m k = Some r \<longleftrightarrow> m' k = Some r) \<Longrightarrow> m = m'"
proof
  fix k
  assume "\<And>k r. m k = Some r \<longleftrightarrow> m' k = Some r"
  then show "m k = m' k" by (cases "m k"; cases "m' k") force+
qed

lemma find_by_key:
  "distinct (map f xs) \<Longrightarrow> find (\<lambda>x. f x = k) xs = Some x \<longleftrightarrow> x \<in> set xs \<and> f x = k"
  by (induction xs) auto

lemma lookup_desired:
  assumes "distinct (map rule_owner rules)"
  shows "map_of (desired_map rules) k = Some r \<longleftrightarrow> r \<in> set rules \<and> rule_owner r = k"
proof -
  have "distinct (map rule_owner (rev rules))" using assms by (simp add: rev_map[symmetric])
  then show ?thesis unfolding map_of_desired_map by (simp add: find_by_key)
qed

text \<open>The rules of a consistent backend, in any order, have distinct owners and are its map.\<close>

lemma backend_rules:
  assumes ok: "backend_ok b" and perm: "mset rules = mset (map snd (be_desired b))"
  shows "distinct (map rule_owner rules)"
    and "map_of (be_desired b) k = Some r \<longleftrightarrow> r \<in> set rules \<and> rule_owner r = k"
proof -
  have keys: "map fst (be_desired b) = map rule_owner (map snd (be_desired b))"
    using ok by (auto simp: backend_ok_def)
  have "mset (map rule_owner rules) = mset (map fst (be_desired b))"
    unfolding keys using perm by (metis mset_map)
  then show "distinct (map rule_owner rules)"
    using ok unfolding backend_ok_def by (metis mset_eq_imp_distinct_iff)
  have set: "set rules = snd ` set (be_desired b)"
    using perm by (metis mset_eq_setD set_map)
  have dist: "distinct (map fst (be_desired b))" using ok by (simp add: backend_ok_def)
  have own: "k' = rule_owner r'" if "(k', r') \<in> set (be_desired b)" for k' r'
    using ok that by (auto simp: backend_ok_def)
  show "map_of (be_desired b) k = Some r \<longleftrightarrow> r \<in> set rules \<and> rule_owner r = k"
    unfolding set map_of_eq_Some_iff[OF dist] using own by force
qed

lemma replace_rule_set:
  "set (replace_rule rule rules) = insert rule {r \<in> set rules. rule_owner r \<noteq> rule_owner rule}"
  by (auto simp: replace_rule_def list_ex_iff)

lemma replace_rule_owners:
  assumes "distinct (map rule_owner rules)"
  shows "distinct (map rule_owner (replace_rule rule rules))"
proof (cases "list_ex (\<lambda>r. rule_owner r = rule_owner rule) rules")
  case True
  have "map rule_owner (map (\<lambda>r. if rule_owner r = rule_owner rule then rule else r) rules) = map rule_owner rules"
    by simp
  then show ?thesis using assms True by (simp only: replace_rule_def if_True)
next
  case False
  then show ?thesis using assms by (auto simp: replace_rule_def list_ex_iff)
qed

section \<open>User attribution\<close>

lemma capabilities_unattributed:
  "traces (capabilitiesLocked run b) (\<lambda>cap _. \<not> cap_UserAttribution cap)"
proof -
  have probe: "issues read_only (probeNetAdmin run b)"
    unfolding probeNetAdmin_def by (auto intro!: issues_bind simp: read_only_exec)
  have exec: "issues (\<lambda>_. True) (exec run n a)" for n a by simp
  show ?thesis
    unfolding capabilitiesLocked_def Let_def
    by (auto intro!: traces_return bind_any[OF exec] bind_any[OF missing_interface_reads] bind_any[OF probe]
        split: option.split simp: zero_caps_def split: if_splits)
qed

text \<open>A status whose capabilities do not claim user attribution.\<close>

definition unattributed :: "tc_status \<Rightarrow> bool" where
  "unattributed s \<longleftrightarrow> \<not> cap_UserAttribution (st_Capabilities s)"

lemma unattributed_simps [simp]:
  "unattributed (with_state st rs s) = unattributed s" "unattributed (apply_failed e re s) = unattributed s"
  "unattributed (s\<lparr>st_Generation := g\<rparr>) = unattributed s" "unattributed (s\<lparr>st_LastError := l\<rparr>) = unattributed s"
  "unattributed (s\<lparr>st_AppliedInterfaces := is\<rparr>) = unattributed s"
  "unattributed (fst (snd (finish b s err))) = unattributed s"
  by (simp_all add: unattributed_def with_state_def apply_failed_def finish_def)

lemma apply_rules_unattributed:
  assumes "unattributed status"
  shows "traces (apply_rules env run b rules status) (\<lambda>r _. unattributed (fst (snd r)))"
proof -
  have roll: "issues (\<lambda>_. True) (rollbackMutations run ms c)" for ms c
    by (rule traces_issues[OF roots.rollback_undoes])
  show ?thesis
    unfolding apply_rules_def Let_def
    by (rule bind_any[OF traces_issues[OF roots.apply_interfaces_made]])
      (auto split: option.split intro!: bind_any[OF roll] bind_any[OF traces_issues[OF roots.applyNft_quiet]]
        traces_return simp: assms)
qed

lemma Reconcile_unattributed:
  "traces (Backend_Reconcile env run order given b) (\<lambda>r _. unattributed (fst (snd r)))"
  unfolding Backend_Reconcile_def Let_def
proof (rule traces_bind[OF capabilities_unattributed], goal_cases)
  case (1 cap cs)
  have cap: "unattributed ((status_of cap)\<lparr>st_Generation := g\<rparr>)" for g
    using 1 by (simp add: unattributed_def status_of_def)
  have removal: "issues (\<lambda>_. True) (removeOwnedState env run b)"
    unfolding removeOwnedState_def
    by (auto intro!: issues_bind traces_issues[OF issues_traces[OF confined.ownedTable_issues]]
        traces_issues[OF issues_traces[OF confined.deleteOwnedNftTable_issues]]
        traces_issues[OF issues_traces[OF confined.remove_interfaces_issues[OF subset_refl]]])
  show ?case
    using cap by (auto split: option.split intro!: traces_return bind_any[OF removal] apply_rules_unattributed
        simp del: unattributed_simps(3))
qed

section \<open>Success\<close>

text \<open>
  A system the backend has not touched yet and on which nothing fails: the tools answer, the managed
  interfaces exist without a discipline, their intermediate devices and the table are absent, and
  every changing command succeeds.
\<close>

definition fresh_system :: "tc_env \<Rightarrow> executor \<Rightarrow> string list \<Rightarrow> bool" where
  "fresh_system env run ifaces \<longleftrightarrow>
     (\<forall>h c. \<not> read_only c \<longrightarrow> (\<exists>out. run h c = Inr out)) \<and>
     (\<forall>h. \<exists>out. run h (Command ''tc'' [''-V''] []) = Inr out) \<and>
     (\<forall>h. \<exists>out. run h (Command ''nft'' [''--version''] []) = Inr out) \<and>
     (\<forall>h. \<exists>e. run h (Command ''nft'' [''list'', ''table'', nftFamily, nftTable] []) = Inl e) \<and>
     (\<forall>h. \<forall>i \<in> set ifaces.
        (\<exists>out. run h (Command ''ip'' [''link'', ''show'', ''dev'', i] []) = Inr out) \<and>
        (\<exists>q. run h (Command ''tc'' [''qdisc'', ''show'', ''dev'', i] []) = Inr q \<and> hasRootQdisc q ''noqueue'' \<and>
           \<not> hasQdiscKind q ''clsact'' \<and> \<not> hasQdiscKind q ''ingress'') \<and>
        (\<exists>e. run h (Command ''ip'' [''link'', ''show'', ''dev'', ifbName env i] []) = Inl e \<and> absent_device env e))"

lemma traces_exec_ok:
  "(\<And>h. \<exists>out. run h (Command name args inp) = Inr out \<and> Q out) \<Longrightarrow>
     traces (exec_input run name args inp) (\<lambda>r _. \<exists>out. r = Inr out \<and> Q out)"
  by (rule traces_exec)

lemma traces_post: "traces m (\<lambda>x _. Q x) \<Longrightarrow> (\<And>x. Q x \<Longrightarrow> traces (f x) (\<lambda>y _. S y)) \<Longrightarrow> traces (State_Monad.bind m f) (\<lambda>y _. S y)"
  by (erule traces_bind)

lemma missing_none:
  assumes "fresh_system env run ifaces" "set js \<subseteq> set ifaces"
  shows "traces (missing_interface run js) (\<lambda>r _. r = None)"
  using assms(2)
proof (induction js)
  case Nil
  show ?case by auto
next
  case (Cons j js)
  have "traces (exec run ''ip'' [''link'', ''show'', ''dev'', j]) (\<lambda>r _. \<exists>out. r = Inr out)"
    by (rule traces_exec) (use assms(1) Cons.prems in \<open>auto simp: fresh_system_def\<close>)
  then show ?case unfolding missing_interface.simps
    by (rule traces_post) (use Cons in auto)
qed

lemma capabilities_ready:
  assumes "fresh_system env run (be_interfaces b)" "be_platform b = ''linux''" "be_interfaces b \<noteq> []"
  shows "traces (capabilitiesLocked run b) (\<lambda>cap _. cap_State cap = ''ready'')"
proof -
  have ok: "traces (exec run n a) (\<lambda>r _. error_of r = None)"
    if "\<And>h. \<exists>out. run h (Command n a []) = Inr out" for n a
    by (rule traces_exec) (use that in \<open>auto simp: error_of_def split: sum.split\<close>, metis Inl_Inr_False)
  have probe: "traces (probeNetAdmin run b) (\<lambda>r _. r)"
    unfolding probeNetAdmin_def
    by (rule traces_post[OF ok]) (use assms in \<open>auto simp: fresh_system_def\<close>, metis nth_mem length_greater_0_conv)
  show ?thesis
    unfolding capabilitiesLocked_def Let_def using assms(2,3)
    by (auto intro!: traces_post[OF ok] traces_post[OF missing_none[OF assms(1) subset_refl]] traces_post[OF probe] traces_return
        simp: zero_caps_def) (use assms(1) in \<open>auto simp: fresh_system_def\<close>)
qed

lemma preflight_accepts:
  assumes "fresh_system env run ifaces" "i \<in> set ifaces"
  shows "traces (preflightInterface env run i) (\<lambda>r _. \<exists>plan. r = Inr plan)"
proof -
  have show_qdisc: "traces (exec run ''tc'' [''qdisc'', ''show'', ''dev'', i])
      (\<lambda>r _. \<exists>q. r = Inr q \<and> hasRootQdisc q ''noqueue'' \<and> \<not> hasQdiscKind q ''clsact'' \<and> \<not> hasQdiscKind q ''ingress'')"
    by (rule traces_exec) (use assms in \<open>auto simp: fresh_system_def\<close>)
  have show_ifb: "traces (exec run ''ip'' [''link'', ''show'', ''dev'', ifbName env i]) (\<lambda>r _. \<exists>e. r = Inl e \<and> absent_device env e)"
    by (rule traces_exec) (use assms in \<open>auto simp: fresh_system_def\<close>)
  have check: "\<exists>plan. check_qdiscs i q owned = Inr plan"
    if "hasRootQdisc q ''noqueue''" "\<not> hasQdiscKind q ''clsact''" "\<not> hasQdiscKind q ''ingress''" for q owned
    using that by (simp add: check_qdiscs_def Let_def)
  show ?thesis
    unfolding preflightInterface_def Let_def
  proof (rule traces_post[OF show_qdisc], elim exE conjE, goal_cases)
    case (1 r q)
    show ?case unfolding 1(1) sum.case
    proof (rule bind_any[OF ownedTable_reads], goal_cases)
      case (1 t)
      obtain plan where "check_qdiscs i q (case t of Inl _ \<Rightarrow> False | Inr ow \<Rightarrow> ow) = Inr plan"
        using check \<open>hasRootQdisc q ''noqueue''\<close> \<open>\<not> hasQdiscKind q ''clsact''\<close> \<open>\<not> hasQdiscKind q ''ingress''\<close> by blast
      then show ?case
        by (auto intro!: traces_post[OF show_ifb] traces_return)
    qed
  qed
qed

lemma apply_steps_succeed:
  assumes "\<And>h c. \<not> read_only c \<Longrightarrow> \<exists>out. run h c = Inr out"
    and "\<And>before c failed. (before, c, failed) \<in> set steps \<Longrightarrow> \<not> read_only (command_of c)"
  shows "traces (apply_steps run steps m) (\<lambda>r _. snd r = None)"
  using assms(2)
proof (induction steps arbitrary: m)
  case Nil
  show ?case by auto
next
  case (Cons step steps)
  obtain before name args failed where step: "step = (before, (name, args), failed)"
    by (metis surj_pair)
  have change: "\<not> read_only (Command name args [])" using Cons.prems[of before "(name, args)" failed] step by simp
  have simple: "traces (execSimple run name args) (\<lambda>r _. r = None)"
    unfolding execSimple_def execSimpleInput_def
    by (rule traces_post[OF traces_exec[where R = "\<lambda>r _. \<exists>out. r = Inr out"]])
      (use assms(1) change in \<open>auto simp: error_of_def\<close>)
  have rest: "traces (apply_steps run steps m') (\<lambda>r _. snd r = None)" for m'
    by (rule Cons.IH) (rule Cons.prems, rule list.set_intros(2), assumption)
  show ?case unfolding step apply_steps.simps Let_def
    by (rule traces_post[OF simple]) (use rest in auto)
qed

lemma shaping_changes:
  "\<not> read_only (command_of (class_replace d m r))" "\<not> read_only (command_of (filter_replace d m))"
  "\<not> read_only (command_of (redirect_create d i))" "\<not> read_only (command_of (link_up d))"
  "\<not> read_only (command_of (link_create d))"
  by (simp_all add: read_only_def class_replace_def filter_replace_def redirect_create_def link_up_def link_create_def)

lemma steps_change:
  "(before, c, failed) \<in> set (reconcile_steps plan iface ifb rules) \<Longrightarrow> \<not> read_only (command_of c)"
  by (auto simp: reconcile_steps_def rule_steps_def plain_step_def Let_def shaping_changes qdisc_commands_change
      split: if_splits)

lemma apply_interfaces_succeed:
  assumes "fresh_system env run ifaces" "set js \<subseteq> set ifaces"
  shows "traces (apply_interfaces env run rules js ms applied) (\<lambda>r _. fst (snd r) = applied @ js \<and> snd (snd r) = None)"
  using assms(2)
proof (induction js arbitrary: ms applied)
  case Nil
  show ?case by auto
next
  case (Cons j js)
  have "traces (apply_steps run (reconcile_steps plan j ifb rs) m) (\<lambda>r _. snd r = None)" for plan ifb rs m
    by (rule apply_steps_succeed) (use assms(1) steps_change in \<open>auto simp: fresh_system_def\<close>)
  then have "traces (reconcileInterface env run j rs) (\<lambda>r _. snd r = None)" for rs
    unfolding reconcileInterface_def Let_def
    by (intro traces_post[OF preflight_accepts[OF assms(1)]]) (use Cons.prems in auto)
  then show ?case unfolding apply_interfaces.simps Let_def
    by (rule traces_post) (use Cons.IH[of _ "applied @ [j]"] Cons.prems in auto)
qed

lemma lines_append: "(\<And>l. l \<in> set ls \<Longrightarrow> \<exists>s. l = Inr s) \<Longrightarrow> \<exists>s. append_lines ls = Inr s"
proof (induction ls)
  case (Cons l ls)
  then obtain s t where "l = Inr s" "append_lines ls = Inr t" by (metis list.set_intros)
  then show ?case by simp
qed simp

lemma applyNft_succeeds:
  assumes "fresh_system env run ifaces" "\<forall>r \<in> set rules. \<forall>sel \<in> set (dr_Selectors r). \<exists>v. te_parse_cidr env sel = Inr v"
  shows "traces (applyNft env run rules) (\<lambda>r _. snd r = None)"
proof -
  have table: "traces (list_table run) (\<lambda>r _. \<exists>e. r = Inl e)"
    unfolding list_table_def by (rule traces_exec) (use assms(1) in \<open>auto simp: fresh_system_def\<close>)
  obtain sels where sels: "append_lines (concat (map (\<lambda>r. map (selector_line env r) (dr_Selectors r)) rules)) = Inr sels"
    using lines_append[of "concat (map (\<lambda>r. map (selector_line env r) (dr_Selectors r)) rules)"] assms(2)
    by (fastforce simp: selector_line_def)
  have "\<not> read_only (Command ''nft'' [''-f'', ''-''] inp)" for inp by (simp add: read_only_def)
  then have load: "traces (execSimpleInput run ''nft'' [''-f'', ''-''] inp) (\<lambda>r _. r = None)" for inp
    unfolding execSimpleInput_def
    by (intro traces_post[OF traces_exec[where R = "\<lambda>r _. \<exists>out. r = Inr out"]])
      (use assms(1) in \<open>auto simp: error_of_def fresh_system_def\<close>)
  show ?thesis unfolding applyNft_def Let_def
    by (intro traces_post[OF table]) (auto simp: nft_header_def sels intro!: traces_post[OF load] traces_return)
qed

definition applied_all :: "string \<Rightarrow> desired_rule list \<Rightarrow> tc_backend \<Rightarrow> outcome \<Rightarrow> bool" where
  "applied_all state rules b r \<longleftrightarrow> snd (snd r) = None \<and> be_desired (fst r) = desired_map rules \<and>
     st_State (fst (snd r)) = state \<and> st_AppliedInterfaces (fst (snd r)) = be_interfaces b"

lemma apply_rules_succeeds:
  assumes "fresh_system env run (be_interfaces b)"
    and "\<forall>r \<in> set rules. \<forall>sel \<in> set (dr_Selectors r). \<exists>v. te_parse_cidr env sel = Inr v"
  shows "traces (apply_rules env run b rules status) (\<lambda>r _. applied_all (st_State status) rules b r)"
proof -
  have nft: "traces (applyNft env run (concat (map (by_iface rules) (be_interfaces b)))) (\<lambda>r _. snd r = None)"
    by (rule applyNft_succeeds[OF assms(1)]) (use assms(2) in \<open>auto simp: by_iface_def\<close>)
  show ?thesis unfolding apply_rules_def Let_def
    by (rule traces_post[OF apply_interfaces_succeed[OF assms(1) subset_refl]])
      (auto intro!: traces_post[OF nft] traces_return simp: finish_def applied_all_def)
qed

lemma Reconcile_applies:
  assumes "fresh_system env run (be_interfaces b)" "be_platform b = ''linux''" "be_interfaces b \<noteq> []"
    and "effective_rules order given b = rules" "rules \<noteq> []" "refuse_rules (be_interfaces b) Map.empty rules = None"
    and "\<forall>r \<in> set rules. \<forall>sel \<in> set (dr_Selectors r). \<exists>v. te_parse_cidr env sel = Inr v"
  shows "traces (Backend_Reconcile env run order given b) (\<lambda>r _. applied_all ''ready'' rules b r)"
  unfolding Backend_Reconcile_def Let_def assms(4)[unfolded effective_rules_def]
proof (rule traces_post[OF capabilities_ready[OF assms(1,2,3)]], goal_cases)
  case (1 cap)
  show ?case
    using apply_rules_succeeds[OF assms(1,7), where status = "(status_of cap)\<lparr>st_Generation := st_Generation (be_status b)\<rparr>"] 1 assms(5,6)
    by (simp add: status_of_def)
qed

section \<open>Properties\<close>


text \<open>The preflight refuses an interface whose root discipline is neither \<open>noqueue\<close> nor CatX's own.\<close>

lemma admin_refused:
  assumes "\<And>h. \<exists>q. run h (Command ''tc'' [''qdisc'', ''show'', ''dev'', i] []) = Inr q \<and>
      \<not> hasRootQdisc q ''noqueue'' \<and> \<not> isCatXRootQdisc q"
  shows "traces (preflightInterface env run i) (\<lambda>r _. \<exists>e. r = Inl e)"
  unfolding preflightInterface_def Let_def
proof (rule traces_bind[OF traces_exec[where R = "\<lambda>r _. \<exists>q. r = Inr q \<and> \<not> hasRootQdisc q ''noqueue'' \<and> \<not> isCatXRootQdisc q"]], goal_cases)
  case (1 h)
  show ?case by (rule assms)
next
  case (2 r cs)
  then obtain q where q: "r = Inr q" "\<not> hasRootQdisc q ''noqueue''" "\<not> isCatXRootQdisc q" by blast
  have "\<exists>e. check_qdiscs i q owned = Inl e" for owned
    using q by (simp add: check_qdiscs_def Let_def)
  then show ?case unfolding q(1) sum.case
    by (intro bind_any[OF ownedTable_reads]) (metis (mono_tags, lifting) sum.case(1) traces_return)
qed

text \<open>A system on which the commands \<open>bad\<close> fail, with one interface that has no discipline yet.\<close>

definition sample_tc_env :: tc_env where
  "sample_tc_env = \<lparr>te_sha256 = (\<lambda>s. replicate 32 7), te_parse_cidr = (\<lambda>s. Inr True), te_quote = (\<lambda>s. s),
     te_unicode_lower = (\<lambda>s. s), te_goos = ''linux'', te_interfaces = ''eth0''\<rparr>"

definition sample_run :: "(command \<Rightarrow> bool) \<Rightarrow> executor" where
  "sample_run bad h c =
     (if bad c then Inl ''failed''
      else if cmd_name c = ''tc'' \<and> take 2 (cmd_args c) = [''qdisc'', ''show''] then Inr ''qdisc noqueue 0: root''
      else if cmd_name c = ''ip'' \<and> cmd_args c = [''link'', ''show'', ''dev'', ''catx-eth0''] then Inl ''not found''
      else if cmd_name c = ''nft'' \<and> take 1 (cmd_args c) = [''list''] then Inl ''none''
      else Inr [])"

definition sample_rule :: desired_rule where
  "sample_rule = \<lparr>dr_NodeKey = ''n'', dr_ClientKey = ''c'', dr_Interface = ''eth0'', dr_Mark = 7,
     dr_UploadRateBps = 9, dr_DownloadRateBps = 20, dr_Selectors = [''10.0.0.2/32'']\<rparr>"

definition sample_backend :: tc_backend where
  "sample_backend = NewBackend sample_tc_env [] [''eth0'']"




text \<open>The class command on the interface fails after the root discipline was created.\<close>

definition failing_run :: executor where
  "failing_run = sample_run (\<lambda>c. take 2 (cmd_args c) = [''class'', ''replace''])"


lemma NewBackend_ok: "backend_ok (NewBackend env platform interfaces)"
  by (simp add: backend_ok_def NewBackend_def marks_ok_def)

lemma backend_keeps:
  assumes "backend_ok b"
  shows "backend_ok (fst (fst (run_state (Backend_ApplyClientLimit env run order rule b) h)))"
    and "backend_ok (fst (fst (run_state (Backend_RemoveClientLimit env run order node client b) h)))"
    and "backend_ok (fst (fst (run_state (Backend_Reconcile env run order given b) h)))"
proof -
  have step: "backend_ok (fst (fst (run_state (Backend_Reconcile env run order gs b) h)))" for gs
  proof -
    obtain r cs where "run_state (Backend_Reconcile env run order gs b) h = (r, h @ cs)"
      "reconciled (effective_rules order gs b) b r"
      using Reconcile_reconciled[of env run order gs b] unfolding traces_def by blast
    then show ?thesis using reconciled_ok[OF assms] by simp
  qed
  show "backend_ok (fst (fst (run_state (Backend_ApplyClientLimit env run order rule b) h)))"
    "backend_ok (fst (fst (run_state (Backend_RemoveClientLimit env run order node client b) h)))"
    "backend_ok (fst (fst (run_state (Backend_Reconcile env run order given b) h)))"
    unfolding Backend_ApplyClientLimit_def Backend_RemoveClientLimit_def by (rule step)+
qed

text \<open>The desired rules stay well-formed: every operation keeps the owners distinct, the interfaces
  managed, the marks between 1 and 65534 and unique to their owner, and the rates positive.\<close>

lemma backend_stays_ok:
  assumes "backend_ok b"
  shows "backend_ok (NewBackend env platform interfaces) \<and>
    backend_ok (fst (fst (run_state (Backend_Reconcile env run order given b) h))) \<and>
    backend_ok (fst (fst (run_state (Backend_ApplyClientLimit env run order rule b) h))) \<and>
    backend_ok (fst (fst (run_state (Backend_RemoveClientLimit env run order node client b) h)))"
  using backend_keeps[OF assms] by (simp add: NewBackend_ok)

text \<open>The limit of the sample client is applied on a system where every command succeeds.\<close>

abbreviation sample_apply :: "outcome \<times> history" where
  "sample_apply \<equiv> run_state (Backend_ApplyClientLimit sample_tc_env (sample_run (\<lambda>_. False)) rev sample_rule sample_backend) []"

lemma sample_system:
  "fresh_system sample_tc_env (sample_run (\<lambda>_. False)) [''eth0'']"
  "be_interfaces sample_backend = [''eth0'']" "be_platform sample_backend = ''linux''"
proof -
  have q: "hasRootQdisc ''qdisc noqueue 0: root'' ''noqueue'' \<and> \<not> hasQdiscKind ''qdisc noqueue 0: root'' ''clsact'' \<and>
      \<not> hasQdiscKind ''qdisc noqueue 0: root'' ''ingress''" by code_simp
  have i: "ifbName sample_tc_env ''eth0'' = ''catx-eth0''" "absent_device sample_tc_env ''not found''" by code_simp+
  have "\<exists>out. sample_run (\<lambda>_. False) h c = Inr out" if "\<not> read_only c" for h c
    using that by (auto simp: sample_run_def read_only_def)
  then show "fresh_system sample_tc_env (sample_run (\<lambda>_. False)) [''eth0'']"
    using q i by (simp add: fresh_system_def sample_run_def)
  show "be_interfaces sample_backend = [''eth0'']" "be_platform sample_backend = ''linux''" by code_simp+
qed

lemma sample_rules: "refuse_rules [''eth0''] Map.empty [sample_rule] = None" "\<exists>v. te_parse_cidr sample_tc_env sel = Inr v"
  by (simp add: sample_rule_def, intro exI[of _ True], simp add: sample_tc_env_def)



lemma sample_applied:
  "snd (snd (fst sample_apply)) = None \<and> st_State (fst (snd (fst sample_apply))) = ''ready''"
proof -
  have d: "be_desired sample_backend = []" by (simp add: sample_backend_def NewBackend_def)
  have "traces (Backend_ApplyClientLimit sample_tc_env (sample_run (\<lambda>_. False)) rev sample_rule sample_backend)
      (\<lambda>r _. applied_all ''ready'' [sample_rule] sample_backend r)"
    unfolding Backend_ApplyClientLimit_def
    by (rule Reconcile_applies) (simp_all add: sample_system sample_rules effective_rules_def replace_rule_def d del: refuse_rules.simps)
  then show ?thesis unfolding traces_def applied_all_def by (metis fst_conv)
qed

lemma sample_backend_ok: "backend_ok sample_backend"
  unfolding sample_backend_def by (rule NewBackend_ok)

text \<open>A reconciliation with given rules stores them when it reports success on a ready system.\<close>

lemma stored_or_kept:
  assumes "map_of (desired_map rules) = m"
  shows "\<exists>b' status err cs.
    run_state (Backend_Reconcile env run order (Some rules) b) h = ((b', status, err), h @ cs) \<and>
    (if err = None \<and> st_State status = ''ready'' then map_of (be_desired b') = m
     else be_desired b' = be_desired b)"
proof -
  obtain r cs where run: "run_state (Backend_Reconcile env run order (Some rules) b) h = (r, h @ cs)"
    and r: "reconciled rules b r"
    using Reconcile_reconciled[of env run order "Some rules" b, unfolded traces_def effective_rules_def option.case]
    by blast
  obtain b' status err where r': "r = (b', status, err)" by (metis surj_pair)
  show ?thesis
    by (rule exI[of _ b'], rule exI[of _ status], rule exI[of _ err], rule exI[of _ cs])
      (use run r in \<open>auto simp: r' reconciled_def assms[symmetric]\<close>)
qed

text \<open>Applying the limit of one client stores its rule and keeps those of all other clients, removing
  it drops exactly its own; both on success, and nothing is stored when an error is returned or the
  system is not ready. The order in which the map of rules is traversed does not matter.\<close>

lemma client_limit_effect:
  assumes "backend_ok b" "\<And>rs. mset (order rs) = mset rs"
  shows "(\<exists>b' status err cs.
      run_state (Backend_ApplyClientLimit env run order rule b) h = ((b', status, err), h @ cs) \<and>
      (if err = None \<and> st_State status = ''ready''
       then map_of (be_desired b') = (map_of (be_desired b))(rule_owner rule \<mapsto> rule)
       else be_desired b' = be_desired b)) \<and>
    (\<exists>b' status err cs.
      run_state (Backend_RemoveClientLimit env run order node client b) h = ((b', status, err), h @ cs) \<and>
      (if err = None \<and> st_State status = ''ready''
       then map_of (be_desired b') = (map_of (be_desired b))(owner_key node client := None)
       else be_desired b' = be_desired b))"
proof -
  define rs where "rs = order (map snd (be_desired b))"
  have dist: "distinct (map rule_owner rs)"
    and old: "map_of (be_desired b) k = Some r \<longleftrightarrow> r \<in> set rs \<and> rule_owner r = k" for k r
    using backend_rules[OF assms(1), of rs] assms(2) by (simp_all add: rs_def)
  have "map_of (desired_map (replace_rule rule rs)) k = Some r \<longleftrightarrow>
      ((map_of (be_desired b))(rule_owner rule \<mapsto> rule)) k = Some r" for k r
    unfolding lookup_desired[OF replace_rule_owners[OF dist]] replace_rule_set using old by auto
  then have put: "map_of (desired_map (replace_rule rule rs)) = (map_of (be_desired b))(rule_owner rule \<mapsto> rule)"
    by (rule map_eqI)
  have dist': "distinct (map rule_owner (filter (\<lambda>r. rule_owner r \<noteq> k) rs))" for k
    using dist by (rule distinct_map_filter)
  have "map_of (desired_map (filter (\<lambda>r. rule_owner r \<noteq> owner_key node client) rs)) k = Some r \<longleftrightarrow>
      ((map_of (be_desired b))(owner_key node client := None)) k = Some r" for k r
    unfolding lookup_desired[OF dist'] using old by auto
  then have drop: "map_of (desired_map (filter (\<lambda>r. rule_owner r \<noteq> owner_key node client) rs)) =
      (map_of (be_desired b))(owner_key node client := None)"
    by (rule map_eqI)
  show ?thesis
    unfolding Backend_ApplyClientLimit_def Backend_RemoveClientLimit_def rs_def[symmetric]
    by (intro conjI stored_or_kept put drop)
qed

text \<open>A mark is between 1 and 65534, depends on the node and the client only, is refused when another
  owner holds it, and entering it keeps every mark that was given out.\<close>

lemma AllocateMark_stable:
  assumes "AllocateMark env node client occupied = Inr mark"
  shows "1 \<le> mark \<and> mark \<le> 65534 \<and>
    (\<forall>k ow. occupied k = Some ow \<longrightarrow> (occupied(mark \<mapsto> owner_key node client)) k = Some ow) \<and>
    (\<forall>occ m. AllocateMark env node client occ = Inr m \<longrightarrow> m = mark) \<and>
    (\<forall>occ ow. occ mark = Some ow \<and> ow \<noteq> owner_key node client \<longrightarrow> \<not> (\<exists>m. AllocateMark env node client occ = Inr m))"
proof -
  define x where "x = be_uint32 (te_sha256 env (owner_key node client))"
  have mark: "mark = nat (1 + x mod 65534)" "node \<noteq> []" "client \<noteq> []"
    and free: "occupied mark = None \<or> occupied mark = Some (owner_key node client)"
    using assms by (auto simp: AllocateMark_def Let_def x_def markMin_def markMax_def split: if_splits option.splits)
  have "0 \<le> x mod 65534" "x mod 65534 < 65534" by simp_all
  then have "1 \<le> mark" "mark \<le> 65534" unfolding mark by linarith+
  moreover have same: "AllocateMark env node client occ = Inr m \<Longrightarrow> m = mark" for occ m
    by (auto simp: mark(1) AllocateMark_def Let_def x_def markMin_def markMax_def split: if_splits option.splits)
  moreover have "\<not> (\<exists>m. AllocateMark env node client occ = Inr m)"
    if "occ mark = Some ow" "ow \<noteq> owner_key node client" for occ ow
  proof -
    have "nat (markMin + be_uint32 (te_sha256 env (owner_key node client)) mod (markMax - markMin + 1)) = mark"
      by (simp add: mark(1) x_def markMin_def markMax_def)
    then show ?thesis using that by (simp add: AllocateMark_def Let_def)
  qed
  moreover have "(occupied(mark \<mapsto> owner_key node client)) k = Some ow" if "occupied k = Some ow" for k ow
    using free that by (cases "k = mark") auto
  ultimately show ?thesis by blast
qed

section \<open>The service\<close>

text \<open>The states of the service, from its start, under every sequence of its operations.\<close>

inductive tc_reachable :: "tc_service \<Rightarrow> bool" where
  start: "tc_reachable (newService env)"
| configure: "tc_reachable s \<Longrightarrow> tc_reachable (fst (run_state (Service_Configure env run order enabled s) h))"
| reconcile: "tc_reachable s \<Longrightarrow> tc_reachable (fst (fst (run_state (Service_Reconcile env run order rules s) h)))"
| apply_limit: "tc_reachable s \<Longrightarrow> tc_reachable (fst (fst (run_state (Service_ApplyClientLimit env run order rule s) h)))"
| remove_limit: "tc_reachable s \<Longrightarrow> tc_reachable (fst (fst (run_state (Service_RemoveClientLimit env run order node client s) h)))"

definition service_ok :: "tc_service \<Rightarrow> bool" where
  "service_ok s \<longleftrightarrow> backend_ok (sv_backend s) \<and> unattributed (sv_status s)"

lemma Reconcile_result:
  obtains b' status err cs where
    "run_state (Backend_Reconcile env run order given b) h = ((b', status, err), h @ cs)"
    "reconciled (effective_rules order given b) b (b', status, err)" "unattributed status"
proof -
  have "traces (Backend_Reconcile env run order given b)
      (\<lambda>r _. reconciled (effective_rules order given b) b r \<and> unattributed (fst (snd r)))"
    using Reconcile_reconciled Reconcile_unattributed by (rule traces_conj)
  then obtain r cs where "run_state (Backend_Reconcile env run order given b) h = (r, h @ cs)"
    "reconciled (effective_rules order given b) b r" "unattributed (fst (snd r))"
    unfolding traces_def by blast
  moreover obtain b' status err where "r = (b', status, err)" by (metis surj_pair)
  ultimately show thesis using that by auto
qed

lemma zero_unattributed: "unattributed zero_status"
  by (simp add: unattributed_def zero_status_def status_of_def zero_caps_def)

lemma service_keeps_ok: "tc_reachable s \<Longrightarrow> service_ok s"
proof (induction rule: tc_reachable.induct)
  case (start env)
  show ?case by (simp add: service_ok_def newService_def NewBackend_ok zero_unattributed)
next
  case (configure s env run order enabled h)
  then show ?case
    by (auto simp: Service_Configure_def Let_def service_ok_def NewBackend_ok zero_unattributed
        State_Monad.return_def State_Monad.bind_def split: prod.split)
next
  case (reconcile s env run order rules h)
  obtain b' status err cs where
    "run_state (Backend_Reconcile env run order rules (sv_backend s)) h = ((b', status, err), h @ cs)"
    "reconciled (effective_rules order rules (sv_backend s)) (sv_backend s) (b', status, err)" "unattributed status"
    by (rule Reconcile_result)
  moreover from this(2) have "backend_ok b'"
    using reconciled_ok[of "sv_backend s" _ "(b', status, err)"] reconcile.IH by (simp add: service_ok_def)
  ultimately show ?case using reconcile.IH
    by (simp add: Service_Reconcile_def service_ok_def State_Monad.return_def State_Monad.bind_def)
next
  case (apply_limit s env run order rule h)
  then show ?case
    using backend_keeps(1)[of "sv_backend s" env run order rule h]
    by (auto simp: Service_ApplyClientLimit_def service_ok_def State_Monad.return_def State_Monad.bind_def split: prod.split)
next
  case (remove_limit s env run order node client h)
  then show ?case
    using backend_keeps(2)[of "sv_backend s" env run order node client h]
    by (auto simp: Service_RemoveClientLimit_def service_ok_def State_Monad.return_def State_Monad.bind_def split: prod.split)
qed

text \<open>No reachable service claims that it can attribute traffic to a user, whatever the system answers.\<close>

lemma status_unattributed:
  assumes "tc_reachable s"
  shows "\<not> cap_UserAttribution (st_Capabilities (fst (run_state (StatusView run s) h)))"
proof -
  have ok: "service_ok s" using assms by (rule service_keeps_ok)
  obtain cap cs where cap: "run_state (capabilitiesLocked run (sv_backend s)) h = (cap, h @ cs)" "\<not> cap_UserAttribution cap"
    using capabilities_unattributed[of run "sv_backend s"] unfolding traces_def by blast
  show ?thesis using ok cap
    by (auto simp: StatusView_def DetectCapabilities_def disabled_caps_def zero_caps_def service_ok_def
        unattributed_def State_Monad.return_def State_Monad.bind_def)
qed

end
