(* ===== verification/Traffic_Policy_Enforcement.thy ===== *)
theory Traffic_Policy_Enforcement
  imports Traffic_Policy_Quota Traffic_Control_Rules
begin

text \<open>
  Traffic policies over the traffic-control substrate: which rules are desired, what is recorded as
  enforced after they were applied, and what happens where the two components meet: user
  attribution that is never proven, and the loss of the attribution provider.
\<close>

section \<open>What is recorded as enforced\<close>

definition mark_row :: "int \<Rightarrow> desired_rule \<Rightarrow> tp_state \<Rightarrow> tp_state" where
  "mark_row now r s = (if ts_ClientEmail s = dr_ClientKey r then tp_enforced now r s else s)"

lemma persist_rules_states:
  assumes "fold_res (tp_persist_rule now) rules db = Inr db'"
  shows "tp_states db' = map (fold (mark_row now) rules) (tp_states db) \<and> tp_policies db' = tp_policies db"
  using assms
proof (induction rules arbitrary: db)
  case Nil
  then show ?case by (simp add: id_def[symmetric])
next
  case (Cons r rules)
  from Cons.prems obtain db1 where db1: "tp_persist_rule now r db = Inr db1" "fold_res (tp_persist_rule now) rules db1 = Inr db'"
    by (cases "tp_persist_rule now r db") auto
  have "tp_states db1 = map (mark_row now r) (tp_states db)" "tp_policies db1 = tp_policies db"
    using db1(1) by (auto simp: tp_persist_rule_def tp_update_states_def table_simps mark_row_def elim!: bind_resE)
  then show ?case using Cons.IH[OF db1(2)] by simp
qed

lemma mark_rows_email: "ts_ClientEmail (fold (mark_row now) rules s) = ts_ClientEmail s"
  by (induction rules arbitrary: s) (simp_all add: mark_row_def tp_enforced_def)

definition enforces :: "desired_rule \<Rightarrow> tp_state \<Rightarrow> bool" where
  "enforces r s \<longleftrightarrow> dr_ClientKey r = ts_ClientEmail s \<and> ts_EnforcementNode s = dr_NodeKey r \<and>
     ts_EnforcementInterface s = dr_Interface r \<and> ts_EnforcementMark s = dr_Mark r"

lemma mark_rows_active:
  assumes "distinct (map dr_ClientKey rules)" "\<not> ts_EnforcementActive s"
  shows "if \<exists>r \<in> set rules. dr_ClientKey r = ts_ClientEmail s
    then ts_EnforcementActive (fold (mark_row now) rules s) \<and>
         (\<exists>r \<in> set rules. enforces r (fold (mark_row now) rules s))
    else fold (mark_row now) rules s = s"
  using assms(1)
proof (induction rules rule: rev_induct)
  case Nil
  then show ?case by simp
next
  case (snoc r rules)
  let ?t = "fold (mark_row now) rules s"
  show ?case
  proof (cases "dr_ClientKey r = ts_ClientEmail s")
    case True
    then show ?thesis using mark_rows_email[of now rules s]
      by (auto simp: mark_row_def tp_enforced_def enforces_def)
  next
    case False
    then have "fold (mark_row now) (rules @ [r]) s = ?t"
      using mark_rows_email[of now rules s] by (simp add: mark_row_def)
    moreover have "distinct (map dr_ClientKey rules)" using snoc.prems by simp
    ultimately show ?thesis using snoc.IH False by auto
  qed
qed

text \<open>After the record was written, the active rows are those of the rules, with the data of their rule.\<close>

definition records :: "desired_rule list \<Rightarrow> tp_db \<Rightarrow> bool" where
  "records rules db \<longleftrightarrow> (\<forall>s \<in> set (tp_states db).
     (ts_EnforcementActive s \<longleftrightarrow> (\<exists>r \<in> set rules. dr_ClientKey r = ts_ClientEmail s)) \<and>
     (ts_EnforcementActive s \<longrightarrow> (\<exists>r \<in> set rules. enforces r s)))"

lemma clear_records:
  assumes "clearAndPersistEnforcement now rules db = Inr db'" "tp_enabled db" "distinct (map dr_ClientKey rules)"
  shows "records rules db'" "tp_policies db' = tp_policies db"
    "map ts_ClientEmail (tp_states db') = map ts_ClientEmail (tp_states db)"
proof -
  define clear where "clear s = (if ts_EnforcementActive s then tp_unenforced now s else s)" for s
  obtain db1 where up: "tp_update_states ts_EnforcementActive (tp_unenforced now) db = Inr db1"
    and fold: "fold_res (tp_persist_rule now) rules db1 = Inr db'"
    using assms(1,2) by (auto simp: clearAndPersistEnforcement_def elim!: bind_resE)
  have db1: "tp_states db1 = map clear (tp_states db)" "tp_policies db1 = tp_policies db"
    using up by (auto simp: tp_update_states_def table_simps clear_def elim!: bind_resE)
  note states = persist_rules_states[OF fold]
  have clear: "\<not> ts_EnforcementActive (clear s)" "ts_ClientEmail (clear s) = ts_ClientEmail s" for s
    by (simp_all add: clear_def tp_unenforced_def)
  show "tp_policies db' = tp_policies db" using states db1(2) by simp
  show "map ts_ClientEmail (tp_states db') = map ts_ClientEmail (tp_states db)"
    using states db1(1) clear(2) by (simp add: mark_rows_email)
  show "records rules db'" unfolding records_def
  proof
    fix t
    assume "t \<in> set (tp_states db')"
    then obtain s where t: "t = fold (mark_row now) rules (clear s)" using states db1(1) by auto
    show "(ts_EnforcementActive t \<longleftrightarrow> (\<exists>r \<in> set rules. dr_ClientKey r = ts_ClientEmail t)) \<and>
        (ts_EnforcementActive t \<longrightarrow> (\<exists>r \<in> set rules. enforces r t))"
      using mark_rows_active[OF assms(3) clear(1), of s now] clear(1)[of s]
      unfolding t mark_rows_email by (auto split: if_splits)
  qed
qed

section \<open>Which rules are desired\<close>

text \<open>A rule that a policy, its state and the identity of the client justify.\<close>

definition justifies :: "provider \<Rightarrow> tp_policy \<Rightarrow> tp_state \<Rightarrow> desired_rule \<Rightarrow> bool" where
  "justifies pr p s r \<longleftrightarrow>
     tp_Enabled p \<and> tp_ClientEmail p = dr_ClientKey r \<and> ts_ClientEmail s = dr_ClientKey r \<and>
     ts_Lifecycle s \<noteq> StateDisabled \<and>
     (case pr (dr_ClientKey r) of Inl _ \<Rightarrow> False
      | Inr i \<Rightarrow> at_Supported i \<and> at_Stable i \<and> dr_NodeKey r = at_NodeKey i \<and> dr_Interface r = at_Interface i \<and>
          dr_Mark r = at_Mark i) \<and> dr_Mark r \<noteq> 0 \<and>
     dr_UploadRateBps r = (if ts_Lifecycle s = StateThrottled then tp_ThrottleUploadBps p else tp_ActiveUploadBps p) \<and>
     dr_DownloadRateBps r = (if ts_Lifecycle s = StateThrottled then tp_ThrottleDownloadBps p else tp_ActiveDownloadBps p) \<and>
     0 < dr_UploadRateBps r \<and> 0 < dr_DownloadRateBps r"

definition justified :: "provider \<Rightarrow> tp_db \<Rightarrow> desired_rule \<Rightarrow> bool" where
  "justified pr db r \<longleftrightarrow> (\<exists>p \<in> set (tp_policies db). \<exists>s \<in> set (tp_states db). justifies pr p s r)"

lemma justified_mono:
  "justified pr db r \<Longrightarrow> tp_policies db' = tp_policies db \<Longrightarrow> set (tp_states db) \<subseteq> set (tp_states db') \<Longrightarrow> justified pr db' r"
  unfolding justified_def by auto

lemma view_facts:
  assumes "effectiveView ua now email db = Inr (v, db')"
  shows "tp_policies db' = tp_policies db" "set (tp_states db) \<subseteq> set (tp_states db')" "tp_enabled db' = tp_enabled db"
    "tv_Policy v \<in> set (tp_policies db)" "tp_ClientEmail (tv_Policy v) = email"
    "\<exists>s \<in> set (tp_states db'). ts_ClientEmail s = email \<and> tv_Lifecycle v = ts_Lifecycle s"
proof -
  obtain p s row where r: "tp_find_policy db email = Inr p" "tp_view_state now p email db = Inr (s, db')"
      "v = tp_make_view ua p s row"
    using assms by (auto simp: effectiveView_def elim!: bind_resE)
  have v: "tv_Policy v = p" "tv_Lifecycle v = ts_Lifecycle s"
    by (simp_all add: r(3) tp_make_view_def Let_def)
  show "tv_Policy v \<in> set (tp_policies db)" "tp_ClientEmail (tv_Policy v) = email"
    using r(1) v by (auto simp: tp_find_policy_def dest!: q_first_InrD)
  have st: "tp_policies db' = tp_policies db \<and> set (tp_states db) \<subseteq> set (tp_states db') \<and> tp_enabled db' = tp_enabled db \<and>
      s \<in> set (tp_states db') \<and> ts_ClientEmail s = email"
  proof (cases "tp_lockState db email")
    case (Inr x)
    then show ?thesis using r(2) by (auto simp: tp_view_state_def tp_lockState_def dest!: q_first_InrD)
  next
    case (Inl e)
    then obtain a b u d where c: "tp_create_state (tp_new_state email a b u d now) db = Inr (s, db')"
      using r(2) by (auto simp: tp_view_state_def elim!: bind_resE split: if_splits)
    then show ?thesis
      by (auto simp: tp_create_state_def tp_new_state_def elim!: bind_resE dest: tp_state_table.create_Inr split: if_splits)
  qed
  then show "tp_policies db' = tp_policies db" "set (tp_states db) \<subseteq> set (tp_states db')" "tp_enabled db' = tp_enabled db"
    "\<exists>s \<in> set (tp_states db'). ts_ClientEmail s = email \<and> tv_Lifecycle v = ts_Lifecycle s"
    using v by auto
qed

lemma attribution_rule:
  assumes "desiredRuleForAttribution v i = Inr r" "pr (tp_ClientEmail (tv_Policy v)) = Inr i"
    and "ts_ClientEmail s = tp_ClientEmail (tv_Policy v)" "tv_Lifecycle v = ts_Lifecycle s" "tv_Lifecycle v \<noteq> StateDisabled"
  shows "justifies pr (tv_Policy v) s r \<and> dr_ClientKey r = tp_ClientEmail (tv_Policy v)"
  using assms by (auto simp: desiredRuleForAttribution_def justifies_def Let_def split: if_splits)

text \<open>The state of the loop after some policies: what it has collected is justified, one rule per client.\<close>

definition collected :: "provider \<Rightarrow> tp_db \<Rightarrow> string set \<Rightarrow> desired_rule list \<times> nat \<times> bool \<times> tp_db \<Rightarrow> bool" where
  "collected pr db0 seen acc \<longleftrightarrow>
     (case acc of (rules, _, _, db) \<Rightarrow>
        tp_policies db = tp_policies db0 \<and> tp_enabled db = tp_enabled db0 \<and>
        (\<forall>r \<in> set rules. justified pr db r) \<and> dr_ClientKey ` set rules \<subseteq> seen \<and> distinct (map dr_ClientKey rules))"

lemma collected_step:
  assumes "collected pr db0 seen acc" "tp_ClientEmail p \<notin> seen"
  shows "collected pr db0 (insert (tp_ClientEmail p) seen) (desired_step ua now pr p acc)"
proof -
  obtain rules u c db where acc: "acc = (rules, u, c, db)" by (metis surj_pair)
  have J: "tp_policies db = tp_policies db0" "tp_enabled db = tp_enabled db0" "\<forall>r \<in> set rules. justified pr db r"
      "dr_ClientKey ` set rules \<subseteq> seen" "distinct (map dr_ClientKey rules)"
    using assms(1) by (simp_all add: collected_def acc)
  have keep: "collected pr db0 (insert (tp_ClientEmail p) seen) (rules, u', c', db)" for u' c'
    using J by (auto simp: collected_def)
  show ?thesis
  proof (cases "effectiveView ua now (tp_ClientEmail p) db")
    case (Inl e)
    then show ?thesis using keep by (auto simp: desired_step_def acc)
  next
    case (Inr vdb)
    obtain v db1 where vdb: "vdb = (v, db1)" by (cases vdb)
    note view = view_facts[OF Inr[unfolded vdb]]
    have mono: "\<forall>r \<in> set rules. justified pr db1 r" using J(3) justified_mono view(1,2) by blast
    have keep1: "collected pr db0 (insert (tp_ClientEmail p) seen) (rules, u', c', db1)" for u' c'
      using J view(1,3) mono by (auto simp: collected_def)
    have add: "collected pr db0 (insert (tp_ClientEmail p) seen) (rules @ [r], u', c', db1)"
      if r: "desiredRuleForAttribution v i = Inr r" "pr (tp_ClientEmail p) = Inr i" "tv_Lifecycle v \<noteq> StateDisabled" for r i u' c'
    proof -
      obtain s where s: "s \<in> set (tp_states db1)" "ts_ClientEmail s = tp_ClientEmail p" "tv_Lifecycle v = ts_Lifecycle s"
        using view(6) by blast
      have "justifies pr (tv_Policy v) s r" "dr_ClientKey r = tp_ClientEmail p"
        using attribution_rule[OF r(1), of pr s] r(2,3) s view(5) by simp_all
      then have "justified pr db1 r" "dr_ClientKey r = tp_ClientEmail p"
        using s(1) view(1,4) unfolding justified_def by auto
      then show ?thesis using J view(1,3) mono assms(2) by (auto simp: collected_def)
    qed
    show ?thesis using keep keep1 add Inr vdb
      by (auto simp: desired_step_def acc Let_def split: sum.split)
  qed
qed

lemma collected_fold:
  assumes "collected pr db0 seen acc" "distinct (map tp_ClientEmail ps)" "tp_ClientEmail ` set ps \<inter> seen = {}"
  shows "collected pr db0 (seen \<union> tp_ClientEmail ` set ps) (fold (desired_step ua now pr) ps acc)"
  using assms
proof (induction ps arbitrary: seen acc)
  case Nil
  then show ?case by simp
next
  case (Cons p ps)
  have "collected pr db0 (insert (tp_ClientEmail p) seen) (desired_step ua now pr p acc)"
    by (rule collected_step) (use Cons.prems in auto)
  then have "collected pr db0 (insert (tp_ClientEmail p) seen \<union> tp_ClientEmail ` set ps)
      (fold (desired_step ua now pr) ps (desired_step ua now pr p acc))"
    by (rule Cons.IH) (use Cons.prems in auto)
  then show ?case by simp
qed

interpretation rule_order: strict_weak_order rule_less
  by unfold_locales (auto simp: rule_less_def split: if_splits)

lemma desiredRules_collected:
  assumes "desiredRules ua now (Some pr) db = (db', Inr (Some rules, u, c))" "tp_ok db"
  shows "\<forall>r \<in> set rules. justified pr db' r" "distinct (map dr_ClientKey rules)" "tp_policies db' = tp_policies db"
    "tp_enabled db'" "sorted_wrt (\<lambda>a b. \<not> rule_less b a) rules"
proof -
  obtain rules0 u0 c0 applied where f: "fold (desired_step ua now pr) (sort_key tp_ClientEmail (tp_policies db))
      ([], 0, applied, db) = (rules0, u0, c0, db')" "rules = sort_stable rule_less rules0" "tp_enabled db"
    using assms(1) by (auto simp: desiredRules_def split: if_splits sum.splits prod.splits)
  have "distinct (map tp_ClientEmail (tp_policies db))"
    using assms(2) by (simp add: tp_ok_def table_ok_def tp_policies_uniq_def)
  then have "distinct (map tp_ClientEmail (sort_key tp_ClientEmail (tp_policies db)))"
    by (metis mset_eq_imp_distinct_iff mset_map mset_sort)
  moreover have "collected pr db {} ([], 0, applied, db)" by (simp add: collected_def)
  ultimately have "collected pr db ({} \<union> tp_ClientEmail ` set (sort_key tp_ClientEmail (tp_policies db))) (rules0, u0, c0, db')"
    using collected_fold[of pr db "{}" "([], 0, applied, db)" "sort_key tp_ClientEmail (tp_policies db)" ua now] f(1) by simp
  then have J: "\<forall>r \<in> set rules0. justified pr db' r" "distinct (map dr_ClientKey rules0)" "tp_policies db' = tp_policies db"
      "tp_enabled db' = tp_enabled db"
    by (simp_all add: collected_def)
  show "\<forall>r \<in> set rules. justified pr db' r" using J(1) f(2) by simp
  have "mset (map dr_ClientKey rules) = mset (map dr_ClientKey rules0)" using f(2) by simp
  then show "distinct (map dr_ClientKey rules)" using J(2) by (metis mset_eq_imp_distinct_iff)
  show "tp_policies db' = tp_policies db" "tp_enabled db'" using J(3,4) f(3) by simp_all
  show "sorted_wrt (\<lambda>a b. \<not> rule_less b a) rules" unfolding f(2) by (rule rule_order.sorted_sort_stable)
qed

section \<open>Properties\<close>


text \<open>A provider that knows the client, and a shaper that accepts everything and counts its calls.\<close>

definition sample_provider :: provider where
  "sample_provider email = Inr \<lparr>at_Supported = True, at_Stable = True, at_NodeKey = ''n'', at_Interface = ''eth0'',
     at_Mark = 7, at_Selectors = [''10.0.0.2/32'']\<rparr>"

definition sample_shaper :: "nat shaper" where
  "sample_shaper k rules = (Suc k, status_of (caps ''ready'' []), None)"


text \<open>The process-wide service as the shaper: its state is the service and the commands issued so far.\<close>

definition service_shaper :: "tc_env \<Rightarrow> executor \<Rightarrow> (desired_rule list \<Rightarrow> desired_rule list) \<Rightarrow> (tc_service \<times> history) shaper" where
  "service_shaper env run order k rules =
     (case run_state (Service_Reconcile env run order rules (fst k)) (snd k) of
        ((s, status, err), h) \<Rightarrow> ((s, h), status, err))"

text \<open>Reconciling with a nil slice applies the remembered rules again; it never drops them.\<close>

lemma nil_keeps_rules:
  assumes "backend_ok b" "\<And>rs. mset (order rs) = mset rs"
    and "run_state (Backend_Reconcile env run order None b) h = ((b', status, err), h')"
  shows "map_of (be_desired b') = map_of (be_desired b)"
proof -
  let ?rs = "order (map snd (be_desired b))"
  obtain r cs where run: "run_state (Backend_Reconcile env run order None b) h = (r, h @ cs)" and r: "reconciled ?rs b r"
    using Reconcile_reconciled[of env run order None b, unfolded traces_def effective_rules_def option.case] by blast
  have rs: "distinct (map rule_owner ?rs)" "map_of (be_desired b) k = Some x \<longleftrightarrow> x \<in> set ?rs \<and> rule_owner x = k" for k x
    using backend_rules[OF assms(1), of ?rs] assms(2) by simp_all
  have "map_of (desired_map ?rs) = map_of (be_desired b)"
    by (rule map_eqI) (simp add: lookup_desired[OF rs(1)] rs(2))
  then show ?thesis using r run assms(3) by (auto simp: reconciled_def)
qed

lemma no_rules_recorded: "records [] db \<Longrightarrow> \<not> hasEnforcementState db"
  by (auto simp: records_def hasEnforcementState_def list_ex_iff)

text \<open>When the attribution provider is gone, the reconciliation of the enforcement on a ready service
  records that no client is enforced any more, while the service keeps every rule it had: the nil slice it
  is given stands for the remembered rules, not for none.\<close>

lemma provider_loss_keeps_rules:
  assumes "ReconcileEnforcement etext ua now None (Some (service_shaper env run order)) (s, h) db = (db', (s', h'), status, None)"
    and "st_State status = ''ready''" "hasEnforcementState db"
    and "backend_ok (sv_backend s)" "\<And>rs. mset (order rs) = mset rs"
  shows "\<not> hasEnforcementState db' \<and> map_of (be_desired (sv_backend s')) = map_of (be_desired (sv_backend s))"
proof -
  obtain s1 st err h1 where rec: "run_state (Service_Reconcile env run order None s) h = ((s1, st, err), h1)"
    by (metis surj_pair)
  have en: "tp_enabled db" using assms(3) by (simp add: hasEnforcementState_def)
  have step: "err = None" "st_State st = ''ready''"
    using assms(1,2,3) rec by (auto simp: ReconcileEnforcement_def service_shaper_def split: if_splits prod.splits)
  have p: "clearAndPersistEnforcement now [] db = Inr db'" and s': "s' = s1"
    using assms(1,3) rec step
    by (auto simp: ReconcileEnforcement_def service_shaper_def persist_def split: if_splits prod.splits sum.splits)
  have "map_of (be_desired (sv_backend s1)) = map_of (be_desired (sv_backend s))"
  proof (cases "sv_enabled s")
    case False
    then show ?thesis using rec by (simp add: Service_Reconcile_def State_Monad.return_def)
  next
    case True
    obtain b' st' err' h2 where b: "run_state (Backend_Reconcile env run order None (sv_backend s)) h = ((b', st', err'), h2)"
      by (metis surj_pair)
    then have "sv_backend s1 = b'"
      using rec True by (auto simp: Service_Reconcile_def State_Monad.return_def State_Monad.bind_def)
    then show ?thesis using nil_keeps_rules[OF assms(4,5) b] by simp
  qed
  then show ?thesis using clear_records(1)[OF p en] no_rules_recorded s' by simp
qed

definition enforced_state :: tp_state where
  "enforced_state = (tp_new_state ''c'' 3600 7200 0 0 3600)\<lparr>ts_ID := 1, ts_EnforcementActive := True, ts_EnforcementNode := ''n'',
     ts_EnforcementInterface := ''eth0'', ts_EnforcementMark := 7\<rparr>"

definition busy_service :: tc_service where
  "busy_service = \<lparr>sv_enabled = True, sv_backend = sample_backend\<lparr>be_desired := [(rule_owner sample_rule, sample_rule)]\<rparr>,
     sv_status = zero_status\<rparr>"

text \<open>As long as no service claims user attribution, and no reachable one does, no rule is made for a
  generic user, the remote adapter refuses before it calls the node, and every policy shows its
  enforcement as disabled or unsupported.\<close>

lemma unproven_attribution_refuses:
  assumes "tc_reachable s" "ua = cap_UserAttribution (st_Capabilities (fst (run_state (StatusView run s) h)))"
  shows "DesiredRule ua v node iface mark selectors = Inl ErrUnsupported \<and>
    (\<exists>status. tp_ReconcileRemote codec ua remote v = (status, Some ErrUnsupported, [])) \<and>
    (\<forall>w db'. effectiveView ua now email db = Inr (w, db') \<longrightarrow> tv_Enforcement w \<in> {StateDisabled, StateUnsupported})"
proof -
  have "\<not> ua" unfolding assms(2) using assms(1) by (rule status_unattributed)
  then show ?thesis
    by (auto simp: DesiredRule_def tp_ReconcileRemote_def effectiveView_def tp_make_view_def Let_def elim!: bind_resE)
qed

text \<open>An email given with white space around it is looked up as it is and stored trimmed, so setting the
  policy of a client that has none stores the policy and still reports that it was not found.\<close>

lemma padded_email_stored_but_not_found:
  assumes "trim_space email \<noteq> email" "tp_enabled db" "\<not> tp_down db ''fork_traffic_policies''"
    and "\<forall>p \<in> set (tp_policies db). tp_ClientEmail p \<noteq> email \<and> tp_ClientEmail p \<noteq> trim_space email \<and> tp_ID p \<noteq> tp_next db"
    and "tp_validatePolicy (i\<lparr>tp_ClientEmail := trim_space email\<rparr>) = Inr ()" "tp_ID i = 0" "tp_ok db"
  shows "\<exists>db' p. Upsert ua now ms email i db = (db', Inl ErrRecordNotFound) \<and>
    p \<in> set (tp_policies db') \<and> tp_ClientEmail p = trim_space email \<and> tp_Enabled p = tp_Enabled i"
proof -
  let ?i = "i\<lparr>tp_ClientEmail := trim_space email, tp_UpdatedAt := 1000 * now + ms\<rparr>"
  let ?p = "?i\<lparr>tp_ID := tp_next db\<rparr>"
  let ?rows = "insort_key tp_ID ?p (tp_policies db)"
  let ?db = "db\<lparr>tp_policies := ?rows, tp_next := Suc (tp_next db)\<rparr>"
  have find: "find (\<lambda>p. tp_ClientEmail p = email) (tp_policies db) = None"
    using assms(4) by (auto simp: find_None_iff)
  have "mset (map tp_ClientEmail ?rows) = mset (trim_space email # map tp_ClientEmail (tp_policies db))"
    by simp
  moreover have "distinct (trim_space email # map tp_ClientEmail (tp_policies db))"
    using assms(4,7) by (auto simp: tp_ok_def table_ok_def tp_policies_uniq_def)
  ultimately have uniq: "tp_policies_uniq ?rows" unfolding tp_policies_uniq_def by (metis mset_eq_imp_distinct_iff)
  have put: "tp_put_policy email ?i db = Inr ?db"
    using assms(3,4,6) find uniq
    by (auto simp: tp_put_policy_def tp_find_policy_def q_first_def q_create_def Let_def image_iff)
  have p: "tp_ClientEmail ?p = trim_space email" "tp_Enabled ?p = tp_Enabled i" by simp_all
  have "\<forall>x \<in> set ?rows. tp_ClientEmail x \<noteq> email"
    unfolding set_insort_key using assms(1,4) p(1) by (metis insertE)
  then have "find (\<lambda>p. tp_ClientEmail p = email) ?rows = None"
    by (simp add: find_None_iff)
  then have "tp_Get ua now email ?db = Inl ErrRecordNotFound"
    using assms(2,3) by (simp add: tp_Get_def effectiveView_def tp_find_policy_def q_first_def)
  then have "Upsert ua now ms email i db = (?db, Inl ErrRecordNotFound)"
    using assms(2,5) put by (simp add: Upsert_def Let_def)
  moreover have "?p \<in> set (tp_policies ?db)" by (simp add: set_insort_key)
  ultimately show ?thesis using p by blast
qed

end
