(* ===== verification/Release_Version.thy ===== *)
theory Release_Version
  imports Go_Runtime "HOL-Library.Product_Lexorder"
begin

text \<open>
  The versions of CatX releases, \<open>src/internal/forkrelease/version.go\<close>: a strict subset of semantic
  versioning. \<open>int\<close> fields are integers; the bytes of an identifier are compared as Go strings. The
  abstract specification is the precedence of semantic versioning on a datatype of identifiers, and
  the lexicographic comparison of the code implements it.
\<close>

section \<open>Parsing\<close>

record VersionIdentifier =
  vi_Value :: string
  vi_Numeric :: bool

record Version =
  v_Major :: int
  v_Minor :: int
  v_Patch :: int
  v_Prerelease :: "VersionIdentifier list"

definition isDigits :: "string \<Rightarrow> bool" where
  "isDigits value \<longleftrightarrow> list_all is_digit value"

definition isNumericIdentifier :: "string \<Rightarrow> bool" where
  "isNumericIdentifier value \<longleftrightarrow> value \<noteq> [] \<and> isDigits value"

definition validNumericComponent :: "string \<Rightarrow> bool" where
  "validNumericComponent value \<longleftrightarrow> value \<noteq> [] \<and> (value = ''0'' \<or> hd value \<noteq> CHR ''0'') \<and> isDigits value"

definition identifier_char :: "char \<Rightarrow> bool" where
  "identifier_char c \<longleftrightarrow>
     CHR ''0'' \<le> c \<and> c \<le> CHR ''9'' \<or> CHR ''A'' \<le> c \<and> c \<le> CHR ''Z'' \<or> CHR ''a'' \<le> c \<and> c \<le> CHR ''z'' \<or> c = CHR ''-''"

definition validPrereleaseIdentifier :: "string \<Rightarrow> bool" where
  "validPrereleaseIdentifier value \<longleftrightarrow>
     \<not> (value = [] \<or> isNumericIdentifier value \<and> length value > 1 \<and> hd value = CHR ''0'') \<and>
     list_all identifier_char value"

text \<open>\<open>strings.SplitN(s, d, 2)\<close>: what precedes the first separator, and what follows it if there is one.\<close>

definition cut_at :: "char \<Rightarrow> string \<Rightarrow> string \<times> string option" where
  "cut_at d s =
     (takeWhile (\<lambda>c. c \<noteq> d) s,
      case dropWhile (\<lambda>c. c \<noteq> d) s of [] \<Rightarrow> None | _ # rest \<Rightarrow> Some rest)"

definition parse_component :: "string \<Rightarrow> int list res" where
  "parse_component item =
     (if \<not> validNumericComponent item then Inl (Err ''invalid CatX version'')
      else case atoi item of None \<Rightarrow> Inl (Err ''invalid CatX version'') | Some n \<Rightarrow> Inr [n])"

definition parse_identifier :: "string \<Rightarrow> VersionIdentifier list res" where
  "parse_identifier item =
     (if \<not> validPrereleaseIdentifier item then Inl (Err ''invalid CatX prerelease'')
      else Inr [\<lparr>vi_Value = item, vi_Numeric = isNumericIdentifier item\<rparr>])"

definition ParseVersion :: "string \<Rightarrow> Version res" where
  "ParseVersion input =
     (let value = trim_prefix ''v'' (trim_space input) in
      if value = [] \<or> contains_str ''+'' value then Inl (Err ''invalid CatX version'')
      else let parts = cut_at (CHR ''-'') value; core = split_on (CHR ''.'') (fst parts) in
        if length core \<noteq> 3 then Inl (Err ''invalid CatX version'')
        else bind_res (collect parse_component core) (\<lambda>ns.
          let version = \<lparr>v_Major = ns ! 0, v_Minor = ns ! 1, v_Patch = ns ! 2, v_Prerelease = []\<rparr> in
          case snd parts of
            None \<Rightarrow> Inr version
          | Some pre \<Rightarrow>
             (if pre = [] then Inl (Err ''invalid CatX prerelease'')
              else bind_res (collect parse_identifier (split_on (CHR ''.'') pre)) (\<lambda>ids.
                     Inr (version\<lparr>v_Prerelease := ids\<rparr>)))))"

definition ParseReleaseTag :: "string \<Rightarrow> Version res" where
  "ParseReleaseTag tag =
     (if \<not> has_prefix ''v'' tag then Inl (Err ''release tag must start with v'') else ParseVersion tag)"

section \<open>Comparison\<close>

definition compareInts :: "int \<Rightarrow> int \<Rightarrow> int" where
  "compareInts a b = (if a < b then - 1 else if a > b then 1 else 0)"

text \<open>One turn of the loop over the identifiers: the result it returns, or \<open>None\<close> to go on.\<close>

definition compare_identifier :: "VersionIdentifier \<Rightarrow> VersionIdentifier \<Rightarrow> int option" where
  "compare_identifier left right =
     (if vi_Numeric left \<and> vi_Numeric right \<and> length (vi_Value left) \<noteq> length (vi_Value right)
      then Some (compareInts (int (length (vi_Value left))) (int (length (vi_Value right))))
      else if vi_Numeric left \<noteq> vi_Numeric right then Some (if vi_Numeric left then - 1 else 1)
      else if vi_Value left \<noteq> vi_Value right then Some (if vi_Value left < vi_Value right then - 1 else 1)
      else None)"

fun compare_identifiers :: "VersionIdentifier list \<Rightarrow> VersionIdentifier list \<Rightarrow> int option" where
  "compare_identifiers (left # ls) (right # rs) =
     (case compare_identifier left right of Some r \<Rightarrow> Some r | None \<Rightarrow> compare_identifiers ls rs)"
| "compare_identifiers _ _ = None"

definition CompareVersions :: "Version \<Rightarrow> Version \<Rightarrow> int" where
  "CompareVersions a b =
     (if v_Major a \<noteq> v_Major b then compareInts (v_Major a) (v_Major b)
      else if v_Minor a \<noteq> v_Minor b then compareInts (v_Minor a) (v_Minor b)
      else if v_Patch a \<noteq> v_Patch b then compareInts (v_Patch a) (v_Patch b)
      else if v_Prerelease a = [] \<and> v_Prerelease b = [] then 0
      else if v_Prerelease a = [] then 1
      else if v_Prerelease b = [] then - 1
      else (case compare_identifiers (v_Prerelease a) (v_Prerelease b) of
              Some r \<Rightarrow> r
            | None \<Rightarrow> compareInts (int (length (v_Prerelease a))) (int (length (v_Prerelease b)))))"

definition CompareVersionStrings :: "string \<Rightarrow> string \<Rightarrow> int \<times> bool" where
  "CompareVersionStrings a b =
     (case (ParseVersion a, ParseVersion b) of
        (Inr left, Inr right) \<Rightarrow> (CompareVersions left right, True)
      | _ \<Rightarrow> (0, False))"

section \<open>The precedence of semantic versioning\<close>

text \<open>Numeric identifiers are numbers and precede the alphanumeric ones.\<close>

datatype ident = NumId nat | AlphaId string

instantiation ident :: linorder
begin

definition less_eq_ident :: "ident \<Rightarrow> ident \<Rightarrow> bool" where
  "less_eq_ident a b =
     (case (a, b) of (NumId m, NumId n) \<Rightarrow> m \<le> n | (NumId _, AlphaId _) \<Rightarrow> True
      | (AlphaId _, NumId _) \<Rightarrow> False | (AlphaId s, AlphaId t) \<Rightarrow> s \<le> t)"

definition less_ident :: "ident \<Rightarrow> ident \<Rightarrow> bool" where
  "less_ident a b \<longleftrightarrow> a \<le> b \<and> \<not> b \<le> a"

instance
  by standard (auto simp: less_eq_ident_def less_ident_def split: ident.splits)

end

lemma less_ident_simps [simp]:
  "NumId m < NumId n \<longleftrightarrow> m < n" "AlphaId s < AlphaId t \<longleftrightarrow> s < t"
  "NumId m < AlphaId t" "\<not> AlphaId s < NumId n"
  by (auto simp: less_ident_def less_eq_ident_def)

definition ident_of :: "VersionIdentifier \<Rightarrow> ident" where
  "ident_of i = (if vi_Numeric i then NumId (the (parse_nat (vi_Value i))) else AlphaId (vi_Value i))"

text \<open>Major, minor and patch, then a release after its prereleases, then the identifiers from the left.\<close>

definition semver_key :: "Version \<Rightarrow> int \<times> int \<times> int \<times> bool \<times> ident list" where
  "semver_key v =
     (v_Major v, v_Minor v, v_Patch v, v_Prerelease v = [], map ident_of (v_Prerelease v))"

definition identifier_ok :: "VersionIdentifier \<Rightarrow> bool" where
  "identifier_ok i \<longleftrightarrow> validPrereleaseIdentifier (vi_Value i) \<and> vi_Numeric i = isNumericIdentifier (vi_Value i)"

subsection \<open>Digit strings\<close>

fun dec :: "string \<Rightarrow> nat" where
  "dec [] = 0"
| "dec (c # s) = digit_val c * 10 ^ length s + dec s"

lemma parse_digits_dec: "isDigits s \<Longrightarrow> parse_digits n s = Some (n * 10 ^ length s + dec s)"
  by (induction n s rule: parse_digits.induct) (auto simp: isDigits_def algebra_simps)

lemma parse_nat_dec: "isNumericIdentifier s \<Longrightarrow> parse_nat s = Some (dec s)"
  by (simp add: parse_nat_def isNumericIdentifier_def parse_digits_dec)

lemma digit_val_bounds: "is_digit c \<Longrightarrow> digit_val c \<le> 9" "is_digit c \<Longrightarrow> c \<noteq> CHR ''0'' \<Longrightarrow> 1 \<le> digit_val c"
proof -
  show "is_digit c \<Longrightarrow> digit_val c \<le> 9" by (auto simp: is_digit_def digit_val_def)
  assume c: "is_digit c" "c \<noteq> CHR ''0''"
  have "of_char c \<noteq> (48 :: nat)"
  proof
    assume "of_char c = (48 :: nat)"
    then have "of_char c = (of_char (CHR ''0'') :: nat)" by simp
    then show False using c(2) by (metis of_char_eq_iff)
  qed
  then show "1 \<le> digit_val c" using c(1) by (auto simp: is_digit_def digit_val_def)
qed

lemma dec_less: "isDigits s \<Longrightarrow> dec s < 10 ^ length s"
proof (induction s)
  case (Cons c s)
  then have "digit_val c \<le> 9" "dec s < 10 ^ length s" by (auto simp: isDigits_def digit_val_bounds)
  then have "digit_val c * 10 ^ length s + dec s < 9 * 10 ^ length s + 10 ^ length s"
    by (intro add_le_less_mono mult_le_mono1)
  then show ?case by simp
qed simp

lemma dec_lower: "isDigits (c # s) \<Longrightarrow> c \<noteq> CHR ''0'' \<Longrightarrow> 10 ^ length s \<le> dec (c # s)"
  using digit_val_bounds(2)[of c] by (auto simp: isDigits_def intro!: trans_le_add1)

lemma digit_less: "is_digit c \<Longrightarrow> is_digit d \<Longrightarrow> c < d \<longleftrightarrow> digit_val c < digit_val d"
  by (auto simp: less_char_def is_digit_def digit_val_def)

lemma digit_eq: "is_digit c \<Longrightarrow> is_digit d \<Longrightarrow> digit_val c = digit_val d \<longleftrightarrow> c = d"
  using digit_less[of c d] digit_less[of d c] by (metis less_irrefl linorder_neq_iff)

lemma dec_order:
  "length s = length t \<Longrightarrow> isDigits s \<Longrightarrow> isDigits t \<Longrightarrow> (s < t \<longleftrightarrow> dec s < dec t) \<and> (s = t \<longleftrightarrow> dec s = dec t)"
proof (induction s t rule: list_induct2)
  case (Cons c s d t)
  have digits: "is_digit c" "is_digit d" "isDigits s" "isDigits t" using Cons.prems by (auto simp: isDigits_def)
  have IH: "s < t \<longleftrightarrow> dec s < dec t" "s = t \<longleftrightarrow> dec s = dec t" using Cons.IH digits by simp_all
  have bounds: "dec s < 10 ^ length t" "dec t < 10 ^ length t" using dec_less[of s] dec_less[of t] digits Cons.hyps by auto
  have step: "m * 10 ^ length t + x < n * 10 ^ length t + y" if "m < n" "x < 10 ^ length t" for m n x y :: nat
  proof -
    have "m * 10 ^ length t + x < (m + 1) * 10 ^ length t" using that(2) by simp
    also have "\<dots> \<le> n * 10 ^ length t" using that(1) by (intro mult_le_mono1) simp
    finally show ?thesis by simp
  qed
  consider "digit_val c < digit_val d" | "digit_val d < digit_val c" | "c = d" using digit_eq digits by (metis linorder_neqE_nat)
  then show ?case
  proof cases
    case 1
    then show ?thesis using step[OF 1 bounds(1), of "dec t"] digit_less[OF digits(1,2)] Cons.hyps by auto
  next
    case 2
    then show ?thesis using step[OF 2 bounds(2), of "dec s"] digit_less[OF digits(2,1)] Cons.hyps by auto
  next
    case 3
    then show ?thesis using IH Cons.hyps by auto
  qed
qed simp

lemma numeric_order:
  assumes "identifier_ok x" "identifier_ok y" "vi_Numeric x" "vi_Numeric y" "length (vi_Value x) < length (vi_Value y)"
  shows "dec (vi_Value x) < dec (vi_Value y)"
proof -
  have digits: "isDigits (vi_Value x)" "isDigits (vi_Value y)" and x: "vi_Value x \<noteq> []"
    using assms by (auto simp: identifier_ok_def isNumericIdentifier_def)
  obtain c s where y: "vi_Value y = c # s" using assms(5) by (cases "vi_Value y") auto
  have "c \<noteq> CHR ''0''"
    using assms x y by (auto simp: identifier_ok_def validPrereleaseIdentifier_def)
  then have "10 ^ length s \<le> dec (vi_Value y)" using dec_lower digits(2) y by metis
  moreover have "dec (vi_Value x) < 10 ^ length (vi_Value x)" using dec_less digits(1) by blast
  moreover have "(10 :: nat) ^ length (vi_Value x) \<le> 10 ^ length s"
    using assms(5) y by (intro power_increasing) auto
  ultimately show ?thesis by linarith
qed

subsection \<open>The code compares by precedence\<close>

definition cmp :: "'a :: linorder \<Rightarrow> 'a \<Rightarrow> int" where
  "cmp a b = (if a < b then - 1 else if b < a then 1 else 0)"

lemma cmp_simps [simp]: "cmp a b = 0 \<longleftrightarrow> a = b" "cmp a b = - 1 \<longleftrightarrow> a < b" "cmp a b = 1 \<longleftrightarrow> b < a" "cmp a a = 0"
  by (auto simp: cmp_def)

lemma cmp_Cons: "cmp (x # xs) (y # ys) = (if x = y then cmp xs ys else cmp x y)"
  by (auto simp: cmp_def)

lemma compareInts_cmp: "compareInts a b = cmp a b"
  by (auto simp: compareInts_def cmp_def)

lemma compareInts_Cons: "compareInts (int (length (x # xs))) (int (length (y # ys))) = compareInts (int (length xs)) (int (length ys))"
  by (simp add: compareInts_def)

lemma ident_of_numeric: "identifier_ok i \<Longrightarrow> vi_Numeric i \<Longrightarrow> ident_of i = NumId (dec (vi_Value i))"
  by (simp add: ident_of_def identifier_ok_def parse_nat_dec)

lemma compare_identifier_cmp:
  assumes "identifier_ok x" "identifier_ok y"
  shows "compare_identifier x y = (if ident_of x = ident_of y then None else Some (cmp (ident_of x) (ident_of y)))"
    and "ident_of x = ident_of y \<longleftrightarrow> x = y"
proof -
  consider (num) "vi_Numeric x" "vi_Numeric y" | (mixed) "vi_Numeric x \<noteq> vi_Numeric y" | (alpha) "\<not> vi_Numeric x" "\<not> vi_Numeric y"
    by blast
  then have "compare_identifier x y = (if ident_of x = ident_of y then None else Some (cmp (ident_of x) (ident_of y))) \<and>
      (ident_of x = ident_of y \<longleftrightarrow> x = y)"
  proof cases
    case num
    note ids = ident_of_numeric[OF assms(1) num(1)] ident_of_numeric[OF assms(2) num(2)]
    have digits: "isDigits (vi_Value x)" "isDigits (vi_Value y)"
      using assms num by (auto simp: identifier_ok_def isNumericIdentifier_def)
    consider "length (vi_Value x) < length (vi_Value y)" | "length (vi_Value y) < length (vi_Value x)"
      | (same) "length (vi_Value x) = length (vi_Value y)" by linarith
    then show ?thesis
    proof cases
      case 1
      then show ?thesis using numeric_order[OF assms num 1] num ids by (auto simp: compare_identifier_def compareInts_def cmp_def)
    next
      case 2
      then show ?thesis using numeric_order[OF assms(2,1) num(2,1) 2] num ids by (auto simp: compare_identifier_def compareInts_def cmp_def)
    next
      case same
      note order = dec_order[OF same digits] dec_order[OF same[symmetric] digits(2,1)]
      have "x = y \<longleftrightarrow> vi_Value x = vi_Value y" using num by (cases x; cases y) auto
      then show ?thesis using order num ids same by (auto simp: compare_identifier_def cmp_def)
    qed
  next
    case mixed
    then show ?thesis by (auto simp: compare_identifier_def ident_of_def cmp_def)
  next
    case alpha
    have "x = y \<longleftrightarrow> vi_Value x = vi_Value y" using alpha by (cases x; cases y) auto
    then show ?thesis using alpha by (auto simp: compare_identifier_def ident_of_def cmp_def)
  qed
  then show "compare_identifier x y = (if ident_of x = ident_of y then None else Some (cmp (ident_of x) (ident_of y)))"
    "ident_of x = ident_of y \<longleftrightarrow> x = y" by simp_all
qed

lemma compare_identifiers_cmp:
  assumes "list_all identifier_ok xs" "list_all identifier_ok ys"
  shows "(case compare_identifiers xs ys of Some r \<Rightarrow> r | None \<Rightarrow> compareInts (int (length xs)) (int (length ys))) =
      cmp (map ident_of xs) (map ident_of ys)"
    and "map ident_of xs = map ident_of ys \<longleftrightarrow> xs = ys"
proof -
  show "(case compare_identifiers xs ys of Some r \<Rightarrow> r | None \<Rightarrow> compareInts (int (length xs)) (int (length ys))) =
      cmp (map ident_of xs) (map ident_of ys)"
    using assms
  proof (induction xs ys rule: compare_identifiers.induct)
    case (1 x xs y ys)
    show ?case
    proof (cases "ident_of x = ident_of y")
      case True
      have "compare_identifier x y = None" using 1(2,3) True compare_identifier_cmp(1)[of x y] by simp
      then show ?thesis using 1(1) 1(2,3) True unfolding compareInts_Cons by (simp add: cmp_Cons)
    next
      case False
      then show ?thesis using 1(2,3) compare_identifier_cmp(1)[of x y] by (simp add: cmp_Cons)
    qed
  qed (rename_tac zs, case_tac zs, simp_all add: cmp_def compareInts_def)+
  show "map ident_of xs = map ident_of ys \<longleftrightarrow> xs = ys"
    using assms
  proof (induction xs arbitrary: ys)
    case (Cons x xs)
    then show ?case by (cases ys) (auto simp: compare_identifier_cmp(2))
  qed auto
qed

definition version_ok :: "Version \<Rightarrow> bool" where
  "version_ok v \<longleftrightarrow> 0 \<le> v_Major v \<and> 0 \<le> v_Minor v \<and> 0 \<le> v_Patch v \<and> list_all identifier_ok (v_Prerelease v)"

lemma CompareVersions_cmp:
  assumes "version_ok a" "version_ok b"
  shows "CompareVersions a b = cmp (semver_key a) (semver_key b)"
    and "semver_key a = semver_key b \<longleftrightarrow> a = b"
proof -
  have ids: "list_all identifier_ok (v_Prerelease a)" "list_all identifier_ok (v_Prerelease b)"
    using assms by (auto simp: version_ok_def)
  show "CompareVersions a b = cmp (semver_key a) (semver_key b)"
    using compare_identifiers_cmp(1)[OF ids]
    by (auto simp: CompareVersions_def semver_key_def compareInts_cmp less_prod_def' cmp_def)
  show "semver_key a = semver_key b \<longleftrightarrow> a = b"
    using compare_identifiers_cmp(2)[OF ids] by (cases a; cases b) (auto simp: semver_key_def)
qed

section \<open>Parsed versions\<close>

lemma parse_component_ok:
  assumes "parse_component item = Inr ns"
  shows "\<exists>n \<ge> 0. ns = [n]"
proof -
  obtain n where n: "atoi item = Some n" "ns = [n]" and item: "isNumericIdentifier item"
    using assms by (auto simp: parse_component_def validNumericComponent_def isNumericIdentifier_def split: if_splits option.splits)
  obtain c r where cr: "item = c # r" using item by (cases item) (auto simp: isNumericIdentifier_def)
  then have "is_digit c" using item by (auto simp: isNumericIdentifier_def isDigits_def)
  then have "c \<noteq> CHR ''-''" using digit_not_sign by blast
  then have "0 \<le> n" using n(1) cr by (auto simp: atoi_def Let_def split: if_splits option.splits)
  then show ?thesis using n(2) by blast
qed

lemma collect_components:
  "collect parse_component core = Inr ns \<Longrightarrow> length ns = length core \<and> (\<forall>n \<in> set ns. 0 \<le> n)"
proof (induction core arbitrary: ns)
  case (Cons item core)
  then obtain xs ys where xs: "parse_component item = Inr xs" "collect parse_component core = Inr ys" "ns = xs @ ys"
    by (auto split: sum.splits)
  then show ?case using Cons.IH[OF xs(2)] parse_component_ok[OF xs(1)] by auto
qed simp

lemma collect_identifiers: "collect parse_identifier items = Inr ids \<Longrightarrow> list_all identifier_ok ids"
proof (induction items arbitrary: ids)
  case (Cons item items)
  then obtain xs ys where xs: "parse_identifier item = Inr xs" "collect parse_identifier items = Inr ys" "ids = xs @ ys"
    by (auto split: sum.splits)
  then show ?case using Cons.IH[OF xs(2)] by (auto simp: parse_identifier_def identifier_ok_def split: if_splits)
qed simp

lemma ParseVersion_ok:
  assumes "ParseVersion input = Inr v"
  shows "version_ok v"
proof -
  obtain core ns ids where ns: "collect parse_component core = Inr ns" "length core = 3"
    and v: "v = \<lparr>v_Major = ns ! 0, v_Minor = ns ! 1, v_Patch = ns ! 2, v_Prerelease = ids\<rparr>"
    and ids: "list_all identifier_ok ids"
    using assms
    by (auto simp: ParseVersion_def Let_def dest!: collect_identifiers elim!: bind_resE split: if_splits option.splits)
  have "length ns = 3" "\<forall>n \<in> set ns. 0 \<le> n" using collect_components[OF ns(1)] ns(2) by auto
  then show ?thesis using ids by (auto simp: version_ok_def v)
qed

text \<open>C16: the comparison of two parsed versions is the precedence of semantic versioning: numbers compare
  as numbers although the code compares lengths and bytes, a release follows its prereleases, numeric
  identifiers precede the others, and a longer list of identifiers follows its prefix. Two versions
  compare as equal only if they are the same.\<close>

theorem CompareVersions_semver:
  assumes "ParseVersion s = Inr a" "ParseVersion t = Inr b"
  shows "CompareVersionStrings s t = (if semver_key a < semver_key b then - 1 else if semver_key b < semver_key a then 1 else 0, True) \<and>
    (CompareVersions a b = 0 \<longleftrightarrow> a = b)"
proof -
  note cmp_key = CompareVersions_cmp[OF ParseVersion_ok[OF assms(1)] ParseVersion_ok[OF assms(2)]]
  have "CompareVersions a b = 0 \<longleftrightarrow> a = b" unfolding cmp_key(1) using cmp_key(2) by simp
  then show ?thesis using cmp_key(1) assms by (simp add: CompareVersionStrings_def cmp_def)
qed

definition rc10 :: Version where
  "rc10 = \<lparr>v_Major = 0, v_Minor = 2, v_Patch = 0,
     v_Prerelease = [\<lparr>vi_Value = ''rc'', vi_Numeric = False\<rparr>, \<lparr>vi_Value = ''10'', vi_Numeric = True\<rparr>]\<rparr>"

definition rc9 :: Version where
  "rc9 = rc10\<lparr>v_Prerelease := [\<lparr>vi_Value = ''rc'', vi_Numeric = False\<rparr>, \<lparr>vi_Value = ''9'', vi_Numeric = True\<rparr>]\<rparr>"

theorem CompareVersions_semver_witness:
  "CompareVersionStrings ''v0.2.0-rc.9'' '' 0.2.0-rc.10'' = (- 1, True) \<and> semver_key rc9 < semver_key rc10"
proof -
  have parsed: "ParseVersion ''v0.2.0-rc.9'' = Inr rc9" "ParseVersion '' 0.2.0-rc.10'' = Inr rc10" by code_simp+
  have "semver_key rc9 < semver_key rc10" by code_simp
  then show ?thesis using CompareVersions_semver[OF parsed] by simp
qed

end
