(* ===== verification/Release_Provider.thy ===== *)
theory Release_Provider
  imports Release_Version
begin

text \<open>
  The distribution identity and the release provider, \<open>src/internal/forkrelease/identity.go\<close> and
  \<open>release.go\<close>: which releases of which repository the updater accepts and what it downloads.
  \<open>release_env\<close> holds what is not code of the repository: the HTTP client (an answer per URL, or an
  error, which includes a URL no request can be made for), \<open>url.Parse\<close>, the decoding of the release
  metadata and SHA-256. The embedded files are the constants of this theory; a panic at start-up is an
  error value.
\<close>

section \<open>Identity\<close>

definition line_feed :: string where "line_feed = [CHR 0x0A]"

definition identityEnv :: string where
  "identityEnv = join_with line_feed
     [''CATX_PRODUCT_NAME=CatX-UI'', ''CATX_RELEASE_OWNER=CatCodeArbelin'', ''CATX_RELEASE_REPOSITORY=CatX-UI'',
      ''CATX_ASSET_PREFIX=catx-ui'', ''CATX_DEV_RELEASE_TAG=dev-latest'', ''CATX_XRAY_VERSION=26.9.30'', []]"

definition forkVersion :: string where "forkVersion = ''0.2.0'' @ line_feed"
definition rcVersion :: string where "rcVersion = ''0.2.0-rc.1'' @ line_feed"
definition upstreamVersion :: string where "upstreamVersion = ''3.9.0'' @ line_feed"

record Identity =
  id_ProductName :: string
  id_ReleaseOwner :: string
  id_ReleaseRepository :: string
  id_AssetPrefix :: string
  id_DevReleaseTag :: string
  id_BundledXrayVersion :: string

definition identity_line :: "string \<Rightarrow> (string \<times> string) list \<Rightarrow> (string \<times> string) list res" where
  "identity_line raw values =
     (let line = trim_space raw in
      if line = [] \<or> has_prefix ''#'' line then Inr values
      else case cut_at (CHR ''='') line of
             (key, None) \<Rightarrow> Inl (Err ''panic: invalid fork release identity line'')
           | (key, Some value) \<Rightarrow>
              (if trim_space key = [] \<or> trim_space value = []
               then Inl (Err ''panic: invalid fork release identity line'')
               else Inr ((trim_space key, trim_space value) # values)))"

definition required :: "(string \<times> string) list \<Rightarrow> string \<Rightarrow> string res" where
  "required values key =
     (case map_of values key of
        None \<Rightarrow> Inl (Err ''panic: missing fork release identity value'')
      | Some value \<Rightarrow> if value = [] then Inl (Err ''panic: missing fork release identity value'') else Inr value)"

definition mustParseIdentity :: "string \<Rightarrow> Identity res" where
  "mustParseIdentity data =
     bind_res (fold_res identity_line (split_on (CHR 0x0A) data) []) (\<lambda>values.
     bind_res (required values ''CATX_PRODUCT_NAME'') (\<lambda>product.
     bind_res (required values ''CATX_RELEASE_OWNER'') (\<lambda>owner.
     bind_res (required values ''CATX_RELEASE_REPOSITORY'') (\<lambda>repo.
     bind_res (required values ''CATX_ASSET_PREFIX'') (\<lambda>prefix.
     bind_res (required values ''CATX_DEV_RELEASE_TAG'') (\<lambda>dev.
     bind_res (required values ''CATX_XRAY_VERSION'') (\<lambda>xray.
     Inr \<lparr>id_ProductName = product, id_ReleaseOwner = owner, id_ReleaseRepository = repo,
          id_AssetPrefix = prefix, id_DevReleaseTag = dev, id_BundledXrayVersion = xray\<rparr>)))))))"

definition ForkVersion :: string where "ForkVersion = trim_space forkVersion"
definition RCVersion :: string where "RCVersion = trim_space rcVersion"
definition UpstreamBaseVersion :: string where "UpstreamBaseVersion = trim_space upstreamVersion"

definition RepositorySlug :: "Identity \<Rightarrow> string" where
  "RepositorySlug i = id_ReleaseOwner i @ ''/'' @ id_ReleaseRepository i"

definition RCReleaseTag :: string where "RCReleaseTag = ''v'' @ RCVersion"

definition APIRepositoryURL :: "Identity \<Rightarrow> string" where
  "APIRepositoryURL i = ''https://api.github.com/repos/'' @ RepositorySlug i"

definition WebRepositoryURL :: "Identity \<Rightarrow> string" where
  "WebRepositoryURL i = ''https://github.com/'' @ RepositorySlug i"

definition RawRepositoryURL :: "Identity \<Rightarrow> string" where
  "RawRepositoryURL i = ''https://raw.githubusercontent.com/'' @ RepositorySlug i"

definition LinuxArchiveName :: "Identity \<Rightarrow> string \<Rightarrow> string" where
  "LinuxArchiveName i arch = id_AssetPrefix i @ ''-linux-'' @ arch @ ''.tar.gz''"

definition UpdateScriptAssetName :: "Identity \<Rightarrow> string" where
  "UpdateScriptAssetName i = id_AssetPrefix i @ ''-update.sh''"

definition InstallScriptAssetName :: "Identity \<Rightarrow> string" where
  "InstallScriptAssetName i = id_AssetPrefix i @ ''-install.sh''"

definition MenuScriptAssetName :: "Identity \<Rightarrow> string" where
  "MenuScriptAssetName i = id_AssetPrefix i @ ''.sh''"

section \<open>Releases\<close>

definition ChannelStable :: string where "ChannelStable = ''stable''"
definition ChannelRC :: string where "ChannelRC = ''rc''"
definition ChannelDev :: string where "ChannelDev = ''dev''"

lemmas channel_defs = ChannelStable_def ChannelRC_def ChannelDev_def

record Asset =
  as_Name :: string
  as_BrowserDownloadURL :: string
  as_Size :: int

record Release =
  rl_APIURL :: string
  rl_HTMLURL :: string
  rl_TagName :: string
  rl_Body :: string
  rl_TargetCommitish :: string
  rl_Draft :: bool
  rl_Prerelease :: bool
  rl_Assets :: "Asset list"

record Provider =
  pv_Identity :: Identity
  pv_APIBaseURL :: string
  pv_WebBaseURL :: string
  pv_AssetBaseURL :: string

record http_response =
  hr_url :: "string option"
  hr_status :: int
  hr_body :: string
  hr_read_error :: bool

record url_parts =
  up_Scheme :: string
  up_Host :: string
  up_Path :: string

record release_env =
  re_http :: "string \<Rightarrow> http_response res"
  re_parse_url :: "string \<Rightarrow> url_parts option"
  re_decode_release :: "string \<Rightarrow> Release option"
  re_decode_releases :: "string \<Rightarrow> Release list option"
  re_sha256 :: "string \<Rightarrow> string"

definition NewProvider :: "Identity \<Rightarrow> Provider" where
  "NewProvider i = \<lparr>pv_Identity = i, pv_APIBaseURL = APIRepositoryURL i, pv_WebBaseURL = WebRepositoryURL i,
     pv_AssetBaseURL = WebRepositoryURL i\<rparr>"

text \<open>\<open>strings.TrimRight(s, "/")\<close> and \<open>url.PathEscape\<close>.\<close>

definition trim_slash :: "string \<Rightarrow> string" where
  "trim_slash s = rev (dropWhile (\<lambda>c. c = CHR ''/'') (rev s))"

definition hex_upper :: "nat \<Rightarrow> char" where
  "hex_upper n = char_of (if n < 10 then 48 + n else 55 + n)"

definition path_char :: "char \<Rightarrow> bool" where
  "path_char c \<longleftrightarrow> identifier_char c \<or> c \<in> set ''_.~$&+=:@''"

definition path_escape :: "string \<Rightarrow> string" where
  "path_escape s =
     concat (map (\<lambda>c. if path_char c then [c]
                      else [CHR ''%'', hex_upper (of_char c div 16), hex_upper (of_char c mod 16)]) s)"

definition releaseURL :: "Provider \<Rightarrow> string \<Rightarrow> string res" where
  "releaseURL p channel =
     (if channel = ChannelStable then Inr (trim_slash (pv_APIBaseURL p) @ ''/releases/latest'')
      else if channel = ChannelRC then Inr (trim_slash (pv_APIBaseURL p) @ ''/releases?per_page=100'')
      else if channel = ChannelDev
      then Inr (trim_slash (pv_APIBaseURL p) @ ''/releases/tags/'' @ path_escape (id_DevReleaseTag (pv_Identity p)))
      else Inl (Err ''unsupported release channel''))"

definition trustedReleaseAPIURL :: "release_env \<Rightarrow> string \<Rightarrow> string \<Rightarrow> bool" where
  "trustedReleaseAPIURL env rawURL baseURL =
     (case re_parse_url env rawURL of
        None \<Rightarrow> False
      | Some raw \<Rightarrow>
         (case re_parse_url env (trim_slash baseURL) of
            None \<Rightarrow> False
          | Some base \<Rightarrow>
             (if up_Scheme raw \<noteq> up_Scheme base \<or> up_Host raw \<noteq> up_Host base then False
              else let releasesPath = trim_slash (up_Path base) @ ''/releases''
                   in up_Path raw = releasesPath \<or> has_prefix (releasesPath @ ''/'') (up_Path raw))))"

text \<open>
  The two patterns, \<open>^v[0-9]+\.[0-9]+\.[0-9]+$\<close> and the same followed by \<open>-rc\.[1-9][0-9]*\<close>: neither
  class contains a dot, so the pieces between the dots are determined.
\<close>

definition stableTag :: "string \<Rightarrow> bool" where
  "stableTag tag \<longleftrightarrow>
     has_prefix ''v'' tag \<and>
     (case split_on (CHR ''.'') (drop 1 tag) of
        [a, b, c] \<Rightarrow> isNumericIdentifier a \<and> isNumericIdentifier b \<and> isNumericIdentifier c
      | _ \<Rightarrow> False)"

definition rcTag :: "string \<Rightarrow> bool" where
  "rcTag tag \<longleftrightarrow>
     has_prefix ''v'' tag \<and>
     (case split_on (CHR ''.'') (drop 1 tag) of
        [a, b, c, n] \<Rightarrow>
          isNumericIdentifier a \<and> isNumericIdentifier b \<and>
          has_suffix ''-rc'' c \<and> isNumericIdentifier (take (length c - 3) c) \<and>
          isNumericIdentifier n \<and> hd n \<noteq> CHR ''0''
      | _ \<Rightarrow> False)"

definition isApprovedRCTag :: "string \<Rightarrow> bool" where
  "isApprovedRCTag tag =
     (if \<not> rcTag tag then False
      else case ParseReleaseTag tag of
             Inl _ \<Rightarrow> False
           | Inr candidate \<Rightarrow>
              (if length (v_Prerelease candidate) \<noteq> 2 \<or> vi_Value (v_Prerelease candidate ! 0) \<noteq> ''rc'' \<or>
                  \<not> vi_Numeric (v_Prerelease candidate ! 1) then False
               else case ParseVersion ForkVersion of
                      Inl _ \<Rightarrow> False
                    | Inr base \<Rightarrow>
                       (if v_Prerelease base \<noteq> [] then False
                        else v_Major candidate = v_Major base \<and> v_Minor candidate = v_Minor base \<and>
                             v_Patch candidate = v_Patch base)))"

definition channel_accepts :: "Provider \<Rightarrow> Release \<Rightarrow> string \<Rightarrow> unit res" where
  "channel_accepts p r channel =
     (if channel = ChannelStable
      then (if rl_Prerelease r then Inl (Err ''stable channel refuses prerelease'')
            else if \<not> stableTag (rl_TagName r) then Inl (Err ''stable release tag is not vMAJOR.MINOR.PATCH'')
            else case ParseReleaseTag (rl_TagName r) of
                   Inl _ \<Rightarrow> Inl (Err ''stable release tag is malformed'') | Inr _ \<Rightarrow> Inr ())
      else if channel = ChannelRC
      then (if \<not> rl_Prerelease r then Inl (Err ''RC channel requires prerelease'')
            else if \<not> isApprovedRCTag (rl_TagName r) then Inl (Err ''RC release tag is not an approved CatX RC tag'')
            else Inr ())
      else if channel = ChannelDev
      then (if rl_TagName r \<noteq> id_DevReleaseTag (pv_Identity p) then Inl (Err ''dev release tag does not match'')
            else if \<not> rl_Prerelease r then Inl (Err ''dev release must be marked prerelease'')
            else Inr ())
      else Inl (Err ''unsupported release channel''))"

definition ValidateRelease :: "release_env \<Rightarrow> Provider \<Rightarrow> Release option \<Rightarrow> string \<Rightarrow> unit res" where
  "ValidateRelease env p ro channel =
     (case ro of
        None \<Rightarrow> Inl (Err ''release metadata is nil'')
      | Some r \<Rightarrow>
         (if rl_Draft r then Inl (Err ''refusing draft release'')
          else bind_res (channel_accepts p r channel) (\<lambda>_.
            if \<not> trustedReleaseAPIURL env (rl_APIURL r) (pv_APIBaseURL p)
            then Inl (Err ''release API URL is outside trusted repository'')
            else if rl_HTMLURL r \<noteq> trim_slash (pv_WebBaseURL p) @ ''/releases/tag/'' @ path_escape (rl_TagName r)
            then Inl (Err ''release page is outside trusted repository'')
            else Inr ())))"

text \<open>The loop of \<open>selectRCRelease\<close>, one turn per release with the one selected so far.\<close>

definition select_step :: "release_env \<Rightarrow> Provider \<Rightarrow> Release option \<Rightarrow> Release \<Rightarrow> Release option" where
  "select_step env p selected r =
     (case ValidateRelease env p (Some r) ChannelRC of
        Inl _ \<Rightarrow> selected
      | Inr _ \<Rightarrow>
         (case CompareVersionStrings (rl_TagName r) RCReleaseTag of (comparison, ok1) \<Rightarrow>
            if \<not> ok1 \<or> comparison < 0 then selected
            else case selected of
                   None \<Rightarrow> Some r
                 | Some s \<Rightarrow>
                    (case CompareVersionStrings (rl_TagName r) (rl_TagName s) of (comparison, ok2) \<Rightarrow>
                       if ok2 \<and> comparison > 0 then Some r else Some s)))"

definition selectRCRelease :: "release_env \<Rightarrow> Provider \<Rightarrow> Release list \<Rightarrow> Release res" where
  "selectRCRelease env p releases =
     (case foldl (select_step env p) None releases of
        None \<Rightarrow> Inl (Err ''no approved CatX RC release'') | Some r \<Rightarrow> Inr r)"

text \<open>\<open>io.LimitReader\<close>.\<close>

definition limited :: "int \<Rightarrow> string \<Rightarrow> string" where
  "limited n s = (if int (length s) \<le> n then s else take (nat n) s)"

definition Fetch :: "release_env \<Rightarrow> Provider \<Rightarrow> string \<Rightarrow> Release res" where
  "Fetch env p channel =
     bind_res (releaseURL p channel) (\<lambda>endpoint.
     bind_res (re_http env endpoint) (\<lambda>resp.
     if (case hr_url resp of None \<Rightarrow> True | Some u \<Rightarrow> \<not> trustedReleaseAPIURL env u (pv_APIBaseURL p))
     then Inl (Err ''release provider redirected outside trusted repository'')
     else if hr_status resp \<noteq> 200 then Inl (Err ''release provider returned HTTP status'')
     else let body = limited 2097152 (hr_body resp) in
       if channel = ChannelRC
       then (case re_decode_releases env body of
               None \<Rightarrow> Inl (Err ''decode RC release metadata'')
             | Some releases \<Rightarrow> selectRCRelease env p releases)
       else (case re_decode_release env body of
               None \<Rightarrow> Inl (Err ''decode release metadata'')
             | Some r \<Rightarrow> bind_res (ValidateRelease env p (Some r) channel) (\<lambda>_. Inr r))))"

section \<open>Downloads\<close>

fun find_asset :: "Provider \<Rightarrow> string \<Rightarrow> string \<Rightarrow> Asset option \<Rightarrow> Asset list \<Rightarrow> Asset res" where
  "find_asset p tag name found [] =
     (case found of Some a \<Rightarrow> Inr a | None \<Rightarrow> Inl (Err ''release does not contain required asset''))"
| "find_asset p tag name found (a # assets) =
     (if as_Name a \<noteq> name then find_asset p tag name found assets
      else if found \<noteq> None then Inl (Err ''release contains duplicate asset'')
      else if as_BrowserDownloadURL a \<noteq>
          trim_slash (pv_AssetBaseURL p) @ ''/releases/download/'' @ path_escape tag @ ''/'' @ path_escape name
      then Inl (Err ''asset is outside trusted repository'')
      else if as_Size a \<le> 0 then Inl (Err ''asset has invalid size'')
      else find_asset p tag name (Some a) assets)"

definition FindAsset :: "Provider \<Rightarrow> Release option \<Rightarrow> string \<Rightarrow> Asset res" where
  "FindAsset p ro name =
     (case ro of None \<Rightarrow> Inl (Err ''release metadata is nil'')
      | Some r \<Rightarrow> find_asset p (rl_TagName r) name None (rl_Assets r))"

definition download :: "release_env \<Rightarrow> Asset \<Rightarrow> int \<Rightarrow> string res" where
  "download env a maxBytes =
     (if as_Size a > maxBytes then Inl (Err ''asset exceeds bytes'')
      else bind_res (re_http env (as_BrowserDownloadURL a)) (\<lambda>resp.
        if hr_status resp \<noteq> 200 then Inl (Err ''download returned HTTP status'')
        else if hr_read_error resp then Inl (Err ''read'')
        else let data = limited (add64 maxBytes 1) (hr_body resp) in
          if int (length data) > maxBytes then Inl (Err ''asset exceeds bytes'')
          else if data = [] then Inl (Err ''asset is empty'')
          else Inr data))"

text \<open>\<open>hex.DecodeString\<close>.\<close>

definition hex_value :: "char \<Rightarrow> nat option" where
  "hex_value c =
     (if is_digit c then Some (digit_val c)
      else if CHR ''a'' \<le> c \<and> c \<le> CHR ''f'' then Some (of_char c - 87)
      else if CHR ''A'' \<le> c \<and> c \<le> CHR ''F'' then Some (of_char c - 55)
      else None)"

fun hex_decode :: "string \<Rightarrow> string option" where
  "hex_decode [] = Some []"
| "hex_decode [_] = None"
| "hex_decode (a # b # s) =
     (case (hex_value a, hex_value b, hex_decode s) of
        (Some x, Some y, Some t) \<Rightarrow> Some (char_of (16 * x + y) # t)
      | _ \<Rightarrow> None)"

definition VerifySHA256 :: "release_env \<Rightarrow> string \<Rightarrow> string \<Rightarrow> string \<Rightarrow> unit res" where
  "VerifySHA256 env assetName payload checksumFile =
     (let line = trim_space checksumFile in
      if contains_str line_feed line \<or> contains_str [CHR 0x0D] line
      then Inl (Err ''checksum must contain exactly one record'')
      else let fields = str_fields line in
        if length fields \<noteq> 2 \<or> fields ! 1 \<noteq> assetName then Inl (Err ''checksum record must name the asset'')
        else case hex_decode (fields ! 0) of
               None \<Rightarrow> Inl (Err ''checksum is not a valid SHA-256 digest'')
             | Some expected \<Rightarrow>
                (if length expected \<noteq> 32 then Inl (Err ''checksum is not a valid SHA-256 digest'')
                 else if expected \<noteq> re_sha256 env payload then Inl (Err ''checksum mismatch'')
                 else Inr ()))"

definition DownloadVerified :: "release_env \<Rightarrow> Provider \<Rightarrow> Release option \<Rightarrow> string \<Rightarrow> int \<Rightarrow> string res" where
  "DownloadVerified env p ro assetName maxBytes =
     (if maxBytes \<le> 0 then Inl (Err ''maximum payload size must be positive'')
      else bind_res (FindAsset p ro assetName) (\<lambda>asset.
      bind_res (FindAsset p ro (assetName @ ''.sha256'')) (\<lambda>checksum.
      bind_res (download env asset maxBytes) (\<lambda>payload.
      bind_res (download env checksum 4096) (\<lambda>sums.
      bind_res (VerifySHA256 env assetName payload sums) (\<lambda>_. Inr payload))))))"

text \<open>The embedded identity parses, so the package starts.\<close>

lemma embedded_identity:
  "mustParseIdentity identityEnv = Inr \<lparr>id_ProductName = ''CatX-UI'', id_ReleaseOwner = ''CatCodeArbelin'',
     id_ReleaseRepository = ''CatX-UI'', id_AssetPrefix = ''catx-ui'', id_DevReleaseTag = ''dev-latest'',
     id_BundledXrayVersion = ''26.9.30''\<rparr>"
  by code_simp

section \<open>What is accepted\<close>

text \<open>A release the RC channel may pick: valid, and not older than the running one.\<close>

definition rc_candidate :: "release_env \<Rightarrow> Provider \<Rightarrow> Release \<Rightarrow> bool" where
  "rc_candidate env p r \<longleftrightarrow>
     ok (ValidateRelease env p (Some r) ChannelRC) \<and> ok (ParseVersion (rl_TagName r)) \<and>
     semver_key (projr (ParseVersion RCReleaseTag)) \<le> semver_key (projr (ParseVersion (rl_TagName r)))"

abbreviation release_key :: "Release \<Rightarrow> int \<times> int \<times> int \<times> bool \<times> ident list" where
  "release_key r \<equiv> semver_key (projr (ParseVersion (rl_TagName r)))"

lemma RCReleaseTag_parsed: "ok (ParseVersion RCReleaseTag)"
  by code_simp

lemma CompareVersionStrings_cmp:
  "CompareVersionStrings a b = (if ok (ParseVersion a) \<and> ok (ParseVersion b)
     then (cmp (semver_key (projr (ParseVersion a))) (semver_key (projr (ParseVersion b))), True) else (0, False))"
proof (cases "ParseVersion a"; cases "ParseVersion b")
  fix x y assume "ParseVersion a = Inr x" "ParseVersion b = Inr y"
  then show ?thesis
    by (simp add: CompareVersionStrings_def CompareVersions_cmp(1)[OF ParseVersion_ok ParseVersion_ok])
qed (auto simp: CompareVersionStrings_def)

lemma cmp_sign: "cmp a b < 0 \<longleftrightarrow> a < b" "0 < cmp a b \<longleftrightarrow> b < a"
  by (auto simp: cmp_def)

lemma select_step_eq:
  "select_step env p selected r =
     (if \<not> rc_candidate env p r then selected
      else case selected of None \<Rightarrow> Some r
           | Some s \<Rightarrow> if ok (ParseVersion (rl_TagName s)) \<and> release_key s < release_key r then Some r else Some s)"
  using RCReleaseTag_parsed
  by (auto simp: select_step_def rc_candidate_def CompareVersionStrings_cmp cmp_sign not_less
      split: sum.splits option.splits prod.splits)

text \<open>What the loop has selected after a prefix of the list.\<close>

definition best_rc :: "release_env \<Rightarrow> Provider \<Rightarrow> Release list \<Rightarrow> Release option \<Rightarrow> bool" where
  "best_rc env p releases selected \<longleftrightarrow>
     (case selected of
        None \<Rightarrow> \<forall>r \<in> set releases. \<not> rc_candidate env p r
      | Some s \<Rightarrow> s \<in> set releases \<and> rc_candidate env p s \<and>
          (\<forall>r \<in> set releases. rc_candidate env p r \<longrightarrow> release_key r \<le> release_key s))"

lemma foldl_best: "best_rc env p releases (foldl (select_step env p) None releases)"
proof (induction releases rule: rev_induct)
  case Nil
  show ?case by (simp add: best_rc_def)
next
  case (snoc r releases)
  then show ?case
    by (auto simp: best_rc_def select_step_eq rc_candidate_def not_less split: option.splits if_splits)
qed

text \<open>What validation guarantees of a release.\<close>

definition trusted_release :: "release_env \<Rightarrow> Provider \<Rightarrow> string \<Rightarrow> Release \<Rightarrow> bool" where
  "trusted_release env p channel r \<longleftrightarrow>
     \<not> rl_Draft r \<and> trustedReleaseAPIURL env (rl_APIURL r) (pv_APIBaseURL p) \<and>
     rl_HTMLURL r = trim_slash (pv_WebBaseURL p) @ ''/releases/tag/'' @ path_escape (rl_TagName r) \<and>
     (channel = ''stable'' \<and> \<not> rl_Prerelease r \<and> stableTag (rl_TagName r) \<and> ok (ParseVersion (rl_TagName r)) \<or>
      channel = ''rc'' \<and> rl_Prerelease r \<and> isApprovedRCTag (rl_TagName r) \<or>
      channel = ''dev'' \<and> rl_Prerelease r \<and> rl_TagName r = id_DevReleaseTag (pv_Identity p))"

lemma ValidateRelease_trusted: "ValidateRelease env p (Some r) channel = Inr () \<Longrightarrow> trusted_release env p channel r"
  by (auto simp: ValidateRelease_def trusted_release_def channel_accepts_def channel_defs ParseReleaseTag_def stableTag_def
      elim!: bind_resE split: if_splits sum.splits)

lemma ok_unit: "ok (x :: unit res) \<longleftrightarrow> x = Inr ()"
  by (cases x) auto


definition sample_identity :: Identity where
  "sample_identity = \<lparr>id_ProductName = ''P'', id_ReleaseOwner = ''o'', id_ReleaseRepository = ''r'', id_AssetPrefix = ''p'',
     id_DevReleaseTag = ''d'', id_BundledXrayVersion = ''1''\<rparr>"

definition rc_release :: "string \<Rightarrow> Release" where
  "rc_release tag = \<lparr>rl_APIURL = ''api'', rl_HTMLURL = WebRepositoryURL sample_identity @ ''/releases/tag/'' @ tag,
     rl_TagName = tag, rl_Body = [], rl_TargetCommitish = [], rl_Draft = False, rl_Prerelease = True,
     rl_Assets = [\<lparr>as_Name = ''a'', as_BrowserDownloadURL = WebRepositoryURL sample_identity @ ''/releases/download/'' @ tag @ ''/a'', as_Size = 2\<rparr>,
       \<lparr>as_Name = ''a.sha256'', as_BrowserDownloadURL = WebRepositoryURL sample_identity @ ''/releases/download/'' @ tag @ ''/a.sha256'', as_Size = 66\<rparr>]\<rparr>"

text \<open>A repository with three candidates of which the third is a draft of a later number.\<close>

definition sample_release_env :: release_env where
  "sample_release_env = \<lparr>re_http = (\<lambda>u. Inr \<lparr>hr_url = Some ''api'', hr_status = 200,
       hr_body = (if has_suffix ''.sha256'' u then concat (replicate 32 ''41'') @ ''  a'' else ''hi''), hr_read_error = False\<rparr>),
     re_parse_url = (\<lambda>u. Some \<lparr>up_Scheme = ''https'', up_Host = ''h'', up_Path = (if u = ''api'' then ''/r/releases/1'' else ''/r'')\<rparr>),
     re_decode_release = (\<lambda>b. Some (rc_release ''v0.2.0-rc.2'')),
     re_decode_releases = (\<lambda>b. Some [rc_release ''v0.2.0-rc.9'', rc_release ''v0.2.0-rc.10'',
        (rc_release ''v0.2.0-rc.11'')\<lparr>rl_Draft := True\<rparr>, rc_release ''v0.3.0-rc.12'']),
     re_sha256 = (\<lambda>s. replicate 32 (CHR ''A''))\<rparr>"


section \<open>What is downloaded\<close>

lemma find_asset_ok:
  assumes "find_asset p tag name found assets = Inr a"
  shows "found = Some a \<and> (\<forall>x \<in> set assets. as_Name x \<noteq> name) \<or>
    found = None \<and> filter (\<lambda>x. as_Name x = name) assets = [a] \<and> 0 < as_Size a \<and>
    as_BrowserDownloadURL a = trim_slash (pv_AssetBaseURL p) @ ''/releases/download/'' @ path_escape tag @ ''/'' @ path_escape name"
  using assms
proof (induction p tag name found assets rule: find_asset.induct)
  case (2 p tag name found x assets)
  then show ?case by (cases "as_Name x = name") (auto simp: filter_empty_conv split: if_splits)
qed (auto split: option.splits)

lemma FindAsset_ok:
  assumes "FindAsset p (Some r) name = Inr a"
  shows "filter (\<lambda>x. as_Name x = name) (rl_Assets r) = [a]" "0 < as_Size a"
    "as_BrowserDownloadURL a =
       trim_slash (pv_AssetBaseURL p) @ ''/releases/download/'' @ path_escape (rl_TagName r) @ ''/'' @ path_escape name"
  using find_asset_ok[of p "rl_TagName r" name None "rl_Assets r" a] assms by (auto simp: FindAsset_def)

lemma download_ok:
  assumes "download env a maxBytes = Inr payload"
  shows "payload \<noteq> [] \<and> int (length payload) \<le> maxBytes \<and>
    (\<exists>resp. re_http env (as_BrowserDownloadURL a) = Inr resp \<and> hr_status resp = 200 \<and> (maxBytes < max_int64 \<longrightarrow> hr_body resp = payload))"
proof -
  obtain resp where resp: "re_http env (as_BrowserDownloadURL a) = Inr resp" "hr_status resp = 200"
    and data: "payload = limited (add64 maxBytes 1) (hr_body resp)" "payload \<noteq> []" "int (length payload) \<le> maxBytes"
    using assms by (auto simp: download_def Let_def elim!: bind_resE split: if_splits)
  have "hr_body resp = payload" if "maxBytes < max_int64"
  proof (rule ccontr)
    assume neq: "hr_body resp \<noteq> payload"
    have pos: "0 < maxBytes" using data(2,3) by (cases payload) auto
    then have "add64 maxBytes 1 = maxBytes + 1" using that by (simp add: add64_def wrap64_def max_int64_def)
    then show False using data neq pos by (auto simp: limited_def split: if_splits)
  qed
  then show ?thesis using resp data by auto
qed

text \<open>C15: a verified download returns bytes of the one asset of that name at the pinned address, not
  empty and not longer than allowed, whose SHA-256 digest is the one that the single record of the
  one checksum asset states for that name.\<close>

theorem DownloadVerified_checked:
  assumes "DownloadVerified env p (Some r) name maxBytes = Inr payload"
  shows "payload \<noteq> [] \<and> int (length payload) \<le> maxBytes \<and>
    (\<exists>a c sums. filter (\<lambda>x. as_Name x = name) (rl_Assets r) = [a] \<and>
       filter (\<lambda>x. as_Name x = name @ ''.sha256'') (rl_Assets r) = [c] \<and>
       as_BrowserDownloadURL a =
         trim_slash (pv_AssetBaseURL p) @ ''/releases/download/'' @ path_escape (rl_TagName r) @ ''/'' @ path_escape name \<and>
       download env a maxBytes = Inr payload \<and> download env c 4096 = Inr sums \<and>
       str_fields (trim_space sums) ! 1 = name \<and> length (str_fields (trim_space sums)) = 2 \<and>
       hex_decode (str_fields (trim_space sums) ! 0) = Some (re_sha256 env payload))"
proof -
  obtain a c sums where a: "FindAsset p (Some r) name = Inr a" and c: "FindAsset p (Some r) (name @ ''.sha256'') = Inr c"
    and d: "download env a maxBytes = Inr payload" "download env c 4096 = Inr sums"
    and v: "VerifySHA256 env name payload sums = Inr ()"
    using assms by (auto simp: DownloadVerified_def elim!: bind_resE split: if_splits)
  have "str_fields (trim_space sums) ! 1 = name" "length (str_fields (trim_space sums)) = 2"
    "hex_decode (str_fields (trim_space sums) ! 0) = Some (re_sha256 env payload)"
    using v by (auto simp: VerifySHA256_def Let_def split: if_splits option.splits)
  then show ?thesis using FindAsset_ok[OF a] FindAsset_ok(1)[OF c] download_ok[OF d(1)] d by blast
qed

theorem DownloadVerified_checked_witness:
  "DownloadVerified sample_release_env (NewProvider sample_identity) (Some (rc_release ''v0.2.0-rc.2'')) ''a'' 16 = Inr ''hi'' \<and>
   (\<exists>c. filter (\<lambda>x. as_Name x = ''a.sha256'') (rl_Assets (rc_release ''v0.2.0-rc.2'')) = [c])"
proof -
  have "DownloadVerified sample_release_env (NewProvider sample_identity) (Some (rc_release ''v0.2.0-rc.2'')) ''a'' 16 = Inr ''hi''"
    by code_simp
  then show ?thesis using DownloadVerified_checked[of sample_release_env "NewProvider sample_identity" "rc_release ''v0.2.0-rc.2''" "''a''" 16 "''hi''"]
    by auto
qed

end
