(* ===== verification/Fleet_Update.thy ===== *)
theory Fleet_Update
  imports Store Release_Provider
begin

text \<open>
  Staged updates of the managed nodes, \<open>src/internal/forkext/fleetupdate\<close>: a campaign snapshots a
  release and a list of target nodes; every reconciliation moves its targets through dispatch,
  restart, health check and soak, within a canary, batch and parallelism window.

  The state is \<open>fleet_db\<close>: campaigns, targets, the panel's nodes, the key sequence of the
  database and which tables fail. Times are nanoseconds of the Unix clock, which stands still during one
  call; a zero or NULL time is \<open>None\<close>. The columns \<open>created_at\<close> and \<open>updated_at\<close>, which nothing reads, and
  the audit events, whose outcome is discarded, are left out. The executor, which talks to the
  nodes, is a parameter: its answers may depend on all calls made so far (\<open>fleet_call\<close>), which the
  model records. A call that runs to its end is one step; the leases protect against crashed and
  concurrent workers and are modelled as columns.
\<close>

section \<open>Rows, requests and answers\<close>

definition StatePending :: string where "StatePending = ''pending''"
definition StatePreflight :: string where "StatePreflight = ''preflight''"
definition StateReady :: string where "StateReady = ''ready''"
definition StateBlocked :: string where "StateBlocked = ''blocked''"
definition StateDispatching :: string where "StateDispatching = ''dispatching''"
definition StateWaitingRestart :: string where "StateWaitingRestart = ''waiting_restart''"
definition StateHealthCheck :: string where "StateHealthCheck = ''health_check''"
definition StateSoaking :: string where "StateSoaking = ''soaking''"
definition StateSucceeded :: string where "StateSucceeded = ''succeeded''"
definition StateFailed :: string where "StateFailed = ''failed''"
definition StateAborted :: string where "StateAborted = ''aborted''"
definition StateUnknown :: string where "StateUnknown = ''unknown''"

lemmas fleet_states = StatePending_def StatePreflight_def StateReady_def StateBlocked_def StateDispatching_def
  StateWaitingRestart_def StateHealthCheck_def StateSoaking_def StateSucceeded_def StateFailed_def
  StateAborted_def StateUnknown_def

record campaign =
  uc_ID :: nat
  uc_Name :: string
  uc_Channel :: string
  uc_ReleaseTag :: string
  uc_ReleaseAPIURL :: string
  uc_ReleaseHTMLURL :: string
  uc_DryRun :: bool
  uc_CanaryCount :: int
  uc_BatchSize :: int
  uc_MaxParallel :: int
  uc_HealthTimeoutSecs :: int
  uc_SoakSeconds :: int
  uc_StopOnFailure :: bool
  uc_MutationAuthorized :: bool
  uc_State :: string
  uc_Error :: string
  uc_LeaseOwner :: string
  uc_LeaseUntil :: "int option"
  uc_Revision :: int

record target =
  ut_ID :: nat
  ut_CampaignID :: nat
  ut_NodeID :: int
  ut_NodeGuid :: string
  ut_NodeName :: string
  ut_NodeAddress :: string
  ut_NodePort :: int
  ut_NodeScheme :: string
  ut_InitialVersion :: string
  ut_State :: string
  ut_BlockedReason :: string
  ut_Error :: string
  ut_ObservedVersion :: string
  ut_ObservedStatus :: string
  ut_ObservedXray :: string
  ut_DispatchKey :: string
  ut_DispatchEvidence :: string
  ut_RunID :: string
  ut_DispatchStatus :: string
  ut_UpdateState :: string
  ut_UpdateExitCode :: "int option"
  ut_UpdateFinishedAt :: int
  ut_RolledBack :: bool
  ut_RollbackHealthy :: bool
  ut_SoakStartedAt :: "int option"
  ut_LeaseOwner :: string
  ut_LeaseUntil :: "int option"
  ut_Attempts :: int
  ut_DispatchAt :: "int option"

text \<open>The columns of \<open>model.Node\<close> that \<open>nodeSnapshot\<close> reads.\<close>

record node_row =
  nd_Id :: int
  nd_Guid :: string
  nd_Name :: string
  nd_Address :: string
  nd_Port :: int
  nd_Scheme :: string
  nd_Enable :: bool
  nd_Status :: string
  nd_LastHeartbeat :: int
  nd_PanelVersion :: string
  nd_XrayState :: string

record ReleaseSnapshot =
  rs_Channel :: string
  rs_Tag :: string
  rs_APIURL :: string
  rs_HTMLURL :: string
  rs_ChecksumVerified :: bool

record NodeSnapshot =
  ns_ID :: int
  ns_Guid :: string
  ns_Name :: string
  ns_Address :: string
  ns_Port :: int
  ns_Scheme :: string
  ns_Enabled :: bool
  ns_Transitive :: bool
  ns_Status :: string
  ns_LastHeartbeat :: int
  ns_PanelVersion :: string
  ns_XrayState :: string
  ns_ExpectedRunID :: string

record PlanRequest =
  pr_Name :: string
  pr_Channel :: string
  pr_NodeIDs :: "int list"
  pr_DryRun :: bool
  pr_CanaryCount :: int
  pr_BatchSize :: int
  pr_MaxParallel :: int
  pr_HealthTimeoutSecs :: int
  pr_SoakSeconds :: int
  pr_StopOnFailure :: "bool option"
  pr_ConfirmProduction :: bool

record fleet_db =
  fd_campaigns :: "campaign list"
  fd_targets :: "target list"
  fd_nodes :: "node_row list"
  fd_next :: nat
  fd_down :: "string \<Rightarrow> bool"

definition campaigns_uniq :: "campaign list \<Rightarrow> bool" where
  "campaigns_uniq rows \<longleftrightarrow> True"

definition targets_uniq :: "target list \<Rightarrow> bool" where
  "targets_uniq rows \<longleftrightarrow> distinct (map (\<lambda>t. (ut_CampaignID t, ut_NodeID t)) rows) \<and> distinct (map ut_DispatchKey rows)"

interpretation campaigns: table uc_ID "\<lambda>n r. r\<lparr>uc_ID := n\<rparr>" campaigns_uniq
  by unfold_locales (auto simp: campaigns_uniq_def)

interpretation targets: table ut_ID "\<lambda>n r. r\<lparr>ut_ID := n\<rparr>" targets_uniq
  by unfold_locales (auto simp: targets_uniq_def distinct_map_filter)

section \<open>The executor\<close>

record PreflightResult =
  pf_Supported :: bool
  pf_Reason :: string

record DispatchResult =
  di_Evidence :: string
  di_RunID :: string
  di_Ambiguous :: bool

record ConvergenceResult =
  cv_FreshHeartbeat :: bool
  cv_PanelVersion :: string
  cv_NodeStatus :: string
  cv_XrayState :: string
  cv_RollbackEvidence :: string
  cv_RunID :: string
  cv_UpdateState :: string
  cv_ExitCode :: int
  cv_FinishedAt :: int
  cv_RolledBack :: bool
  cv_RollbackHealthy :: bool
  cv_UpdateEvidence :: bool

text \<open>The sentinels the service tests with \<open>errors.Is\<close>, each with the text of the error at hand.\<close>

datatype exec_error = MutationDisabledError string | AmbiguousDispatchError string | ExecError string

fun exec_text :: "exec_error \<Rightarrow> string" where
  "exec_text (MutationDisabledError s) = s"
| "exec_text (AmbiguousDispatchError s) = s"
| "exec_text (ExecError s) = s"

definition ErrMutationDisabled :: string where "ErrMutationDisabled = ''fleet update execution is disabled''"
definition ErrAmbiguousDispatch :: string where
  "ErrAmbiguousDispatch = ''update dispatch outcome is ambiguous; reconcile before retry''"
definition ErrMissingRunID :: string where "ErrMissingRunID = ''update dispatch did not return a run ID''"
definition ErrStaleStatus :: string where
  "ErrStaleStatus = ''node update status does not match the persisted run ID''"
definition ErrDisabled :: go_error where "ErrDisabled = Err ''fleet updates are disabled''"

datatype fleet_call =
    PreflightCall NodeSnapshot ReleaseSnapshot
  | DispatchCall NodeSnapshot ReleaseSnapshot
  | StatusCall NodeSnapshot ReleaseSnapshot

record update_executor =
  ex_Preflight :: "fleet_call list \<Rightarrow> NodeSnapshot \<Rightarrow> ReleaseSnapshot \<Rightarrow> PreflightResult \<times> exec_error option"
  ex_Dispatch :: "fleet_call list \<Rightarrow> NodeSnapshot \<Rightarrow> ReleaseSnapshot \<Rightarrow> DispatchResult \<times> exec_error option"
  ex_Reconcile :: "fleet_call list \<Rightarrow> NodeSnapshot \<Rightarrow> ReleaseSnapshot \<Rightarrow> ConvergenceResult \<times> exec_error option"

definition DisabledExecutor :: update_executor where
  "DisabledExecutor = \<lparr>
     ex_Preflight = (\<lambda>_ _ _. (\<lparr>pf_Supported = True, pf_Reason = []\<rparr>, None)),
     ex_Dispatch = (\<lambda>_ _ _. (\<lparr>di_Evidence = [], di_RunID = [], di_Ambiguous = False\<rparr>, Some (MutationDisabledError ErrMutationDisabled))),
     ex_Reconcile = (\<lambda>_ node _. (\<lparr>cv_FreshHeartbeat = ns_LastHeartbeat node > 0, cv_PanelVersion = ns_PanelVersion node,
        cv_NodeStatus = ns_Status node, cv_XrayState = ns_XrayState node, cv_RollbackEvidence = [], cv_RunID = [],
        cv_UpdateState = [], cv_ExitCode = 0, cv_FinishedAt = 0, cv_RolledBack = False, cv_RollbackHealthy = False,
        cv_UpdateEvidence = False\<rparr>, None))\<rparr>"

section \<open>The service\<close>

record fleet_service =
  fs_enabled :: bool
  fs_mutationEnabled :: bool

definition normalizeChannel :: "string \<Rightarrow> string" where
  "normalizeChannel c = (if c = ChannelDev \<or> c = ChannelRC then c else ChannelStable)"

definition plan_defaults :: "PlanRequest \<Rightarrow> PlanRequest" where
  "plan_defaults r = r\<lparr>
     pr_Name := (if pr_Name r = [] then ''Fleet update'' else pr_Name r),
     pr_Channel := normalizeChannel (pr_Channel r),
     pr_BatchSize := (if pr_BatchSize r \<le> 0 then 1 else pr_BatchSize r),
     pr_MaxParallel := (if pr_MaxParallel r \<le> 0 then 1 else pr_MaxParallel r),
     pr_HealthTimeoutSecs := (if pr_HealthTimeoutSecs r \<le> 0 then 300 else pr_HealthTimeoutSecs r),
     pr_SoakSeconds := (if pr_SoakSeconds r < 0 then 0 else pr_SoakSeconds r),
     pr_StopOnFailure := (case pr_StopOnFailure r of None \<Rightarrow> Some True | Some v \<Rightarrow> Some v)\<rparr>"

definition nodeSnapshot :: "node_row \<Rightarrow> NodeSnapshot" where
  "nodeSnapshot n = \<lparr>ns_ID = nd_Id n, ns_Guid = nd_Guid n, ns_Name = nd_Name n, ns_Address = nd_Address n,
     ns_Port = nd_Port n, ns_Scheme = nd_Scheme n, ns_Enabled = nd_Enable n, ns_Transitive = False,
     ns_Status = nd_Status n, ns_LastHeartbeat = nd_LastHeartbeat n, ns_PanelVersion = nd_PanelVersion n,
     ns_XrayState = nd_XrayState n, ns_ExpectedRunID = []\<rparr>"

text \<open>\<open>time.Since\<close>, which saturates, and the conversion of seconds to a duration, which wraps.\<close>

definition since :: "int \<Rightarrow> int \<Rightarrow> int" where
  "since now t = max (- 9223372036854775808) (min max_int64 (now - t))"

definition seconds :: "int \<Rightarrow> int" where
  "seconds n = mul64 n 1000000000"

definition fresh :: "int \<Rightarrow> NodeSnapshot \<Rightarrow> bool" where
  "fresh now n \<longleftrightarrow> ns_LastHeartbeat n > 0 \<and> since now (ns_LastHeartbeat n * 1000000000) \<le> 30 * 1000000000"

definition normalizedVersion :: "string \<Rightarrow> string" where
  "normalizedVersion v = trim_prefix ''v'' (trim_space v)"

definition sameVersion :: "string \<Rightarrow> string \<Rightarrow> bool" where
  "sameVersion a b \<longleftrightarrow> normalizedVersion a \<noteq> [] \<and> normalizedVersion a = normalizedVersion b"

definition eligibility :: "int \<Rightarrow> NodeSnapshot \<Rightarrow> ReleaseSnapshot \<Rightarrow> string" where
  "eligibility now n release =
     (if ns_ID n \<le> 0 \<or> ns_Transitive n then ''transitive_read_only''
      else if \<not> ns_Enabled n then ''disabled''
      else if ns_Status n = ''offline'' then ''offline''
      else if \<not> fresh now n then ''stale_heartbeat''
      else if ns_PanelVersion n = [] then ''unsupported''
      else if ns_XrayState n \<noteq> [] \<and> ns_XrayState n \<noteq> ''running'' \<and> ns_XrayState n \<noteq> ''healthy'' \<and> ns_XrayState n \<noteq> ''ok''
      then ''degraded''
      else if sameVersion (ns_PanelVersion n) (rs_Tag release) then ''already_current''
      else [])"

text \<open>\<open>ProviderResolver.Resolve\<close>: the release of the channel, whose update script must verify.\<close>

definition resolve_release :: "release_env \<Rightarrow> Provider \<Rightarrow> Identity \<Rightarrow> string \<Rightarrow> ReleaseSnapshot res" where
  "resolve_release env p current channel =
     (if channel \<noteq> ChannelStable \<and> channel \<noteq> ChannelDev \<and> channel \<noteq> ChannelRC
      then Inl (Err ''unsupported release channel'')
      else bind_res (Fetch env p channel) (\<lambda>release.
        case DownloadVerified env p (Some release) (UpdateScriptAssetName current) 16777216 of
          Inl _ \<Rightarrow> Inl (Err ''release checksum preflight'')
        | Inr _ \<Rightarrow> Inr \<lparr>rs_Channel = channel, rs_Tag = rl_TagName release, rs_APIURL = rl_APIURL release,
                        rs_HTMLURL = rl_HTMLURL release, rs_ChecksumVerified = True\<rparr>))"

section \<open>Planning\<close>

definition terminal :: "string \<Rightarrow> bool" where
  "terminal state \<longleftrightarrow> state = StateSucceeded \<or> state = StateFailed \<or> state = StateAborted \<or> state = StateBlocked"

definition concurrentNode :: "fleet_db \<Rightarrow> int \<Rightarrow> bool" where
  "concurrentNode db nid \<longleftrightarrow>
     \<not> fd_down db ''fork_update_campaign_targets'' \<and>
     list_ex (\<lambda>t. ut_NodeID t = nid \<and> ut_State t \<notin> {StateSucceeded, StateFailed, StateAborted, StateBlocked}) (fd_targets db)"

definition uniqueInts :: "int list \<Rightarrow> int list" where
  "uniqueInts xs = sort (remdups (filter (\<lambda>v. v > 0) xs))"

text \<open>\<open>Create\<close> stores the declared default in place of a zero value.\<close>

definition with_defaults :: "campaign \<Rightarrow> campaign" where
  "with_defaults c = c\<lparr>
     uc_BatchSize := (if uc_BatchSize c = 0 then 1 else uc_BatchSize c),
     uc_MaxParallel := (if uc_MaxParallel c = 0 then 1 else uc_MaxParallel c),
     uc_HealthTimeoutSecs := (if uc_HealthTimeoutSecs c = 0 then 300 else uc_HealthTimeoutSecs c),
     uc_StopOnFailure := (if uc_StopOnFailure c = False then True else uc_StopOnFailure c),
     uc_Revision := (if uc_Revision c = 0 then 1 else uc_Revision c)\<rparr>"

definition new_campaign :: "fleet_service \<Rightarrow> PlanRequest \<Rightarrow> ReleaseSnapshot \<Rightarrow> campaign" where
  "new_campaign s r release = \<lparr>uc_ID = 0, uc_Name = pr_Name r, uc_Channel = pr_Channel r, uc_ReleaseTag = rs_Tag release,
     uc_ReleaseAPIURL = rs_APIURL release, uc_ReleaseHTMLURL = rs_HTMLURL release, uc_DryRun = pr_DryRun r,
     uc_CanaryCount = pr_CanaryCount r, uc_BatchSize = pr_BatchSize r, uc_MaxParallel = pr_MaxParallel r,
     uc_HealthTimeoutSecs = pr_HealthTimeoutSecs r, uc_SoakSeconds = pr_SoakSeconds r,
     uc_StopOnFailure = (pr_StopOnFailure r = Some True),
     uc_MutationAuthorized = (\<not> pr_DryRun r \<and> fs_mutationEnabled s \<and> pr_ConfirmProduction r),
     uc_State = StatePreflight, uc_Error = [], uc_LeaseOwner = [], uc_LeaseUntil = None, uc_Revision = 1\<rparr>"

definition dispatch_key :: "nat \<Rightarrow> int \<Rightarrow> string" where
  "dispatch_key cid nid = nat_to_dec cid @ '':'' @ itoa nid"

definition empty_target :: "nat \<Rightarrow> int \<Rightarrow> target" where
  "empty_target cid nid = \<lparr>ut_ID = 0, ut_CampaignID = cid, ut_NodeID = nid, ut_NodeGuid = [], ut_NodeName = [],
     ut_NodeAddress = [], ut_NodePort = 0, ut_NodeScheme = [], ut_InitialVersion = [], ut_State = [],
     ut_BlockedReason = [], ut_Error = [], ut_ObservedVersion = [], ut_ObservedStatus = [], ut_ObservedXray = [],
     ut_DispatchKey = dispatch_key cid nid, ut_DispatchEvidence = [], ut_RunID = [], ut_DispatchStatus = [],
     ut_UpdateState = [], ut_UpdateExitCode = None, ut_UpdateFinishedAt = 0, ut_RolledBack = False,
     ut_RollbackHealthy = False, ut_SoakStartedAt = None, ut_LeaseOwner = [], ut_LeaseUntil = None,
     ut_Attempts = 0, ut_DispatchAt = None\<rparr>"

definition node_target :: "int \<Rightarrow> fleet_db \<Rightarrow> nat \<Rightarrow> ReleaseSnapshot \<Rightarrow> node_row \<Rightarrow> target" where
  "node_target now db cid release n =
     (let reason = (if concurrentNode db (nd_Id n) then ''concurrent_campaign'' else eligibility now (nodeSnapshot n) release)
      in (empty_target cid (nd_Id n))\<lparr>ut_NodeGuid := nd_Guid n, ut_NodeName := nd_Name n, ut_NodeAddress := nd_Address n,
           ut_NodePort := nd_Port n, ut_NodeScheme := nd_Scheme n, ut_InitialVersion := nd_PanelVersion n,
           ut_State := (if reason \<noteq> [] then StateBlocked else StateReady), ut_BlockedReason := reason,
           ut_ObservedVersion := nd_PanelVersion n, ut_ObservedStatus := nd_Status n, ut_ObservedXray := nd_XrayState n\<rparr>)"

definition missing_target :: "nat \<Rightarrow> int \<Rightarrow> target" where
  "missing_target cid nid = (empty_target cid nid)\<lparr>ut_State := StateBlocked, ut_BlockedReason := ''deleted''\<rparr>"

definition create_target :: "target \<Rightarrow> fleet_db \<Rightarrow> fleet_db res" where
  "create_target t db =
     bind_res (q_create (fd_down db ''fork_update_campaign_targets'') ut_ID (\<lambda>n r. r\<lparr>ut_ID := n\<rparr>) targets_uniq (fd_next db) t
        (fd_targets db)) (\<lambda>rows. Inr (db\<lparr>fd_targets := rows, fd_next := fd_next db + 1\<rparr>))"

text \<open>The loop that creates the targets; the first failure ends it and keeps what was created.\<close>

fun create_targets :: "target list \<Rightarrow> fleet_db \<Rightarrow> fleet_db \<times> go_error option" where
  "create_targets [] db = (db, None)"
| "create_targets (t # ts) db =
     (case create_target t db of Inl e \<Rightarrow> (db, Some e) | Inr db' \<Rightarrow> create_targets ts db')"

definition plan_targets :: "int \<Rightarrow> fleet_db \<Rightarrow> nat \<Rightarrow> ReleaseSnapshot \<Rightarrow> int list \<Rightarrow> node_row list \<Rightarrow> target list" where
  "plan_targets now db cid release ids nodes =
     map (node_target now db cid release) nodes @
     map (missing_target cid) (filter (\<lambda>i. i \<notin> nd_Id ` set nodes) (uniqueInts ids))"

definition Plan ::
  "int \<Rightarrow> fleet_service \<Rightarrow> (string \<Rightarrow> ReleaseSnapshot res) \<Rightarrow> PlanRequest \<Rightarrow> fleet_db
     \<Rightarrow> (campaign \<times> target list) res \<times> fleet_db" where
  "Plan now s resolver req db =
     (if \<not> fs_enabled s then (Inl ErrDisabled, db)
      else let r = plan_defaults req in
        if \<not> pr_DryRun r \<and> (\<not> fs_mutationEnabled s \<or> \<not> pr_ConfirmProduction r) then (Inl (Err ErrMutationDisabled), db)
        else case resolver (pr_Channel r) of
          Inl e \<Rightarrow> (Inl e, db)
        | Inr release \<Rightarrow>
        (case q_find (fd_down db ''nodes'') (\<lambda>n. nd_Id n > 0 \<and> (pr_NodeIDs r = [] \<or> nd_Id n \<in> set (pr_NodeIDs r))) (fd_nodes db) of
          Inl e \<Rightarrow> (Inl e, db)
        | Inr nodes \<Rightarrow>
        (let c = with_defaults (new_campaign s r release) in
         case q_create (fd_down db ''fork_update_campaigns'') uc_ID (\<lambda>n r. r\<lparr>uc_ID := n\<rparr>) campaigns_uniq (fd_next db)
                c (fd_campaigns db) of
          Inl e \<Rightarrow> (Inl e, db)
        | Inr rows \<Rightarrow>
        (let cid = fd_next db; db1 = db\<lparr>fd_campaigns := rows, fd_next := cid + 1\<rparr> in
         case create_targets (plan_targets now db1 cid release (pr_NodeIDs r) nodes) db1 of
           (db2, Some e) \<Rightarrow> (Inl e, db2)
         | (db2, None) \<Rightarrow>
             (Inr (c\<lparr>uc_ID := cid, uc_State := StateReady\<rparr>, filter (\<lambda>t. ut_CampaignID t = cid) (fd_targets db2)),
              db2\<lparr>fd_campaigns := map (\<lambda>c. if uc_ID c = cid then c\<lparr>uc_State := StateReady\<rparr> else c) (fd_campaigns db2)\<rparr>)))))"

definition Fleet_Get :: "fleet_service \<Rightarrow> nat \<Rightarrow> fleet_db \<Rightarrow> (campaign \<times> target list) res" where
  "Fleet_Get s cid db =
     (if \<not> fs_enabled s then Inl ErrDisabled
      else bind_res (q_first (fd_down db ''fork_update_campaigns'') (\<lambda>c. uc_ID c = cid) (fd_campaigns db)) (\<lambda>c.
           bind_res (q_find (fd_down db ''fork_update_campaign_targets'') (\<lambda>t. ut_CampaignID t = cid) (fd_targets db)) (\<lambda>ts.
           Inr (c, ts))))"

definition Fleet_List :: "fleet_service \<Rightarrow> fleet_db \<Rightarrow> campaign list res" where
  "Fleet_List s db =
     (if \<not> fs_enabled s then Inl ErrDisabled
      else bind_res (q_find (fd_down db ''fork_update_campaigns'') (\<lambda>c. True) (fd_campaigns db)) (\<lambda>cs. Inr (rev cs)))"

section \<open>Leases\<close>

definition lease_seconds :: int where "lease_seconds = 30 * 1000000000"

text \<open>\<open>lease_until IS NULL OR lease_until < now\<close>.\<close>

definition lease_free :: "int \<Rightarrow> int option \<Rightarrow> bool" where
  "lease_free now until = (case until of None \<Rightarrow> True | Some t \<Rightarrow> t < now)"

definition leaseExpired :: "int \<Rightarrow> int option \<Rightarrow> bool" where
  "leaseExpired now until = (case until of None \<Rightarrow> True | Some t \<Rightarrow> now > t)"

definition update_targets :: "(target \<Rightarrow> bool) \<Rightarrow> (target \<Rightarrow> target) \<Rightarrow> fleet_db \<Rightarrow> fleet_db" where
  "update_targets P f db = db\<lparr>fd_targets := map (\<lambda>t. if P t then f t else t) (fd_targets db)\<rparr>"

definition update_campaigns :: "(campaign \<Rightarrow> bool) \<Rightarrow> (campaign \<Rightarrow> campaign) \<Rightarrow> fleet_db \<Rightarrow> fleet_db" where
  "update_campaigns P f db = db\<lparr>fd_campaigns := map (\<lambda>c. if P c then f c else c) (fd_campaigns db)\<rparr>"

definition target_free :: "int \<Rightarrow> nat \<Rightarrow> string \<Rightarrow> target \<Rightarrow> bool" where
  "target_free now tid owner t \<longleftrightarrow> ut_ID t = tid \<and> (lease_free now (ut_LeaseUntil t) \<or> ut_LeaseOwner t = owner)"

definition acquireTarget :: "int \<Rightarrow> nat \<Rightarrow> string \<Rightarrow> fleet_db \<Rightarrow> bool \<times> fleet_db" where
  "acquireTarget now tid owner db =
     (if fd_down db ''fork_update_campaign_targets'' then (False, db)
      else (length (filter (target_free now tid owner) (fd_targets db)) = 1,
            update_targets (target_free now tid owner)
              (\<lambda>t. t\<lparr>ut_LeaseOwner := owner, ut_LeaseUntil := Some (now + lease_seconds)\<rparr>) db))"

definition saveTarget :: "target \<Rightarrow> fleet_db \<Rightarrow> target \<times> fleet_db" where
  "saveTarget t db =
     (let t' = t\<lparr>ut_LeaseOwner := [], ut_LeaseUntil := None\<rparr> in
      (t', if fd_down db ''fork_update_campaign_targets'' then db
           else update_targets (\<lambda>r. ut_ID r = ut_ID t') (\<lambda>_. t') db))"

definition campaign_free :: "int \<Rightarrow> nat \<Rightarrow> campaign \<Rightarrow> bool" where
  "campaign_free now cid c \<longleftrightarrow>
     uc_ID c = cid \<and> uc_State c \<notin> {StateSucceeded, StateFailed, StateAborted} \<and> lease_free now (uc_LeaseUntil c)"

definition acquireCampaign :: "int \<Rightarrow> nat \<Rightarrow> string \<Rightarrow> fleet_db \<Rightarrow> bool \<times> fleet_db" where
  "acquireCampaign now cid owner db =
     (if fd_down db ''fork_update_campaigns'' then (False, db)
      else (length (filter (campaign_free now cid) (fd_campaigns db)) = 1,
            update_campaigns (campaign_free now cid)
              (\<lambda>c. c\<lparr>uc_LeaseOwner := owner, uc_LeaseUntil := Some (now + lease_seconds)\<rparr>) db))"

definition clear_lease :: "campaign \<Rightarrow> campaign" where
  "clear_lease c = c\<lparr>uc_LeaseOwner := [], uc_LeaseUntil := None\<rparr>"

definition releaseCampaign :: "nat \<Rightarrow> string \<Rightarrow> fleet_db \<Rightarrow> fleet_db" where
  "releaseCampaign cid owner db =
     (if fd_down db ''fork_update_campaigns'' then db
      else update_campaigns (\<lambda>c. uc_ID c = cid \<and> uc_LeaseOwner c = owner) clear_lease db)"

section \<open>The window\<close>

definition activeTarget :: "string \<Rightarrow> bool" where
  "activeTarget state \<longleftrightarrow>
     state = StateDispatching \<or> state = StateWaitingRestart \<or> state = StateHealthCheck \<or> state = StateSoaking"

definition count_if :: "('a \<Rightarrow> bool) \<Rightarrow> 'a list \<Rightarrow> int" where
  "count_if P xs = int (length (filter P xs))"

definition dispatchAllowed :: "campaign \<Rightarrow> target list \<Rightarrow> nat \<Rightarrow> bool" where
  "dispatchAllowed c ts index =
     (if uc_StopOnFailure c \<and> list_ex (\<lambda>t. ut_State t = StateFailed) ts then False
      else let active = count_if (\<lambda>t. activeTarget (ut_State t)) ts;
               unknown = count_if (\<lambda>t. ut_State t = StateUnknown) ts;
               succeeded = count_if (\<lambda>t. ut_State t = StateSucceeded) ts;
               readyOrdinal = count_if (\<lambda>t. ut_State t = StateReady) (take (index + 1) ts);
               canary = (succeeded = 0 \<and> uc_CanaryCount c > 0);
               window = (if canary then uc_CanaryCount c else uc_BatchSize c)
           in if unknown > 0 then False
              else if active \<ge> uc_MaxParallel c then False
              else if canary \<and> active \<ge> uc_CanaryCount c then False
              else readyOrdinal \<le> (if window \<le> 0 then 1 else window))"

section \<open>One target\<close>

definition healthyConvergence :: "ConvergenceResult \<Rightarrow> ReleaseSnapshot \<Rightarrow> bool" where
  "healthyConvergence c release =
     (if \<not> cv_UpdateEvidence c \<or> cv_UpdateState c \<noteq> ''success'' \<or> cv_ExitCode c \<noteq> 0 \<or> cv_RolledBack c then False
      else if \<not> cv_FreshHeartbeat c \<or> \<not> sameVersion (cv_PanelVersion c) (rs_Tag release) then False
      else if cv_NodeStatus c \<noteq> ''online'' then False
      else cv_XrayState c = ''running'' \<or> cv_XrayState c = ''healthy'' \<or> cv_XrayState c = ''ok'')"

definition ambiguous :: "string \<Rightarrow> string \<Rightarrow> target \<Rightarrow> target" where
  "ambiguous evidence e t =
     t\<lparr>ut_State := StateUnknown, ut_DispatchStatus := ''ambiguous'', ut_DispatchEvidence := evidence, ut_Error := e\<rparr>"

definition dispatched :: "int \<Rightarrow> DispatchResult \<times> exec_error option \<Rightarrow> target \<Rightarrow> target" where
  "dispatched now answer t =
     (case answer of
        (dr, Some (MutationDisabledError e)) \<Rightarrow>
          t\<lparr>ut_State := StateBlocked, ut_BlockedReason := ''execution_disabled'', ut_Error := e\<rparr>
      | (dr, Some (AmbiguousDispatchError e)) \<Rightarrow> ambiguous (di_Evidence dr) e t
      | (dr, Some (ExecError e)) \<Rightarrow> t\<lparr>ut_State := StateFailed, ut_Error := e\<rparr>
      | (dr, None) \<Rightarrow>
          (if di_Ambiguous dr then ambiguous (di_Evidence dr) ErrAmbiguousDispatch t
           else if trim_space (di_RunID dr) = [] then ambiguous (di_Evidence dr) ErrMissingRunID t
           else t\<lparr>ut_DispatchAt := Some now, ut_DispatchEvidence := di_Evidence dr, ut_RunID := di_RunID dr,
                  ut_DispatchStatus := ''accepted'', ut_UpdateState := ''pending'', ut_State := StateWaitingRestart\<rparr>))"

text \<open>A target that waits for its dispatch: eligibility, preflight, dispatch.\<close>

definition start_target ::
  "int \<Rightarrow> update_executor \<Rightarrow> NodeSnapshot \<Rightarrow> ReleaseSnapshot \<Rightarrow> target \<Rightarrow> fleet_call list \<Rightarrow> target \<times> fleet_call list" where
  "start_target now ex ns rel t h =
     (let reason = eligibility now ns rel in
      if reason \<noteq> [] then (t\<lparr>ut_State := StateBlocked, ut_BlockedReason := reason\<rparr>, h)
      else let h1 = h @ [PreflightCall ns rel] in
        case ex_Preflight ex h ns rel of
          (pf, Some e) \<Rightarrow> (t\<lparr>ut_State := StateBlocked, ut_Error := exec_text e\<rparr>, h1)
        | (pf, None) \<Rightarrow>
           (if \<not> pf_Supported pf then (t\<lparr>ut_State := StateBlocked, ut_BlockedReason := pf_Reason pf\<rparr>, h1)
            else (dispatched now (ex_Dispatch ex h1 ns rel)
                    (t\<lparr>ut_State := StateDispatching, ut_Attempts := add64 (ut_Attempts t) 1\<rparr>),
                  h1 @ [DispatchCall ns rel])))"

definition observed :: "ConvergenceResult \<Rightarrow> target \<Rightarrow> target" where
  "observed conv t = t\<lparr>ut_ObservedVersion := cv_PanelVersion conv, ut_ObservedStatus := cv_NodeStatus conv,
     ut_ObservedXray := cv_XrayState conv, ut_UpdateState := cv_UpdateState conv,
     ut_UpdateExitCode := (if cv_ExitCode conv \<noteq> 0 then Some (cv_ExitCode conv) else ut_UpdateExitCode t),
     ut_UpdateFinishedAt := cv_FinishedAt conv, ut_RolledBack := cv_RolledBack conv,
     ut_RollbackHealthy := cv_RollbackHealthy conv\<rparr>"

definition soak :: "int \<Rightarrow> campaign \<Rightarrow> target \<Rightarrow> target" where
  "soak now c t =
     (let t = (if ut_State t \<noteq> StateSoaking then t\<lparr>ut_State := StateSoaking, ut_SoakStartedAt := Some now\<rparr> else t)
      in if uc_SoakSeconds c = 0 \<or> (case ut_SoakStartedAt t of None \<Rightarrow> False | Some t0 \<Rightarrow> since now t0 \<ge> seconds (uc_SoakSeconds c))
         then t\<lparr>ut_State := StateSucceeded\<rparr> else t)"

definition converged :: "int \<Rightarrow> campaign \<Rightarrow> ReleaseSnapshot \<Rightarrow> ConvergenceResult \<Rightarrow> target \<Rightarrow> target" where
  "converged now c rel conv t =
     (if cv_UpdateState conv = ''failed''
      then t\<lparr>ut_State := StateFailed, ut_DispatchStatus := ''completed'', ut_Error := ''node update failed''\<rparr>
      else if healthyConvergence conv rel then soak now c t
      else if (case ut_DispatchAt t of None \<Rightarrow> False | Some t0 \<Rightarrow> since now t0 \<ge> seconds (uc_HealthTimeoutSecs c))
      then t\<lparr>ut_State := StateFailed, ut_BlockedReason := ''health_timeout''\<rparr>
      else t\<lparr>ut_State := StateHealthCheck\<rparr>)"

definition follow_target ::
  "int \<Rightarrow> update_executor \<Rightarrow> campaign \<Rightarrow> NodeSnapshot \<Rightarrow> ReleaseSnapshot \<Rightarrow> target \<Rightarrow> fleet_call list \<Rightarrow> target \<times> fleet_call list" where
  "follow_target now ex c ns rel t h =
     ((case ex_Reconcile ex h ns rel of
         (conv, Some e) \<Rightarrow> t\<lparr>ut_Error := exec_text e, ut_State := StateUnknown\<rparr>
       | (conv, None) \<Rightarrow>
          (if trim_space (ut_RunID t) = [] \<or> cv_RunID conv \<noteq> ut_RunID t
           then t\<lparr>ut_State := StateUnknown, ut_Error := ErrStaleStatus\<rparr>
           else converged now c rel conv (observed conv t))),
      h @ [StatusCall ns rel])"

text \<open>The body of the loop, for the target at one index of the list that was read.\<close>

definition campaign_release :: "campaign \<Rightarrow> ReleaseSnapshot" where
  "campaign_release c = \<lparr>rs_Channel = uc_Channel c, rs_Tag = uc_ReleaseTag c, rs_APIURL = uc_ReleaseAPIURL c,
     rs_HTMLURL = uc_ReleaseHTMLURL c, rs_ChecksumVerified = True\<rparr>"

definition skip_target :: "campaign \<Rightarrow> target list \<Rightarrow> nat \<Rightarrow> bool" where
  "skip_target c ts i \<longleftrightarrow>
     (let t = ts ! i in
      terminal (ut_State t) \<or> ut_State t = StateReady \<and> \<not> dispatchAllowed c ts i \<or>
      ut_State t = StateUnknown \<and> trim_space (ut_RunID t) = [])"

definition process_target ::
  "int \<Rightarrow> update_executor \<Rightarrow> campaign \<Rightarrow> target \<Rightarrow> fleet_db \<Rightarrow> fleet_call list \<Rightarrow> (target \<times> bool) \<times> fleet_call list" where
  "process_target now ex c t db h =
     (case q_first (fd_down db ''nodes'') (\<lambda>n. nd_Id n = ut_NodeID t) (fd_nodes db) of
        Inl _ \<Rightarrow> ((t\<lparr>ut_State := StateBlocked, ut_BlockedReason := ''deleted''\<rparr>, True), h)
      | Inr n \<Rightarrow>
         (let ns = (nodeSnapshot n)\<lparr>ns_ExpectedRunID := ut_RunID t\<rparr>; rel = campaign_release c in
          if ut_State t = StateReady \<or> ut_State t = StatePreflight \<or> ut_State t = StatePending
          then (case start_target now ex ns rel t h of (t', h') \<Rightarrow> ((t', True), h'))
          else if ut_State t = StateUnknown \<or> ut_State t = StateDispatching \<or> ut_State t = StateWaitingRestart \<or>
                  ut_State t = StateHealthCheck \<or> ut_State t = StateSoaking
          then (case follow_target now ex c ns rel t h of (t', h') \<Rightarrow> ((t', True), h'))
          else ((t, False), h)))"

definition reconcile_target ::
  "int \<Rightarrow> string \<Rightarrow> update_executor \<Rightarrow> campaign \<Rightarrow> nat \<Rightarrow> target list \<times> fleet_db \<times> fleet_call list
     \<Rightarrow> target list \<times> fleet_db \<times> fleet_call list" where
  "reconcile_target now owner ex c i st =
     (case st of (ts, db, h) \<Rightarrow>
        if skip_target c ts i then (ts, db, h)
        else let t = ts ! i in
          case acquireTarget now (ut_ID t) owner db of
            (False, db1) \<Rightarrow> (ts, db1, h)
          | (True, db1) \<Rightarrow>
             (let t1 = (if leaseExpired now (ut_LeaseUntil t) \<and> activeTarget (ut_State t)
                        then t\<lparr>ut_State := StateUnknown\<rparr> else t)
              in case process_target now ex c t1 db1 h of
                   ((t2, True), h') \<Rightarrow> (case saveTarget t2 db1 of (t3, db2) \<Rightarrow> (ts[i := t3], db2, h'))
                 | ((t2, False), h') \<Rightarrow> (ts[i := t2], db1, h')))"

section \<open>Reconciliation\<close>

definition campaign_outcome :: "campaign \<Rightarrow> fleet_db \<Rightarrow> campaign" where
  "campaign_outcome c db =
     (let mine = filter (\<lambda>t. ut_CampaignID t = uc_ID c) (fd_targets db);
          remaining = count_if (\<lambda>t. ut_State t \<notin> {StateSucceeded, StateFailed, StateAborted, StateBlocked}) mine;
          failed = count_if (\<lambda>t. ut_State t = StateFailed) mine;
          blocked = count_if (\<lambda>t. ut_State t = StateBlocked) mine;
          c' = (if failed > 0 \<and> uc_StopOnFailure c then c\<lparr>uc_State := StateFailed, uc_Error := ''stopped on target failure''\<rparr>
                else if remaining = 0 \<and> blocked > 0 then c\<lparr>uc_State := StateBlocked\<rparr>
                else if remaining = 0 then c\<lparr>uc_State := StateSucceeded\<rparr>
                else c\<lparr>uc_State := StateReady\<rparr>)
      in c'\<lparr>uc_Revision := add64 (uc_Revision c) 1\<rparr>)"

definition Fleet_Reconcile ::
  "int \<Rightarrow> fleet_service \<Rightarrow> update_executor \<Rightarrow> nat \<Rightarrow> string \<Rightarrow> fleet_db \<times> fleet_call list
     \<Rightarrow> go_error option \<times> fleet_db \<times> fleet_call list" where
  "Fleet_Reconcile now s ex cid owner0 st =
     (case st of (db, h) \<Rightarrow>
      if \<not> fs_enabled s then (Some ErrDisabled, db, h)
      else let owner = (if owner0 = [] then ''fleet-worker'' else owner0); leaseOwner = owner @ ''-'' @ itoa now in
      case q_first (fd_down db ''fork_update_campaigns'') (\<lambda>c. uc_ID c = cid) (fd_campaigns db) of
        Inl e \<Rightarrow> (Some e, db, h)
      | Inr c0 \<Rightarrow>
        (if uc_State c0 \<in> {StateAborted, StateSucceeded, StateFailed} then (None, db, h)
         else case acquireCampaign now cid leaseOwner db of
           (False, db1) \<Rightarrow> (None, db1, h)
         | (True, db1) \<Rightarrow>
           (case q_first (fd_down db1 ''fork_update_campaigns'') (\<lambda>c. uc_ID c = cid) (fd_campaigns db1) of
              Inl e \<Rightarrow> (Some e, releaseCampaign cid leaseOwner db1, h)
            | Inr c \<Rightarrow>
              (if uc_DryRun c \<or> \<not> uc_MutationAuthorized c
               then (None, releaseCampaign cid leaseOwner
                       (update_campaigns (\<lambda>r. uc_ID r = cid \<and> uc_LeaseOwner r = leaseOwner)
                          (\<lambda>r. r\<lparr>uc_State := StateReady, uc_Revision := add64 (uc_Revision c) 1\<rparr>) db1), h)
               else case q_find (fd_down db1 ''fork_update_campaign_targets'') (\<lambda>t. ut_CampaignID t = cid) (fd_targets db1) of
                 Inl e \<Rightarrow> (Some e, releaseCampaign cid leaseOwner db1, h)
               | Inr ts \<Rightarrow>
                 (case fold (reconcile_target now owner ex c) [0..<length ts] (ts, db1, h) of
                    (ts', db2, h') \<Rightarrow>
                      (let c' = campaign_outcome c db2 in
                       (None, releaseCampaign cid leaseOwner
                          (update_campaigns (\<lambda>r. uc_ID r = cid \<and> uc_LeaseOwner r = leaseOwner)
                             (\<lambda>r. clear_lease (r\<lparr>uc_State := uc_State c', uc_Error := uc_Error c', uc_Revision := uc_Revision c'\<rparr>)) db2),
                        h')))))))"

definition Fleet_Abort :: "fleet_service \<Rightarrow> nat \<Rightarrow> fleet_db \<Rightarrow> go_error option \<times> fleet_db" where
  "Fleet_Abort s cid db =
     (if \<not> fs_enabled s then (Some ErrDisabled, db)
      else case q_first (fd_down db ''fork_update_campaigns'') (\<lambda>c. uc_ID c = cid) (fd_campaigns db) of
        Inl e \<Rightarrow> (Some e, db)
      | Inr c \<Rightarrow>
        (if terminal (uc_State c) \<and> uc_State c \<noteq> StateBlocked then (None, db)
         else let db1 = update_campaigns (\<lambda>r. uc_ID r = cid)
                          (\<lambda>_. c\<lparr>uc_State := StateAborted, uc_Revision := add64 (uc_Revision c) 1\<rparr>) db in
           if fd_down db ''fork_update_campaign_targets'' then (Some ErrDB, db1)
           else (None, update_targets (\<lambda>t. ut_CampaignID t = cid \<and> ut_State t \<notin> {StateSucceeded, StateFailed})
                         (\<lambda>t. t\<lparr>ut_State := StateAborted\<rparr>) db1)))"

definition Fleet_Retry :: "fleet_service \<Rightarrow> nat \<Rightarrow> fleet_db \<Rightarrow> go_error option \<times> fleet_db" where
  "Fleet_Retry s cid db =
     (if \<not> fs_enabled s then (Some ErrDisabled, db)
      else case q_first (fd_down db ''fork_update_campaigns'') (\<lambda>c. uc_ID c = cid) (fd_campaigns db) of
        Inl e \<Rightarrow> (Some e, db)
      | Inr c \<Rightarrow>
        (if uc_State c \<noteq> StateFailed \<and> uc_State c \<noteq> StateAborted \<and> uc_State c \<noteq> StateBlocked
         then (Some (Err ''campaign is not retryable''), db)
         else let db1 = update_campaigns (\<lambda>r. uc_ID r = cid) (\<lambda>_. c\<lparr>uc_State := StateReady, uc_Error := []\<rparr>) db in
           if fd_down db ''fork_update_campaign_targets'' then (Some ErrDB, db1)
           else (None, update_targets (\<lambda>t. ut_CampaignID t = cid \<and> ut_State t \<in> {StateFailed, StateAborted, StateBlocked})
                         (\<lambda>t. t\<lparr>ut_State := StateReady, ut_BlockedReason := [], ut_Error := [], ut_DispatchStatus := ''retry_requested''\<rparr>) db1)))"

text \<open>\<open>reconcileJob.Run\<close>, the periodic job: every campaign of the listing that may progress.\<close>

definition job_state :: "string \<Rightarrow> bool" where
  "job_state state \<longleftrightarrow>
     state \<in> {StateReady, StatePreflight, StateDispatching, StateHealthCheck, StateSoaking, StateUnknown}"

definition job_step ::
  "int \<Rightarrow> fleet_service \<Rightarrow> update_executor \<Rightarrow> campaign \<Rightarrow> fleet_db \<times> fleet_call list \<Rightarrow> fleet_db \<times> fleet_call list" where
  "job_step now s ex c st = (if job_state (uc_State c) then snd (Fleet_Reconcile now s ex (uc_ID c) ''scheduler'' st) else st)"

definition reconcileJob ::
  "int \<Rightarrow> fleet_service \<Rightarrow> update_executor \<Rightarrow> fleet_db \<times> fleet_call list \<Rightarrow> fleet_db \<times> fleet_call list" where
  "reconcileJob now s ex st =
     (if \<not> fs_enabled s then st
      else case Fleet_List s (fst st) of Inl _ \<Rightarrow> st | Inr cs \<Rightarrow> fold (job_step now s ex) cs st)"

section \<open>The HTTP handlers\<close>

datatype fleet_reply = FleetPlan campaign "target list" | FleetItems "campaign list" | FleetDone | FleetFail nat string

definition fleet_svc :: "fleet_service \<Rightarrow> ('k \<Rightarrow> fleet_reply \<times> 'k) \<Rightarrow> 'k \<Rightarrow> fleet_reply \<times> 'k" where
  "fleet_svc s k db = (if \<not> fs_enabled s then (FleetFail 404 ''fleet updates disabled'', db) else k db)"

definition fleet_id :: "string \<Rightarrow> (nat \<Rightarrow> 'k \<Rightarrow> fleet_reply \<times> 'k) \<Rightarrow> 'k \<Rightarrow> fleet_reply \<times> 'k" where
  "fleet_id param k db =
     (case parse_uint32 param of None \<Rightarrow> (FleetFail 400 ''invalid campaign id'', db) | Some n \<Rightarrow> k n db)"

definition fleet_done :: "(go_error \<Rightarrow> string) \<Rightarrow> go_error option \<times> 'k \<Rightarrow> fleet_reply \<times> 'k" where
  "fleet_done etext out =
     (case out of (Some e, db) \<Rightarrow> (FleetFail 409 (etext e), db) | (None, db) \<Rightarrow> (FleetDone, db))"

definition fleet_create ::
  "int \<Rightarrow> (go_error \<Rightarrow> string) \<Rightarrow> fleet_service \<Rightarrow> (string \<Rightarrow> ReleaseSnapshot res) \<Rightarrow> PlanRequest option \<Rightarrow> fleet_db \<Rightarrow> fleet_reply \<times> fleet_db" where
  "fleet_create now etext s resolver body =
     fleet_svc s (\<lambda>db.
       case body of None \<Rightarrow> (FleetFail 400 ''invalid campaign'', db)
       | Some r \<Rightarrow> (case Plan now s resolver r db of
                      (Inl e, db') \<Rightarrow> (FleetFail 400 (etext e), db')
                    | (Inr (c, ts), db') \<Rightarrow> (FleetPlan c ts, db')))"

definition fleet_list :: "(go_error \<Rightarrow> string) \<Rightarrow> fleet_service \<Rightarrow> fleet_db \<Rightarrow> fleet_reply \<times> fleet_db" where
  "fleet_list etext s =
     fleet_svc s (\<lambda>db. case Fleet_List s db of Inl e \<Rightarrow> (FleetFail 500 (etext e), db) | Inr cs \<Rightarrow> (FleetItems cs, db))"

definition fleet_get :: "fleet_service \<Rightarrow> string \<Rightarrow> fleet_db \<Rightarrow> fleet_reply \<times> fleet_db" where
  "fleet_get s param =
     fleet_svc s (fleet_id param (\<lambda>n db.
       case Fleet_Get s n db of Inl _ \<Rightarrow> (FleetFail 404 ''campaign not found'', db) | Inr (c, ts) \<Rightarrow> (FleetPlan c ts, db)))"

definition fleet_reconcile ::
  "int \<Rightarrow> (go_error \<Rightarrow> string) \<Rightarrow> fleet_service \<Rightarrow> update_executor \<Rightarrow> string \<Rightarrow> fleet_db \<times> fleet_call list
     \<Rightarrow> fleet_reply \<times> fleet_db \<times> fleet_call list" where
  "fleet_reconcile now etext s ex param =
     fleet_svc s (fleet_id param (\<lambda>n st. fleet_done etext (Fleet_Reconcile now s ex n ''api'' st)))"

definition fleet_abort :: "(go_error \<Rightarrow> string) \<Rightarrow> fleet_service \<Rightarrow> string \<Rightarrow> fleet_db \<Rightarrow> fleet_reply \<times> fleet_db" where
  "fleet_abort etext s param = fleet_svc s (fleet_id param (\<lambda>n db. fleet_done etext (Fleet_Abort s n db)))"

definition fleet_retry :: "(go_error \<Rightarrow> string) \<Rightarrow> fleet_service \<Rightarrow> string \<Rightarrow> fleet_db \<Rightarrow> fleet_reply \<times> fleet_db" where
  "fleet_retry etext s param = fleet_svc s (fleet_id param (\<lambda>n db. fleet_done etext (Fleet_Retry s n db)))"

end
