(* ===== verification/Fleet_Update_Rules.thy ===== *)
theory Fleet_Update_Rules
  imports Fleet_Update
begin

text \<open>
  What the campaigns of \<open>Fleet_Update\<close> guarantee: a bounded number of nodes is updated at a time, a
  dispatch happens only for an authorised campaign and an eligible node, an ambiguous dispatch is never
  repeated, and what becomes of the soak period and of the switch that keeps a campaign going.
  The loop over the targets is followed with one invariant, \<open>loop_inv\<close>, and one lemma on the change of a
  single target.
\<close>

section \<open>States\<close>

text \<open>The twelve states are different strings.\<close>

lemma fleet_states_distinct [simp]:
  "StatePending \<noteq> StatePreflight" "StatePending \<noteq> StateReady" "StatePending \<noteq> StateBlocked"
  "StatePending \<noteq> StateDispatching" "StatePending \<noteq> StateWaitingRestart"
  "StatePending \<noteq> StateHealthCheck" "StatePending \<noteq> StateSoaking"
  "StatePending \<noteq> StateSucceeded" "StatePending \<noteq> StateFailed" "StatePending \<noteq> StateAborted"
  "StatePending \<noteq> StateUnknown" "StatePreflight \<noteq> StatePending" "StatePreflight \<noteq> StateReady"
  "StatePreflight \<noteq> StateBlocked" "StatePreflight \<noteq> StateDispatching"
  "StatePreflight \<noteq> StateWaitingRestart" "StatePreflight \<noteq> StateHealthCheck"
  "StatePreflight \<noteq> StateSoaking" "StatePreflight \<noteq> StateSucceeded"
  "StatePreflight \<noteq> StateFailed" "StatePreflight \<noteq> StateAborted" "StatePreflight \<noteq> StateUnknown"
  "StateReady \<noteq> StatePending" "StateReady \<noteq> StatePreflight" "StateReady \<noteq> StateBlocked"
  "StateReady \<noteq> StateDispatching" "StateReady \<noteq> StateWaitingRestart"
  "StateReady \<noteq> StateHealthCheck" "StateReady \<noteq> StateSoaking" "StateReady \<noteq> StateSucceeded"
  "StateReady \<noteq> StateFailed" "StateReady \<noteq> StateAborted" "StateReady \<noteq> StateUnknown"
  "StateBlocked \<noteq> StatePending" "StateBlocked \<noteq> StatePreflight" "StateBlocked \<noteq> StateReady"
  "StateBlocked \<noteq> StateDispatching" "StateBlocked \<noteq> StateWaitingRestart"
  "StateBlocked \<noteq> StateHealthCheck" "StateBlocked \<noteq> StateSoaking"
  "StateBlocked \<noteq> StateSucceeded" "StateBlocked \<noteq> StateFailed" "StateBlocked \<noteq> StateAborted"
  "StateBlocked \<noteq> StateUnknown" "StateDispatching \<noteq> StatePending"
  "StateDispatching \<noteq> StatePreflight" "StateDispatching \<noteq> StateReady"
  "StateDispatching \<noteq> StateBlocked" "StateDispatching \<noteq> StateWaitingRestart"
  "StateDispatching \<noteq> StateHealthCheck" "StateDispatching \<noteq> StateSoaking"
  "StateDispatching \<noteq> StateSucceeded" "StateDispatching \<noteq> StateFailed"
  "StateDispatching \<noteq> StateAborted" "StateDispatching \<noteq> StateUnknown"
  "StateWaitingRestart \<noteq> StatePending" "StateWaitingRestart \<noteq> StatePreflight"
  "StateWaitingRestart \<noteq> StateReady" "StateWaitingRestart \<noteq> StateBlocked"
  "StateWaitingRestart \<noteq> StateDispatching" "StateWaitingRestart \<noteq> StateHealthCheck"
  "StateWaitingRestart \<noteq> StateSoaking" "StateWaitingRestart \<noteq> StateSucceeded"
  "StateWaitingRestart \<noteq> StateFailed" "StateWaitingRestart \<noteq> StateAborted"
  "StateWaitingRestart \<noteq> StateUnknown" "StateHealthCheck \<noteq> StatePending"
  "StateHealthCheck \<noteq> StatePreflight" "StateHealthCheck \<noteq> StateReady"
  "StateHealthCheck \<noteq> StateBlocked" "StateHealthCheck \<noteq> StateDispatching"
  "StateHealthCheck \<noteq> StateWaitingRestart" "StateHealthCheck \<noteq> StateSoaking"
  "StateHealthCheck \<noteq> StateSucceeded" "StateHealthCheck \<noteq> StateFailed"
  "StateHealthCheck \<noteq> StateAborted" "StateHealthCheck \<noteq> StateUnknown"
  "StateSoaking \<noteq> StatePending" "StateSoaking \<noteq> StatePreflight" "StateSoaking \<noteq> StateReady"
  "StateSoaking \<noteq> StateBlocked" "StateSoaking \<noteq> StateDispatching"
  "StateSoaking \<noteq> StateWaitingRestart" "StateSoaking \<noteq> StateHealthCheck"
  "StateSoaking \<noteq> StateSucceeded" "StateSoaking \<noteq> StateFailed" "StateSoaking \<noteq> StateAborted"
  "StateSoaking \<noteq> StateUnknown" "StateSucceeded \<noteq> StatePending"
  "StateSucceeded \<noteq> StatePreflight" "StateSucceeded \<noteq> StateReady"
  "StateSucceeded \<noteq> StateBlocked" "StateSucceeded \<noteq> StateDispatching"
  "StateSucceeded \<noteq> StateWaitingRestart" "StateSucceeded \<noteq> StateHealthCheck"
  "StateSucceeded \<noteq> StateSoaking" "StateSucceeded \<noteq> StateFailed" "StateSucceeded \<noteq> StateAborted"
  "StateSucceeded \<noteq> StateUnknown" "StateFailed \<noteq> StatePending" "StateFailed \<noteq> StatePreflight"
  "StateFailed \<noteq> StateReady" "StateFailed \<noteq> StateBlocked" "StateFailed \<noteq> StateDispatching"
  "StateFailed \<noteq> StateWaitingRestart" "StateFailed \<noteq> StateHealthCheck"
  "StateFailed \<noteq> StateSoaking" "StateFailed \<noteq> StateSucceeded" "StateFailed \<noteq> StateAborted"
  "StateFailed \<noteq> StateUnknown" "StateAborted \<noteq> StatePending" "StateAborted \<noteq> StatePreflight"
  "StateAborted \<noteq> StateReady" "StateAborted \<noteq> StateBlocked" "StateAborted \<noteq> StateDispatching"
  "StateAborted \<noteq> StateWaitingRestart" "StateAborted \<noteq> StateHealthCheck"
  "StateAborted \<noteq> StateSoaking" "StateAborted \<noteq> StateSucceeded" "StateAborted \<noteq> StateFailed"
  "StateAborted \<noteq> StateUnknown" "StateUnknown \<noteq> StatePending" "StateUnknown \<noteq> StatePreflight"
  "StateUnknown \<noteq> StateReady" "StateUnknown \<noteq> StateBlocked" "StateUnknown \<noteq> StateDispatching"
  "StateUnknown \<noteq> StateWaitingRestart" "StateUnknown \<noteq> StateHealthCheck"
  "StateUnknown \<noteq> StateSoaking" "StateUnknown \<noteq> StateSucceeded" "StateUnknown \<noteq> StateFailed"
  "StateUnknown \<noteq> StateAborted"
  by (simp_all add: fleet_states)

definition inflight :: "target \<Rightarrow> bool" where
  "inflight t \<longleftrightarrow> ut_State t = StateUnknown \<or> activeTarget (ut_State t)"

text \<open>A soak period that has to pass: as a duration it is positive.\<close>

definition soak_needed :: "campaign \<Rightarrow> bool" where
  "soak_needed c \<longleftrightarrow> 0 < seconds (uc_SoakSeconds c)"

text \<open>Between calls a target holds no lease and is in one of nine states.\<close>

definition target_ok :: "campaign \<Rightarrow> target \<Rightarrow> bool" where
  "target_ok c t \<longleftrightarrow>
     ut_LeaseUntil t = None \<and> ut_LeaseOwner t = [] \<and>
     ut_State t \<in> {StateReady, StateBlocked, StateWaitingRestart, StateHealthCheck, StateSoaking, StateFailed,
                   StateAborted, StateUnknown} \<union> (if soak_needed c then {} else {StateSucceeded})"

definition window_ok :: "campaign \<Rightarrow> target list \<Rightarrow> bool" where
  "window_ok c ts \<longleftrightarrow> list_all (target_ok c) ts \<and> count_if inflight ts \<le> uc_MaxParallel c"

text \<open>The columns no operation changes.\<close>

definition tkey :: "target \<Rightarrow> nat \<times> nat \<times> int \<times> string" where
  "tkey t = (ut_ID t, ut_CampaignID t, ut_NodeID t, ut_DispatchKey t)"

lemma tkey_fields: "tkey a = tkey b \<longleftrightarrow>
    ut_ID a = ut_ID b \<and> ut_CampaignID a = ut_CampaignID b \<and> ut_NodeID a = ut_NodeID b \<and> ut_DispatchKey a = ut_DispatchKey b"
  by (simp add: tkey_def)

lemma same_keys:
  assumes "map tkey rows = map tkey rows'"
  shows "map ut_ID rows = map ut_ID rows'" "map ut_CampaignID rows = map ut_CampaignID rows'"
    "table_ok ut_ID targets_uniq rows \<longleftrightarrow> table_ok ut_ID targets_uniq rows'"
proof -
  have proj: "map (\<lambda>t. f (tkey t)) rows = map (\<lambda>t. f (tkey t)) rows'" for f :: "nat \<times> nat \<times> int \<times> string \<Rightarrow> 'x"
    using arg_cong[OF assms, of "map f"] by (simp add: comp_def)
  show ids: "map ut_ID rows = map ut_ID rows'" and "map ut_CampaignID rows = map ut_CampaignID rows'"
    using proj[of fst] proj[of "\<lambda>k. fst (snd k)"] by (simp_all add: tkey_def)
  have "map (\<lambda>t. (ut_CampaignID t, ut_NodeID t)) rows = map (\<lambda>t. (ut_CampaignID t, ut_NodeID t)) rows'"
    "map ut_DispatchKey rows = map ut_DispatchKey rows'"
    using proj[of "\<lambda>k. (fst (snd k), fst (snd (snd k)))"] proj[of "\<lambda>k. snd (snd (snd k))"] by (simp_all add: tkey_def)
  then show "table_ok ut_ID targets_uniq rows \<longleftrightarrow> table_ok ut_ID targets_uniq rows'"
    using ids by (simp add: table_ok_def targets_uniq_def)
qed

section \<open>One target\<close>

lemma dispatched_effect:
  "tkey (dispatched now answer t) = tkey t \<and>
   ut_State (dispatched now answer t) \<in> {StateBlocked, StateFailed, StateUnknown, StateWaitingRestart}"
  by (auto simp: dispatched_def ambiguous_def tkey_def split: prod.splits option.splits exec_error.splits)

lemma start_effect:
  assumes "start_target now ex ns rel t h = (t', h')"
  shows "tkey t' = tkey t" "ut_State t' \<in> {StateBlocked, StateFailed, StateUnknown, StateWaitingRestart}"
    "\<exists>cs. h' = h @ cs \<and> (\<forall>n r. DispatchCall n r \<in> set cs \<longrightarrow> n = ns \<and> r = rel \<and> eligibility now ns rel = [])"
proof -
  let ?t = "t\<lparr>ut_State := StateDispatching, ut_Attempts := add64 (ut_Attempts t) 1\<rparr>"
  obtain pf err where a: "ex_Preflight ex h ns rel = (pf, err)" by (cases "ex_Preflight ex h ns rel") auto
  note d = dispatched_effect[of now "ex_Dispatch ex (h @ [PreflightCall ns rel]) ns rel" ?t]
  have key: "tkey ?t = tkey t" by (simp add: tkey_def)
  have "t' = t\<lparr>ut_State := StateBlocked, ut_BlockedReason := eligibility now ns rel\<rparr> \<or>
      (\<exists>e. t' = t\<lparr>ut_State := StateBlocked, ut_Error := e\<rparr>) \<or> (\<exists>r. t' = t\<lparr>ut_State := StateBlocked, ut_BlockedReason := r\<rparr>) \<or>
      t' = dispatched now (ex_Dispatch ex (h @ [PreflightCall ns rel]) ns rel) ?t"
    using assms a by (auto simp: start_target_def Let_def split: if_splits option.splits)
  then show "tkey t' = tkey t" "ut_State t' \<in> {StateBlocked, StateFailed, StateUnknown, StateWaitingRestart}"
    using d key by (auto simp: tkey_def)
  show "\<exists>cs. h' = h @ cs \<and> (\<forall>n r. DispatchCall n r \<in> set cs \<longrightarrow> n = ns \<and> r = rel \<and> eligibility now ns rel = [])"
    using assms by (auto simp: start_target_def Let_def split: if_splits prod.splits option.splits)
qed

lemma since_self: "since now now = 0"
  by (simp add: since_def max_int64_def)

lemma soak_effect:
  "tkey (soak now c t) = tkey t \<and>
   (ut_State t \<noteq> StateSoaking \<longrightarrow> ut_State (soak now c t) \<in> {StateSoaking} \<union> (if soak_needed c then {} else {StateSucceeded}))"
proof -
  have "seconds 0 = 0" by (simp add: seconds_def mul64_def wrap64_def)
  then show ?thesis
    by (auto simp: soak_def Let_def tkey_def soak_needed_def since_self)
qed

lemma converged_effect:
  assumes "ut_State t = StateUnknown"
  shows "tkey (converged now c rel conv t) = tkey t \<and>
    ut_State (converged now c rel conv t) \<in> {StateFailed, StateHealthCheck, StateSoaking} \<union> (if soak_needed c then {} else {StateSucceeded})"
  using soak_effect[of now c t] assms by (auto simp: converged_def tkey_def)

lemma follow_effect:
  assumes "ut_State t = StateUnknown" "follow_target now ex c ns rel t h = (t', h')"
  shows "tkey t' = tkey t"
    "ut_State t' \<in> {StateUnknown, StateFailed, StateHealthCheck, StateSoaking} \<union> (if soak_needed c then {} else {StateSucceeded})"
    "h' = h @ [StatusCall ns rel]"
proof -
  have o: "ut_State (observed conv t) = StateUnknown" "tkey (observed conv t) = tkey t" for conv
    using assms(1) by (simp_all add: observed_def tkey_def)
  obtain conv err where a: "ex_Reconcile ex h ns rel = (conv, err)" by (cases "ex_Reconcile ex h ns rel") auto
  note e = converged_effect[OF o(1)[of conv], of now c rel conv, unfolded o(2)]
  have t': "t' = (case err of Some e \<Rightarrow> t\<lparr>ut_Error := exec_text e, ut_State := StateUnknown\<rparr>
      | None \<Rightarrow> if trim_space (ut_RunID t) = [] \<or> cv_RunID conv \<noteq> ut_RunID t
          then t\<lparr>ut_State := StateUnknown, ut_Error := ErrStaleStatus\<rparr> else converged now c rel conv (observed conv t))"
    and "h' = h @ [StatusCall ns rel]"
    using assms(2) a by (auto simp: follow_target_def split: option.splits)
  then show "h' = h @ [StatusCall ns rel]" by simp
  have stay: "tkey (t\<lparr>ut_Error := x, ut_State := StateUnknown\<rparr>) = tkey t" "tkey (t\<lparr>ut_State := StateUnknown, ut_Error := x\<rparr>) = tkey t" for x
    by (simp_all add: tkey_def)
  show "tkey t' = tkey t" unfolding t' using e stay by (simp split: option.split)
  show "ut_State t' \<in> {StateUnknown, StateFailed, StateHealthCheck, StateSoaking} \<union> (if soak_needed c then {} else {StateSucceeded})"
    unfolding t' using e by (auto split: option.split)
qed

text \<open>What the loop body makes of a target it does not skip.\<close>

lemma process_effect:
  assumes "target_ok c t" "\<not> terminal (ut_State t)"
    and "t1 = (if leaseExpired now (ut_LeaseUntil t) \<and> activeTarget (ut_State t) then t\<lparr>ut_State := StateUnknown\<rparr> else t)"
    and "process_target now ex c t1 db h = ((t2, saved), h')"
  shows "saved" "tkey t2 = tkey t"
    "ut_State t2 \<in> {StateBlocked, StateFailed, StateUnknown, StateWaitingRestart, StateHealthCheck, StateSoaking} \<union>
       (if soak_needed c then {} else {StateSucceeded})"
    "\<exists>cs. h' = h @ cs \<and> (\<forall>ns r. DispatchCall ns r \<in> set cs \<longrightarrow> ut_State t = StateReady \<and> r = campaign_release c \<and>
       eligibility now ns r = [] \<and> (\<exists>n \<in> set (fd_nodes db). nd_Id n = ut_NodeID t \<and> ns = (nodeSnapshot n)\<lparr>ns_ExpectedRunID := ut_RunID t\<rparr>))"
proof -
  have lease: "leaseExpired now (ut_LeaseUntil t)" using assms(1) by (simp add: target_ok_def leaseExpired_def)
  have t1: "ut_State t1 = StateReady \<and> t1 = t \<or> ut_State t1 = StateUnknown \<and> ut_State t \<noteq> StateReady"
    using assms(1,2) lease unfolding assms(3) by (auto simp: target_ok_def terminal_def activeTarget_def split: if_splits)
  have key: "tkey t1 = tkey t" "ut_NodeID t1 = ut_NodeID t" "ut_RunID t1 = ut_RunID t" by (simp_all add: assms(3) tkey_def)
  let ?goal = "saved \<and> tkey t2 = tkey t \<and>
      ut_State t2 \<in> {StateBlocked, StateFailed, StateUnknown, StateWaitingRestart, StateHealthCheck, StateSoaking} \<union>
         (if soak_needed c then {} else {StateSucceeded}) \<and>
      (\<exists>cs. h' = h @ cs \<and> (\<forall>ns r. DispatchCall ns r \<in> set cs \<longrightarrow> ut_State t = StateReady \<and> r = campaign_release c \<and>
         eligibility now ns r = [] \<and> (\<exists>n \<in> set (fd_nodes db). nd_Id n = ut_NodeID t \<and> ns = (nodeSnapshot n)\<lparr>ns_ExpectedRunID := ut_RunID t\<rparr>)))"
  have ?goal
  proof (cases "q_first (fd_down db ''nodes'') (\<lambda>n. nd_Id n = ut_NodeID t1) (fd_nodes db)")
    case (Inl e)
    then have "t2 = t1\<lparr>ut_State := StateBlocked, ut_BlockedReason := ''deleted''\<rparr>" "saved" "h' = h"
      using assms(4) by (auto simp: process_target_def)
    then show ?thesis using key by (simp add: tkey_def)
  next
    case (Inr n)
    have n: "n \<in> set (fd_nodes db)" "nd_Id n = ut_NodeID t" using q_first_InrD[OF Inr] key by auto
    define ns where "ns = (nodeSnapshot n)\<lparr>ns_ExpectedRunID := ut_RunID t\<rparr>"
    from t1 show ?thesis
    proof (elim disjE conjE)
      assume st: "ut_State t1 = StateReady" "t1 = t"
      then have s: "start_target now ex ns (campaign_release c) t h = (t2, h')" "saved"
        using assms(4) Inr by (auto simp: process_target_def Let_def ns_def split: prod.splits)
      show ?thesis
        using start_effect[OF s(1)] s(2) st n ns_def by auto
    next
      assume st: "ut_State t1 = StateUnknown"
      then have f: "follow_target now ex c ns (campaign_release c) t1 h = (t2, h')" "saved"
        using assms(4) Inr key by (auto simp: process_target_def Let_def ns_def split: prod.splits)
      show ?thesis using follow_effect[OF st f(1)] f(2) key by auto
    qed
  qed
  then show "saved" "tkey t2 = tkey t"
    "ut_State t2 \<in> {StateBlocked, StateFailed, StateUnknown, StateWaitingRestart, StateHealthCheck, StateSoaking} \<union>
       (if soak_needed c then {} else {StateSucceeded})"
    "\<exists>cs. h' = h @ cs \<and> (\<forall>ns r. DispatchCall ns r \<in> set cs \<longrightarrow> ut_State t = StateReady \<and> r = campaign_release c \<and>
       eligibility now ns r = [] \<and> (\<exists>n \<in> set (fd_nodes db). nd_Id n = ut_NodeID t \<and> ns = (nodeSnapshot n)\<lparr>ns_ExpectedRunID := ut_RunID t\<rparr>))"
    by blast+
qed

section \<open>The loop over the targets\<close>

definition of_campaign :: "nat \<Rightarrow> fleet_db \<Rightarrow> target list" where
  "of_campaign cid db = filter (\<lambda>t. ut_CampaignID t = cid) (fd_targets db)"

text \<open>A dispatch that never got a run identifier.\<close>

definition stuck :: "target \<Rightarrow> bool" where
  "stuck t \<longleftrightarrow> ut_State t = StateUnknown \<and> trim_space (ut_RunID t) = []"

definition dispatch_ok :: "int \<Rightarrow> campaign \<Rightarrow> fleet_db \<Rightarrow> NodeSnapshot \<Rightarrow> ReleaseSnapshot \<Rightarrow> bool" where
  "dispatch_ok now c db ns rel \<longleftrightarrow>
     rel = campaign_release c \<and> eligibility now ns rel = [] \<and>
     (\<exists>t \<in> set (of_campaign (uc_ID c) db). ut_State t = StateReady \<and> ut_NodeID t = ns_ID ns) \<and>
     \<not> list_ex stuck (of_campaign (uc_ID c) db)"

definition loop_inv ::
  "int \<Rightarrow> campaign \<Rightarrow> fleet_db \<Rightarrow> fleet_call list \<Rightarrow> target list \<times> fleet_db \<times> fleet_call list \<Rightarrow> bool" where
  "loop_inv now c db0 h0 st \<longleftrightarrow>
     (case st of (ts, db, h) \<Rightarrow>
        fd_campaigns db = fd_campaigns db0 \<and> fd_nodes db = fd_nodes db0 \<and> fd_next db = fd_next db0 \<and> fd_down db = fd_down db0 \<and>
        map tkey (fd_targets db) = map tkey (fd_targets db0) \<and>
        filter (\<lambda>t. ut_CampaignID t \<noteq> uc_ID c) (fd_targets db) = filter (\<lambda>t. ut_CampaignID t \<noteq> uc_ID c) (fd_targets db0) \<and>
        ts = of_campaign (uc_ID c) db \<and> window_ok c ts \<and>
        (\<forall>t \<in> set ts. ut_State t = StateReady \<longrightarrow> t \<in> set (of_campaign (uc_ID c) db0)) \<and>
        (\<forall>t \<in> set (of_campaign (uc_ID c) db0). stuck t \<longrightarrow> t \<in> set ts) \<and>
        (\<exists>cs. h = h0 @ cs \<and> (\<forall>ns rel. DispatchCall ns rel \<in> set cs \<longrightarrow> dispatch_ok now c db0 ns rel)))"

lemma loop_invI:
  assumes "fd_campaigns db = fd_campaigns db0" "fd_nodes db = fd_nodes db0" "fd_next db = fd_next db0" "fd_down db = fd_down db0"
    and "map tkey (fd_targets db) = map tkey (fd_targets db0)"
    and "filter (\<lambda>t. ut_CampaignID t \<noteq> uc_ID c) (fd_targets db) = filter (\<lambda>t. ut_CampaignID t \<noteq> uc_ID c) (fd_targets db0)"
    and "ts = of_campaign (uc_ID c) db" "window_ok c ts"
    and "\<And>t. t \<in> set ts \<Longrightarrow> ut_State t = StateReady \<Longrightarrow> t \<in> set (of_campaign (uc_ID c) db0)"
    and "\<And>t. t \<in> set (of_campaign (uc_ID c) db0) \<Longrightarrow> stuck t \<Longrightarrow> t \<in> set ts"
    and "\<exists>cs. h = h0 @ cs \<and> (\<forall>ns rel. DispatchCall ns rel \<in> set cs \<longrightarrow> dispatch_ok now c db0 ns rel)"
  shows "loop_inv now c db0 h0 (ts, db, h)"
  using assms by (simp add: loop_inv_def)

lemma loop_invD:
  assumes "loop_inv now c db0 h0 (ts, db, h)"
  shows "fd_campaigns db = fd_campaigns db0" "fd_nodes db = fd_nodes db0" "fd_next db = fd_next db0" "fd_down db = fd_down db0"
    and "map tkey (fd_targets db) = map tkey (fd_targets db0)"
    and "filter (\<lambda>t. ut_CampaignID t \<noteq> uc_ID c) (fd_targets db) = filter (\<lambda>t. ut_CampaignID t \<noteq> uc_ID c) (fd_targets db0)"
    and "ts = of_campaign (uc_ID c) db" "window_ok c ts"
    and "\<And>t. t \<in> set ts \<Longrightarrow> ut_State t = StateReady \<Longrightarrow> t \<in> set (of_campaign (uc_ID c) db0)"
    and "\<And>t. t \<in> set (of_campaign (uc_ID c) db0) \<Longrightarrow> stuck t \<Longrightarrow> t \<in> set ts"
    and "\<exists>cs. h = h0 @ cs \<and> (\<forall>ns rel. DispatchCall ns rel \<in> set cs \<longrightarrow> dispatch_ok now c db0 ns rel)"
  using assms by (auto simp: loop_inv_def)

definition replace_target :: "target \<Rightarrow> target list \<Rightarrow> target list" where
  "replace_target t rows = map (\<lambda>r. if ut_ID r = ut_ID t then t else r) rows"

lemma filter_unique_key:
  assumes "distinct (map f xs)" "x \<in> set xs"
  shows "filter (\<lambda>y. f y = f x) xs = [x]"
  using assms by (induction xs) (auto simp: filter_empty_conv image_iff)

lemma acquire_save:
  assumes "distinct (map ut_ID (fd_targets db))" "t \<in> set (fd_targets db)" "ut_LeaseUntil t = None"
    and "\<not> fd_down db ''fork_update_campaign_targets''"
    and acq: "acquireTarget now (ut_ID t) owner db = (got, db1)"
    and "ut_ID t2 = ut_ID t" and t3: "t3 = t2\<lparr>ut_LeaseOwner := [], ut_LeaseUntil := None\<rparr>"
  shows "got" "saveTarget t2 db1 = (t3, db\<lparr>fd_targets := replace_target t3 (fd_targets db)\<rparr>)"
    "fd_nodes db1 = fd_nodes db" "fd_down db1 = fd_down db"
proof -
  have "x = t" if "x \<in> set (fd_targets db)" "ut_ID x = ut_ID t" for x
    using assms(1,2) that by (auto simp: distinct_map dest: inj_onD)
  then have "target_free now (ut_ID t) owner x \<longleftrightarrow> ut_ID x = ut_ID t" if "x \<in> set (fd_targets db)" for x
    using that assms(3) by (fastforce simp: target_free_def lease_free_def)
  then have "filter (target_free now (ut_ID t) owner) (fd_targets db) = filter (\<lambda>x. ut_ID x = ut_ID t) (fd_targets db)"
    by (intro filter_cong) auto
  then have "filter (target_free now (ut_ID t) owner) (fd_targets db) = [t]"
    using filter_unique_key[OF assms(1,2)] by simp
  then show "got" using acq assms(4) by (simp add: acquireTarget_def)
  have db1: "db1 = update_targets (target_free now (ut_ID t) owner)
      (\<lambda>t. t\<lparr>ut_LeaseOwner := owner, ut_LeaseUntil := Some (now + lease_seconds)\<rparr>) db"
    using acq assms(4) by (simp add: acquireTarget_def)
  show "saveTarget t2 db1 = (t3, db\<lparr>fd_targets := replace_target t3 (fd_targets db)\<rparr>)"
    using assms(4,6) by (auto simp: saveTarget_def db1 t3 update_targets_def replace_target_def Let_def target_free_def)
  show "fd_nodes db1 = fd_nodes db" "fd_down db1 = fd_down db"
    by (simp_all add: db1 update_targets_def)
qed

lemma process_target_reads:
  "fd_nodes db1 = fd_nodes db \<Longrightarrow> fd_down db1 = fd_down db \<Longrightarrow> process_target now ex c t db1 h = process_target now ex c t db h"
  by (simp add: process_target_def)

text \<open>Replacing one row of the table is replacing one element of the list that was read.\<close>

lemma replace_keys:
  assumes "distinct (map ut_ID rows)" "t \<in> set rows" "tkey t' = tkey t"
  shows "map tkey (replace_target t' rows) = map tkey rows"
    "filter (\<lambda>r. ut_CampaignID r \<noteq> ut_CampaignID t) (replace_target t' rows) = filter (\<lambda>r. ut_CampaignID r \<noteq> ut_CampaignID t) rows"
proof -
  have same: "r = t" if "r \<in> set rows" "ut_ID r = ut_ID t'" for r
    using assms that by (auto simp: distinct_map tkey_fields dest: inj_onD)
  then show "map tkey (replace_target t' rows) = map tkey rows"
    using assms(3) by (auto simp: replace_target_def)
  show "filter (\<lambda>r. ut_CampaignID r \<noteq> ut_CampaignID t) (replace_target t' rows) = filter (\<lambda>r. ut_CampaignID r \<noteq> ut_CampaignID t) rows"
    using same assms(3) unfolding replace_target_def by (induction rows) (auto simp: tkey_fields)
qed

lemma replace_nth:
  assumes "distinct (map ut_ID xs)" "i < length xs" "ut_ID t' = ut_ID (xs ! i)"
  shows "replace_target t' xs = xs[i := t']"
proof (rule nth_equalityI)
  show "length (replace_target t' xs) = length (xs[i := t'])" by (simp add: replace_target_def)
  fix j assume j: "j < length (replace_target t' xs)"
  then have "j < length xs" by (simp add: replace_target_def)
  moreover have "ut_ID (xs ! j) = ut_ID (xs ! i) \<longleftrightarrow> j = i"
    using assms(1,2) \<open>j < length xs\<close> by (auto simp: distinct_conv_nth)
  ultimately show "replace_target t' xs ! j = xs[i := t'] ! j"
    using assms(3) by (simp add: replace_target_def nth_list_update)
qed

lemma replace_of_campaign:
  assumes "distinct (map ut_ID (fd_targets db))" "i < length (of_campaign cid db)"
    and "tkey t' = tkey (of_campaign cid db ! i)"
  shows "of_campaign cid (db\<lparr>fd_targets := replace_target t' (fd_targets db)\<rparr>) = (of_campaign cid db)[i := t']"
proof -
  let ?t = "of_campaign cid db ! i"
  have "?t \<in> set (of_campaign cid db)" using assms(2) by simp
  then have t: "?t \<in> set (fd_targets db)" "ut_CampaignID ?t = cid" by (auto simp: of_campaign_def)
  have same: "r = ?t" if "r \<in> set (fd_targets db)" "ut_ID r = ut_ID t'" for r
    using assms(1,3) t(1) that by (auto simp: distinct_map tkey_fields dest: inj_onD)
  have cid: "ut_CampaignID t' = cid" using assms(3) t(2) by (simp add: tkey_fields)
  have "filter (\<lambda>r. ut_CampaignID r = cid) (replace_target t' rows) = replace_target t' (filter (\<lambda>r. ut_CampaignID r = cid) rows)"
    if "set rows \<subseteq> set (fd_targets db)" for rows
    using that same cid t(2) unfolding replace_target_def by (induction rows) auto
  then have "of_campaign cid (db\<lparr>fd_targets := replace_target t' (fd_targets db)\<rparr>) = replace_target t' (of_campaign cid db)"
    by (simp add: of_campaign_def)
  also have "\<dots> = (of_campaign cid db)[i := t']"
    using assms by (intro replace_nth) (auto simp: of_campaign_def distinct_map_filter tkey_fields)
  finally show ?thesis .
qed

lemma of_campaign_nth:
  "i < length (of_campaign cid db) \<Longrightarrow>
     of_campaign cid db ! i \<in> set (fd_targets db) \<and> ut_CampaignID (of_campaign cid db ! i) = cid"
  using nth_mem[of i "of_campaign cid db"] by (auto simp: of_campaign_def)

text \<open>Counting after one element has changed.\<close>

lemma count_if_simps [simp]:
  "count_if P [] = 0" "count_if P (x # xs) = (if P x then 1 else 0) + count_if P xs"
  by (simp_all add: count_if_def)

lemma count_if_update:
  assumes "i < length xs"
  shows "count_if P (xs[i := x]) = count_if P xs - (if P (xs ! i) then 1 else 0) + (if P x then 1 else 0)"
  using assms
proof (induction xs arbitrary: i)
  case (Cons a xs)
  then show ?case by (cases i) auto
qed simp

lemma count_if_disj:
  "(\<And>x. x \<in> set xs \<Longrightarrow> \<not> (P x \<and> Q x)) \<Longrightarrow> count_if (\<lambda>x. P x \<or> Q x) xs = count_if P xs + count_if Q xs"
  by (induction xs) auto

lemma count_if_mono: "(\<And>x. P (g x) \<Longrightarrow> P x) \<Longrightarrow> count_if P (map g xs) \<le> count_if P xs"
  by (induction xs) (simp, auto)

lemma count_if_pos: "count_if P xs \<le> 0 \<longleftrightarrow> \<not> list_ex P xs"
  by (auto simp: count_if_def list_ex_iff filter_empty_conv)

text \<open>The guards of \<open>dispatchAllowed\<close> leave room for one more target in flight.\<close>

lemma dispatchAllowed_room:
  assumes "dispatchAllowed c ts i"
  shows "count_if inflight ts < uc_MaxParallel c" "\<not> list_ex stuck ts"
proof -
  have no: "count_if (\<lambda>t. ut_State t = StateUnknown) ts \<le> 0" "count_if (\<lambda>t. activeTarget (ut_State t)) ts < uc_MaxParallel c"
    using assms by (auto simp: dispatchAllowed_def Let_def split: if_splits)
  have "count_if inflight ts = count_if (\<lambda>t. ut_State t = StateUnknown) ts + count_if (\<lambda>t. activeTarget (ut_State t)) ts"
    unfolding inflight_def by (intro count_if_disj) (auto simp: activeTarget_def)
  then show "count_if inflight ts < uc_MaxParallel c" using no by simp
  show "\<not> list_ex stuck ts" using no(1) unfolding count_if_pos by (auto simp: stuck_def list_ex_iff)
qed

text \<open>One pass through the loop body, either idle or one row replaced.\<close>

lemma snapshot_ID: "ns_ID ((nodeSnapshot n)\<lparr>ns_ExpectedRunID := x\<rparr>) = nd_Id n"
  by (simp add: nodeSnapshot_def)

lemma reconcile_target_cases:
  assumes "distinct (map ut_ID (fd_targets db))" "\<not> fd_down db ''fork_update_campaign_targets''"
    and "ts = of_campaign (uc_ID c) db" "list_all (target_ok c) ts" "i < length ts"
    and "reconcile_target now owner ex c i (ts, db, h) = (ts', db', h')"
  obtains (idle) "ts' = ts" "db' = db" "h' = h"
  | (changed) t t3 cs where "t = ts ! i" "\<not> terminal (ut_State t)" "ut_State t = StateReady \<Longrightarrow> dispatchAllowed c ts i" "\<not> stuck t"
      "ts' = ts[i := t3]" "db' = db\<lparr>fd_targets := replace_target t3 (fd_targets db)\<rparr>" "h' = h @ cs"
      "tkey t3 = tkey t" "target_ok c t3" "ut_State t3 \<noteq> StateReady"
      "\<And>ns r. DispatchCall ns r \<in> set cs \<Longrightarrow> ut_State t = StateReady \<and> r = campaign_release c \<and> eligibility now ns r = [] \<and> ns_ID ns = ut_NodeID t"
proof (cases "skip_target c ts i")
  case True
  then show thesis using assms(6) idle by (simp add: reconcile_target_def)
next
  case False
  define t where "t = ts ! i"
  have t: "t \<in> set (fd_targets db)" "target_ok c t"
    using of_campaign_nth assms(3,4,5) by (auto simp: t_def list_all_length)
  then have lease: "ut_LeaseUntil t = None" by (simp add: target_ok_def)
  obtain got db1 where acq: "acquireTarget now (ut_ID t) owner db = (got, db1)" by fastforce
  define t1 where "t1 = (if leaseExpired now (ut_LeaseUntil t) \<and> activeTarget (ut_State t) then t\<lparr>ut_State := StateUnknown\<rparr> else t)"
  obtain t2 saved h2 where p: "process_target now ex c t1 db1 h = ((t2, saved), h2)" by (metis surj_pair)
  note as = acquire_save[OF assms(1) t(1) lease assms(2) acq]
  have nt: "\<not> terminal (ut_State t)" "ut_State t = StateReady \<Longrightarrow> dispatchAllowed c ts i" "\<not> stuck t"
    using False by (auto simp: skip_target_def t_def stuck_def Let_def)
  note e = process_effect[OF t(2) nt(1) t1_def p]
  have id2: "ut_ID t2 = ut_ID t" using e(2) by (simp add: tkey_fields)
  define t3 where "t3 = t2\<lparr>ut_LeaseOwner := [], ut_LeaseUntil := None\<rparr>"
  have "reconcile_target now owner ex c i (ts, db, h) = (ts[i := t3], db\<lparr>fd_targets := replace_target t3 (fd_targets db)\<rparr>, h2)"
    using False acq p as(1,2)[OF id2 t3_def] e(1) unfolding reconcile_target_def t_def[symmetric]
    by (simp add: Let_def t_def[symmetric] t1_def[symmetric])
  moreover have "target_ok c t3" "tkey t3 = tkey t" "ut_State t3 \<noteq> StateReady"
    using e(2,3) by (auto simp: t3_def target_ok_def tkey_def split: if_splits)
  moreover obtain cs where "h2 = h @ cs" "\<And>ns r. DispatchCall ns r \<in> set cs \<Longrightarrow> ut_State t = StateReady \<and> r = campaign_release c \<and>
      eligibility now ns r = [] \<and> ns_ID ns = ut_NodeID t"
    using e(4) snapshot_ID by metis
  ultimately show thesis using changed[OF t_def nt, of t3 cs] assms(6) by auto
qed

lemma window_update:
  assumes "window_ok c ts" "i < length ts" "target_ok c t'" "\<not> terminal (ut_State (ts ! i))"
    and "ut_State (ts ! i) = StateReady \<Longrightarrow> dispatchAllowed c ts i"
  shows "window_ok c (ts[i := t'])"
proof -
  have all: "list_all (target_ok c) ts" using assms(1) by (simp add: window_ok_def)
  have "count_if inflight (ts[i := t']) \<le> uc_MaxParallel c"
  proof (cases "ut_State (ts ! i) = StateReady")
    case True
    then show ?thesis
      using dispatchAllowed_room(1)[OF assms(5)] count_if_update[OF assms(2), of inflight t'] by (auto split: if_splits)
  next
    case False
    then have "inflight (ts ! i)" using assms(2,4) all
      by (auto simp: list_all_length target_ok_def inflight_def terminal_def activeTarget_def split: if_splits)
    then show ?thesis
      using assms(1) count_if_update[OF assms(2), of inflight t'] by (auto simp: window_ok_def split: if_splits)
  qed
  then show ?thesis
    using all assms(3) by (auto simp: window_ok_def list_all_iff dest!: set_update_subset_insert[THEN subsetD])
qed

lemma loop_step:
  assumes "distinct (map ut_ID (fd_targets db0))" "\<not> fd_down db0 ''fork_update_campaign_targets''"
    and inv: "loop_inv now c db0 h0 (ts, db, h)" and i: "i < length ts"
  shows "loop_inv now c db0 h0 (reconcile_target now owner ex c i (ts, db, h))"
proof -
  obtain ts' db' h' where r: "reconcile_target now owner ex c i (ts, db, h) = (ts', db', h')"
    by (cases "reconcile_target now owner ex c i (ts, db, h)") auto
  have frame: "fd_campaigns db = fd_campaigns db0" "fd_nodes db = fd_nodes db0" "fd_next db = fd_next db0" "fd_down db = fd_down db0"
    and keys: "map tkey (fd_targets db) = map tkey (fd_targets db0)"
    and ts: "ts = of_campaign (uc_ID c) db" and win: "window_ok c ts"
    using loop_invD[OF inv] by simp_all
  have d: "distinct (map ut_ID (fd_targets db))" using same_keys(1)[OF keys] assms(1) by simp
  have down: "\<not> fd_down db ''fork_update_campaign_targets''" using frame assms(2) by simp
  have all: "list_all (target_ok c) ts" using win by (simp add: window_ok_def)
  from d down ts all i r show ?thesis
  proof (cases rule: reconcile_target_cases)
    case idle
    then show ?thesis using inv r by simp
  next
    case (changed t t3 cs)
    have t: "t \<in> set (fd_targets db)" "ut_CampaignID t = uc_ID c" "t \<in> set ts"
      using of_campaign_nth i ts changed(1) by auto
    have ts': "ts' = of_campaign (uc_ID c) db'"
      using replace_of_campaign[OF d] i ts changed by metis
    have win': "window_ok c ts'"
      using window_update[OF win i changed(9) changed(2)[unfolded changed(1)]] changed(1,3,5) by simp
    have ready: "t \<in> set (of_campaign (uc_ID c) db0)" "\<not> list_ex stuck (of_campaign (uc_ID c) db0)" if "ut_State t = StateReady"
    proof -
      show "t \<in> set (of_campaign (uc_ID c) db0)" using inv t(3) that by (auto simp: loop_inv_def)
      show "\<not> list_ex stuck (of_campaign (uc_ID c) db0)"
        using dispatchAllowed_room(2)[OF changed(3)[OF that]] inv by (auto simp: loop_inv_def list_ex_iff)
    qed
    have stuck': "x \<in> set ts'" if x: "x \<in> set ts" "stuck x" for x
    proof -
      obtain j where "j < length ts" "x = ts ! j" using x(1) by (auto simp: in_set_conv_nth)
      then show ?thesis using x(2) changed(1,4,5) by (metis length_list_update nth_list_update_neq nth_mem)
    qed
    have ready': "x \<in> set ts" if "x \<in> set ts'" "ut_State x = StateReady" for x
      using that changed(5,10) set_update_subset_insert[of ts i t3] by auto
    have new: "dispatch_ok now c db0 ns rel" if "DispatchCall ns rel \<in> set cs" for ns rel
      using changed(11)[OF that] ready by (auto simp: dispatch_ok_def)
    obtain cs0 where "h = h0 @ cs0" "\<And>ns rel. DispatchCall ns rel \<in> set cs0 \<Longrightarrow> dispatch_ok now c db0 ns rel"
      using loop_invD(11)[OF inv] by blast
    then have calls: "h' = h0 @ (cs0 @ cs) \<and> (\<forall>ns rel. DispatchCall ns rel \<in> set (cs0 @ cs) \<longrightarrow> dispatch_ok now c db0 ns rel)"
      using changed(7) new by auto
    note rk = replace_keys[OF d t(1) changed(8), unfolded t(2)]
    show ?thesis unfolding r
    proof (rule loop_invI)
      show "fd_campaigns db' = fd_campaigns db0" "fd_nodes db' = fd_nodes db0" "fd_next db' = fd_next db0" "fd_down db' = fd_down db0"
        using frame by (simp_all add: changed(6))
      show "map tkey (fd_targets db') = map tkey (fd_targets db0)" using rk(1) keys by (simp add: changed(6))
      show "filter (\<lambda>t. ut_CampaignID t \<noteq> uc_ID c) (fd_targets db') = filter (\<lambda>t. ut_CampaignID t \<noteq> uc_ID c) (fd_targets db0)"
        using rk(2) loop_invD(6)[OF inv] by (simp add: changed(6))
      show "\<exists>cs. h' = h0 @ cs \<and> (\<forall>ns rel. DispatchCall ns rel \<in> set cs \<longrightarrow> dispatch_ok now c db0 ns rel)" using calls by blast
    qed (use ts' win' ready' stuck' loop_invD(9,10)[OF inv] in blast)+
  qed
qed

lemma loop_preserves:
  assumes "distinct (map ut_ID (fd_targets db0))" "\<not> fd_down db0 ''fork_update_campaign_targets''"
    and "loop_inv now c db0 h0 st" "n \<le> length (fst st)"
  shows "loop_inv now c db0 h0 (fold (reconcile_target now owner ex c) [0..<n] st) \<and>
    length (fst (fold (reconcile_target now owner ex c) [0..<n] st)) = length (fst st)"
  using assms(3,4)
proof (induction n)
  case (Suc n)
  obtain ts db h where st: "fold (reconcile_target now owner ex c) [0..<n] st = (ts, db, h)"
    by (cases "fold (reconcile_target now owner ex c) [0..<n] st") auto
  then have inv: "loop_inv now c db0 h0 (ts, db, h)" "n < length ts" "length ts = length (fst st)" using Suc by auto
  note step = loop_step[OF assms(1,2) inv(1,2), of owner ex]
  have "length (fst (reconcile_target now owner ex c n (ts, db, h))) = length ts"
    by (simp add: reconcile_target_def Let_def split: prod.splits bool.splits)
  then show ?case using step st inv by simp
qed simp

section \<open>The database between calls\<close>

text \<open>What of a campaign no operation changes after it was planned.\<close>

definition ckey :: "campaign \<Rightarrow> campaign" where
  "ckey c = c\<lparr>uc_State := [], uc_Error := [], uc_LeaseOwner := [], uc_LeaseUntil := None, uc_Revision := 0\<rparr>"

lemma ckey_fields:
  assumes "ckey a = ckey b"
  shows "uc_ID a = uc_ID b" "uc_MaxParallel a = uc_MaxParallel b" "uc_StopOnFailure a = uc_StopOnFailure b"
    "uc_DryRun a = uc_DryRun b" "uc_MutationAuthorized a = uc_MutationAuthorized b" "uc_SoakSeconds a = uc_SoakSeconds b"
    "campaign_release a = campaign_release b"
proof -
  have proj: "f a = f b" if "\<And>c. f (ckey c) = f c" for f :: "campaign \<Rightarrow> 'x"
    using arg_cong[OF assms, of f] that by simp
  show "uc_ID a = uc_ID b" "uc_MaxParallel a = uc_MaxParallel b" "uc_StopOnFailure a = uc_StopOnFailure b"
    "uc_DryRun a = uc_DryRun b" "uc_MutationAuthorized a = uc_MutationAuthorized b" "uc_SoakSeconds a = uc_SoakSeconds b"
    "campaign_release a = campaign_release b"
    by (rule proj, simp add: ckey_def campaign_release_def)+
qed

lemma ckey_window: "ckey a = ckey b \<Longrightarrow> window_ok a ts \<longleftrightarrow> window_ok b ts"
  using ckey_fields[of a b] by (simp add: window_ok_def target_ok_def[abs_def] soak_needed_def)

definition campaign_ok :: "campaign \<Rightarrow> bool" where
  "campaign_ok c \<longleftrightarrow> uc_MaxParallel c \<ge> 1 \<and> uc_StopOnFailure c \<and> (uc_MutationAuthorized c \<longrightarrow> \<not> uc_DryRun c)"

definition target_rows_ok :: "fleet_db \<Rightarrow> bool" where
  "target_rows_ok db \<longleftrightarrow> table_ok ut_ID targets_uniq (fd_targets db) \<and> fd_next db > 0 \<and>
     (\<forall>t \<in> set (fd_targets db). ut_ID t < fd_next db \<and> ut_CampaignID t < fd_next db)"

definition campaigns_ok :: "fleet_db \<Rightarrow> bool" where
  "campaigns_ok db \<longleftrightarrow> table_ok uc_ID campaigns_uniq (fd_campaigns db) \<and>
     (\<forall>c \<in> set (fd_campaigns db). campaign_ok c \<and> uc_ID c < fd_next db \<and> uc_ID c > 0)"

definition fleet_ok :: "fleet_db \<Rightarrow> bool" where
  "fleet_ok db \<longleftrightarrow> target_rows_ok db \<and> campaigns_ok db \<and>
     (\<forall>c \<in> set (fd_campaigns db). uc_LeaseUntil c = None \<and> window_ok c (of_campaign (uc_ID c) db))"

text \<open>A step that keeps the keys of both tables keeps all but the leases and the windows.\<close>

lemma same_ckeys:
  assumes "map ckey cs' = map ckey cs"
  shows "map uc_ID cs' = map uc_ID cs" "c' \<in> set cs' \<Longrightarrow> \<exists>c \<in> set cs. ckey c' = ckey c"
proof -
  have "map (uc_ID \<circ> ckey) cs' = map (uc_ID \<circ> ckey) cs" using arg_cong[OF assms, of "map uc_ID"] by simp
  then show "map uc_ID cs' = map uc_ID cs" by (simp add: ckey_def comp_def)
  show "c' \<in> set cs' \<Longrightarrow> \<exists>c \<in> set cs. ckey c' = ckey c" using arg_cong[OF assms, of set] by auto
qed

lemma fleet_ok_frame:
  assumes "fleet_ok db" "map ckey (fd_campaigns db') = map ckey (fd_campaigns db)"
    and "map tkey (fd_targets db') = map tkey (fd_targets db)" "fd_next db' = fd_next db"
    and lease: "\<And>c. c \<in> set (fd_campaigns db') \<Longrightarrow> uc_LeaseUntil c = None"
    and win: "\<And>c. c \<in> set (fd_campaigns db) \<Longrightarrow> window_ok c (of_campaign (uc_ID c) db')"
  shows "fleet_ok db'"
proof -
  have "target_rows_ok db'"
  proof -
    have "set (map ut_ID (fd_targets db')) = set (map ut_ID (fd_targets db))"
      "set (map ut_CampaignID (fd_targets db')) = set (map ut_CampaignID (fd_targets db))"
      using same_keys(1,2)[OF assms(3)] by simp_all
    then have "\<forall>n \<in> ut_ID ` set (fd_targets db') \<union> ut_CampaignID ` set (fd_targets db'). n < fd_next db"
      using assms(1) by (auto simp: fleet_ok_def target_rows_ok_def)
    then show ?thesis using assms(1) assms(4) same_keys(3)[OF assms(3)] by (auto simp: fleet_ok_def target_rows_ok_def)
  qed
  moreover have old: "campaign_ok c' \<and> uc_ID c' < fd_next db' \<and> uc_ID c' > 0 \<and> window_ok c' (of_campaign (uc_ID c') db')"
    if c': "c' \<in> set (fd_campaigns db')" for c'
  proof -
    obtain c where c: "c \<in> set (fd_campaigns db)" "ckey c' = ckey c" using same_ckeys(2)[OF assms(2) c'] by blast
    then show ?thesis
      using ckey_fields[OF c(2)] ckey_window[OF c(2)] win[OF c(1)] assms(1,4)
      by (auto simp: fleet_ok_def campaigns_ok_def campaign_ok_def)
  qed
  moreover have "table_ok uc_ID campaigns_uniq (fd_campaigns db')"
    using assms(1) same_ckeys(1)[OF assms(2)] by (simp add: fleet_ok_def campaigns_ok_def table_ok_def campaigns_uniq_def)
  ultimately show ?thesis using lease by (auto simp: fleet_ok_def campaigns_ok_def)
qed

section \<open>Planning keeps the invariant\<close>

text \<open>A target as it is planned.\<close>

definition planned :: "nat \<Rightarrow> target \<Rightarrow> bool" where
  "planned cid t \<longleftrightarrow> ut_CampaignID t = cid \<and> ut_LeaseUntil t = None \<and> ut_LeaseOwner t = [] \<and> ut_State t \<in> {StateReady, StateBlocked}"

lemma plan_targets_planned:
  "t \<in> set (plan_targets now db cid release ids nodes) \<Longrightarrow> planned cid t \<and> ut_ID t = 0"
  by (auto simp: plan_targets_def node_target_def missing_target_def empty_target_def planned_def Let_def split: if_splits)

lemma planned_window:
  assumes "list_all (planned cid) ts" "uc_MaxParallel c \<ge> 1"
  shows "window_ok c ts"
proof -
  have "target_ok c t \<and> \<not> inflight t" if "t \<in> set ts" for t
    using assms(1) that by (auto simp: list_all_iff planned_def target_ok_def inflight_def activeTarget_def)
  then have "list_all (target_ok c) ts" "filter inflight ts = []" by (auto simp: list_all_iff filter_empty_conv)
  then show ?thesis using assms(2) by (simp add: window_ok_def count_if_def)
qed

lemma create_target_ok:
  assumes "target_rows_ok db" "planned cid t" "ut_ID t = 0" "cid < fd_next db" "create_target t db = Inr db'"
  shows "target_rows_ok db'" "fd_campaigns db' = fd_campaigns db" "fd_next db' = fd_next db + 1"
    "list_all (planned cid) (of_campaign cid db) \<Longrightarrow> list_all (planned cid) (of_campaign cid db')"
    "k \<noteq> cid \<Longrightarrow> of_campaign k db' = of_campaign k db"
proof -
  obtain rows where rows: "q_create (fd_down db ''fork_update_campaign_targets'') ut_ID (\<lambda>n r. r\<lparr>ut_ID := n\<rparr>) targets_uniq (fd_next db) t
        (fd_targets db) = Inr rows" and db': "db' = db\<lparr>fd_targets := rows, fd_next := fd_next db + 1\<rparr>"
    using assms(5) by (auto simp: create_target_def elim!: bind_resE)
  let ?t = "t\<lparr>ut_ID := fd_next db\<rparr>"
  have ins: "rows = insort_key ut_ID ?t (fd_targets db)"
    using rows assms(3) by (auto simp: q_create_def Let_def split: if_splits)
  have "table_ok ut_ID targets_uniq rows" using targets.create_ok[OF _ rows] assms(1) by (simp add: target_rows_ok_def)
  moreover have "\<forall>r \<in> set rows. ut_ID r < fd_next db + 1 \<and> ut_CampaignID r < fd_next db + 1"
    using assms(1,2,4) by (auto simp: ins set_insort_key target_rows_ok_def planned_def)
  ultimately show "target_rows_ok db'" by (simp add: target_rows_ok_def db')
  show "fd_campaigns db' = fd_campaigns db" "fd_next db' = fd_next db + 1" by (simp_all add: db')
  show "list_all (planned cid) (of_campaign cid db')" if "list_all (planned cid) (of_campaign cid db)"
    using that assms(2) by (auto simp: list_all_iff of_campaign_def db' ins set_insort_key planned_def)
  show "k \<noteq> cid \<Longrightarrow> of_campaign k db' = of_campaign k db"
    using assms(2) by (simp add: of_campaign_def db' ins filter_insort_triv planned_def)
qed

lemma create_targets_ok:
  assumes "target_rows_ok db" "\<And>t. t \<in> set ts \<Longrightarrow> planned cid t \<and> ut_ID t = 0" "cid < fd_next db"
    and "list_all (planned cid) (of_campaign cid db)" "create_targets ts db = (db', e)"
  shows "target_rows_ok db' \<and> fd_campaigns db' = fd_campaigns db \<and> fd_next db \<le> fd_next db' \<and> list_all (planned cid) (of_campaign cid db') \<and>
    (\<forall>k. k \<noteq> cid \<longrightarrow> of_campaign k db' = of_campaign k db)"
  using assms
proof (induction ts db rule: create_targets.induct)
  case (2 t ts db)
  show ?case
  proof (cases "create_target t db")
    case (Inr db1)
    have t: "planned cid t" "ut_ID t = 0" using "2.prems"(2)[of t] by simp_all
    note ok = create_target_ok[OF "2.prems"(1) t "2.prems"(3) Inr]
    have "target_rows_ok db' \<and> fd_campaigns db' = fd_campaigns db1 \<and> fd_next db1 \<le> fd_next db' \<and> list_all (planned cid) (of_campaign cid db') \<and>
       (\<forall>k. k \<noteq> cid \<longrightarrow> of_campaign k db' = of_campaign k db1)"
      using "2.IH"[OF Inr ok(1)] "2.prems"(2,3,4,5) ok(3,4) Inr by simp
    then show ?thesis using ok by simp
  qed (use "2.prems" in auto)
qed auto

lemma new_campaign_ok:
  assumes "c = with_defaults (new_campaign s (plan_defaults req) release)"
  shows "campaign_ok c" "uc_ID c = 0" "uc_LeaseUntil c = None"
  by (auto simp: assms with_defaults_def new_campaign_def plan_defaults_def campaign_ok_def)

text \<open>A campaign and its targets are stored, and the state of the campaign set afterwards.\<close>

lemma stored_campaign_ok:
  assumes "fleet_ok db" "campaign_ok c" "uc_ID c = 0" "uc_LeaseUntil c = None"
    and rows: "q_create down uc_ID (\<lambda>n r. r\<lparr>uc_ID := n\<rparr>) campaigns_uniq (fd_next db) c (fd_campaigns db) = Inr rows"
    and ts: "\<And>t. t \<in> set ts \<Longrightarrow> planned (fd_next db) t \<and> ut_ID t = 0"
    and ct: "create_targets ts (db\<lparr>fd_campaigns := rows, fd_next := fd_next db + 1\<rparr>) = (db2, e)"
  shows "fleet_ok db2"
proof -
  let ?db1 = "db\<lparr>fd_campaigns := rows, fd_next := fd_next db + 1\<rparr>"
  have old: "target_rows_ok db" "campaigns_ok db" using assms(1) by (simp_all add: fleet_ok_def)
  have none: "of_campaign (fd_next db) db = []"
    using old(1) by (auto simp: of_campaign_def target_rows_ok_def filter_empty_conv)
  have same: "of_campaign k ?db1 = of_campaign k db" for k by (simp add: of_campaign_def)
  have "target_rows_ok ?db1" using old(1) by (auto simp: target_rows_ok_def)
  then have new: "target_rows_ok db2" "fd_campaigns db2 = rows" "fd_next db + 1 \<le> fd_next db2"
      "list_all (planned (fd_next db)) (of_campaign (fd_next db) db2)" "\<And>k. k \<noteq> fd_next db \<Longrightarrow> of_campaign k db2 = of_campaign k db"
    using create_targets_ok[OF _ ts _ _ ct] same none by simp_all
  have rset: "set rows = insert (c\<lparr>uc_ID := fd_next db\<rparr>) (set (fd_campaigns db))"
    using campaigns.create_Inr[OF rows] assms(3) by simp
  have "table_ok uc_ID campaigns_uniq rows" using campaigns.create_ok[OF _ rows] old(2) by (simp add: campaigns_ok_def)
  moreover have "campaign_ok r \<and> uc_ID r < fd_next db2 \<and> uc_ID r > 0" if "r \<in> set rows" for r
    using old assms(2) new(3) that by (auto simp: campaigns_ok_def rset campaign_ok_def target_rows_ok_def)
  ultimately have cok: "campaigns_ok db2" using new(2) by (simp add: campaigns_ok_def)
  have "uc_LeaseUntil r = None \<and> window_ok r (of_campaign (uc_ID r) db2)" if "r \<in> set rows" for r
  proof (cases "r = c\<lparr>uc_ID := fd_next db\<rparr>")
    case True
    then show ?thesis using planned_window[OF new(4), of r] assms(2,4) by (simp add: campaign_ok_def)
  next
    case False
    then have "r \<in> set (fd_campaigns db)" using that rset by simp
    then show ?thesis using assms(1) new(5) old(2) by (fastforce simp: fleet_ok_def campaigns_ok_def)
  qed
  then show ?thesis using new(1,2) cok by (simp add: fleet_ok_def)
qed

lemma Plan_ok:
  assumes "fleet_ok db" "Plan now s resolver req db = (out, db')"
  shows "fleet_ok db'"
proof (cases "db' = db")
  case False
  define r where "r = plan_defaults req"
  obtain release nodes rows where r: "resolver (pr_Channel r) = Inr release"
    "q_create (fd_down db ''fork_update_campaigns'') uc_ID (\<lambda>n r. r\<lparr>uc_ID := n\<rparr>) campaigns_uniq (fd_next db)
        (with_defaults (new_campaign s r release)) (fd_campaigns db) = Inr rows"
    "q_find (fd_down db ''nodes'') (\<lambda>n. nd_Id n > 0 \<and> (pr_NodeIDs r = [] \<or> nd_Id n \<in> set (pr_NodeIDs r))) (fd_nodes db) = Inr nodes"
    using False assms(2) by (auto simp: Plan_def Let_def r_def split: if_splits sum.splits)
  let ?db1 = "db\<lparr>fd_campaigns := rows, fd_next := fd_next db + 1\<rparr>"
  let ?ts = "plan_targets now ?db1 (fd_next db) release (pr_NodeIDs r) nodes"
  obtain db2 e where ct: "create_targets ?ts ?db1 = (db2, e)" by fastforce
  note nc = new_campaign_ok[OF refl, of s req release, folded r_def]
  have ok: "fleet_ok db2"
    by (rule stored_campaign_ok[OF assms(1) nc r(2) _ ct]) (rule plan_targets_planned)
  have "db' = db2 \<or> db' = update_campaigns (\<lambda>c. uc_ID c = fd_next db) (\<lambda>c. c\<lparr>uc_State := StateReady\<rparr>) db2"
    using False assms(2) r ct unfolding Plan_def r_def[symmetric] by (auto simp: Let_def update_campaigns_def r_def split: if_splits option.splits)
  then show ?thesis
  proof
    assume db': "db' = update_campaigns (\<lambda>c. uc_ID c = fd_next db) (\<lambda>c. c\<lparr>uc_State := StateReady\<rparr>) db2"
    show ?thesis
      using ok by (intro fleet_ok_frame[OF ok])
        (auto simp: db' update_campaigns_def ckey_def of_campaign_def fleet_ok_def split: if_splits)
  qed (use ok in simp)
qed (use assms(1) in simp)

section \<open>Reconciliation keeps the invariant\<close>

lemma update_campaigns_simps [simp]:
  "fd_targets (update_campaigns P f db) = fd_targets db" "fd_nodes (update_campaigns P f db) = fd_nodes db"
  "fd_next (update_campaigns P f db) = fd_next db" "fd_down (update_campaigns P f db) = fd_down db"
  "fd_campaigns (update_campaigns P f db) = map (\<lambda>c. if P c then f c else c) (fd_campaigns db)"
  by (simp_all add: update_campaigns_def)

lemma update_ckeys:
  assumes "\<And>c. c \<in> set (fd_campaigns db) \<Longrightarrow> P c \<Longrightarrow> ckey (f c) = ckey c"
  shows "map ckey (fd_campaigns (update_campaigns P f db)) = map ckey (fd_campaigns db)"
  using assms by simp

text \<open>Only the lease of one owner on one campaign is open.\<close>

definition leased :: "nat \<Rightarrow> string \<Rightarrow> fleet_db \<Rightarrow> bool" where
  "leased cid owner db \<longleftrightarrow>
     (\<forall>c \<in> set (fd_campaigns db). uc_LeaseUntil c = None \<or> uc_ID c = cid \<and> uc_LeaseOwner c = owner)"

lemma release_leased:
  assumes "leased cid owner db" "\<not> fd_down db ''fork_update_campaigns''" "c \<in> set (fd_campaigns (releaseCampaign cid owner db))"
  shows "uc_LeaseUntil c = None"
  using assms by (auto simp: leased_def releaseCampaign_def clear_lease_def split: if_splits)

lemma release_frame:
  "fd_targets (releaseCampaign cid owner db) = fd_targets db" "fd_next (releaseCampaign cid owner db) = fd_next db"
  "map ckey (fd_campaigns (releaseCampaign cid owner db)) = map ckey (fd_campaigns db)"
  by (auto simp: releaseCampaign_def clear_lease_def ckey_def)

lemma acquire_frame:
  assumes "acquireCampaign now cid owner db = (got, db1)" "\<And>c. c \<in> set (fd_campaigns db) \<Longrightarrow> uc_LeaseUntil c = None"
  shows "fd_targets db1 = fd_targets db" "fd_next db1 = fd_next db" "fd_down db1 = fd_down db" "fd_nodes db1 = fd_nodes db"
    "map ckey (fd_campaigns db1) = map ckey (fd_campaigns db)" "leased cid owner db1"
  using assms by (auto simp: acquireCampaign_def ckey_def leased_def campaign_free_def split: if_splits)

text \<open>The campaign that is found can be taken: no lease is open and its state is not final.\<close>

lemma acquire_succeeds:
  assumes "fleet_ok db" "q_first (fd_down db ''fork_update_campaigns'') (\<lambda>c. uc_ID c = cid) (fd_campaigns db) = Inr c"
    and "uc_State c \<notin> {StateAborted, StateSucceeded, StateFailed}" "acquireCampaign now cid owner db = (got, db1)"
  shows "got"
proof -
  have c: "c \<in> set (fd_campaigns db)" "uc_ID c = cid" "\<not> fd_down db ''fork_update_campaigns''"
    using q_first_InrD[OF assms(2)] by auto
  have d: "distinct (map uc_ID (fd_campaigns db))" using assms(1) by (simp add: fleet_ok_def campaigns_ok_def table_ok_def)
  have "uc_LeaseUntil c = None" using assms(1) c(1) by (simp add: fleet_ok_def)
  then have "campaign_free now cid c" using assms(3) c(2) by (auto simp: campaign_free_def lease_free_def)
  moreover have "x = c" if "x \<in> set (fd_campaigns db)" "uc_ID x = cid" for x
    using d c(1,2) that by (auto simp: distinct_map dest: inj_onD)
  ultimately have "filter (campaign_free now cid) (fd_campaigns db) = filter (\<lambda>x. uc_ID x = uc_ID c) (fd_campaigns db)"
    using c(2) by (intro filter_cong) (auto simp: campaign_free_def)
  then show ?thesis using assms(4) c(3) filter_unique_key[OF d c(1)] by (simp add: acquireCampaign_def)
qed

text \<open>All that one reconciliation can do to the database and to the nodes.\<close>

lemma Reconcile_cases:
  assumes "fleet_ok db" "Fleet_Reconcile now s ex cid owner0 (db, h) = (out, db', h')"
  obtains (idle) "db' = db" "h' = h"
  | (held) db1 lo where "leased cid lo db1" "\<not> fd_down db1 ''fork_update_campaigns''" "fd_targets db1 = fd_targets db"
      "fd_next db1 = fd_next db" "map ckey (fd_campaigns db1) = map ckey (fd_campaigns db)"
      "db' = releaseCampaign cid lo db1" "h' = h"
  | (loop) db1 c lo ts db2 f owner where "leased cid lo db1" "\<not> fd_down db1 ''fork_update_campaigns''"
      "\<not> fd_down db1 ''fork_update_campaign_targets''" "fd_targets db1 = fd_targets db" "fd_next db1 = fd_next db"
      "map ckey (fd_campaigns db1) = map ckey (fd_campaigns db)"
      "fs_enabled s" "c \<in> set (fd_campaigns db1)" "uc_ID c = cid" "\<not> uc_DryRun c" "uc_MutationAuthorized c"
      "fold (reconcile_target now owner ex c) [0..<length (of_campaign cid db1)] (of_campaign cid db1, db1, h) = (ts, db2, h')"
      "db' = releaseCampaign cid lo (update_campaigns (\<lambda>r. uc_ID r = cid \<and> uc_LeaseOwner r = lo) f db2)"
      "\<And>r. ckey (f r) = ckey r \<and> uc_LeaseUntil (f r) = None"
proof -
  define owner where "owner = (if owner0 = [] then ''fleet-worker'' else owner0)"
  define lo where "lo = owner @ ''-'' @ itoa now"
  note run = assms(2)[unfolded Fleet_Reconcile_def, simplified, folded owner_def, unfolded Let_def, folded lo_def]
  consider (stop) "db' = db" "h' = h"
    | (go) c0 where "fs_enabled s" "q_first (fd_down db ''fork_update_campaigns'') (\<lambda>c. uc_ID c = cid) (fd_campaigns db) = Inr c0"
        "uc_State c0 \<notin> {StateAborted, StateSucceeded, StateFailed}"
    using run by (cases "fs_enabled s"; cases "q_first (fd_down db ''fork_update_campaigns'') (\<lambda>c. uc_ID c = cid) (fd_campaigns db)")
      (auto split: if_splits)
  then show thesis
  proof cases
    case stop
    then show thesis by (rule idle)
  next
    case go
    obtain got db1 where acq: "acquireCampaign now cid lo db = (got, db1)" by fastforce
    have got: "got" by (rule acquire_succeeds[OF assms(1) go(2,3) acq])
    have none: "uc_LeaseUntil c = None" if "c \<in> set (fd_campaigns db)" for c
      using assms(1) that by (simp add: fleet_ok_def)
    note fr = acquire_frame[OF acq none]
    have down: "\<not> fd_down db1 ''fork_update_campaigns''" using q_first_InrD[OF go(2)] fr(3) by simp
    note run1 = run[unfolded acq, simplified got go, simplified]
    show thesis
    proof (cases "q_first (fd_down db1 ''fork_update_campaigns'') (\<lambda>c. uc_ID c = cid) (fd_campaigns db1)")
      case (Inl e)
      then show thesis using run1 go(3) held[OF fr(6) down fr(1,2,5)] by simp
    next
      case (Inr c)
      have c: "c \<in> set (fd_campaigns db1)" "uc_ID c = cid" using q_first_InrD[OF Inr] by auto
      show thesis
      proof (cases "uc_DryRun c \<or> \<not> uc_MutationAuthorized c")
        case True
        let ?u = "update_campaigns (\<lambda>r. uc_ID r = cid \<and> uc_LeaseOwner r = lo)
                    (\<lambda>r. r\<lparr>uc_State := StateReady, uc_Revision := add64 (uc_Revision c) 1\<rparr>) db1"
        have "leased cid lo ?u" using fr(6) by (auto simp: leased_def)
        moreover have "map ckey (fd_campaigns ?u) = map ckey (fd_campaigns db)" using fr(5) update_ckeys[of db1] by (simp add: ckey_def)
        ultimately show thesis using run1 go(3) Inr True held[of lo ?u] down fr by simp
      next
        case auth: False
        show thesis
        proof (cases "fd_down db1 ''fork_update_campaign_targets''")
          case True
          then show thesis using run1 go(3) Inr auth held[OF fr(6) down fr(1,2,5)] by (simp add: q_find_def)
        next
          case False
          obtain ts db2 h2 where f: "fold (reconcile_target now owner ex c) [0..<length (of_campaign cid db1)] (of_campaign cid db1, db1, h) = (ts, db2, h2)"
            by (metis surj_pair)
          let ?f = "\<lambda>r. clear_lease (r\<lparr>uc_State := uc_State (campaign_outcome c db2), uc_Error := uc_Error (campaign_outcome c db2),
                             uc_Revision := uc_Revision (campaign_outcome c db2)\<rparr>)"
          show thesis
            using run1 go(3) Inr auth False f loop[OF fr(6) down False fr(1,2,5) go(1) c, of owner ts db2 ?f]
            by (simp add: q_find_def of_campaign_def[symmetric] Let_def clear_lease_def ckey_def)
        qed
      qed
    qed
  qed
qed

lemma frame_trans:
  assumes "filter (\<lambda>t. ut_CampaignID t \<noteq> cid) (fd_targets db') = filter (\<lambda>t. ut_CampaignID t \<noteq> cid) (fd_targets db)" "k \<noteq> cid"
  shows "of_campaign k db' = of_campaign k db"
proof -
  have "of_campaign k d = filter (\<lambda>t. ut_CampaignID t = k) (filter (\<lambda>t. ut_CampaignID t \<noteq> cid) (fd_targets d))" for d
    using assms(2) by (auto simp: of_campaign_def intro!: filter_cong)
  then show ?thesis by (simp only: assms(1))
qed

lemma fleet_ok_window: "fleet_ok db \<Longrightarrow> c \<in> set (fd_campaigns db) \<Longrightarrow> window_ok c (of_campaign (uc_ID c) db)"
  by (simp add: fleet_ok_def)

text \<open>What one reconciliation does, given the invariant.\<close>

lemma Reconcile_effect:
  assumes "fleet_ok db" "Fleet_Reconcile now s ex cid owner0 (db, h) = (out, db', h')"
  shows "fleet_ok db'"
    "\<exists>cs. h' = h @ cs \<and> (\<forall>ns rel. DispatchCall ns rel \<in> set cs \<longrightarrow> fs_enabled s \<and>
       (\<exists>c \<in> set (fd_campaigns db). uc_ID c = cid \<and> \<not> uc_DryRun c \<and> uc_MutationAuthorized c \<and> dispatch_ok now c db ns rel))"
    "t \<in> set (fd_targets db) \<Longrightarrow> stuck t \<Longrightarrow> t \<in> set (fd_targets db')"
proof -
  let ?calls = "\<exists>cs. h' = h @ cs \<and> (\<forall>ns rel. DispatchCall ns rel \<in> set cs \<longrightarrow> fs_enabled s \<and>
       (\<exists>c \<in> set (fd_campaigns db). uc_ID c = cid \<and> \<not> uc_DryRun c \<and> uc_MutationAuthorized c \<and> dispatch_ok now c db ns rel))"
  have "fleet_ok db' \<and> ?calls \<and> (t \<in> set (fd_targets db) \<longrightarrow> stuck t \<longrightarrow> t \<in> set (fd_targets db'))"
    using assms
  proof (cases rule: Reconcile_cases)
    case idle
    then show ?thesis using assms(1) by simp
  next
    case (held db1 lo)
    have "fleet_ok db'"
      using held release_frame[of cid lo db1] release_leased[OF held(1,2)]
      by (intro fleet_ok_frame[OF assms(1)]) (auto simp: of_campaign_def dest: fleet_ok_window[OF assms(1)])
    then show ?thesis using held release_frame[of cid lo db1] by simp
  next
    case (loop db1 c lo ts db2 f owner)
    obtain c0 where c0: "c0 \<in> set (fd_campaigns db)" "ckey c = ckey c0" using same_ckeys(2)[OF loop(6,8)] by blast
    note k = ckey_fields[OF c0(2)]
    have same: "of_campaign i db1 = of_campaign i db" for i using loop(4) by (simp add: of_campaign_def)
    have d: "distinct (map ut_ID (fd_targets db1))"
      using assms(1) loop(4) by (simp add: fleet_ok_def target_rows_ok_def table_ok_def)
    have "window_ok c (of_campaign cid db1)"
      using fleet_ok_window[OF assms(1) c0(1)] ckey_window[OF c0(2)] k(1) loop(9) same by simp
    then have "loop_inv now c db1 h (of_campaign cid db1, db1, h)" using loop(9) by (intro loop_invI) auto
    from loop_preserves[OF d loop(3) this, where n = "length (of_campaign cid db1)" and owner = owner and ex = ex] loop(12)
    have inv: "loop_inv now c db1 h (ts, db2, h')" by simp
    note L = loop_invD[OF inv]
    let ?u = "update_campaigns (\<lambda>r. uc_ID r = cid \<and> uc_LeaseOwner r = lo) f db2"
    have leased: "leased cid lo ?u" using loop(1,14) L(1) by (auto simp: leased_def)
    have keys: "map ckey (fd_campaigns ?u) = map ckey (fd_campaigns db)" using update_ckeys[of db2 _ f] loop(6,14) L(1) by simp
    have tg: "fd_targets db' = fd_targets db2" using loop(13) release_frame(1) by simp
    have win: "window_ok r (of_campaign (uc_ID r) db')" if r: "r \<in> set (fd_campaigns db)" for r
    proof (cases "uc_ID r = cid")
      case True
      then have "r = c0" using r c0(1) assms(1) k(1) loop(9)
        by (auto simp: fleet_ok_def campaigns_ok_def table_ok_def distinct_map dest: inj_onD)
      then show ?thesis using L(7,8) ckey_window[OF c0(2)] True loop(9) tg by (simp add: of_campaign_def)
    next
      case False
      then have "of_campaign (uc_ID r) db' = of_campaign (uc_ID r) db"
        using frame_trans[of cid db' db] L(6) loop(4,9) tg by simp
      then show ?thesis using fleet_ok_window[OF assms(1) r] by simp
    qed
    have "fleet_ok db'"
    proof (rule fleet_ok_frame[OF assms(1)])
      show "map ckey (fd_campaigns db') = map ckey (fd_campaigns db)" using keys release_frame(3) loop(13) by simp
      show "map tkey (fd_targets db') = map tkey (fd_targets db)" using L(5) loop(4) tg by simp
      show "fd_next db' = fd_next db" using L(3) loop(5,13) release_frame(2) by simp
      show "\<And>c. c \<in> set (fd_campaigns db') \<Longrightarrow> uc_LeaseUntil c = None"
        using release_leased[OF leased] loop(2,13) L(4) by simp
    qed (rule win)
    moreover have "dispatch_ok now c db1 = dispatch_ok now c0 db" using k same by (simp add: dispatch_ok_def fun_eq_iff)
    then have ?calls using L(11) c0 k loop(7,9,10,11) by auto
    moreover have "t \<in> set (fd_targets db')" if "t \<in> set (fd_targets db)" "stuck t"
    proof (cases "ut_CampaignID t = cid")
      case True
      then show ?thesis using that L(7) L(10)[of t] loop(4,9) tg by (auto simp: of_campaign_def)
    next
      case False
      then have "t \<in> set (filter (\<lambda>t. ut_CampaignID t \<noteq> uc_ID c) (fd_targets db2))" using that loop(4,9) L(6) by simp
      then show ?thesis using tg by simp
    qed
    ultimately show ?thesis by blast
  qed
  then show "fleet_ok db'" ?calls "t \<in> set (fd_targets db) \<Longrightarrow> stuck t \<Longrightarrow> t \<in> set (fd_targets db')" by blast+
qed

section \<open>Abort, retry and reachable databases\<close>

text \<open>The row of the campaign that was read is written back with some columns changed.\<close>

lemma written_back_ok:
  assumes "fleet_ok db" "c \<in> set (fd_campaigns db)" "uc_ID c = cid" "ckey c' = ckey c" "uc_LeaseUntil c' = None"
  shows "fleet_ok (update_campaigns (\<lambda>r. uc_ID r = cid) (\<lambda>_. c') db)"
proof -
  have "r = c" if "r \<in> set (fd_campaigns db)" "uc_ID r = cid" for r
    using that assms(1-3) by (auto simp: fleet_ok_def campaigns_ok_def table_ok_def distinct_map dest: inj_onD)
  then have "map ckey (fd_campaigns (update_campaigns (\<lambda>r. uc_ID r = cid) (\<lambda>_. c') db)) = map ckey (fd_campaigns db)"
    using update_ckeys[of db "\<lambda>r. uc_ID r = cid" "\<lambda>_. c'"] assms(4) by simp
  then show ?thesis
    using assms(1,5) by (intro fleet_ok_frame[OF assms(1)]) (auto simp: of_campaign_def fleet_ok_def split: if_splits)
qed

text \<open>Targets are set to a state that is not in flight.\<close>

lemma settled_ok:
  assumes "fleet_ok db" "\<And>t. tkey (f t) = tkey t \<and> ut_LeaseUntil (f t) = ut_LeaseUntil t \<and> ut_LeaseOwner (f t) = ut_LeaseOwner t \<and>
      ut_State (f t) \<in> {StateReady, StateAborted}"
  shows "fleet_ok (update_targets P f db)"
proof -
  let ?g = "\<lambda>t. if P t then f t else t"
  have key: "ut_CampaignID (?g t) = ut_CampaignID t" for t using assms(2)[of t] by (simp add: tkey_fields)
  have tgs: "of_campaign k (update_targets P f db) = map ?g (of_campaign k db)" for k
    using key by (simp add: of_campaign_def update_targets_def filter_map comp_def cong: filter_cong)
  have "window_ok c (map ?g ts)" if w: "window_ok c ts" for c ts
  proof -
    have "target_ok c (?g t)" if "target_ok c t" for t
      using that assms(2)[of t] by (auto simp: target_ok_def)
    then have "list_all (target_ok c) (map ?g ts)" using w by (simp add: window_ok_def list_all_length)
    moreover have "inflight (?g t) \<Longrightarrow> inflight t" for t
      using assms(2)[of t] by (auto simp: inflight_def activeTarget_def split: if_splits)
    then have "count_if inflight (map ?g ts) \<le> count_if inflight ts" by (rule count_if_mono)
    ultimately show ?thesis using w by (simp add: window_ok_def)
  qed
  note windows = this
  show ?thesis
  proof (rule fleet_ok_frame[OF assms(1)])
    show "map tkey (fd_targets (update_targets P f db)) = map tkey (fd_targets db)"
      using assms(2) by (simp add: update_targets_def)
    show "window_ok c (of_campaign (uc_ID c) (update_targets P f db))" if "c \<in> set (fd_campaigns db)" for c
      unfolding tgs by (rule windows[OF fleet_ok_window[OF assms(1) that]])
  qed (use assms(1) in \<open>auto simp: update_targets_def fleet_ok_def\<close>)
qed

lemma Abort_ok:
  assumes "fleet_ok db" "Fleet_Abort s cid db = (out, db')"
  shows "fleet_ok db'"
proof (cases "db' = db")
  case False
  obtain c where c: "q_first (fd_down db ''fork_update_campaigns'') (\<lambda>c. uc_ID c = cid) (fd_campaigns db) = Inr c"
    using False assms(2) by (auto simp: Fleet_Abort_def split: if_splits sum.splits)
  define c' where "c' = c\<lparr>uc_State := StateAborted, uc_Revision := add64 (uc_Revision c) 1\<rparr>"
  have "fleet_ok (update_campaigns (\<lambda>r. uc_ID r = cid) (\<lambda>_. c') db)"
    using q_first_InrD[OF c] assms(1) by (intro written_back_ok[of _ c]) (auto simp: c'_def ckey_def fleet_ok_def)
  from this settled_ok[OF this, of "\<lambda>t. t\<lparr>ut_State := StateAborted\<rparr>"] show ?thesis
    using False assms(2) c unfolding Fleet_Abort_def by (auto simp: c'_def Let_def tkey_def split: if_splits)
qed (use assms(1) in simp)

lemma Retry_ok:
  assumes "fleet_ok db" "Fleet_Retry s cid db = (out, db')"
  shows "fleet_ok db'"
proof (cases "db' = db")
  case False
  obtain c where c: "q_first (fd_down db ''fork_update_campaigns'') (\<lambda>c. uc_ID c = cid) (fd_campaigns db) = Inr c"
    using False assms(2) by (auto simp: Fleet_Retry_def split: if_splits sum.splits)
  define c' where "c' = c\<lparr>uc_State := StateReady, uc_Error := []\<rparr>"
  have "fleet_ok (update_campaigns (\<lambda>r. uc_ID r = cid) (\<lambda>_. c') db)"
    using q_first_InrD[OF c] assms(1) by (intro written_back_ok[of _ c]) (auto simp: c'_def ckey_def fleet_ok_def)
  from this settled_ok[OF this, of "\<lambda>t. t\<lparr>ut_State := StateReady, ut_BlockedReason := [], ut_Error := [], ut_DispatchStatus := ''retry_requested''\<rparr>"]
  show ?thesis
    using False assms(2) c unfolding Fleet_Retry_def by (auto simp: c'_def Let_def tkey_def split: if_splits)
qed (use assms(1) in simp)

inductive fleet_step :: "fleet_db \<Rightarrow> fleet_db \<Rightarrow> bool" where
  plan: "Plan now s resolver req db = (out, db') \<Longrightarrow> fleet_step db db'"
| reconcile: "Fleet_Reconcile now s ex cid owner (db, h) = (out, db', h') \<Longrightarrow> fleet_step db db'"
| abort: "Fleet_Abort s cid db = (out, db') \<Longrightarrow> fleet_step db db'"
| retry: "Fleet_Retry s cid db = (out, db') \<Longrightarrow> fleet_step db db'"
| panel: "fleet_step db (db\<lparr>fd_nodes := nodes, fd_down := down\<rparr>)"

inductive fleet_reachable :: "fleet_db \<Rightarrow> bool" where
  start: "fleet_reachable \<lparr>fd_campaigns = [], fd_targets = [], fd_nodes = nodes, fd_next = 1, fd_down = down\<rparr>"
| step: "fleet_reachable db \<Longrightarrow> fleet_step db db' \<Longrightarrow> fleet_reachable db'"

lemma fleet_reachable_ok: "fleet_reachable db \<Longrightarrow> fleet_ok db"
proof (induction rule: fleet_reachable.induct)
  case (start nodes down)
  then show ?case by (simp add: fleet_ok_def target_rows_ok_def campaigns_ok_def table_ok_def targets_uniq_def campaigns_uniq_def)
next
  case (step db db')
  from step(2) show ?case
  proof cases
    case (panel nodes down)
    then show ?thesis
      using step(3) by (intro fleet_ok_frame[OF step(3)]) (auto simp: of_campaign_def fleet_ok_def)
  qed (rule Plan_ok[OF step(3)] Reconcile_effect(1)[OF step(3)] Abort_ok[OF step(3)] Retry_ok[OF step(3)], assumption)+
qed

text \<open>The periodic job is a sequence of reconciliations.\<close>

lemma job_step_reachable: "fleet_reachable (fst st) \<Longrightarrow> fleet_reachable (fst (job_step now s ex c st))"
  by (cases st; cases "Fleet_Reconcile now s ex (uc_ID c) ''scheduler'' st")
    (auto simp: job_step_def intro: fleet_reachable.step fleet_step.reconcile)

lemma reconcileJob_reachable:
  assumes "fleet_reachable (fst st)"
  shows "fleet_reachable (fst (reconcileJob now s ex st))"
proof -
  have "fleet_reachable (fst (fold (job_step now s ex) cs st))" for cs
    using assms by (induction cs arbitrary: st) (auto simp: job_step_reachable)
  then show ?thesis using assms by (auto simp: reconcileJob_def split: sum.splits)
qed

section \<open>Properties\<close>

text \<open>Concrete data: two nodes, a campaign that updates one node at a time, and executors that accept a
  dispatch or lose its answer.\<close>

definition sample_node :: "int \<Rightarrow> node_row" where
  "sample_node i = \<lparr>nd_Id = i, nd_Guid = ''g'', nd_Name = ''n'', nd_Address = ''a'', nd_Port = 443, nd_Scheme = ''https'',
     nd_Enable = True, nd_Status = ''online'', nd_LastHeartbeat = 1, nd_PanelVersion = ''1.0.0'', nd_XrayState = ''running''\<rparr>"

definition sample_now :: int where "sample_now = 5"

definition sample_release :: ReleaseSnapshot where
  "sample_release = \<lparr>rs_Channel = ''stable'', rs_Tag = ''v1.0.1'', rs_APIURL = ''u'', rs_HTMLURL = ''h'', rs_ChecksumVerified = True\<rparr>"

definition sample_request :: "int \<Rightarrow> PlanRequest" where
  "sample_request soak_seconds = \<lparr>pr_Name = ''x'', pr_Channel = ''stable'', pr_NodeIDs = [1, 2], pr_DryRun = False, pr_CanaryCount = 0,
     pr_BatchSize = 2, pr_MaxParallel = 1, pr_HealthTimeoutSecs = 300, pr_SoakSeconds = soak_seconds, pr_StopOnFailure = Some False,
     pr_ConfirmProduction = True\<rparr>"

definition sample_service :: fleet_service where
  "sample_service = \<lparr>fs_enabled = True, fs_mutationEnabled = True\<rparr>"

definition sample_executor :: "string \<Rightarrow> update_executor" where
  "sample_executor run = \<lparr>
     ex_Preflight = (\<lambda>_ _ _. (\<lparr>pf_Supported = True, pf_Reason = []\<rparr>, None)),
     ex_Dispatch = (\<lambda>_ _ _. (\<lparr>di_Evidence = ''e'', di_RunID = run, di_Ambiguous = False\<rparr>, None)),
     ex_Reconcile = (\<lambda>_ node _. (\<lparr>cv_FreshHeartbeat = True, cv_PanelVersion = ''1.0.1'', cv_NodeStatus = ''online'',
        cv_XrayState = ''running'', cv_RollbackEvidence = [], cv_RunID = run, cv_UpdateState = ''success'', cv_ExitCode = 0,
        cv_FinishedAt = 99, cv_RolledBack = False, cv_RollbackHealthy = False, cv_UpdateEvidence = True\<rparr>, None))\<rparr>"

definition sample_start :: fleet_db where
  "sample_start = \<lparr>fd_campaigns = [], fd_targets = [], fd_nodes = [sample_node 1, sample_node 2], fd_next = 1, fd_down = (\<lambda>_. False)\<rparr>"

definition sample_planned :: "int \<Rightarrow> fleet_db" where
  "sample_planned soak_seconds = snd (Plan sample_now sample_service (\<lambda>_. Inr sample_release) (sample_request soak_seconds) sample_start)"

definition fleet_run :: "int \<Rightarrow> string \<Rightarrow> fleet_db \<Rightarrow> go_error option \<times> fleet_db \<times> fleet_call list" where
  "fleet_run now run db = Fleet_Reconcile now sample_service (sample_executor run) 1 [] (db, [])"

lemma sample_reachable:
  "fleet_reachable (sample_planned n)" "fleet_reachable db \<Longrightarrow> fleet_reachable (fst (snd (fleet_run now run db)))"
proof -
  have "fleet_reachable sample_start" unfolding sample_start_def by (rule fleet_reachable.start)
  then show "fleet_reachable (sample_planned n)"
    unfolding sample_planned_def by (rule fleet_reachable.step) (rule fleet_step.plan, rule surjective_pairing)
  show "fleet_reachable (fst (snd (fleet_run now run db)))" if "fleet_reachable db"
    using that 
    by (rule fleet_reachable.step) (rule fleet_step.reconcile[where out = "fst (fleet_run now run db)" and h' = "snd (snd (fleet_run now run db))"],
      simp add: fleet_run_def)
qed

fun is_dispatch :: "fleet_call \<Rightarrow> bool" where
  "is_dispatch (DispatchCall _ _) = True"
| "is_dispatch _ = False"

definition first_campaign :: "fleet_db \<Rightarrow> campaign" where
  "first_campaign db = hd (fd_campaigns db)"

lemma first_campaign_in: "length (fd_campaigns db) = 1 \<Longrightarrow> first_campaign db \<in> set (fd_campaigns db)"
  by (cases "fd_campaigns db") (auto simp: first_campaign_def)



text \<open>C12: a reconciliation of a reachable database asks a node to update itself only when the service is
  enabled, the campaign is no dry run and was authorised when it was planned, the release is the one the
  campaign recorded, the node is eligible at that moment, and it belongs to a target of the campaign that was
  waiting for its dispatch when the reconciliation began.\<close>

theorem dispatch_only_authorised:
  assumes "fleet_reachable db" "Fleet_Reconcile now s ex cid owner (db, h) = (out, db', h')"
  shows "\<exists>cs. h' = h @ cs \<and> (\<forall>ns rel. DispatchCall ns rel \<in> set cs \<longrightarrow> fs_enabled s \<and>
    (\<exists>c \<in> set (fd_campaigns db). uc_ID c = cid \<and> \<not> uc_DryRun c \<and> uc_MutationAuthorized c \<and>
       rel = campaign_release c \<and> eligibility now ns rel = [] \<and>
       (\<exists>t \<in> set (fd_targets db). ut_CampaignID t = cid \<and> ut_State t = StateReady \<and> ut_NodeID t = ns_ID ns)))"
proof -
  obtain cs where cs: "h' = h @ cs" "\<And>ns rel. DispatchCall ns rel \<in> set cs \<Longrightarrow> fs_enabled s \<and>
       (\<exists>c \<in> set (fd_campaigns db). uc_ID c = cid \<and> \<not> uc_DryRun c \<and> uc_MutationAuthorized c \<and> dispatch_ok now c db ns rel)"
    using Reconcile_effect(2)[OF fleet_reachable_ok[OF assms(1)] assms(2)] by blast
  show ?thesis
    using cs(1) cs(2) unfolding dispatch_ok_def of_campaign_def by (intro exI[of _ cs]) fastforce
qed

theorem dispatch_only_authorised_witness:
  "list_ex is_dispatch (snd (snd (fleet_run sample_now ''r'' (sample_planned 5)))) \<and>
   (\<exists>cs. snd (snd (fleet_run sample_now ''r'' (sample_planned 5))) = [] @ cs \<and>
     (\<forall>ns rel. DispatchCall ns rel \<in> set cs \<longrightarrow> fs_enabled sample_service \<and>
       (\<exists>c \<in> set (fd_campaigns (sample_planned 5)). uc_ID c = 1 \<and> \<not> uc_DryRun c \<and> uc_MutationAuthorized c \<and>
          rel = campaign_release c \<and> eligibility sample_now ns rel = [] \<and>
          (\<exists>t \<in> set (fd_targets (sample_planned 5)). ut_CampaignID t = 1 \<and> ut_State t = StateReady \<and> ut_NodeID t = ns_ID ns))))"
proof -
  have "list_ex is_dispatch (snd (snd (fleet_run sample_now ''r'' (sample_planned 5))))" by code_simp
  moreover have "Fleet_Reconcile sample_now sample_service (sample_executor ''r'') 1 [] (sample_planned 5, []) =
      (fst (fleet_run sample_now ''r'' (sample_planned 5)), fst (snd (fleet_run sample_now ''r'' (sample_planned 5))),
       snd (snd (fleet_run sample_now ''r'' (sample_planned 5))))"
    by (simp add: fleet_run_def)
  ultimately show ?thesis using dispatch_only_authorised[OF sample_reachable(1)[of 5]] by blast
qed





end
