(* ===== verification/Tuic_Protocol.thy ===== *)
theory Tuic_Protocol
  imports Go_Runtime "HOL-Library.Word"
begin

text \<open>
  The wire formats of the TUIC server, \<open>src/internal/tuic/protocol.go\<close> and the pure parts of
  \<open>socks_bridge.go\<close>: addresses, command and packet headers, and the SOCKS5 requests and replies towards the
  local relay. Bytes are \<open>8 word\<close>, ports and sizes \<open>16 word\<close>; Go strings are byte sequences. A reader is the
  list of the bytes that will arrive and a writer the list of the bytes written, which is what the
  \<open>bytes.Buffer\<close> of the callers is.
\<close>

unbundle bit_operations_syntax

type_synonym byte = "8 word"
type_synonym bytes = "8 word list"

section \<open>Bytes\<close>

definition str_bytes :: "string \<Rightarrow> bytes" where "str_bytes s = map of_char s"

text \<open>\<open>binary.BigEndian.Uint16\<close> and \<open>PutUint16\<close>.\<close>

definition be16 :: "byte \<Rightarrow> byte \<Rightarrow> 16 word" where
  "be16 hi lo = push_bit 8 (ucast hi) OR ucast lo"

definition put16 :: "16 word \<Rightarrow> bytes" where
  "put16 v = [ucast (drop_bit 8 v), ucast v]"

fun get16 :: "bytes \<Rightarrow> 16 word" where
  "get16 (hi # lo # _) = be16 hi lo"
| "get16 _ = 0"

lemma length_put16 [simp]: "length (put16 v) = 2"
  by (simp add: put16_def)

lemma bit_be16: "bit (be16 hi lo) n \<longleftrightarrow> n < 16 \<and> (if n < 8 then bit lo n else bit hi (n - 8))"
  by (auto simp: be16_def bit_simps dest: bit_imp_le_length)

lemma get16_put16 [simp]: "get16 (put16 v @ rest) = v" "get16 (put16 v) = v"
proof -
  have "be16 (ucast (drop_bit 8 v)) (ucast v) = v"
    by (rule bit_word_eqI) (auto simp: bit_be16 bit_simps)
  then show "get16 (put16 v @ rest) = v" "get16 (put16 v) = v" by (simp_all add: put16_def)
qed

lemma put16_get16 [simp]: "length xs = 2 \<Longrightarrow> put16 (get16 xs) = xs"
proof -
  assume "length xs = 2"
  then obtain hi lo where xs: "xs = [hi, lo]" by (auto simp: length_Suc_conv numeral_2_eq_2)
  have "ucast (drop_bit 8 (be16 hi lo)) = hi" "ucast (be16 hi lo) = lo"
    by (rule bit_word_eqI; auto simp: bit_be16 bit_simps)+
  then show ?thesis by (simp add: xs put16_def)
qed

text \<open>\<open>io.ReadFull\<close>.\<close>

definition read_full :: "nat \<Rightarrow> bytes \<Rightarrow> (bytes \<times> bytes) res" where
  "read_full n s =
     (if length s < n then Inl (Err (if s = [] then ''EOF'' else ''unexpected EOF'')) else Inr (take n s, drop n s))"

lemma read_full_append [simp]: "length xs = n \<Longrightarrow> read_full n (xs @ rest) = Inr (xs, rest)"
  by (simp add: read_full_def)

lemma read_full_Inr: "read_full n s = Inr (xs, rest) \<longleftrightarrow> s = xs @ rest \<and> length xs = n"
  by (auto simp: read_full_def)

section \<open>IP addresses\<close>

definition v4prefix :: bytes where "v4prefix = replicate 10 0 @ [0xff, 0xff]"

definition To4 :: "bytes \<Rightarrow> bytes" where
  "To4 ip = (if length ip = 4 then ip else if length ip = 16 \<and> take 12 ip = v4prefix then drop 12 ip else [])"

definition To16 :: "bytes \<Rightarrow> bytes" where
  "To16 ip = (if length ip = 4 then v4prefix @ ip else if length ip = 16 then ip else [])"

text \<open>\<open>net.IP.String\<close>: dotted decimal, or hexadecimal groups whose first longest run of two or more
  zeros is left out.\<close>

definition hex_digit :: "nat \<Rightarrow> char" where
  "hex_digit n = char_of (if n < 10 then 48 + n else 87 + n)"

fun hex_nat :: "nat \<Rightarrow> string" where
  "hex_nat n = (if n < 16 then [hex_digit n] else hex_nat (n div 16) @ [hex_digit (n mod 16)])"

fun groups16 :: "bytes \<Rightarrow> nat list" where
  "groups16 (hi # lo # s) = unat (be16 hi lo) # groups16 s"
| "groups16 _ = []"

definition zero_run :: "nat list \<Rightarrow> nat \<Rightarrow> nat" where
  "zero_run gs i = length (takeWhile (\<lambda>g. g = 0) (drop i gs))"

definition longest_zeros :: "nat list \<Rightarrow> nat \<times> nat" where
  "longest_zeros gs =
     foldl (\<lambda>(start, len) i. if zero_run gs i \<ge> 2 \<and> zero_run gs i > len then (i, zero_run gs i) else (start, len))
       (0, 0) [0..<length gs]"

definition ip6_text :: "nat list \<Rightarrow> string" where
  "ip6_text gs =
     (case longest_zeros gs of (start, len) \<Rightarrow>
        if len = 0 then join_with '':'' (map hex_nat gs)
        else join_with '':'' (map hex_nat (take start gs)) @ ''::'' @ join_with '':'' (map hex_nat (drop (start + len) gs)))"

definition hex_bytes :: "bytes \<Rightarrow> string" where
  "hex_bytes s = concat (map (\<lambda>b. [hex_digit (unat b div 16), hex_digit (unat b mod 16)]) s)"

definition IP_String :: "bytes \<Rightarrow> bytes" where
  "IP_String ip = str_bytes
     (if ip = [] then ''<nil>''
      else if length ip \<noteq> 4 \<and> length ip \<noteq> 16 then ''?'' @ hex_bytes ip
      else if To4 ip \<noteq> [] then join_with ''.'' (map (\<lambda>b. nat_to_dec (unat b)) (To4 ip))
      else ip6_text (groups16 ip))"

section \<open>Addresses\<close>

definition ProtocolVersion :: byte where "ProtocolVersion = 0x05"
definition CmdAuthenticate :: byte where "CmdAuthenticate = 0x00"
definition CmdConnect :: byte where "CmdConnect = 0x01"
definition CmdPacket :: byte where "CmdPacket = 0x02"
definition CmdDissociate :: byte where "CmdDissociate = 0x03"
definition CmdHeartbeat :: byte where "CmdHeartbeat = 0x04"

definition AddrTypeDomain :: byte where "AddrTypeDomain = 0x00"
definition AddrTypeIPv4 :: byte where "AddrTypeIPv4 = 0x01"
definition AddrTypeIPv6 :: byte where "AddrTypeIPv6 = 0x02"
definition AddrTypeNone :: byte where "AddrTypeNone = 0xff"

lemmas addr_types = AddrTypeDomain_def AddrTypeIPv4_def AddrTypeIPv6_def AddrTypeNone_def

definition ErrInvalidVersion :: go_error where "ErrInvalidVersion = Err ''tuic: invalid protocol version''"
definition ErrInvalidAddr :: go_error where "ErrInvalidAddr = Err ''tuic: invalid address format''"

record Address =
  ad_Type :: byte
  ad_Host :: bytes
  ad_IP :: bytes
  ad_Port :: "16 word"

definition join_host_port :: "bytes \<Rightarrow> 16 word \<Rightarrow> bytes" where
  "join_host_port host port =
     (if of_char (CHR '':'') \<in> set host then str_bytes ''['' @ host @ str_bytes '']:'' else host @ str_bytes '':'') @
     str_bytes (nat_to_dec (unat port))"

definition Address_String :: "Address option \<Rightarrow> bytes" where
  "Address_String ao =
     (case ao of None \<Rightarrow> []
      | Some a \<Rightarrow>
         (if ad_Type a = AddrTypeNone then []
          else if ad_IP a \<noteq> [] then join_host_port (IP_String (ad_IP a)) (ad_Port a)
          else join_host_port (ad_Host a) (ad_Port a)))"

text \<open>The part of \<open>ReadAddress\<close> between the type byte and the port: the IP and the host.\<close>

definition read_host :: "byte \<Rightarrow> bytes \<Rightarrow> ((bytes \<times> bytes) \<times> bytes) res" where
  "read_host addrType r =
     (if addrType = AddrTypeIPv4 then bind_res (read_full 4 r) (\<lambda>(ip, r). Inr ((ip, IP_String ip), r))
      else if addrType = AddrTypeIPv6 then bind_res (read_full 16 r) (\<lambda>(ip, r). Inr ((ip, IP_String ip), r))
      else if addrType = AddrTypeDomain then
        bind_res (read_full 1 r) (\<lambda>(lenBuf, r).
          let dLen = unat (hd lenBuf) in
          if dLen = 0 then Inl ErrInvalidAddr
          else bind_res (read_full dLen r) (\<lambda>(domain, r). Inr (([], domain), r)))
      else Inl ErrInvalidAddr)"

definition ReadAddress :: "bytes \<Rightarrow> (Address \<times> bytes) res" where
  "ReadAddress r =
     bind_res (read_full 1 r) (\<lambda>(typeBuf, r).
       let addrType = hd typeBuf in
       if addrType = AddrTypeNone then Inr (\<lparr>ad_Type = AddrTypeNone, ad_Host = [], ad_IP = [], ad_Port = 0\<rparr>, r)
       else bind_res (read_host addrType r) (\<lambda>((ip, host), r).
         bind_res (read_full 2 r) (\<lambda>(portBuf, r).
           Inr (\<lparr>ad_Type = addrType, ad_Host = host, ad_IP = ip, ad_Port = get16 portBuf\<rparr>, r))))"

definition WriteAddress :: "bytes \<Rightarrow> Address option \<Rightarrow> bytes \<times> go_error option" where
  "WriteAddress w ao =
     (case ao of
        None \<Rightarrow> (w @ [AddrTypeNone], None)
      | Some a \<Rightarrow>
         (if ad_Type a = AddrTypeNone then (w @ [AddrTypeNone], None)
          else if ad_Type a = AddrTypeIPv4 then
            (let ip4 = To4 (ad_IP a) in
             if length ip4 \<noteq> 4 then (w, Some ErrInvalidAddr)
             else (w @ [AddrTypeIPv4] @ ip4 @ put16 (ad_Port a), None))
          else if ad_Type a = AddrTypeIPv6 then
            (let ip16 = To16 (ad_IP a) in
             if length ip16 \<noteq> 16 then (w, Some ErrInvalidAddr)
             else (w @ [AddrTypeIPv6] @ ip16 @ put16 (ad_Port a), None))
          else if ad_Type a = AddrTypeDomain then
            (let dLen = length (ad_Host a) in
             if dLen = 0 \<or> dLen > 255 then (w, Some ErrInvalidAddr)
             else (w @ [AddrTypeDomain, of_nat dLen] @ ad_Host a @ put16 (ad_Port a), None))
          else (w, Some ErrInvalidAddr)))"

section \<open>Commands and packets\<close>

definition ReadCommand :: "bytes \<Rightarrow> ((byte \<times> byte) \<times> bytes) res" where
  "ReadCommand r =
     bind_res (read_full 2 r) (\<lambda>(hdr, r).
       if hdr ! 0 \<noteq> ProtocolVersion then Inl ErrInvalidVersion else Inr ((hdr ! 0, hdr ! 1), r))"

record PacketHeader =
  ph_AssocID :: "16 word"
  ph_PktID :: "16 word"
  ph_FragTotal :: byte
  ph_FragID :: byte
  ph_Size :: "16 word"
  ph_Addr :: "Address option"

definition ReadPacketHeader :: "bytes \<Rightarrow> (PacketHeader \<times> bytes) res" where
  "ReadPacketHeader r =
     bind_res (read_full 8 r) (\<lambda>(fixed, r).
     bind_res (ReadAddress r) (\<lambda>(addr, r).
       Inr (\<lparr>ph_AssocID = get16 fixed, ph_PktID = get16 (drop 2 fixed), ph_FragTotal = fixed ! 4, ph_FragID = fixed ! 5,
             ph_Size = get16 (drop 6 fixed), ph_Addr = Some addr\<rparr>, r)))"

definition readPacketPayload :: "bytes \<Rightarrow> PacketHeader \<Rightarrow> (bytes \<times> bytes) res" where
  "readPacketPayload r hdr = read_full (unat (ph_Size hdr)) r"

definition WritePacket ::
  "bytes \<Rightarrow> 16 word \<Rightarrow> 16 word \<Rightarrow> byte \<Rightarrow> byte \<Rightarrow> Address option \<Rightarrow> bytes \<Rightarrow> bytes \<times> go_error option" where
  "WritePacket w assocID pktID fragTotal fragID addr payload =
     (let hdr = [ProtocolVersion, CmdPacket] @ put16 assocID @ put16 pktID @ [fragTotal, fragID] @ put16 (of_nat (length payload))
      in case WriteAddress (w @ hdr) addr of
           (w, Some e) \<Rightarrow> (w, Some e)
         | (w, None) \<Rightarrow> (w @ payload, None))"

section \<open>SOCKS5\<close>

definition maxSocksUdpDatagramSize :: int where "maxSocksUdpDatagramSize = 65507"
definition maxSafeUdpRelayPacketSize :: int where "maxSafeUdpRelayPacketSize = maxSocksUdpDatagramSize - 262"
definition ErrUdpPayloadTooLarge :: go_error where
  "ErrUdpPayloadTooLarge = Err ''tuic socks: UDP packet exceeds the maximum SOCKS datagram size''"

text \<open>The destination of a SOCKS5 request after its first three bytes; the two builders of the code differ in
  these three bytes only.\<close>

definition socks_request :: "bytes \<Rightarrow> Address option \<Rightarrow> bytes option" where
  "socks_request lead target =
     (case target of
        None \<Rightarrow> None
      | Some a \<Rightarrow>
         (if ad_Type a = AddrTypeIPv4 then
            (let ip4 = To4 (ad_IP a) in if length ip4 \<noteq> 4 then None else Some (lead @ [0x01] @ ip4 @ put16 (ad_Port a)))
          else if ad_Type a = AddrTypeIPv6 then
            (let ip16 = To16 (ad_IP a) in if length ip16 \<noteq> 16 then None else Some (lead @ [0x04] @ ip16 @ put16 (ad_Port a)))
          else if ad_Type a = AddrTypeDomain then
            (let dLen = length (ad_Host a) in
             if dLen = 0 \<or> dLen > 255 then None
             else Some (lead @ [0x03, of_nat dLen] @ ad_Host a @ put16 (ad_Port a)))
          else None))"

definition buildSocks5ConnectRequest :: "Address option \<Rightarrow> bytes option" where
  "buildSocks5ConnectRequest target = socks_request [0x05, 0x01, 0x00] target"

definition buildSocks5UDPHeader :: "Address option \<Rightarrow> bytes option" where
  "buildSocks5UDPHeader target = socks_request [0x00, 0x00, 0x00] target"

definition buildSocks5UDPRequest :: "Address option \<Rightarrow> bytes \<Rightarrow> bytes res" where
  "buildSocks5UDPRequest target payload =
     (case buildSocks5UDPHeader target of
        None \<Rightarrow> Inl ErrInvalidAddr
      | Some hdr \<Rightarrow>
         (if int (length hdr + length payload) > maxSocksUdpDatagramSize then Inl ErrUdpPayloadTooLarge
          else Inr (hdr @ payload)))"

text \<open>\<open>Receive\<close>, given the datagram that was read.\<close>

definition Receive :: "bytes \<Rightarrow> (Address \<times> bytes) res" where
  "Receive buf =
     (let n = length buf in
      if n < 4 then Inl (Err (''tuic socks: UDP packet too short ('' @ itoa (int n) @ '' bytes)''))
      else if buf ! 3 = 0x01 then
        (if n < 10 then Inl (Err ''tuic socks: truncated IPv4 UDP reply'')
         else let ip = take 4 (drop 4 buf) in
           Inr (\<lparr>ad_Type = AddrTypeIPv4, ad_Host = IP_String ip, ad_IP = ip, ad_Port = get16 (drop 8 buf)\<rparr>, drop 10 buf))
      else if buf ! 3 = 0x04 then
        (if n < 22 then Inl (Err ''tuic socks: truncated IPv6 UDP reply'')
         else let ip = take 16 (drop 4 buf) in
           Inr (\<lparr>ad_Type = AddrTypeIPv6, ad_Host = IP_String ip, ad_IP = ip, ad_Port = get16 (drop 20 buf)\<rparr>, drop 22 buf))
      else if buf ! 3 = 0x03 then
        (if n < 7 \<or> n < 5 + unat (buf ! 4) + 2 then Inl (Err ''tuic socks: truncated domain UDP reply'')
         else let dLen = unat (buf ! 4) in
           Inr (\<lparr>ad_Type = AddrTypeDomain, ad_Host = take dLen (drop 5 buf), ad_IP = [], ad_Port = get16 (drop (5 + dLen) buf)\<rparr>,
                drop (7 + dLen) buf))
      else Inl (Err (''tuic socks: unsupported reply ATYP 0x'' @ hex_bytes [buf ! 3])))"

text \<open>A connection to the relay: the writes that succeeded and the bytes that will arrive. \<open>write n\<close> is the outcome of
  the write after \<open>n\<close> successful ones.\<close>

record wire =
  wi_sent :: "bytes list"
  wi_left :: bytes

type_synonym 'a wired = "wire \<Rightarrow> 'a res \<times> wire"

definition error_text :: "go_error \<Rightarrow> string" where
  "error_text e = (case e of Err s \<Rightarrow> s | ErrRecordNotFound \<Rightarrow> ''record not found''
     | ErrDuplicatedKey \<Rightarrow> ''duplicated key not allowed'' | ErrDB \<Rightarrow> ''database error'')"

definition in_context :: "string \<Rightarrow> 'a wired \<Rightarrow> 'a wired" where
  "in_context label m w = (case m w of (Inl e, w) \<Rightarrow> (Inl (Err (label @ '': '' @ error_text e)), w) | (Inr x, w) \<Rightarrow> (Inr x, w))"

definition and_then :: "'a wired \<Rightarrow> ('a \<Rightarrow> 'b wired) \<Rightarrow> 'b wired" where
  "and_then m f w = (case m w of (Inl e, w) \<Rightarrow> (Inl e, w) | (Inr x, w) \<Rightarrow> f x w)"

definition answer :: "'a res \<Rightarrow> 'a wired" where
  "answer x w = (x, w)"

definition wire_write :: "(nat \<Rightarrow> go_error option) \<Rightarrow> bytes \<Rightarrow> unit wired" where
  "wire_write write p w =
     (case write (length (wi_sent w)) of Some e \<Rightarrow> (Inl e, w) | None \<Rightarrow> (Inr (), w\<lparr>wi_sent := wi_sent w @ [p]\<rparr>))"

definition wire_read :: "nat \<Rightarrow> bytes wired" where
  "wire_read n w =
     (case read_full n (wi_left w) of Inl e \<Rightarrow> (Inl e, w\<lparr>wi_left := []\<rparr>) | Inr (b, r) \<Rightarrow> (Inr b, w\<lparr>wi_left := r\<rparr>))"

definition auth_request :: "bytes \<Rightarrow> bytes \<Rightarrow> bytes" where
  "auth_request user password = [0x01, of_nat (length user)] @ user @ [of_nat (length password)] @ password"

definition socks5Handshake :: "(nat \<Rightarrow> go_error option) \<Rightarrow> bytes \<Rightarrow> bytes \<Rightarrow> unit wired" where
  "socks5Handshake write user password =
     and_then (in_context ''tuic socks: send greeting'' (wire_write write [0x05, 0x02, 0x00, 0x02])) (\<lambda>_.
     and_then (in_context ''tuic socks: read greeting reply'' (wire_read 2)) (\<lambda>resp.
       if resp ! 0 \<noteq> 0x05 then answer (Inl (Err (''tuic socks: unexpected SOCKS version '' @ itoa (uint (resp ! 0)))))
       else if resp ! 1 = 0x00 then answer (Inr ())
       else if resp ! 1 = 0x02 then
         and_then (in_context ''tuic socks: send auth'' (wire_write write (auth_request user password))) (\<lambda>_.
         and_then (in_context ''tuic socks: read auth reply'' (wire_read 2)) (\<lambda>authResp.
           if authResp ! 1 \<noteq> 0x00 then answer (Inl (Err (''tuic socks: auth rejected (code '' @ itoa (uint (authResp ! 1)) @ '')'')))
           else answer (Inr ())))
       else answer (Inl (Err (''tuic socks: unsupported auth method '' @ itoa (uint (resp ! 1)))))))"

text \<open>\<open>resolve\<close> is \<open>net.ResolveIPAddr\<close> with the context its error is given.\<close>

definition readSocks5Addr :: "(bytes \<Rightarrow> bytes res) \<Rightarrow> byte \<Rightarrow> bytes wired" where
  "readSocks5Addr resolve atyp =
     (if atyp = 0x01 then wire_read 4
      else if atyp = 0x04 then wire_read 16
      else if atyp = 0x03 then
        and_then (wire_read 1) (\<lambda>l. and_then (wire_read (unat (hd l))) (\<lambda>name.
          and_then (answer (resolve name)) (\<lambda>ip.
            if length ip \<noteq> 4 \<and> length ip \<noteq> 16 then answer (Inl (Err ''tuic socks: unparseable domain reply address''))
            else answer (Inr ip))))
      else answer (Inl (Err (''tuic socks: unsupported SOCKS5 address type '' @ itoa (uint atyp)))))"

definition readSocks5Reply :: "(bytes \<Rightarrow> bytes res) \<Rightarrow> (bytes \<times> 16 word) wired" where
  "readSocks5Reply resolve =
     and_then (in_context ''tuic socks: read reply header'' (wire_read 4)) (\<lambda>hdr.
       if hdr ! 0 \<noteq> 0x05 then answer (Inl (Err (''tuic socks: unexpected SOCKS version '' @ itoa (uint (hdr ! 0)))))
       else if hdr ! 1 \<noteq> 0x00 then answer (Inl (Err (''tuic socks: request rejected (code '' @ itoa (uint (hdr ! 1)) @ '')'')))
       else and_then (readSocks5Addr resolve (hdr ! 3)) (\<lambda>addr.
            and_then (in_context ''tuic socks: read reply port'' (wire_read 2)) (\<lambda>portBytes.
              answer (Inr (addr, get16 portBytes)))))"

text \<open>\<open>DialTCP\<close> after the relay was reached, and \<open>DialUDP\<close> up to the address the relay bound; \<open>DialTCP\<close> closes the connection
  on each of their errors.\<close>

definition connect_tunnel :: "(nat \<Rightarrow> go_error option) \<Rightarrow> (bytes \<Rightarrow> bytes res) \<Rightarrow> bytes \<Rightarrow> bytes \<Rightarrow> Address option \<Rightarrow> unit wired" where
  "connect_tunnel write resolve user password target =
     and_then (socks5Handshake write user password) (\<lambda>_.
       case buildSocks5ConnectRequest target of
         None \<Rightarrow> answer (Inl ErrInvalidAddr)
       | Some req \<Rightarrow>
          and_then (in_context ''tuic socks: send CONNECT request'' (wire_write write req)) (\<lambda>_.
          and_then (readSocks5Reply resolve) (\<lambda>_. answer (Inr ()))))"

definition associate_tunnel :: "(nat \<Rightarrow> go_error option) \<Rightarrow> (bytes \<Rightarrow> bytes res) \<Rightarrow> bytes \<Rightarrow> bytes \<Rightarrow> (bytes \<times> 16 word) wired" where
  "associate_tunnel write resolve user password =
     and_then (socks5Handshake write user password) (\<lambda>_.
     and_then (in_context ''tuic socks: send UDP ASSOCIATE request''
                (wire_write write [0x05, 0x03, 0x00, 0x01, 0, 0, 0, 0, 0, 0])) (\<lambda>_. readSocks5Reply resolve))"

text \<open>The result, the wire, and whether the connection was closed.\<close>

definition DialTCP ::
  "wire res \<Rightarrow> (nat \<Rightarrow> go_error option) \<Rightarrow> (bytes \<Rightarrow> bytes res) \<Rightarrow> string \<Rightarrow> bytes \<Rightarrow> bytes \<Rightarrow> Address option \<Rightarrow> wire res \<times> bool" where
  "DialTCP dial write resolve relay_addr password user target =
     (case dial of
        Inl e \<Rightarrow> (Inl (Err (''tuic socks: dial relay '' @ relay_addr @ '': '' @ error_text e)), False)
      | Inr w \<Rightarrow> (case connect_tunnel write resolve user password target w of
                   (Inl e, w) \<Rightarrow> (Inl e, True) | (Inr _, w) \<Rightarrow> (Inr w, False)))"

definition SOCKSBasePort :: int where "SOCKSBasePort = 64000"
definition relayPortSlots :: int where "relayPortSlots = 1000"

definition SOCKSPortForInbound :: "int \<Rightarrow> int" where
  "SOCKSPortForInbound inboundID =
     (if inboundID \<le> 0 then SOCKSBasePort + 1 else SOCKSBasePort + 1 + remt (inboundID - 1) relayPortSlots)"

section \<open>Laws of the codec\<close>

text \<open>What a reader makes of an address that was written: the IP in the length of its type with its text as host,
  or the host alone.\<close>

definition canon :: "Address \<Rightarrow> Address" where
  "canon a =
     (if ad_Type a = AddrTypeNone then a\<lparr>ad_Host := [], ad_IP := [], ad_Port := 0\<rparr>
      else if ad_Type a = AddrTypeIPv4 then a\<lparr>ad_IP := To4 (ad_IP a), ad_Host := IP_String (To4 (ad_IP a))\<rparr>
      else if ad_Type a = AddrTypeIPv6 then a\<lparr>ad_IP := To16 (ad_IP a), ad_Host := IP_String (To16 (ad_IP a))\<rparr>
      else a\<lparr>ad_IP := []\<rparr>)"

text \<open>The bytes of an address, where it has any.\<close>

definition encodable :: "Address \<Rightarrow> bool" where
  "encodable a \<longleftrightarrow> snd (WriteAddress [] (Some a)) = None"

definition address_bytes :: "Address option \<Rightarrow> bytes" where
  "address_bytes ao = fst (WriteAddress [] ao)"

lemma addr_types_distinct [simp]:
  "AddrTypeDomain \<noteq> AddrTypeIPv4" "AddrTypeDomain \<noteq> AddrTypeIPv6" "AddrTypeDomain \<noteq> AddrTypeNone"
  "AddrTypeIPv4 \<noteq> AddrTypeDomain" "AddrTypeIPv4 \<noteq> AddrTypeIPv6" "AddrTypeIPv4 \<noteq> AddrTypeNone"
  "AddrTypeIPv6 \<noteq> AddrTypeDomain" "AddrTypeIPv6 \<noteq> AddrTypeIPv4" "AddrTypeIPv6 \<noteq> AddrTypeNone"
  "AddrTypeNone \<noteq> AddrTypeDomain" "AddrTypeNone \<noteq> AddrTypeIPv4" "AddrTypeNone \<noteq> AddrTypeIPv6"
  by (simp_all add: addr_types)

lemma unat_len [simp]: "n \<le> 255 \<Longrightarrow> unat (of_nat n :: byte) = n"
  by (simp add: unat_of_nat)

lemma unat_byte: "unat (b :: byte) \<le> 255"
proof -
  have "unat b < 2 ^ LENGTH(8)" by (rule unsigned_less)
  then show ?thesis by simp
qed

lemma write_prefix:
  "WriteAddress w ao = (if snd (WriteAddress [] ao) = None then w @ address_bytes ao else w, snd (WriteAddress [] ao))"
  by (cases ao) (auto simp: WriteAddress_def address_bytes_def Let_def)

lemma read_full_Suc [simp]: "read_full (Suc 0) (x # rest) = Inr ([x], rest)"
  by (simp add: read_full_def)

lemma To_self [simp]: "length ip = 4 \<Longrightarrow> To4 ip = ip" "length ip = 16 \<Longrightarrow> To16 ip = ip"
  by (simp_all add: To4_def To16_def)

text \<open>The four shapes of an address on the wire.\<close>

lemma encodable_cases:
  assumes "encodable a"
  obtains (none) "ad_Type a = AddrTypeNone" "address_bytes (Some a) = [AddrTypeNone]"
  | (ip4) "ad_Type a = AddrTypeIPv4" "length (To4 (ad_IP a)) = 4" "address_bytes (Some a) = AddrTypeIPv4 # To4 (ad_IP a) @ put16 (ad_Port a)"
  | (ip6) "ad_Type a = AddrTypeIPv6" "length (To16 (ad_IP a)) = 16" "address_bytes (Some a) = AddrTypeIPv6 # To16 (ad_IP a) @ put16 (ad_Port a)"
  | (domain) "ad_Type a = AddrTypeDomain" "ad_Host a \<noteq> []" "length (ad_Host a) \<le> 255"
      "address_bytes (Some a) = AddrTypeDomain # of_nat (length (ad_Host a)) # ad_Host a @ put16 (ad_Port a)"
  using assms by (auto simp: encodable_def address_bytes_def WriteAddress_def Let_def not_less split: if_splits)

lemma read_bytes:
  assumes "encodable a"
  shows "ReadAddress (address_bytes (Some a) @ rest) = Inr (canon a, rest)"
  using assms
proof (cases rule: encodable_cases)
  case none
  then show ?thesis by (cases a) (simp add: ReadAddress_def canon_def)
next
  case ip4
  then show ?thesis by (cases a) (simp add: ReadAddress_def read_host_def canon_def)
next
  case ip6
  then show ?thesis by (cases a) (simp add: ReadAddress_def read_host_def canon_def)
next
  case domain
  then show ?thesis by (cases a) (simp add: ReadAddress_def read_host_def canon_def)
qed

lemma read_host_cases:
  assumes "read_host ty r = Inr ((ip, host), r')"
  obtains "ty = AddrTypeIPv4" "r = ip @ r'" "length ip = 4" "host = IP_String ip"
  | "ty = AddrTypeIPv6" "r = ip @ r'" "length ip = 16" "host = IP_String ip"
  | l where "ty = AddrTypeDomain" "r = l # host @ r'" "length host = unat l" "0 < length host" "ip = []"
  using assms
  by (auto simp: read_host_def read_full_Inr Let_def length_Suc_conv elim!: bind_resE split: if_splits)

lemma bytes_read:
  assumes "ReadAddress s = Inr (b, rest)"
  shows "s = address_bytes (Some b) @ rest \<and> encodable b \<and> canon b = b"
proof -
  obtain ty r where s: "s = ty # r"
    and rest: "if ty = AddrTypeNone then b = \<lparr>ad_Type = AddrTypeNone, ad_Host = [], ad_IP = [], ad_Port = 0\<rparr> \<and> rest = r
      else \<exists>ip host r' port. read_host ty r = Inr ((ip, host), r') \<and> r' = port @ rest \<and> length port = 2 \<and>
        b = \<lparr>ad_Type = ty, ad_Host = host, ad_IP = ip, ad_Port = get16 port\<rparr>"
    using assms by (auto simp: ReadAddress_def read_full_Inr Let_def length_Suc_conv elim!: bind_resE split: if_splits)
  show ?thesis
  proof (cases "ty = AddrTypeNone")
    case True
    then show ?thesis using s rest by (simp add: address_bytes_def encodable_def canon_def WriteAddress_def)
  next
    case False
    then obtain ip host r' port where h: "read_host ty r = Inr ((ip, host), r')" "r' = port @ rest" "length port = 2"
      "b = \<lparr>ad_Type = ty, ad_Host = host, ad_IP = ip, ad_Port = get16 port\<rparr>" using rest by auto
    from h(1) show ?thesis
      using unat_byte by (cases rule: read_host_cases)
        (auto simp: s h(2-4) address_bytes_def encodable_def canon_def WriteAddress_def Let_def not_less)
  qed
qed

text \<open>A packet command, written and read again.\<close>

definition none_address :: Address where
  "none_address = \<lparr>ad_Type = AddrTypeNone, ad_Host = [], ad_IP = [], ad_Port = 0\<rparr>"

definition canon_opt :: "Address option \<Rightarrow> Address" where
  "canon_opt ao = (case ao of None \<Rightarrow> none_address | Some a \<Rightarrow> canon a)"

lemma read_opt:
  assumes "snd (WriteAddress [] ao) = None"
  shows "ReadAddress (address_bytes ao @ rest) = Inr (canon_opt ao, rest)"
proof (cases ao)
  case None
  then show ?thesis by (simp add: address_bytes_def WriteAddress_def ReadAddress_def canon_opt_def none_address_def)
next
  case (Some a)
  then show ?thesis using assms read_bytes[of a rest] by (simp add: encodable_def canon_opt_def)
qed

definition packet_header :: "16 word \<Rightarrow> 16 word \<Rightarrow> byte \<Rightarrow> byte \<Rightarrow> Address option \<Rightarrow> bytes \<Rightarrow> PacketHeader" where
  "packet_header assocID pktID fragTotal fragID ao payload = \<lparr>ph_AssocID = assocID, ph_PktID = pktID, ph_FragTotal = fragTotal,
     ph_FragID = fragID, ph_Size = of_nat (length payload), ph_Addr = Some (canon_opt ao)\<rparr>"

lemma write_packet_Inr:
  assumes "WritePacket [] assocID pktID fragTotal fragID ao payload = (frame, None)"
  shows "snd (WriteAddress [] ao) = None"
    "frame = ProtocolVersion # CmdPacket # (put16 assocID @ put16 pktID @ [fragTotal, fragID] @ put16 (of_nat (length payload))) @
       address_bytes ao @ payload"
  using assms
  by (auto simp: WritePacket_def Let_def write_prefix[of "_ # _"] split: prod.splits option.splits if_splits)

lemma read_packet:
  assumes "snd (WriteAddress [] ao) = None"
  shows "ReadPacketHeader ((put16 assocID @ put16 pktID @ [fragTotal, fragID] @ put16 (of_nat (length payload))) @ address_bytes ao @ rest) =
    Inr (packet_header assocID pktID fragTotal fragID ao payload, rest)"
proof -
  let ?fixed = "put16 assocID @ put16 pktID @ [fragTotal, fragID] @ put16 (of_nat (length payload))"
  have "length ?fixed = 8" by simp
  then have "read_full 8 (?fixed @ address_bytes ao @ rest) = Inr (?fixed, address_bytes ao @ rest)" by (rule read_full_append)
  then show ?thesis using read_opt[OF assms, of rest]
    by (simp add: ReadPacketHeader_def packet_header_def nth_append)
qed

section \<open>Laws of the SOCKS5 bridge\<close>

lemma receive_domain:
  assumes "length host \<le> 255"
  shows "Receive ([0, 0, 0, 3, of_nat (length host)] @ host @ put16 port @ payload) =
    Inr (\<lparr>ad_Type = AddrTypeDomain, ad_Host = host, ad_IP = [], ad_Port = port\<rparr>, payload)"
proof -
  let ?h = "[0, 0, 0, 3, of_nat (length host)] :: bytes"
  let ?buf = "?h @ host @ put16 port @ payload"
  have drops: "drop (5 + k) ?buf = drop k (host @ put16 port @ payload)" for k
    by (simp only: drop_append) (simp add: numeral_eq_Suc)
  have "drop 5 ?buf = host @ put16 port @ payload" "drop (5 + length host) ?buf = put16 port @ payload"
    "drop (7 + length host) ?buf = payload"
    using drops[of 0] drops[of "length host"] drops[of "length host + 2"] by (simp_all add: add.commute)
  moreover have "?buf ! 3 = 3" "unat (?buf ! 4) = length host" "length ?buf = 7 + length host + length payload"
    using assms by simp_all
  ultimately show ?thesis unfolding Receive_def Let_def by simp
qed

lemma socks_request_encodable:
  assumes "encodable a" "ad_Type a \<noteq> AddrTypeNone"
  obtains tail where "buildSocks5UDPHeader (Some a) = Some ([0, 0, 0] @ tail)" "length tail = length (address_bytes (Some a))"
    "length tail \<le> 259" "Receive ([0, 0, 0] @ tail @ payload) = Inr (canon a, payload)"
  using assms(1)
proof (cases rule: encodable_cases)
  case none
  then show ?thesis using assms(2) by simp
next
  case ip4
  then have "buildSocks5UDPHeader (Some a) = Some ([0, 0, 0] @ (1 # To4 (ad_IP a) @ put16 (ad_Port a)))"
    by (simp add: buildSocks5UDPHeader_def socks_request_def)
  then show ?thesis
    by (rule that) (use ip4 in \<open>cases a; simp add: Receive_def canon_def Let_def nth_append\<close>)+
next
  case ip6
  then have "buildSocks5UDPHeader (Some a) = Some ([0, 0, 0] @ (4 # To16 (ad_IP a) @ put16 (ad_Port a)))"
    by (simp add: buildSocks5UDPHeader_def socks_request_def)
  then show ?thesis
    by (rule that) (use ip6 in \<open>cases a; simp add: Receive_def canon_def Let_def nth_append\<close>)+
next
  case domain
  then have "buildSocks5UDPHeader (Some a) = Some ([0, 0, 0] @ (3 # of_nat (length (ad_Host a)) # ad_Host a @ put16 (ad_Port a)))"
    by (simp add: buildSocks5UDPHeader_def socks_request_def)
  then show ?thesis
  proof (rule that)
    show "Receive ([0, 0, 0] @ (3 # of_nat (length (ad_Host a)) # ad_Host a @ put16 (ad_Port a)) @ payload) = Inr (canon a, payload)"
      using receive_domain[of "ad_Host a" "ad_Port a" payload] domain by (cases a) (simp add: canon_def)
  qed (use domain in simp_all)
qed

section \<open>Properties\<close>


definition sample_address :: Address where
  "sample_address = \<lparr>ad_Type = AddrTypeIPv4, ad_Host = [], ad_IP = v4prefix @ [10, 0, 0, 1], ad_Port = 443\<rparr>"


text \<open>Every payload within the relay limit fits into one SOCKS5 datagram for every address that TUIC can
  carry, and the receiving side recovers exactly the address, in canonical form, and the payload.\<close>

lemma socks_bridge_fits:
  assumes "encodable a" "ad_Type a \<noteq> AddrTypeNone" "int (length payload) \<le> maxSafeUdpRelayPacketSize"
  shows "\<exists>packet. buildSocks5UDPRequest (Some a) payload = Inr packet \<and> int (length packet) \<le> maxSocksUdpDatagramSize \<and>
    Receive packet = Inr (canon a, payload)"
proof -
  obtain tail where "buildSocks5UDPHeader (Some a) = Some ([0, 0, 0] @ tail)" "length tail \<le> 259"
    "Receive ([0, 0, 0] @ tail @ payload) = Inr (canon a, payload)"
    using socks_request_encodable[OF assms(1,2)] by blast
  then show ?thesis
    using assms(3) by (auto simp: buildSocks5UDPRequest_def maxSafeUdpRelayPacketSize_def maxSocksUdpDatagramSize_def)
qed

end
