(* ===== verification/Tuic_Packets.thy ===== *)
theory Tuic_Packets
  imports Tuic_Protocol
begin

text \<open>
  Relayed UDP packets of the TUIC server, \<open>src/internal/tuic/server.go\<close>: how a response is cut into frames
  (\<open>sendUDPPacketFragments\<close>), how the frames of datagrams and streams are read (\<open>handleDatagram\<close>,
  \<open>handleUniStream\<close>) and how fragments are put together again (\<open>packetReassembler\<close>). The map of pending packets is
  an association list with distinct keys; no result depends on its order. Times are nanoseconds, read once per call.
\<close>

section \<open>The reassembler\<close>

definition packetTransportDatagram :: byte where "packetTransportDatagram = 0"
definition packetTransportStream :: byte where "packetTransportStream = 1"
definition maxUdpRelayPacketSize :: int where "maxUdpRelayPacketSize = maxSafeUdpRelayPacketSize"
definition maxPendingPacketAssemblies :: nat where "maxPendingPacketAssemblies = 32"
definition packetAssemblyTimeout :: int where "packetAssemblyTimeout = 10 * 1000000000"

record packetFragmentKey =
  fk_assocID :: "16 word"
  fk_pktID :: "16 word"
  fk_transport :: byte

record packetReassembly =
  pa_total :: byte
  pa_received :: byte
  pa_size :: nat
  pa_frags :: "bytes option list"
  pa_addr :: "Address option"
  pa_updatedAt :: int

record packetReassembler =
  pr_maxPacketSize :: int
  pr_packets :: "(packetFragmentKey \<times> packetReassembly) list"

definition del_key :: "'k \<Rightarrow> ('k \<times> 'v) list \<Rightarrow> ('k \<times> 'v) list" where
  "del_key k xs = filter (\<lambda>p. fst p \<noteq> k) xs"

definition put_key :: "'k \<Rightarrow> 'v \<Rightarrow> ('k \<times> 'v) list \<Rightarrow> ('k \<times> 'v) list" where
  "put_key k v xs = (k, v) # del_key k xs"

definition newPacketReassembler :: "int \<Rightarrow> packetReassembler" where
  "newPacketReassembler maxPacketSize =
     \<lparr>pr_maxPacketSize = (if maxPacketSize \<le> 0 \<or> maxPacketSize > maxUdpRelayPacketSize then maxUdpRelayPacketSize else maxPacketSize),
      pr_packets = []\<rparr>"

definition isPacketTarget :: "Address option \<Rightarrow> bool" where
  "isPacketTarget ao = (case ao of None \<Rightarrow> False | Some a \<Rightarrow> ad_Type a \<noteq> AddrTypeNone)"

definition expire_packets :: "int \<Rightarrow> packetReassembler \<Rightarrow> packetReassembler" where
  "expire_packets now pr =
     pr\<lparr>pr_packets := filter (\<lambda>p. \<not> now - pa_updatedAt (snd p) > packetAssemblyTimeout) (pr_packets pr)\<rparr>"

definition clearAssociation :: "16 word \<Rightarrow> packetReassembler \<Rightarrow> packetReassembler" where
  "clearAssociation assocID pr = pr\<lparr>pr_packets := filter (\<lambda>p. fk_assocID (fst p) \<noteq> assocID) (pr_packets pr)\<rparr>"

definition clearAll :: "packetReassembler \<Rightarrow> packetReassembler" where
  "clearAll pr = pr\<lparr>pr_packets := []\<rparr>"

definition new_reassembly :: "int \<Rightarrow> PacketHeader \<Rightarrow> packetReassembly" where
  "new_reassembly now hdr = \<lparr>pa_total = ph_FragTotal hdr, pa_received = 0, pa_size = 0,
     pa_frags = replicate (unat (ph_FragTotal hdr)) None, pa_addr = None, pa_updatedAt = now\<rparr>"

definition with_fragment :: "int \<Rightarrow> PacketHeader \<Rightarrow> bytes \<Rightarrow> packetReassembly \<Rightarrow> packetReassembly" where
  "with_fragment now hdr payload e =
     e\<lparr>pa_frags := (pa_frags e)[unat (ph_FragID hdr) := Some payload], pa_size := pa_size e + length payload,
       pa_received := pa_received e + 1, pa_updatedAt := now,
       pa_addr := (if ph_FragID hdr = 0 then ph_Addr hdr else pa_addr e)\<rparr>"

definition assembled :: "packetReassembly \<Rightarrow> bytes" where
  "assembled e = concat (map (\<lambda>f. case f of None \<Rightarrow> [] | Some b \<Rightarrow> b) (pa_frags e))"

text \<open>The fragment goes into an entry of the map, which may complete or spoil it.\<close>

definition add_fragment ::
  "int \<Rightarrow> packetFragmentKey \<Rightarrow> PacketHeader \<Rightarrow> bytes \<Rightarrow> packetReassembly \<Rightarrow> packetReassembler
     \<Rightarrow> (Address option \<times> bytes) option \<times> packetReassembler" where
  "add_fragment now key hdr payload e pr =
     (let packets = pr_packets pr; dropped = pr\<lparr>pr_packets := del_key key packets\<rparr> in
      case pa_frags e ! unat (ph_FragID hdr) of
        Some fragment \<Rightarrow> (None, if fragment \<noteq> payload then dropped else pr)
      | None \<Rightarrow>
         (if int (pa_size e + length payload) > pr_maxPacketSize pr then (None, dropped)
          else let e' = with_fragment now hdr payload e in
            if pa_received e' = pa_total e'
            then ((if isPacketTarget (pa_addr e') then Some (pa_addr e', assembled e') else None), dropped)
            else (None, pr\<lparr>pr_packets := put_key key e' packets\<rparr>)))"

definition bad_fragment :: "int \<Rightarrow> PacketHeader \<Rightarrow> bytes \<Rightarrow> bool" where
  "bad_fragment maxPacketSize hdr payload \<longleftrightarrow>
     ph_FragTotal hdr = 0 \<or> ph_FragID hdr \<ge> ph_FragTotal hdr \<or> unat (ph_Size hdr) \<noteq> length payload \<or>
     int (length payload) > maxPacketSize"

definition misplaced_address :: "PacketHeader \<Rightarrow> bool" where
  "misplaced_address hdr \<longleftrightarrow>
     ph_FragID hdr = 0 \<and> \<not> isPacketTarget (ph_Addr hdr) \<or>
     ph_FragID hdr \<noteq> 0 \<and> (case ph_Addr hdr of None \<Rightarrow> False | Some a \<Rightarrow> ad_Type a \<noteq> AddrTypeNone)"

definition reassembler_feed ::
  "int \<Rightarrow> byte \<Rightarrow> PacketHeader option \<Rightarrow> bytes \<Rightarrow> packetReassembler \<Rightarrow> (Address option \<times> bytes) option \<times> packetReassembler" where
  "reassembler_feed now transport ho payload pr0 =
     (case ho of None \<Rightarrow> (None, pr0)
      | Some hdr \<Rightarrow>
        (if bad_fragment (pr_maxPacketSize pr0) hdr payload then (None, pr0)
         else let pr = expire_packets now pr0;
                  key = \<lparr>fk_assocID = ph_AssocID hdr, fk_pktID = ph_PktID hdr, fk_transport = transport\<rparr> in
           if ph_FragTotal hdr = 1 then
             (if ph_FragID hdr \<noteq> 0 \<or> \<not> isPacketTarget (ph_Addr hdr) then (None, pr)
              else (Some (ph_Addr hdr, payload), pr\<lparr>pr_packets := del_key key (pr_packets pr)\<rparr>))
           else if misplaced_address hdr then (None, pr)
           else case map_of (pr_packets pr) key of
             None \<Rightarrow>
               (if length (pr_packets pr) \<ge> maxPendingPacketAssemblies then (None, pr)
                else let e = new_reassembly now hdr in
                  add_fragment now key hdr payload e (pr\<lparr>pr_packets := put_key key e (pr_packets pr)\<rparr>))
           | Some e \<Rightarrow>
               (if pa_total e \<noteq> ph_FragTotal hdr then (None, pr\<lparr>pr_packets := del_key key (pr_packets pr)\<rparr>)
                else add_fragment now key hdr payload e pr)))"

section \<open>Frames\<close>

definition maxDatagramFragmentSize :: nat where "maxDatagramFragmentSize = 850"
definition maxStreamFragmentSize :: nat where "maxStreamFragmentSize = 8 * 1024"

text \<open>\<open>sendUDPPacketFragments\<close>: the frames handed to the connection and the error. \<open>send i\<close> is the outcome of sending
  the \<open>i\<close>-th frame; the first failure ends the loop.\<close>

function send_frames ::
  "(nat \<Rightarrow> go_error option) \<Rightarrow> 16 word \<Rightarrow> 16 word \<Rightarrow> Address option \<Rightarrow> bytes \<Rightarrow> nat \<Rightarrow> nat \<Rightarrow> nat \<Rightarrow> bytes list \<times> go_error option" where
  "send_frames send assocID pktID srcAddr payload fragmentSize fragmentTotal i =
     (if i \<ge> fragmentTotal then ([], None)
      else let start = i * fragmentSize; stop = min (start + fragmentSize) (length payload);
               addr = (if i = 0 then srcAddr else None) in
        case WritePacket [] assocID pktID (of_nat fragmentTotal) (of_nat i) addr (take (stop - start) (drop start payload)) of
          (_, Some e) \<Rightarrow> ([], Some e)
        | (frame, None) \<Rightarrow>
           (case send i of
              Some e \<Rightarrow> ([frame], Some e)
            | None \<Rightarrow> (case send_frames send assocID pktID srcAddr payload fragmentSize fragmentTotal (i + 1) of
                        (frames, e) \<Rightarrow> (frame # frames, e))))"
  by pat_completeness auto
termination by (relation "measure (\<lambda>(_, _, _, _, _, _, total, i). total - i)") auto

declare send_frames.simps [simp del]

definition sendUDPPacketFragments ::
  "int \<Rightarrow> (nat \<Rightarrow> go_error option) \<Rightarrow> 16 word \<Rightarrow> 16 word \<Rightarrow> Address option \<Rightarrow> bytes \<Rightarrow> byte \<Rightarrow> bytes list \<times> go_error option" where
  "sendUDPPacketFragments maxSize send assocID pktID srcAddr payload transport =
     (if int (length payload) > maxSize \<or> \<not> isPacketTarget srcAddr
      then ([], Some (Err ''tuic: UDP response exceeds configured limit or has invalid source address''))
      else let fragmentSize = (if transport = packetTransportStream then maxStreamFragmentSize else maxDatagramFragmentSize);
               total0 = (length payload + fragmentSize - 1) div fragmentSize;
               fragmentTotal = (if total0 = 0 then 1 else total0)
           in if fragmentTotal > 255 then ([], Some (Err (''tuic: UDP response requires too many fragments: '' @ itoa (int fragmentTotal))))
              else send_frames send assocID pktID srcAddr payload fragmentSize fragmentTotal 0)"

text \<open>What a datagram asks for: the guards of \<open>handleDatagram\<close> with the packet read from the bytes after the
  command.\<close>

datatype tuic_request =
    Heartbeat | RelayPacket PacketHeader bytes | Dissociate "16 word" | AuthenticateWith bytes bytes | Ignore

definition read_packet_frame :: "int \<Rightarrow> bytes \<Rightarrow> (PacketHeader \<times> bytes \<times> bytes) option" where
  "read_packet_frame maxSize r =
     (case ReadPacketHeader r of
        Inl _ \<Rightarrow> None
      | Inr (hdr, r) \<Rightarrow>
         (if int (unat (ph_Size hdr)) > maxSize then None
          else case readPacketPayload r hdr of Inl _ \<Rightarrow> None | Inr (payload, r) \<Rightarrow> Some (hdr, payload, r)))"

definition datagram_request :: "int \<Rightarrow> bytes \<Rightarrow> tuic_request" where
  "datagram_request maxSize dgram =
     (if length dgram < 2 \<or> dgram ! 0 \<noteq> ProtocolVersion then Ignore
      else if dgram ! 1 = CmdHeartbeat then Heartbeat
      else if dgram ! 1 = CmdPacket then
        (case read_packet_frame maxSize (drop 2 dgram) of
           None \<Rightarrow> Ignore | Some (hdr, payload, r) \<Rightarrow> if r \<noteq> [] then Ignore else RelayPacket hdr payload)
      else if dgram ! 1 = CmdDissociate then (if length dgram \<ge> 4 then Dissociate (get16 (drop 2 dgram)) else Ignore)
      else Ignore)"

text \<open>The same for a unidirectional stream, whose bytes after the packet are not looked at.\<close>

definition stream_request :: "int \<Rightarrow> bytes \<Rightarrow> tuic_request" where
  "stream_request maxSize r =
     (case ReadCommand r of
        Inl _ \<Rightarrow> Ignore
      | Inr ((ver, cmd), r) \<Rightarrow>
         (if cmd = CmdAuthenticate then
            (case read_full 48 r of Inl _ \<Rightarrow> Ignore | Inr (authData, r) \<Rightarrow> AuthenticateWith (take 16 authData) (drop 16 authData))
          else if cmd = CmdDissociate then (case read_full 2 r of Inl _ \<Rightarrow> Ignore | Inr (assocID, r) \<Rightarrow> Dissociate (get16 assocID))
          else if cmd = CmdPacket then
            (case read_packet_frame maxSize r of None \<Rightarrow> Ignore | Some (hdr, payload, r) \<Rightarrow> RelayPacket hdr payload)
          else Ignore))"

section \<open>Bounded memory\<close>

definition frag_len :: "bytes option \<Rightarrow> nat" where
  "frag_len f = (case f of None \<Rightarrow> 0 | Some b \<Rightarrow> length b)"

definition frags_ok :: "packetReassembly \<Rightarrow> bool" where
  "frags_ok e \<longleftrightarrow>
     length (pa_frags e) = unat (pa_total e) \<and> 2 \<le> unat (pa_total e) \<and>
     unat (pa_received e) = length (filter (\<lambda>f. f \<noteq> None) (pa_frags e)) \<and>
     pa_size e = sum_list (map frag_len (pa_frags e)) \<and> (pa_frags e ! 0 \<noteq> None \<longrightarrow> isPacketTarget (pa_addr e))"

text \<open>A pending packet: some but not all fragments have arrived, and together they are within the limit.\<close>

definition entry_ok :: "int \<Rightarrow> packetReassembly \<Rightarrow> bool" where
  "entry_ok limit e \<longleftrightarrow> frags_ok e \<and> pa_received e < pa_total e \<and> int (pa_size e) \<le> limit"

definition reassembler_ok :: "packetReassembler \<Rightarrow> bool" where
  "reassembler_ok pr \<longleftrightarrow>
     0 < pr_maxPacketSize pr \<and> distinct (map fst (pr_packets pr)) \<and> length (pr_packets pr) \<le> maxPendingPacketAssemblies \<and>
     (\<forall>p \<in> set (pr_packets pr). entry_ok (pr_maxPacketSize pr) (snd p))"

lemma distinct_del_key: "distinct (map fst xs) \<Longrightarrow> distinct (map fst (del_key k xs))"
  by (simp add: del_key_def distinct_map_filter)

lemma length_del_key: "length (del_key k xs) \<le> length xs"
  by (simp add: del_key_def)

lemma length_del_key_present: "k \<in> fst ` set xs \<Longrightarrow> length (del_key k xs) < length xs"
  by (auto simp: del_key_def intro: length_filter_less)

lemma map_of_del_key: "map_of (del_key k xs) k' = (if k' = k then None else map_of xs k')"
  by (induction xs) (auto simp: del_key_def)

lemma map_of_put_key [simp]: "map_of (put_key k v xs) k' = (if k' = k then Some v else map_of xs k')"
  by (simp add: put_key_def map_of_del_key)

lemma del_key_put_key [simp]: "del_key k (put_key k v xs) = del_key k xs" "put_key k v (put_key k w xs) = put_key k v xs"
  by (auto simp: put_key_def del_key_def filter_empty_conv)

lemma filter_ok: "reassembler_ok pr \<Longrightarrow> reassembler_ok (pr\<lparr>pr_packets := filter P (pr_packets pr)\<rparr>)"
  by (auto simp: reassembler_ok_def distinct_map_filter intro: order_trans[OF length_filter_le])

lemma del_key_ok: "reassembler_ok pr \<Longrightarrow> reassembler_ok (pr\<lparr>pr_packets := del_key k (pr_packets pr)\<rparr>)"
  unfolding del_key_def by (rule filter_ok)

lemma put_key_ok:
  assumes "reassembler_ok pr" "entry_ok (pr_maxPacketSize pr) e"
    and "k \<in> fst ` set (pr_packets pr) \<or> length (pr_packets pr) < maxPendingPacketAssemblies"
  shows "reassembler_ok (pr\<lparr>pr_packets := put_key k e (pr_packets pr)\<rparr>)"
proof -
  have "length (del_key k (pr_packets pr)) < maxPendingPacketAssemblies"
    using assms(1,3) length_del_key_present[of k "pr_packets pr"] length_del_key[of k "pr_packets pr"]
    unfolding reassembler_ok_def by linarith
  moreover have "k \<notin> fst ` set (del_key k (pr_packets pr))" by (auto simp: del_key_def)
  moreover have "set (del_key k (pr_packets pr)) \<subseteq> set (pr_packets pr)" by (auto simp: del_key_def)
  ultimately show ?thesis
    using assms(1,2) by (auto simp: reassembler_ok_def put_key_def distinct_del_key)
qed

text \<open>Counting fragments after one has been filled in.\<close>

lemma fill_count:
  "i < length fs \<Longrightarrow> fs ! i = None \<Longrightarrow>
     length (filter (\<lambda>f. f \<noteq> None) (fs[i := Some b])) = length (filter (\<lambda>f. f \<noteq> None) fs) + 1 \<and>
     sum_list (map frag_len (fs[i := Some b])) = sum_list (map frag_len fs) + length b"
  by (induction fs arbitrary: i) (auto simp: frag_len_def split: nat.splits)

lemma count_full:
  assumes "length (filter P fs) = length fs" "f \<in> set fs"
  shows "P f"
  using assms length_filter_less[of f fs P] by (metis less_irrefl)

text \<open>One fragment keeps the entry consistent.\<close>

lemma with_fragment_ok:
  assumes "frags_ok e" "pa_received e < pa_total e" "unat (ph_FragID hdr) < unat (pa_total e)" "pa_frags e ! unat (ph_FragID hdr) = None"
    and "ph_FragID hdr = 0 \<Longrightarrow> isPacketTarget (ph_Addr hdr)"
  shows "frags_ok (with_fragment now hdr payload e)" "unat (pa_received (with_fragment now hdr payload e)) = unat (pa_received e) + 1"
proof -
  let ?i = "unat (ph_FragID hdr)"
  have i: "?i < length (pa_frags e)" using assms(1,3) by (simp add: frags_ok_def)
  have "unat (pa_received e) + 1 \<le> 255" using assms(2) unat_byte[of "pa_total e"] by (simp add: word_less_nat_alt)
  then have r: "unat (pa_received e + 1) = unat (pa_received e) + 1" by (simp add: unat_word_ariths)
  then show "unat (pa_received (with_fragment now hdr payload e)) = unat (pa_received e) + 1" by (simp add: with_fragment_def)
  have "(pa_frags e)[?i := Some payload] ! 0 \<noteq> None \<longrightarrow> isPacketTarget (if ph_FragID hdr = 0 then ph_Addr hdr else pa_addr e)"
    using assms(1,5) i by (cases "ph_FragID hdr = 0") (auto simp: frags_ok_def nth_list_update unat_eq_0)
  then show "frags_ok (with_fragment now hdr payload e)"
    using assms(1) r fill_count[OF i assms(4), of payload] by (simp add: frags_ok_def with_fragment_def)
qed

lemma assembled_length: "length (assembled e) = sum_list (map frag_len (pa_frags e))"
proof -
  have "length (concat (map (\<lambda>f. case f of None \<Rightarrow> [] | Some b \<Rightarrow> b) fs)) = sum_list (map frag_len fs)" for fs
    by (induction fs) (auto simp: frag_len_def split: option.splits)
  then show ?thesis by (simp add: assembled_def)
qed

text \<open>What a call promises: the invariant, the same limit, and a complete packet that has a target and is within it.\<close>

definition fed_ok :: "packetReassembler \<Rightarrow> (Address option \<times> bytes) option \<times> packetReassembler \<Rightarrow> bool" where
  "fed_ok pr r \<longleftrightarrow> reassembler_ok (snd r) \<and> pr_maxPacketSize (snd r) = pr_maxPacketSize pr \<and>
     (\<forall>ao payload. fst r = Some (ao, payload) \<longrightarrow> isPacketTarget ao \<and> int (length payload) \<le> pr_maxPacketSize pr)"

lemma add_fragment_ok:
  assumes "reassembler_ok pr" "map_of (pr_packets pr) key = Some e" "ph_FragID hdr < pa_total e"
    and "ph_FragID hdr = 0 \<Longrightarrow> isPacketTarget (ph_Addr hdr)"
  shows "fed_ok pr (add_fragment now key hdr payload e pr)"
proof -
  have mem: "(key, e) \<in> set (pr_packets pr)" using map_of_SomeD[OF assms(2)] .
  then have e: "frags_ok e" "pa_received e < pa_total e" using assms(1) by (auto simp: reassembler_ok_def entry_ok_def)
  have i: "unat (ph_FragID hdr) < unat (pa_total e)" using assms(3) by (simp add: word_less_nat_alt)
  let ?e = "with_fragment now hdr payload e"
  have dropped: "reassembler_ok (pr\<lparr>pr_packets := del_key key (pr_packets pr)\<rparr>)" using del_key_ok[OF assms(1)] .
  have key: "key \<in> fst ` set (pr_packets pr)" using mem by force
  show ?thesis
  proof (cases "pa_frags e ! unat (ph_FragID hdr)")
    case (Some f)
    then show ?thesis using assms(1) dropped by (auto simp: add_fragment_def fed_ok_def Let_def)
  next
    case None
    note wf = with_fragment_ok[OF e i None assms(4), of now payload]
    have size: "pa_size ?e = pa_size e + length payload" "pa_total ?e = pa_total e" by (simp_all add: with_fragment_def)
    have entry: "entry_ok (pr_maxPacketSize pr) ?e"
      if "int (pa_size e + length payload) \<le> pr_maxPacketSize pr" "pa_received ?e \<noteq> pa_total ?e"
      using wf size e(2) that by (auto simp: entry_ok_def word_less_nat_alt word_unat_eq_iff)
    then show ?thesis
      using None assms(1) dropped put_key_ok[OF assms(1) _ disjI1[OF key]] assembled_length[of ?e] wf(1) size
      by (auto simp: add_fragment_def fed_ok_def Let_def frags_ok_def)
  qed
qed

lemma new_reassembly_ok:
  assumes "ph_FragTotal hdr \<noteq> 0" "ph_FragTotal hdr \<noteq> 1" "0 \<le> limit"
  shows "entry_ok limit (new_reassembly now hdr)"
proof -
  have "unat (ph_FragTotal hdr) \<noteq> unat (0 :: byte)" "unat (ph_FragTotal hdr) \<noteq> unat (1 :: byte)"
    using assms(1,2) unfolding word_unat_eq_iff by blast+
  then have "2 \<le> unat (ph_FragTotal hdr)" by simp
  then show ?thesis
    using assms(3) by (auto simp: entry_ok_def frags_ok_def new_reassembly_def word_less_nat_alt frag_len_def sum_list_replicate)
qed

lemma expire_ok: "reassembler_ok pr \<Longrightarrow> reassembler_ok (expire_packets now pr)"
  unfolding expire_packets_def by (rule filter_ok)

text \<open>What is left of a call for a well-formed fragment of a packet with several.\<close>

lemma feed_fragment:
  assumes "ho = Some hdr" "\<not> (bad_fragment (pr_maxPacketSize pr0) hdr payload \<or> ph_FragTotal hdr = 1 \<or> misplaced_address hdr)"
  shows "reassembler_feed now transport ho payload pr0 =
    (let pr = expire_packets now pr0; key = \<lparr>fk_assocID = ph_AssocID hdr, fk_pktID = ph_PktID hdr, fk_transport = transport\<rparr> in
     case map_of (pr_packets pr) key of
       None \<Rightarrow> (if length (pr_packets pr) \<ge> maxPendingPacketAssemblies then (None, pr)
               else add_fragment now key hdr payload (new_reassembly now hdr)
                      (pr\<lparr>pr_packets := put_key key (new_reassembly now hdr) (pr_packets pr)\<rparr>))
     | Some e \<Rightarrow> (if pa_total e \<noteq> ph_FragTotal hdr then (None, pr\<lparr>pr_packets := del_key key (pr_packets pr)\<rparr>)
                 else add_fragment now key hdr payload e pr))"
  using assms unfolding reassembler_feed_def Let_def by simp

lemma feed_ok:
  assumes "reassembler_ok pr0"
  shows "fed_ok pr0 (reassembler_feed now transport ho payload pr0)"
proof (cases ho)
  case None
  then show ?thesis using assms by (simp add: reassembler_feed_def fed_ok_def)
next
  case (Some hdr)
  let ?pr = "expire_packets now pr0"
  let ?key = "\<lparr>fk_assocID = ph_AssocID hdr, fk_pktID = ph_PktID hdr, fk_transport = transport\<rparr>"
  have ok: "reassembler_ok ?pr" using expire_ok[OF assms] .
  have lim: "pr_maxPacketSize ?pr = pr_maxPacketSize pr0" by (simp add: expire_packets_def)
  show ?thesis
  proof (cases "bad_fragment (pr_maxPacketSize pr0) hdr payload \<or> ph_FragTotal hdr = 1 \<or> misplaced_address hdr")
    case True
    then show ?thesis
      using Some assms ok lim del_key_ok[OF ok, of ?key]
      by (auto simp: reassembler_feed_def fed_ok_def Let_def bad_fragment_def)
  next
    case False
    then have good: "ph_FragTotal hdr \<noteq> 0" "ph_FragTotal hdr \<noteq> 1" "ph_FragID hdr < ph_FragTotal hdr"
      "int (length payload) \<le> pr_maxPacketSize pr0" "ph_FragID hdr = 0 \<Longrightarrow> isPacketTarget (ph_Addr hdr)"
      by (auto simp: bad_fragment_def misplaced_address_def not_le word_gt_0)
    note run = feed_fragment[OF Some False]
    show ?thesis
    proof (cases "map_of (pr_packets ?pr) ?key")
      case None
      let ?new = "?pr\<lparr>pr_packets := put_key ?key (new_reassembly now hdr) (pr_packets ?pr)\<rparr>"
      have "entry_ok (pr_maxPacketSize ?pr) (new_reassembly now hdr)"
        using new_reassembly_ok[OF good(1,2)] good(4) lim by simp
      then have "reassembler_ok ?new" if "length (pr_packets ?pr) < maxPendingPacketAssemblies"
        using put_key_ok[OF ok] that by blast
      from add_fragment_ok[OF this, of ?key "new_reassembly now hdr" hdr now payload]
      show ?thesis
        using run None ok lim good(3,5) by (auto simp: fed_ok_def new_reassembly_def Let_def)
    next
      case (Some e)
      from add_fragment_ok[OF ok this, of hdr now payload] show ?thesis
        using run Some lim del_key_ok[OF ok, of ?key] good(3,5) by (auto simp: fed_ok_def Let_def)
    qed
  qed
qed

section \<open>Reassembly in any order\<close>

definition fragment_header :: "16 word \<Rightarrow> 16 word \<Rightarrow> Address \<Rightarrow> bytes list \<Rightarrow> nat \<Rightarrow> PacketHeader" where
  "fragment_header assocID pktID src chunks i = \<lparr>ph_AssocID = assocID, ph_PktID = pktID, ph_FragTotal = of_nat (length chunks),
     ph_FragID = of_nat i, ph_Size = of_nat (length (chunks ! i)), ph_Addr = Some (if i = 0 then src else none_address)\<rparr>"

text \<open>The entry after the fragments \<open>S\<close> have arrived.\<close>

definition partial_entry :: "Address \<Rightarrow> bytes list \<Rightarrow> nat set \<Rightarrow> int \<Rightarrow> packetReassembly" where
  "partial_entry src chunks S now = \<lparr>pa_total = of_nat (length chunks), pa_received = of_nat (card S),
     pa_size = (\<Sum>i \<in> S. length (chunks ! i)),
     pa_frags = map (\<lambda>i. if i \<in> S then Some (chunks ! i) else None) [0..<length chunks],
     pa_addr = (if 0 \<in> S then Some src else None), pa_updatedAt = now\<rparr>"

definition packet_ok :: "int \<Rightarrow> Address \<Rightarrow> bytes list \<Rightarrow> bool" where
  "packet_ok limit src chunks \<longleftrightarrow> chunks \<noteq> [] \<and> length chunks \<le> 255 \<and> ad_Type src \<noteq> AddrTypeNone \<and>
     length (concat chunks) < 65536 \<and> int (length (concat chunks)) \<le> limit"

lemma of_nat_byte [simp]: "i \<le> 255 \<Longrightarrow> j \<le> 255 \<Longrightarrow> (of_nat i :: byte) = of_nat j \<longleftrightarrow> i = j"
  using unat_len by metis

lemma of_nat_byte_0 [simp]: "i \<le> 255 \<Longrightarrow> (of_nat i :: byte) = 0 \<longleftrightarrow> i = 0"
  using of_nat_byte[of i 0] by simp

lemma chunk_le: "i < length chunks \<Longrightarrow> length (chunks ! i) \<le> length (concat chunks)"
  using member_le_sum_list[of "length (chunks ! i)" "map length chunks"] by (simp add: length_concat)

lemma chunks_sum: "(\<Sum>i < length chunks. length (chunks ! i)) = length (concat chunks)"
proof -
  have "sum_list (map length chunks) = (\<Sum>i < length chunks. length (chunks ! i))"
    by (simp add: sum_list_sum_nth atLeast0LessThan)
  then show ?thesis by (simp add: length_concat)
qed

lemma partial_size:
  assumes "S \<subseteq> {..<length chunks}"
  shows "(\<Sum>i \<in> S. length (chunks ! i)) \<le> length (concat chunks)"
  unfolding chunks_sum[symmetric] using assms by (intro sum_mono2) auto

lemma partial_empty: "new_reassembly now (fragment_header a p src chunks i) = partial_entry src chunks {} now" if "length chunks \<le> 255"
  using that by (simp add: new_reassembly_def fragment_header_def partial_entry_def map_replicate_const)

lemma partial_insert:
  assumes "packet_ok limit src chunks" "S \<subseteq> {..<length chunks}" "i < length chunks" "i \<notin> S"
  shows "with_fragment now (fragment_header a p src chunks i) (chunks ! i) (partial_entry src chunks S t) =
    partial_entry src chunks (insert i S) now"
proof -
  have fin: "finite S" using assms(2) finite_subset by blast
  have n: "length chunks \<le> 255" "i \<le> 255" using assms(1,3) by (auto simp: packet_ok_def)
  have "(map (\<lambda>j. if j \<in> S then Some (chunks ! j) else None) [0..<length chunks])[i := Some (chunks ! i)] =
      map (\<lambda>j. if j \<in> insert i S then Some (chunks ! j) else None) [0..<length chunks]"
    using assms(3) by (intro nth_equalityI) (auto simp: nth_list_update)
  then show ?thesis
    using fin assms(4) n by (auto simp: with_fragment_def partial_entry_def fragment_header_def add.commute)
qed

lemma partial_all:
  "assembled (partial_entry src chunks {..<length chunks} t) = concat chunks"
proof -
  have "map (\<lambda>i. case (if i \<in> {..<length chunks} then Some (chunks ! i) else None) of None \<Rightarrow> [] | Some b \<Rightarrow> b) [0..<length chunks] =
      map (\<lambda>i. chunks ! i) [0..<length chunks]"
    by (intro map_cong) auto
  then show ?thesis by (simp add: assembled_def partial_entry_def comp_def map_nth)
qed

text \<open>One more fragment of a well-formed packet.\<close>

lemma add_partial:
  assumes pk: "packet_ok (pr_maxPacketSize pr) src chunks" and S: "S \<subseteq> {..<length chunks}" "i < length chunks" "i \<notin> S"
  shows "add_fragment now key (fragment_header a p src chunks i) (chunks ! i) (partial_entry src chunks S t) pr =
    (if insert i S = {..<length chunks} then (Some (Some src, concat chunks), pr\<lparr>pr_packets := del_key key (pr_packets pr)\<rparr>)
     else (None, pr\<lparr>pr_packets := put_key key (partial_entry src chunks (insert i S) now) (pr_packets pr)\<rparr>))"
proof -
  let ?n = "length chunks" and ?e = "partial_entry src chunks (insert i S) now"
  have n: "?n \<le> 255" "i \<le> 255" "0 < ?n" using pk S(2) by (auto simp: packet_ok_def)
  have fin: "finite S" using S(1) finite_subset by blast
  have free: "pa_frags (partial_entry src chunks S t) ! unat (ph_FragID (fragment_header a p src chunks i)) = None"
    using S(2,3) n by (simp add: partial_entry_def fragment_header_def)
  have "(\<Sum>j \<in> insert i S. length (chunks ! j)) \<le> length (concat chunks)" using S by (intro partial_size) auto
  then have "pa_size (partial_entry src chunks S t) + length (chunks ! i) \<le> length (concat chunks)"
    using fin S(3) by (simp add: partial_entry_def add.commute)
  then have "int (pa_size (partial_entry src chunks S t) + length (chunks ! i)) \<le> int (length (concat chunks))" by (simp only: of_nat_le_iff)
  then have size: "\<not> int (pa_size (partial_entry src chunks S t) + length (chunks ! i)) > pr_maxPacketSize pr"
    using pk unfolding packet_ok_def by linarith
  have "card (insert i S) \<le> ?n" using card_mono[of "{..<?n}" "insert i S"] S by simp
  moreover have "card (insert i S) = ?n \<longleftrightarrow> insert i S = {..<?n}" using card_subset_eq[of "{..<?n}" "insert i S"] S by auto
  ultimately have full: "pa_received ?e = pa_total ?e \<longleftrightarrow> insert i S = {..<?n}"
    using n by (simp add: partial_entry_def)
  have "insert i S = {..<?n} \<Longrightarrow> 0 \<in> insert i S" using n(3) by auto
  then have target: "insert i S = {..<?n} \<Longrightarrow> pa_addr ?e = Some src \<and> assembled ?e = concat chunks" "isPacketTarget (Some src)"
    using pk partial_all[of src chunks now] by (auto simp: partial_entry_def isPacketTarget_def packet_ok_def)
  show ?thesis
    using free size full target partial_insert[OF pk S, of now a p t]
    unfolding add_fragment_def Let_def by simp
qed

lemma map_of_filter_Some: "map_of xs k = Some v \<Longrightarrow> P (k, v) \<Longrightarrow> map_of (filter P xs) k = Some v"
  by (induction xs) (auto split: if_splits)

lemma map_of_filter_None: "map_of xs k = None \<Longrightarrow> map_of (filter P xs) k = None"
  by (auto simp: map_of_eq_None_iff)

text \<open>The header of a fragment passes the checks of the reassembler.\<close>

lemma fragment_header_good:
  assumes "packet_ok limit src chunks" "i < length chunks" "1 < length chunks"
  shows "\<not> (bad_fragment limit (fragment_header a p src chunks i) (chunks ! i) \<or>
    ph_FragTotal (fragment_header a p src chunks i) = 1 \<or> misplaced_address (fragment_header a p src chunks i))"
proof -
  have n: "length chunks \<le> 255" "i \<le> 255" using assms(1,2) by (auto simp: packet_ok_def)
  have "(of_nat (length chunks) :: byte) \<noteq> of_nat 1" "(of_nat (length chunks) :: byte) \<noteq> of_nat 0"
    using of_nat_byte[of "length chunks" 1] of_nat_byte[of "length chunks" 0] n(1) assms(3) by auto
  moreover have "unat (of_nat (length (chunks ! i)) :: 16 word) = length (chunks ! i)" "int (length (chunks ! i)) \<le> limit"
    using chunk_le[OF assms(2)] assms(1) by (auto simp: packet_ok_def unat_of_nat)
  moreover have "\<not> (of_nat (length chunks) :: byte) \<le> of_nat i" using assms(2) n by (simp add: word_le_nat_alt)
  ultimately show ?thesis
    using assms(1) n by (auto simp: bad_fragment_def misplaced_address_def fragment_header_def isPacketTarget_def packet_ok_def none_address_def)
qed

text \<open>One call, for a fragment that has not arrived yet.\<close>

lemma feed_partial:
  assumes pk: "packet_ok (pr_maxPacketSize pr) src chunks" "1 < length chunks"
    and S: "S \<subseteq> {..<length chunks}" "i < length chunks" "i \<notin> S"
    and key: "key = \<lparr>fk_assocID = a, fk_pktID = p, fk_transport = transport\<rparr>"
    and entry: "if S = {} then map_of (pr_packets pr) key = None \<and> length (pr_packets pr) < maxPendingPacketAssemblies
      else \<exists>t. map_of (pr_packets pr) key = Some (partial_entry src chunks S t) \<and> now - t \<le> packetAssemblyTimeout"
  shows "\<exists>pr'. reassembler_feed now transport (Some (fragment_header a p src chunks i)) (chunks ! i) pr =
      ((if insert i S = {..<length chunks} then Some (Some src, concat chunks) else None), pr') \<and>
      pr_maxPacketSize pr' = pr_maxPacketSize pr \<and>
      (insert i S \<noteq> {..<length chunks} \<longrightarrow> map_of (pr_packets pr') key = Some (partial_entry src chunks (insert i S) now))"
proof -
  let ?h = "fragment_header a p src chunks i"
  let ?pr = "expire_packets now pr"
  have n: "length chunks \<le> 255" using pk(1) by (simp add: packet_ok_def)
  have ids: "ph_AssocID ?h = a" "ph_PktID ?h = p" "ph_FragTotal ?h = of_nat (length chunks)" by (simp_all add: fragment_header_def)
  have lim: "pr_maxPacketSize ?pr = pr_maxPacketSize pr" by (simp add: expire_packets_def)
  note run = feed_fragment[OF refl fragment_header_good[OF pk(1) S(2) pk(2), of a p], of now transport, unfolded ids Let_def, folded key]
  show ?thesis
  proof (cases "S = {}")
    case True
    then have "map_of (pr_packets ?pr) key = None" "length (pr_packets ?pr) < maxPendingPacketAssemblies"
      using entry map_of_filter_None unfolding expire_packets_def by (auto intro: le_less_trans[OF length_filter_le])
    moreover have "packet_ok (pr_maxPacketSize (?pr\<lparr>pr_packets := ps\<rparr>)) src chunks" for ps using pk(1) lim by simp
    note add_partial[OF this S, of now key a p now]
    ultimately show ?thesis
      using run partial_empty[OF n, of now a p src i] True lim by (auto simp: Let_def)
  next
    case False
    then obtain t where t: "map_of (pr_packets pr) key = Some (partial_entry src chunks S t)" "now - t \<le> packetAssemblyTimeout"
      using entry by auto
    then have "map_of (pr_packets ?pr) key = Some (partial_entry src chunks S t)"
      unfolding expire_packets_def by (auto intro!: map_of_filter_Some simp: partial_entry_def)
    moreover have "pa_total (partial_entry src chunks S t) = of_nat (length chunks)" by (simp add: partial_entry_def)
    ultimately show ?thesis
      using run add_partial[OF pk(1)[folded lim] S, of now key a p t] lim by (auto simp: Let_def)
  qed
qed

text \<open>A sequence of calls, each with its time, header and payload.\<close>

fun feed_all ::
  "byte \<Rightarrow> (int \<times> PacketHeader \<times> bytes) list \<Rightarrow> packetReassembler \<Rightarrow> (Address option \<times> bytes) option list" where
  "feed_all transport [] pr = []"
| "feed_all transport ((now, hdr, payload) # xs) pr =
     (case reassembler_feed now transport (Some hdr) payload pr of (r, pr') \<Rightarrow> r # feed_all transport xs pr')"

fun in_time :: "int \<Rightarrow> int list \<Rightarrow> bool" where
  "in_time t [] = True"
| "in_time t (t' # ts) = (t' - t \<le> packetAssemblyTimeout \<and> in_time t' ts)"

definition fragment_calls :: "16 word \<Rightarrow> 16 word \<Rightarrow> Address \<Rightarrow> bytes list \<Rightarrow> int list \<Rightarrow> nat list \<Rightarrow> (int \<times> PacketHeader \<times> bytes) list" where
  "fragment_calls a p src chunks ts order = map (\<lambda>(t, i). (t, fragment_header a p src chunks i, chunks ! i)) (zip ts order)"

lemma feed_rest:
  assumes "packet_ok (pr_maxPacketSize pr) src chunks" "1 < length chunks" "S \<subseteq> {..<length chunks}"
    and "key = \<lparr>fk_assocID = a, fk_pktID = p, fk_transport = transport\<rparr>"
    and "distinct order" "set order = {..<length chunks} - S" "order \<noteq> []" "length ts = length order"
    and "if S = {} then map_of (pr_packets pr) key = None \<and> length (pr_packets pr) < maxPendingPacketAssemblies \<and> in_time (hd ts) (tl ts)
      else \<exists>t. map_of (pr_packets pr) key = Some (partial_entry src chunks S t) \<and> in_time t ts"
  shows "feed_all transport (fragment_calls a p src chunks ts order) pr =
    replicate (length order - 1) None @ [Some (Some src, concat chunks)]"
  using assms
proof (induction order arbitrary: S ts pr)
  case (Cons i order)
  obtain now ts' where ts: "ts = now # ts'" "length ts' = length order" using Cons.prems(8) by (cases ts) auto
  have i: "i < length chunks" "i \<notin> S" "set order = {..<length chunks} - insert i S" using Cons.prems(5,6) by auto
  have entry: "if S = {} then map_of (pr_packets pr) key = None \<and> length (pr_packets pr) < maxPendingPacketAssemblies
      else \<exists>t. map_of (pr_packets pr) key = Some (partial_entry src chunks S t) \<and> now - t \<le> packetAssemblyTimeout"
    and time: "in_time now ts'"
    using Cons.prems(9) ts by (auto split: if_splits)
  obtain pr' where pr': "reassembler_feed now transport (Some (fragment_header a p src chunks i)) (chunks ! i) pr =
      ((if insert i S = {..<length chunks} then Some (Some src, concat chunks) else None), pr')"
    "pr_maxPacketSize pr' = pr_maxPacketSize pr"
    "insert i S \<noteq> {..<length chunks} \<longrightarrow> map_of (pr_packets pr') key = Some (partial_entry src chunks (insert i S) now)"
    using feed_partial[OF Cons.prems(1,2,3) i(1,2) Cons.prems(4) entry] by blast
  have calls: "fragment_calls a p src chunks ts (i # order) =
      (now, fragment_header a p src chunks i, chunks ! i) # fragment_calls a p src chunks ts' order"
    by (simp add: fragment_calls_def ts)
  show ?case
  proof (cases "order = []")
    case True
    then have "insert i S = {..<length chunks}" using i Cons.prems(3) by auto
    then show ?thesis using calls pr' True by (simp add: fragment_calls_def)
  next
    case False
    then have "set order \<noteq> {}" by simp
    then have ne: "insert i S \<noteq> {..<length chunks}" unfolding i(3) by blast
    have "feed_all transport (fragment_calls a p src chunks ts' order) pr' = replicate (length order - 1) None @ [Some (Some src, concat chunks)]"
    proof (rule Cons.IH)
      show "packet_ok (pr_maxPacketSize pr') src chunks" using Cons.prems(1) pr'(2) by simp
      show "insert i S \<subseteq> {..<length chunks}" using i(1) Cons.prems(3) by simp
      show "if insert i S = {} then map_of (pr_packets pr') key = None \<and> length (pr_packets pr') < maxPendingPacketAssemblies \<and> in_time (hd ts') (tl ts')
          else \<exists>t. map_of (pr_packets pr') key = Some (partial_entry src chunks (insert i S) t) \<and> in_time t ts'"
        using pr'(3) ne time by auto
    qed (use Cons.prems(2,4,5) i(3) False ts(2) in auto)
    moreover have "replicate (length (i # order) - 1) (None :: (Address option \<times> bytes) option) = None # replicate (length order - 1) None"
      using False by (cases order) auto
    ultimately show ?thesis using calls pr'(1) ne by (simp add: ts)
  qed
qed simp

lemma feed_single:
  assumes "packet_ok (pr_maxPacketSize pr) src [payload]"
  shows "feed_all transport (fragment_calls a p src [payload] [t] [0]) pr = [Some (Some src, payload)]"
proof -
  have "\<not> bad_fragment (pr_maxPacketSize pr) (fragment_header a p src [payload] 0) payload"
    using assms by (auto simp: bad_fragment_def fragment_header_def packet_ok_def unat_of_nat)
  then show ?thesis
    using assms by (auto simp: fragment_calls_def reassembler_feed_def Let_def fragment_header_def isPacketTarget_def packet_ok_def)
qed

text \<open>All fragments of a packet, in any order.\<close>

lemma feed_any_order:
  assumes "packet_ok (pr_maxPacketSize pr) src chunks"
    and "map_of (pr_packets pr) \<lparr>fk_assocID = a, fk_pktID = p, fk_transport = transport\<rparr> = None"
      "length (pr_packets pr) < maxPendingPacketAssemblies"
    and "distinct order" "set order = {..<length chunks}" "length ts = length order" "in_time (hd ts) (tl ts)"
  shows "feed_all transport (fragment_calls a p src chunks ts order) pr =
    replicate (length chunks - 1) None @ [Some (Some src, concat chunks)]"
proof -
  have len: "length order = length chunks" using assms(4,5) distinct_card[OF assms(4)] by simp
  have ne: "chunks \<noteq> []" using assms(1) by (simp add: packet_ok_def)
  show ?thesis
  proof (cases "length chunks = 1")
    case True
    then obtain c t where "chunks = [c]" "ts = [t]" using len assms(6) by (auto simp: length_Suc_conv)
    moreover have "order = [0]" using assms(4,5) len True by (cases order) auto
    ultimately show ?thesis using feed_single[of pr src c transport a p t] assms(1) by simp
  next
    case False
    then have "1 < length chunks" using ne by (cases "length chunks") auto
    moreover have "order \<noteq> []" using len ne by auto
    ultimately show ?thesis
      using feed_rest[OF assms(1) _ empty_subsetI refl assms(4) _ _ assms(6), of a p transport] assms(2,3,5,7) len by simp
  qed
qed

section \<open>What is sent can be put together\<close>

definition piece :: "nat \<Rightarrow> bytes \<Rightarrow> nat \<Rightarrow> bytes" where
  "piece fs payload i = take fs (drop (i * fs) payload)"

lemma piece_slice: "take (min (s + f) (length xs) - s) (drop s xs) = take f (drop s xs)"
  by (simp add: min_def)

lemma concat_pieces: "concat (map (piece fs payload) [0..<n]) = take (n * fs) payload"
  by (induction n) (auto simp: piece_def take_add[symmetric] add.commute)

definition frame_bytes :: "16 word \<Rightarrow> 16 word \<Rightarrow> Address \<Rightarrow> bytes list \<Rightarrow> nat \<Rightarrow> bytes" where
  "frame_bytes a p src chunks i = fst (WritePacket [] a p (of_nat (length chunks)) (of_nat i) (if i = 0 then Some src else None) (chunks ! i))"

lemma write_opt: "encodable src \<Longrightarrow> snd (WriteAddress [] (if i = (0 :: nat) then Some src else None)) = None"
  by (auto simp: encodable_def WriteAddress_def)

lemma write_packet_ok:
  "encodable src \<Longrightarrow> WritePacket [] a p (of_nat n) (of_nat i) (if i = (0 :: nat) then Some src else None) c =
     (fst (WritePacket [] a p (of_nat n) (of_nat i) (if i = 0 then Some src else None) c), None)"
  using write_opt[of src i] by (auto simp: WritePacket_def Let_def write_prefix[of "_ # _"] split: prod.splits option.splits if_splits)

lemma send_frames_ok:
  assumes "\<And>i. send i = None" "encodable src" "chunks = map (piece fs payload) [0..<n]"
  shows "send_frames send a p (Some src) payload fs n i = (map (frame_bytes a p src chunks) [i..<n], None)"
proof (induction "n - i" arbitrary: i)
  case 0
  then show ?case by (subst send_frames.simps) simp
next
  case (Suc k)
  then have i: "i < n" by simp
  have "take (min (i * fs + fs) (length payload) - i * fs) (drop (i * fs) payload) = chunks ! i"
    using i assms(3) by (simp add: piece_slice piece_def)
  moreover have "send_frames send a p (Some src) payload fs n (i + 1) = (map (frame_bytes a p src chunks) [i + 1..<n], None)"
    using Suc by simp
  moreover have "length chunks = n" "[i..<n] = i # [i + 1..<n]" using assms(3) i upt_conv_Cons[OF i] by simp_all
  moreover obtain frame where "WritePacket [] a p (of_nat n) (of_nat i) (if i = 0 then Some src else None) (chunks ! i) = (frame, None)"
    using write_packet_ok[OF assms(2)] by blast
  ultimately show ?case
    using i assms(1) by (subst send_frames.simps) (simp add: Let_def frame_bytes_def split del: if_split)
qed

text \<open>The receiver's view of a frame, per transport.\<close>

definition frame_request :: "byte \<Rightarrow> int \<Rightarrow> bytes \<Rightarrow> tuic_request" where
  "frame_request transport limit frame =
     (if transport = packetTransportStream then stream_request limit frame else datagram_request limit frame)"

lemma frame_read:
  assumes "packet_ok limit (canon src) chunks" "encodable src" "i < length chunks"
  shows "frame_request transport limit (frame_bytes a p src chunks i) =
    RelayPacket (fragment_header a p (canon src) chunks i) (chunks ! i)"
proof -
  let ?ao = "if i = 0 then Some src else None" and ?c = "chunks ! i"
  let ?fixed = "put16 a @ put16 p @ [of_nat (length chunks), of_nat i] @ put16 (of_nat (length ?c))"
  have frame: "frame_bytes a p src chunks i = ProtocolVersion # CmdPacket # ?fixed @ address_bytes ?ao @ ?c"
    using write_packet_Inr(2)[OF write_packet_ok[OF assms(2), of a p "length chunks" i ?c]] by (simp add: frame_bytes_def)
  have hdr: "packet_header a p (of_nat (length chunks)) (of_nat i) ?ao ?c = fragment_header a p (canon src) chunks i"
    by (simp add: packet_header_def fragment_header_def canon_opt_def)
  have size: "unat (of_nat (length ?c) :: 16 word) = length ?c" "int (length ?c) \<le> limit"
    using chunk_le[OF assms(3)] assms(1) by (auto simp: packet_ok_def unat_of_nat)
  have "uint (of_nat (length ?c) :: 16 word) = int (length ?c)" using arg_cong[OF size(1), of int] by simp
  then have "read_packet_frame limit (?fixed @ address_bytes ?ao @ ?c) = Some (fragment_header a p (canon src) chunks i, ?c, [])"
    using read_packet[OF write_opt[OF assms(2), of i], of a p "of_nat (length chunks)" "of_nat i" ?c ?c] size read_full_append[of ?c _ "[]"]
    unfolding hdr read_packet_frame_def by (simp add: readPacketPayload_def fragment_header_def)
  then show ?thesis
    by (simp add: frame_request_def frame stream_request_def datagram_request_def ReadCommand_def read_full_def
        ProtocolVersion_def CmdPacket_def CmdAuthenticate_def CmdDissociate_def CmdHeartbeat_def numeral_2_eq_2)
qed

lemma canon_type [simp]: "ad_Type (canon a) = ad_Type a"
  by (simp add: canon_def)

text \<open>The calls that the frames give rise to, in the order in which they arrive; a frame that is not read as a packet
  gives rise to none.\<close>

definition arriving :: "byte \<Rightarrow> int \<Rightarrow> bytes list \<Rightarrow> int list \<Rightarrow> nat list \<Rightarrow> (int \<times> PacketHeader \<times> bytes) list" where
  "arriving transport limit frames ts order =
     List.map_filter (\<lambda>(t, i). case frame_request transport limit (frames ! i) of RelayPacket h c \<Rightarrow> Some (t, h, c) | _ \<Rightarrow> None) (zip ts order)"

lemma map_filter_all: "(\<And>x. x \<in> set xs \<Longrightarrow> f x = Some (g x)) \<Longrightarrow> List.map_filter f xs = map g xs"
  by (induction xs) (auto simp: List.map_filter_def)

text \<open>The sizes of \<open>sendUDPPacketFragments\<close> cover the payload.\<close>

lemma fragment_count:
  assumes "0 < (fs :: nat)" "n = (if (len + fs - 1) div fs = 0 then 1 else (len + fs - 1) div fs)"
  shows "len \<le> n * fs" "0 < n"
proof -
  have "len + fs - 1 < ((len + fs - 1) div fs + 1) * fs" using assms(1) dividend_less_div_times by (simp add: mult.commute)
  then have "len \<le> ((len + fs - 1) div fs) * fs" using assms(1) by (simp add: algebra_simps)
  then show "len \<le> n * fs" using assms by (auto split: if_splits)
  show "0 < n" using assms(2) by auto
qed

text \<open>C31: whatever \<open>sendUDPPacketFragments\<close> sends can be put together: its frames, read from datagrams or
  streams in any order and with at most ten seconds between two of them, give nothing until the last one, and
  then exactly the source address, in canonical form, and the payload. The receiver must have no other
  fragments under the same key and room for one more packet.\<close>

theorem fragments_reassemble:
  assumes "sendUDPPacketFragments limit (\<lambda>_. None) a p (Some src) payload transport = (frames, None)" "encodable src"
    and "0 < limit" "limit \<le> maxUdpRelayPacketSize" "pr_maxPacketSize pr = limit"
    and "map_of (pr_packets pr) \<lparr>fk_assocID = a, fk_pktID = p, fk_transport = transport\<rparr> = None"
      "length (pr_packets pr) < maxPendingPacketAssemblies"
    and "distinct order" "set order = {..<length frames}" "length ts = length order" "in_time (hd ts) (tl ts)"
  shows "feed_all transport (arriving transport limit frames ts order) pr =
    replicate (length frames - 1) None @ [Some (Some (canon src), payload)]"
proof -
  define fs where "fs = (if transport = packetTransportStream then maxStreamFragmentSize else maxDatagramFragmentSize)"
  define n where "n = (if (length payload + fs - 1) div fs = 0 then 1 else (length payload + fs - 1) div fs)"
  define chunks where "chunks = map (piece fs payload) [0..<n]"
  have "0 < fs" by (simp add: fs_def maxStreamFragmentSize_def maxDatagramFragmentSize_def)
  note n = fragment_count[OF this n_def]
  have send: "int (length payload) \<le> limit" "ad_Type src \<noteq> AddrTypeNone" "n \<le> 255"
    "frames = map (frame_bytes a p src chunks) [0..<n]"
    using assms(1)[unfolded sendUDPPacketFragments_def Let_def, folded fs_def, folded n_def]
      send_frames_ok[OF _ assms(2) chunks_def, of "\<lambda>_. None" a p 0]
    by (auto simp: isPacketTarget_def split: if_splits)
  have whole: "concat chunks = payload" using concat_pieces[of fs payload n] n(1) by (simp add: chunks_def)
  have len: "length chunks = n" "length frames = n" by (simp_all add: chunks_def send(4))
  have pk: "packet_ok limit (canon src) chunks"
    using send n(2) assms(4) whole
    by (auto simp: packet_ok_def len chunks_def maxUdpRelayPacketSize_def maxSafeUdpRelayPacketSize_def maxSocksUdpDatagramSize_def)
  have "arriving transport limit frames ts order = fragment_calls a p (canon src) chunks ts order"
    unfolding arriving_def fragment_calls_def
  proof (rule map_filter_all, clarify)
    fix t i assume "(t, i) \<in> set (zip ts order)"
    then have "i < n" using assms(9) len(2) set_zip_rightD[of t i ts order] by auto
    then show "(case frame_request transport limit (frames ! i) of RelayPacket h c \<Rightarrow> Some (t, h, c) | _ \<Rightarrow> None) =
        Some (t, fragment_header a p (canon src) chunks i, chunks ! i)"
      using frame_read[OF pk assms(2), of i transport a p] len by (simp add: send(4))
  qed
  then show ?thesis
    using feed_any_order[OF pk[folded assms(5)] assms(6-8) _ assms(10,11)] assms(9) len whole by simp
qed

theorem fragments_reassemble_witness:
  "(let frames = fst (sendUDPPacketFragments 1500 (\<lambda>_. None) 1 2 (Some sample_address) (replicate 900 7) packetTransportDatagram) in
     length frames = 2 \<and>
     feed_all packetTransportDatagram (arriving packetTransportDatagram 1500 frames [5, 7] [1, 0]) (newPacketReassembler 1500) =
       [None, Some (Some (canon sample_address), replicate 900 7)])"
proof -
  have enc: "encodable sample_address" "ad_Type sample_address \<noteq> AddrTypeNone" by code_simp+
  define frames where "frames = map (frame_bytes 1 2 sample_address (map (piece 850 (replicate 900 7)) [0..<2])) [0..<2]"
  have send: "sendUDPPacketFragments 1500 (\<lambda>_. None) 1 2 (Some sample_address) (replicate 900 7) packetTransportDatagram = (frames, None)"
    using send_frames_ok[OF _ enc(1) refl, of "\<lambda>_. None" 1 2 "replicate 900 7" 850 2 0] enc(2)
    by (simp add: sendUDPPacketFragments_def isPacketTarget_def packetTransportDatagram_def packetTransportStream_def
        maxDatagramFragmentSize_def frames_def Let_def)
  have len: "length frames = 2" by (simp add: frames_def)
  have new: "pr_maxPacketSize (newPacketReassembler 1500) = 1500" "pr_packets (newPacketReassembler 1500) = []"
    by (simp_all add: newPacketReassembler_def maxUdpRelayPacketSize_def maxSafeUdpRelayPacketSize_def maxSocksUdpDatagramSize_def)
  have two: "{..<2 :: nat} = {0, 1}" by auto
  show ?thesis
    using fragments_reassemble[OF send enc(1) _ _ new(1), of "[1, 0]" "[5, 7]"] len new two
    by (simp add: send maxPendingPacketAssemblies_def packetAssemblyTimeout_def maxUdpRelayPacketSize_def
        maxSafeUdpRelayPacketSize_def maxSocksUdpDatagramSize_def insert_commute)
qed

lemma new_ok: "reassembler_ok (newPacketReassembler limit)"
  by (auto simp: reassembler_ok_def newPacketReassembler_def maxUdpRelayPacketSize_def maxSafeUdpRelayPacketSize_def
      maxSocksUdpDatagramSize_def)

text \<open>C39: pending packets are bounded: every call keeps at most 32 of them, each incomplete and within the size
  limit of the reassembler, so that never more than 32 times the limit is held; and a packet it hands out has
  a target address and is within the limit.\<close>

theorem reassembler_bounded:
  assumes "reassembler_ok pr"
  shows "reassembler_ok (newPacketReassembler limit) \<and>
    reassembler_ok (snd (reassembler_feed now transport ho payload pr)) \<and> reassembler_ok (clearAssociation a pr) \<and>
    int (\<Sum>p \<leftarrow> pr_packets (snd (reassembler_feed now transport ho payload pr)). pa_size (snd p)) \<le> 32 * pr_maxPacketSize pr \<and>
    (\<forall>ao data. fst (reassembler_feed now transport ho payload pr) = Some (ao, data) \<longrightarrow>
       isPacketTarget ao \<and> int (length data) \<le> pr_maxPacketSize pr)"
proof -
  let ?r = "snd (reassembler_feed now transport ho payload pr)"
  have f: "reassembler_ok ?r" "pr_maxPacketSize ?r = pr_maxPacketSize pr" "fed_ok pr (reassembler_feed now transport ho payload pr)"
    using feed_ok[OF assms, of now transport ho payload] by (auto simp: fed_ok_def)
  have each: "int (pa_size (snd p)) \<le> pr_maxPacketSize pr" if "p \<in> set (pr_packets ?r)" for p
    using f(1,2) that by (auto simp: reassembler_ok_def entry_ok_def)
  have sum: "int (\<Sum>p \<leftarrow> ps. pa_size (snd p)) \<le> int (length ps) * pr_maxPacketSize pr" if "set ps \<subseteq> set (pr_packets ?r)" for ps
    using that by (induction ps) (auto simp: algebra_simps dest!: each)
  have "int (length (pr_packets ?r)) * pr_maxPacketSize pr \<le> 32 * pr_maxPacketSize pr"
    using f(1) assms by (intro mult_right_mono) (auto simp: reassembler_ok_def maxPendingPacketAssemblies_def)
  then have "int (\<Sum>p \<leftarrow> pr_packets ?r. pa_size (snd p)) \<le> 32 * pr_maxPacketSize pr" using sum[OF subset_refl] by linarith
  moreover have "reassembler_ok (newPacketReassembler limit)" by (rule new_ok)
  ultimately show ?thesis
    using f(1,3) filter_ok[OF assms] by (auto simp: fed_ok_def clearAssociation_def)
qed

theorem reassembler_bounded_witness:
  "(let pr = snd (reassembler_feed 5 packetTransportDatagram (Some (fragment_header 1 2 sample_address [[1], [2]] 0)) [1] (newPacketReassembler 1500)) in
     length (pr_packets pr) = 1 \<and> reassembler_ok pr)"
proof -
  have "length (pr_packets (snd (reassembler_feed 5 packetTransportDatagram (Some (fragment_header 1 2 sample_address [[1], [2]] 0)) [1]
      (newPacketReassembler 1500)))) = 1" by code_simp
  then show ?thesis using reassembler_bounded[OF new_ok[of 1500]] by (simp add: Let_def)
qed

end
