(* ===== verification/Tuic_Associations.thy ===== *)
theory Tuic_Associations
  imports Tuic_Packets
begin

text \<open>
  The UDP associations of one TUIC connection, \<open>src/internal/tuic/udp_associations.go\<close>. Associations are shared
  objects that the goroutines of a connection compare by identity, so they live in a heap (\<open>rg_heap\<close>, a
  reference is an index) and the map of the registry points into it. Relay sessions towards the local SOCKS5
  inbound are numbered in the order in which they are dialled; closing one is recorded in \<open>rg_closed\<close>.

  Every method is one step under the lock of the registry, except \<open>ensureRelay\<close>, which gives the lock up while it
  dials: it is two steps, \<open>ensure_check\<close> and \<open>ensure_commit\<close>, and \<open>conn_step\<close> lets everything else happen between them.
\<close>

section \<open>The registry\<close>

definition maxUdpAssociations :: nat where "maxUdpAssociations = 256"
definition udpAssociationIdleTimeout :: int where "udpAssociationIdleTimeout = 5 * 60 * 1000000000"
definition errUdpAssociationClosed :: go_error where "errUdpAssociationClosed = Err ''tuic: UDP association is closed''"

record udpAssociation =
  ua_responseTransport :: byte
  ua_relay :: "nat option"
  ua_lastActive :: int

record udpAssociationRegistry =
  rg_associations :: "(16 word \<times> nat) list"
  rg_heap :: "udpAssociation list"
  rg_datagram :: packetReassembler
  rg_stream :: packetReassembler
  rg_maxPacketSize :: int
  rg_closed :: "nat list"

definition newUdpAssociationRegistry :: "int \<Rightarrow> udpAssociationRegistry" where
  "newUdpAssociationRegistry maxPacketSize = \<lparr>rg_associations = [], rg_heap = [], rg_datagram = newPacketReassembler maxPacketSize,
     rg_stream = newPacketReassembler maxPacketSize, rg_maxPacketSize = maxPacketSize, rg_closed = []\<rparr>"

definition validPacketFragment :: "PacketHeader option \<Rightarrow> bytes \<Rightarrow> int \<Rightarrow> bool" where
  "validPacketFragment ho payload maxPacketSize =
     (case ho of None \<Rightarrow> False
      | Some hdr \<Rightarrow>
         (if ph_FragTotal hdr = 0 \<or> ph_FragID hdr \<ge> ph_FragTotal hdr \<or> unat (ph_Size hdr) \<noteq> length payload \<or>
             int (length payload) > maxPacketSize then False
          else if ph_FragTotal hdr = 1 then ph_FragID hdr = 0 \<and> isPacketTarget (ph_Addr hdr)
          else (ph_FragID hdr \<noteq> 0 \<or> isPacketTarget (ph_Addr hdr)) \<and>
               (ph_FragID hdr = 0 \<or> (case ph_Addr hdr of None \<Rightarrow> True | Some a \<Rightarrow> ad_Type a = AddrTypeNone))))"

definition close_relay :: "udpAssociation \<Rightarrow> udpAssociationRegistry \<Rightarrow> udpAssociationRegistry" where
  "close_relay a r = (case ua_relay a of None \<Rightarrow> r | Some s \<Rightarrow> r\<lparr>rg_closed := rg_closed r @ [s]\<rparr>)"

text \<open>Forget an identifier and the fragments that arrived under it.\<close>

definition forget :: "16 word \<Rightarrow> udpAssociationRegistry \<Rightarrow> udpAssociationRegistry" where
  "forget assocID r = r\<lparr>rg_associations := del_key assocID (rg_associations r),
     rg_datagram := clearAssociation assocID (rg_datagram r), rg_stream := clearAssociation assocID (rg_stream r)\<rparr>"

definition expire_step :: "int \<Rightarrow> 16 word \<times> nat \<Rightarrow> udpAssociationRegistry \<Rightarrow> udpAssociationRegistry" where
  "expire_step now p r =
     (let association = rg_heap r ! snd p in
      if now - ua_lastActive association \<le> udpAssociationIdleTimeout then r
      else close_relay association (forget (fst p) r))"

definition expireLocked :: "int \<Rightarrow> udpAssociationRegistry \<Rightarrow> udpAssociationRegistry" where
  "expireLocked now r = fold (expire_step now) (rg_associations r) r"

definition touch_object :: "nat \<Rightarrow> int \<Rightarrow> udpAssociationRegistry \<Rightarrow> udpAssociationRegistry" where
  "touch_object ref now r = r\<lparr>rg_heap := (rg_heap r)[ref := (rg_heap r ! ref)\<lparr>ua_lastActive := now\<rparr>]\<rparr>"

text \<open>\<open>feed\<close>: the association, and the packet that is complete now, if any.\<close>

definition registry_feed ::
  "int \<Rightarrow> byte \<Rightarrow> PacketHeader option \<Rightarrow> bytes \<Rightarrow> udpAssociationRegistry \<Rightarrow> (nat \<times> (Address option \<times> bytes) option) option \<times> udpAssociationRegistry" where
  "registry_feed now transport ho payload r0 =
     (case ho of
        None \<Rightarrow> (None, r0)
      | Some hdr \<Rightarrow>
        (if \<not> validPacketFragment ho payload (rg_maxPacketSize r0) then (None, r0)
         else let r = expireLocked now r0 in
           case (case map_of (rg_associations r) (ph_AssocID hdr) of
                   Some ref \<Rightarrow> Some (ref, r)
                 | None \<Rightarrow>
                    (if length (rg_associations r) \<ge> maxUdpAssociations then None
                     else Some (length (rg_heap r),
                            r\<lparr>rg_heap := rg_heap r @ [\<lparr>ua_responseTransport = transport, ua_relay = None, ua_lastActive = now\<rparr>],
                              rg_associations := put_key (ph_AssocID hdr) (length (rg_heap r)) (rg_associations r)\<rparr>))) of
             None \<Rightarrow> (None, r)
           | Some (ref, r) \<Rightarrow>
              (let r = touch_object ref now r in
               if transport = packetTransportStream
               then (case reassembler_feed now transport ho payload (rg_stream r) of
                       (out, pr) \<Rightarrow> (Some (ref, out), r\<lparr>rg_stream := pr\<rparr>))
               else (case reassembler_feed now transport ho payload (rg_datagram r) of
                       (out, pr) \<Rightarrow> (Some (ref, out), r\<lparr>rg_datagram := pr\<rparr>)))))"

text \<open>\<open>ensureRelay\<close> before and after the dial. The first answers the association if it has a relay; the second returns whether
  the new session was installed.\<close>

definition ensure_check :: "int \<Rightarrow> 16 word \<Rightarrow> nat \<Rightarrow> udpAssociationRegistry \<Rightarrow> bool res \<times> udpAssociationRegistry" where
  "ensure_check now assocID expected r =
     (if map_of (rg_associations r) assocID \<noteq> Some expected then (Inl errUdpAssociationClosed, r)
      else if ua_relay (rg_heap r ! expected) \<noteq> None then (Inr True, touch_object expected now r)
      else (Inr False, r))"

definition ensure_commit :: "int \<Rightarrow> 16 word \<Rightarrow> nat \<Rightarrow> nat \<Rightarrow> udpAssociationRegistry \<Rightarrow> bool res \<times> udpAssociationRegistry" where
  "ensure_commit now assocID association session r =
     (if map_of (rg_associations r) assocID \<noteq> Some association
      then (Inl errUdpAssociationClosed, r\<lparr>rg_closed := rg_closed r @ [session]\<rparr>)
      else if ua_relay (rg_heap r ! association) \<noteq> None
      then (Inr False, touch_object association now (r\<lparr>rg_closed := rg_closed r @ [session]\<rparr>))
      else (Inr True, touch_object association now
             (r\<lparr>rg_heap := (rg_heap r)[association := (rg_heap r ! association)\<lparr>ua_relay := Some session\<rparr>]\<rparr>)))"

text \<open>The whole method, when nothing happens during the dial.\<close>

definition ensureRelay ::
  "int \<Rightarrow> nat res \<Rightarrow> 16 word \<Rightarrow> nat \<Rightarrow> udpAssociationRegistry \<Rightarrow> bool res \<times> udpAssociationRegistry" where
  "ensureRelay now dial assocID expected r =
     (case ensure_check now assocID expected r of
        (Inl e, r) \<Rightarrow> (Inl e, r)
      | (Inr True, r) \<Rightarrow> (Inr False, r)
      | (Inr False, r) \<Rightarrow> (case dial of Inl e \<Rightarrow> (Inl e, r) | Inr session \<Rightarrow> ensure_commit now assocID expected session r))"

definition dissociate :: "16 word \<Rightarrow> udpAssociationRegistry \<Rightarrow> bool \<times> udpAssociationRegistry" where
  "dissociate assocID r =
     (case map_of (rg_associations r) assocID of
        None \<Rightarrow> (False, forget assocID r)
      | Some ref \<Rightarrow> (True, close_relay (rg_heap r ! ref) (forget assocID r)))"

definition touch :: "16 word \<Rightarrow> nat \<Rightarrow> int \<Rightarrow> udpAssociationRegistry \<Rightarrow> bool \<times> udpAssociationRegistry" where
  "touch assocID expected now r =
     (if map_of (rg_associations r) assocID \<noteq> Some expected then (False, r) else (True, touch_object expected now r))"

definition reapIdle :: "int \<Rightarrow> udpAssociationRegistry \<Rightarrow> udpAssociationRegistry" where
  "reapIdle now r = expireLocked now r"

definition closeAll :: "udpAssociationRegistry \<Rightarrow> udpAssociationRegistry" where
  "closeAll r =
     (let r = fold (\<lambda>p r. close_relay (rg_heap r ! snd p) r) (rg_associations r) r in
      r\<lparr>rg_associations := [], rg_datagram := clearAll (rg_datagram r), rg_stream := clearAll (rg_stream r)\<rparr>)"

definition registry_release :: "16 word \<Rightarrow> nat \<Rightarrow> udpAssociationRegistry \<Rightarrow> udpAssociationRegistry" where
  "registry_release assocID expected r =
     close_relay (rg_heap r ! expected) (if map_of (rg_associations r) assocID = Some expected then forget assocID r else r)"

section \<open>Sessions\<close>

text \<open>
  The accounting of relay sessions, over the map \<open>A\<close> of the registry, the relays \<open>R\<close> of all objects ever made, the closed
  sessions \<open>C\<close>, the identifiers \<open>I\<close> the objects were made for, the sessions \<open>P\<close> that are dialled and not yet
  installed, and the number \<open>n\<close> of sessions so far. \<open>map_inv\<close> speaks of the map, \<open>relay_inv\<close> of the relays of the
  objects of which the references in \<open>L\<close> are registered, \<open>count_inv\<close> of the sessions.
\<close>

definition map_inv :: "(16 word \<times> nat) list \<Rightarrow> nat \<Rightarrow> (16 word \<times> nat) list \<Rightarrow> bool" where
  "map_inv A m I \<longleftrightarrow> distinct (map fst A) \<and> length A \<le> maxUdpAssociations \<and> set A \<subseteq> set I \<and> map snd I = [0..<m]"

definition relay_inv :: "nat set \<Rightarrow> nat option list \<Rightarrow> nat set \<Rightarrow> bool" where
  "relay_inv L R C \<longleftrightarrow>
     (\<forall>i < length R. \<forall>s. R ! i = Some s \<longrightarrow> (i \<in> L \<longleftrightarrow> s \<notin> C)) \<and>
     (\<forall>i < length R. \<forall>j < length R. \<forall>s. R ! i = Some s \<longrightarrow> R ! j = Some s \<longrightarrow> i = j)"

definition count_inv :: "nat option set \<Rightarrow> nat set \<Rightarrow> nat list \<Rightarrow> nat \<Rightarrow> bool" where
  "count_inv R C P n \<longleftrightarrow>
     distinct P \<and> (\<forall>s \<in> set P. s \<notin> C \<and> Some s \<notin> R) \<and> (\<forall>s. s < n \<longleftrightarrow> s \<in> set P \<or> s \<in> C \<or> Some s \<in> R)"

definition sess_inv ::
  "(16 word \<times> nat) list \<Rightarrow> nat option list \<Rightarrow> nat list \<Rightarrow> (16 word \<times> nat) list \<Rightarrow> nat list \<Rightarrow> nat \<Rightarrow> bool" where
  "sess_inv A R C I P n \<longleftrightarrow>
     map_inv A (length R) I \<and> relay_inv (snd ` set A) R (set C) \<and> count_inv (set R) (set C) P n"

lemma map_inv_ref:
  assumes "map_inv A m I" "(k, i) \<in> set A"
  shows "i < m" and "(k', i) \<in> set A \<Longrightarrow> k' = k" and "(k, j) \<in> set A \<Longrightarrow> j = i"
proof -
  have I: "set A \<subseteq> set I" "map snd I = [0..<m]" and A: "distinct (map fst A)" using assms(1) by (simp_all add: map_inv_def)
  have "i \<in> set (map snd I)" using I(1) assms(2) by force
  then show "i < m" unfolding I(2) by simp
  have "distinct (map snd I)" unfolding I(2) by simp
  then have "inj_on snd (set I)" by (simp add: distinct_map)
  then show "(k', i) \<in> set A \<Longrightarrow> k' = k" using inj_onD[of snd "set I" "(k', i)" "(k, i)"] I(1) assms(2) by auto
  show "(k, j) \<in> set A \<Longrightarrow> j = i" using eq_key_imp_eq_value[OF A] assms(2) by blast
qed

lemma refs_del_key:
  assumes "map_inv A m I" "(k, i) \<in> set A"
  shows "snd ` set (del_key k A) = snd ` set A - {i}"
proof -
  have "(k', j) \<in> set A \<Longrightarrow> k' \<noteq> k \<longleftrightarrow> j \<noteq> i" for k' j using map_inv_ref(2,3)[OF assms] by blast
  then show ?thesis unfolding del_key_def by force
qed

lemma map_inv_del_key: "map_inv A m I \<Longrightarrow> map_inv (del_key k A) m I"
  using distinct_del_key[of A k] order_trans[OF length_del_key[of k A], of maxUdpAssociations]
  by (auto simp: map_inv_def) (auto simp: del_key_def)

text \<open>The relay of an object as the list of the sessions to close.\<close>

definition relay_list :: "nat option \<Rightarrow> nat list" where
  "relay_list x = (case x of None \<Rightarrow> [] | Some s \<Rightarrow> [s])"

lemma relay_list_mem [simp]: "s \<in> set (relay_list x) \<longleftrightarrow> x = Some s"
  by (cases x) (auto simp: relay_list_def)

text \<open>Objects leave the registry and their sessions are closed.\<close>

lemma relay_inv_retire:
  assumes inv: "relay_inv L R C" and D: "D \<subseteq> {..<length R}"
  shows "relay_inv (L - D) R (C \<union> {s. \<exists>i \<in> D. R ! i = Some s})"
proof -
  have "i \<in> L - D \<longleftrightarrow> s \<notin> C \<union> {s. \<exists>i \<in> D. R ! i = Some s}" if i: "i < length R" "R ! i = Some s" for i s
  proof -
    have "(\<exists>j \<in> D. R ! j = Some s) \<longleftrightarrow> i \<in> D" using inv i D unfolding relay_inv_def by blast
    then show ?thesis using inv i unfolding relay_inv_def by blast
  qed
  then show ?thesis using inv unfolding relay_inv_def by blast
qed

lemma count_inv_close:
  assumes "count_inv R C P n" "\<And>s. s \<in> X \<Longrightarrow> Some s \<in> R"
  shows "count_inv R (C \<union> X) P n"
  using assms unfolding count_inv_def by blast

lemma sess_retire:
  assumes inv: "sess_inv A R C I P n" and k: "(k, i) \<in> set A"
  shows "sess_inv (del_key k A) R (C @ relay_list (R ! i)) I P n"
proof -
  have m: "map_inv A (length R) I" and r: "relay_inv (snd ` set A) R (set C)" and c: "count_inv (set R) (set C) P n"
    using inv by (simp_all add: sess_inv_def)
  have i: "i < length R" using map_inv_ref(1)[OF m k] .
  have C: "set (C @ relay_list (R ! i)) = set C \<union> {s. \<exists>j \<in> {i}. R ! j = Some s}" by auto
  have "Some s \<in> set R" if "R ! i = Some s" for s using i that nth_mem[of i R] by simp
  then show ?thesis
    using map_inv_del_key[OF m] relay_inv_retire[OF r, of "{i}"] count_inv_close[OF c, of "{s. \<exists>j \<in> {i}. R ! j = Some s}"] i
    unfolding sess_inv_def C refs_del_key[OF m k] by simp
qed

lemma sess_cong_closed: "sess_inv A R C I P n \<Longrightarrow> set C' = set C \<Longrightarrow> sess_inv A R C' I P n"
  by (simp add: sess_inv_def)

lemma sess_drop: "sess_inv A R C I P n \<Longrightarrow> k \<notin> fst ` set A \<Longrightarrow> sess_inv (del_key k A) R C I P n"
proof -
  assume "sess_inv A R C I P n" "k \<notin> fst ` set A"
  moreover from this(2) have "del_key k A = A" by (force simp: del_key_def filter_id_conv)
  ultimately show ?thesis by simp
qed

text \<open>Closing the relay of an object the registry no longer knows changes nothing.\<close>

lemma sess_close_again:
  assumes "sess_inv A R C I P n" "i < length R" "i \<notin> snd ` set A"
  shows "sess_inv A R (C @ relay_list (R ! i)) I P n"
  using assms by (intro sess_cong_closed[OF assms(1)]) (auto simp: sess_inv_def relay_inv_def)

lemma sess_alloc:
  assumes inv: "sess_inv A R C I P n" and k: "k \<notin> fst ` set A" "length A < maxUdpAssociations"
  shows "sess_inv (put_key k (length R) A) (R @ [None]) C (I @ [(k, length R)]) P n"
proof -
  have m: "map_inv A (length R) I" and r: "relay_inv (snd ` set A) R (set C)" and c: "count_inv (set R) (set C) P n"
    using inv by (simp_all add: sess_inv_def)
  have del: "del_key k A = A" using k(1) by (force simp: del_key_def filter_id_conv)
  have "map_inv (put_key k (length R) A) (length (R @ [None])) (I @ [(k, length R)])"
    using m k unfolding map_inv_def put_key_def del by auto
  moreover have "relay_inv (snd ` set (put_key k (length R) A)) (R @ [None]) (set C)"
    using r unfolding relay_inv_def put_key_def del
    by (auto simp: nth_append less_Suc_eq split: if_splits)
  moreover have "count_inv (set (R @ [None])) (set C) P n" using c by (simp add: count_inv_def)
  ultimately show ?thesis by (simp add: sess_inv_def)
qed

lemma sess_dial:
  assumes "sess_inv A R C I P n"
  shows "sess_inv A R C I (P @ [n]) (Suc n)"
proof -
  have c: "count_inv (set R) (set C) P n" using assms by (simp add: sess_inv_def)
  then have "n \<notin> set P" "n \<notin> set C" "Some n \<notin> set R" unfolding count_inv_def by blast+
  then have "count_inv (set R) (set C) (P @ [n]) (Suc n)" using c by (auto simp: count_inv_def less_Suc_eq)
  then show ?thesis using assms by (simp add: sess_inv_def)
qed

lemma sess_abandon:
  assumes inv: "sess_inv A R C I P n" and s: "s \<in> set P"
  shows "sess_inv A R (C @ [s]) I (filter (\<lambda>x. x \<noteq> s) P) n"
proof -
  have c: "count_inv (set R) (set C) P n" and r: "relay_inv (snd ` set A) R (set C)" using inv by (simp_all add: sess_inv_def)
  have new: "Some s \<notin> set R" using c s by (auto simp: count_inv_def)
  have "count_inv (set R) (set (C @ [s])) (filter (\<lambda>x. x \<noteq> s) P) n"
    using c s new unfolding count_inv_def by auto
  moreover have "R ! i \<noteq> Some s" if "i < length R" for i using new nth_mem[OF that] by metis
  then have "relay_inv (snd ` set A) R (set (C @ [s]))" using r unfolding relay_inv_def by auto
  ultimately show ?thesis using inv by (simp add: sess_inv_def)
qed

lemma sess_install:
  assumes inv: "sess_inv A R C I P n" and k: "(k, i) \<in> set A" "R ! i = None" "s \<in> set P"
  shows "sess_inv A (R[i := Some s]) C I (filter (\<lambda>x. x \<noteq> s) P) n"
proof -
  have m: "map_inv A (length R) I" and r: "relay_inv (snd ` set A) R (set C)" and c: "count_inv (set R) (set C) P n"
    using inv by (simp_all add: sess_inv_def)
  have i: "i < length R" using map_inv_ref(1)[OF m k(1)] .
  have new: "s \<notin> set C" "Some s \<notin> set R" using c k(3) by (auto simp: count_inv_def)
  have old: "R ! j \<noteq> Some s" if "j < length R" for j using new nth_mem[OF that] by metis
  have R: "Some t \<in> set (R[i := Some s]) \<longleftrightarrow> t = s \<or> Some t \<in> set R" for t
    using i k(2) by (auto simp: in_set_conv_nth nth_list_update split: if_splits) (metis option.distinct(1))
  have "count_inv (set (R[i := Some s])) (set C) (filter (\<lambda>x. x \<noteq> s) P) n"
    using c k(3) unfolding count_inv_def R by auto
  moreover have "i \<in> snd ` set A" using k(1) by force
  then have "relay_inv (snd ` set A) (R[i := Some s]) (set C)"
    unfolding relay_inv_def length_list_update using r old new(1) i
    by (intro conjI allI impI; simp add: relay_inv_def nth_list_update split: if_splits)
  ultimately show ?thesis using m by (simp add: sess_inv_def)
qed

section \<open>The steps keep the accounts\<close>

definition reg_inv :: "(16 word \<times> nat) list \<Rightarrow> nat list \<Rightarrow> nat \<Rightarrow> udpAssociationRegistry \<Rightarrow> bool" where
  "reg_inv I P n r \<longleftrightarrow>
     sess_inv (rg_associations r) (map ua_relay (rg_heap r)) (rg_closed r) I P n \<and>
     reassembler_ok (rg_datagram r) \<and> reassembler_ok (rg_stream r)"

lemma close_relay_simps [simp]:
  "rg_associations (close_relay a r) = rg_associations r" "rg_heap (close_relay a r) = rg_heap r"
  "rg_datagram (close_relay a r) = rg_datagram r" "rg_stream (close_relay a r) = rg_stream r"
  "rg_closed (close_relay a r) = rg_closed r @ relay_list (ua_relay a)"
  by (simp_all add: close_relay_def relay_list_def split: option.splits)

lemma clear_packets_ok: "reassembler_ok pr \<Longrightarrow> reassembler_ok (clearAssociation k pr)" "reassembler_ok pr \<Longrightarrow> reassembler_ok (clearAll pr)"
  unfolding clearAssociation_def clearAll_def by (rule filter_ok, assumption) (simp add: reassembler_ok_def)

lemma reg_inv_ref:
  assumes "reg_inv I P n r" "(k, i) \<in> set (rg_associations r)"
  shows "i < length (rg_heap r)"
  using map_inv_ref(1)[OF _ assms(2)] assms(1) by (force simp: reg_inv_def sess_inv_def)

lemma reg_inv_issued:
  assumes "reg_inv I P n r" "(k, i) \<in> set I"
  shows "i < length (rg_heap r)" "i \<in> snd ` set (rg_associations r) \<Longrightarrow> (k, i) \<in> set (rg_associations r)"
proof -
  have I: "map snd I = [0..<length (rg_heap r)]" "set (rg_associations r) \<subseteq> set I"
    using assms(1) by (simp_all add: reg_inv_def sess_inv_def map_inv_def)
  have "i \<in> set (map snd I)" using assms(2) by force
  then show "i < length (rg_heap r)" unfolding I(1) by simp
  have "distinct (map snd I)" unfolding I(1) by simp
  then have "inj_on snd (set I)" by (simp add: distinct_map)
  moreover assume "i \<in> snd ` set (rg_associations r)"
  then obtain k' where k': "(k', i) \<in> set (rg_associations r)" by auto
  ultimately have "k' = k" using inj_onD[of snd "set I" "(k', i)" "(k, i)"] I(2) assms(2) by auto
  then show "(k, i) \<in> set (rg_associations r)" using k' by simp
qed

lemma retire_ok:
  assumes "reg_inv I P n r" "(k, i) \<in> set (rg_associations r)"
  shows "reg_inv I P n (close_relay (rg_heap r ! i) (forget k r))"
  using assms sess_retire[of "rg_associations r" "map ua_relay (rg_heap r)" _ I P n k i] reg_inv_ref[OF assms]
  by (simp add: reg_inv_def forget_def clear_packets_ok)

lemma touch_object_ok:
  assumes "reg_inv I P n r" "i < length (rg_heap r)"
  shows "reg_inv I P n (touch_object i now r)"
proof -
  have "map ua_relay ((rg_heap r)[i := (rg_heap r ! i)\<lparr>ua_lastActive := now\<rparr>]) = map ua_relay (rg_heap r)"
    using assms(2) by (intro nth_equalityI) (auto simp: nth_list_update)
  then show ?thesis using assms(1) by (simp add: reg_inv_def touch_object_def)
qed

lemma expire_fold:
  "reg_inv I P n r \<Longrightarrow> set ps \<subseteq> set (rg_associations r) \<Longrightarrow> distinct (map fst ps) \<Longrightarrow>
    reg_inv I P n (fold (expire_step now) ps r)"
proof (induction ps arbitrary: r)
  case (Cons p ps)
  obtain k i where p: "p = (k, i)" by (cases p)
  have "reg_inv I P n (expire_step now p r)"
    using Cons.prems retire_ok[of I P n r k i] by (simp add: expire_step_def p Let_def)
  moreover have "set ps \<subseteq> set (rg_associations (expire_step now p r))"
    using Cons.prems(2,3) by (force simp: expire_step_def p Let_def forget_def del_key_def)
  ultimately show ?case using Cons.IH Cons.prems(3) by simp
qed simp

lemma expireLocked_ok: "reg_inv I P n r \<Longrightarrow> reg_inv I P n (expireLocked now r)"
  unfolding expireLocked_def by (rule expire_fold) (simp_all add: reg_inv_def sess_inv_def map_inv_def)

lemma dissociate_ok: "reg_inv I P n r \<Longrightarrow> reg_inv I P n (snd (dissociate k r))"
proof (cases "map_of (rg_associations r) k")
  case None
  then have "snd (dissociate k r) = forget k r" "k \<notin> fst ` set (rg_associations r)"
    by (simp add: dissociate_def) (use None in \<open>simp add: map_of_eq_None_iff\<close>)
  moreover assume "reg_inv I P n r"
  ultimately show ?thesis
    using sess_drop[of "rg_associations r" _ _ I P n k] by (simp add: reg_inv_def forget_def clear_packets_ok)
next
  case (Some i)
  assume "reg_inv I P n r"
  then show ?thesis using retire_ok[OF _ map_of_SomeD[OF Some]] Some by (simp add: dissociate_def)
qed

lemma release_ok:
  assumes "reg_inv I P n r" "(k, i) \<in> set I"
  shows "reg_inv I P n (registry_release k i r)"
proof (cases "map_of (rg_associations r) k = Some i")
  case True
  then show ?thesis using retire_ok[OF assms(1) map_of_SomeD[OF True]] by (simp add: registry_release_def)
next
  case False
  have "distinct (map fst (rg_associations r))" using assms(1) by (simp add: reg_inv_def sess_inv_def map_inv_def)
  then have "i \<notin> snd ` set (rg_associations r)" using reg_inv_issued(2)[OF assms] False by (auto dest: map_of_is_SomeI)
  then show ?thesis
    using assms(1) reg_inv_issued(1)[OF assms] sess_close_again[of "rg_associations r" "map ua_relay (rg_heap r)" _ I P n i] False
    by (simp add: registry_release_def reg_inv_def)
qed

lemma close_all_fold:
  "rg_associations (fold (\<lambda>p r. close_relay (rg_heap r ! snd p) r) ps r) = rg_associations r \<and>
   rg_heap (fold (\<lambda>p r. close_relay (rg_heap r ! snd p) r) ps r) = rg_heap r \<and>
   rg_datagram (fold (\<lambda>p r. close_relay (rg_heap r ! snd p) r) ps r) = rg_datagram r \<and>
   rg_stream (fold (\<lambda>p r. close_relay (rg_heap r ! snd p) r) ps r) = rg_stream r \<and>
   set (rg_closed (fold (\<lambda>p r. close_relay (rg_heap r ! snd p) r) ps r)) =
     set (rg_closed r) \<union> {s. \<exists>i \<in> snd ` set ps. ua_relay (rg_heap r ! i) = Some s}"
  by (induction ps arbitrary: r) auto

lemma closeAll_ok:
  assumes "reg_inv I P n r"
  shows "reg_inv I P n (closeAll r)"
proof -
  let ?R = "map ua_relay (rg_heap r)" and ?L = "snd ` set (rg_associations r)"
  let ?X = "{s. \<exists>i \<in> ?L. ?R ! i = Some s}"
  have m: "map_inv (rg_associations r) (length ?R) I" and rel: "relay_inv ?L ?R (set (rg_closed r))"
    and c: "count_inv (set ?R) (set (rg_closed r)) P n" using assms by (simp_all add: reg_inv_def sess_inv_def)
  have L: "i < length ?R" if "i \<in> ?L" for i using that map_inv_ref(1)[OF m] by auto
  have X: "{s. \<exists>i \<in> ?L. ua_relay (rg_heap r ! i) = Some s} = ?X" using L by auto
  have "relay_inv (?L - ?L) ?R (set (rg_closed r) \<union> ?X)" by (rule relay_inv_retire[OF rel]) (use L in auto)
  moreover have "Some s \<in> set ?R" if "s \<in> ?X" for s
  proof -
    from that obtain i where "i \<in> ?L" "?R ! i = Some s" by blast
    then show ?thesis using nth_mem[OF L] by metis
  qed
  then have "count_inv (set ?R) (set (rg_closed r) \<union> ?X) P n" by (rule count_inv_close[OF c])
  moreover have "map_inv [] (length ?R) I" using m by (simp add: map_inv_def)
  ultimately show ?thesis
    using assms close_all_fold[of "rg_associations r" r, unfolded X]
    by (simp add: closeAll_def reg_inv_def sess_inv_def Let_def clear_packets_ok)
qed

lemma ensure_commit_ok:
  assumes inv: "reg_inv I P n r" and s: "s \<in> set P"
  shows "reg_inv I (filter (\<lambda>x. x \<noteq> s) P) n (snd (ensure_commit now k i s r))"
proof -
  have lost: "reg_inv I (filter (\<lambda>x. x \<noteq> s) P) n (r\<lparr>rg_closed := rg_closed r @ [s]\<rparr>)"
    using inv s sess_abandon[of "rg_associations r" "map ua_relay (rg_heap r)" _ I P n s] by (simp add: reg_inv_def)
  show ?thesis
  proof (cases "map_of (rg_associations r) k = Some i")
    case False
    then show ?thesis using lost by (simp add: ensure_commit_def)
  next
    case True
    note k = map_of_SomeD[OF True] 
    have i: "i < length (rg_heap r)" using reg_inv_ref[OF inv k] .
    have "reg_inv I (filter (\<lambda>x. x \<noteq> s) P) n (r\<lparr>rg_heap := (rg_heap r)[i := (rg_heap r ! i)\<lparr>ua_relay := Some s\<rparr>]\<rparr>)"
      if "ua_relay (rg_heap r ! i) = None"
      using inv sess_install[of "rg_associations r" "map ua_relay (rg_heap r)" "rg_closed r" I P n k i s] k i s that
      by (simp add: reg_inv_def map_update)
    then show ?thesis using True lost i by (simp add: ensure_commit_def touch_object_ok)
  qed
qed

text \<open>The association a packet belongs to: found, or made when there is room.\<close>

lemma registry_feed_ok:
  assumes inv: "reg_inv I P n r" and run: "registry_feed now transport ho payload r = (res, r')"
  shows "\<exists>J. reg_inv (I @ J) P n r' \<and> (\<forall>hdr ref out. ho = Some hdr \<longrightarrow> res = Some (ref, out) \<longrightarrow> (ph_AssocID hdr, ref) \<in> set (I @ J))"
proof (cases "ho = None \<or> \<not> validPacketFragment ho payload (rg_maxPacketSize r)")
  case True
  then have "r' = r" "res = None" using run by (auto simp: registry_feed_def split: option.splits)
  then show ?thesis using inv by (intro exI[of _ "[]"]) simp
next
  case False
  then obtain hdr where hdr: "ho = Some hdr" "validPacketFragment ho payload (rg_maxPacketSize r)" by auto
  let ?e = "expireLocked now r" and ?k = "ph_AssocID hdr"
  let ?new = "?e\<lparr>rg_heap := rg_heap ?e @ [\<lparr>ua_responseTransport = transport, ua_relay = None, ua_lastActive = now\<rparr>],
    rg_associations := put_key ?k (length (rg_heap ?e)) (rg_associations ?e)\<rparr>"
  have e: "reg_inv I P n ?e" using expireLocked_ok[OF inv] .
  have packet: "reg_inv J P n r' \<and> (\<exists>out. res = Some (ref, out))"
    if "reg_inv J P n q" "ref < length (rg_heap q)"
      and "(let r = touch_object ref now q in
             if transport = packetTransportStream
             then (case reassembler_feed now transport (Some hdr) payload (rg_stream r) of (out, pr) \<Rightarrow> (Some (ref, out), r\<lparr>rg_stream := pr\<rparr>))
             else (case reassembler_feed now transport (Some hdr) payload (rg_datagram r) of (out, pr) \<Rightarrow> (Some (ref, out), r\<lparr>rg_datagram := pr\<rparr>))) = (res, r')"
    for J q ref
  proof -
    have t: "reg_inv J P n (touch_object ref now q)" using touch_object_ok[OF that(1,2)] .
    have "reassembler_ok (snd (reassembler_feed now transport (Some hdr) payload (rg_stream (touch_object ref now q))))"
      "reassembler_ok (snd (reassembler_feed now transport (Some hdr) payload (rg_datagram (touch_object ref now q))))"
      using t by (auto simp: reg_inv_def intro: feed_ok[unfolded fed_ok_def, THEN conjunct1])
    then show ?thesis using t that(3) by (auto simp: reg_inv_def Let_def split: if_splits prod.splits)
  qed
  show ?thesis
  proof (cases "map_of (rg_associations ?e) ?k")
    case (Some ref)
    note k = map_of_SomeD[OF Some]
    have "set (rg_associations ?e) \<subseteq> set I" using e by (simp add: reg_inv_def sess_inv_def map_inv_def)
    then have "(?k, ref) \<in> set I" using k by auto
    moreover have "reg_inv I P n r' \<and> (\<exists>out. res = Some (ref, out))"
      using packet[OF e reg_inv_ref[OF e k]] run hdr Some by (simp add: registry_feed_def Let_def)
    ultimately show ?thesis using hdr(1) by (intro exI[of _ "[]"]) auto
  next
    case None
    show ?thesis
    proof (cases "length (rg_associations ?e) \<ge> maxUdpAssociations")
      case True
      then have "r' = ?e" "res = None" using run hdr None by (simp_all add: registry_feed_def Let_def)
      then show ?thesis using e by (intro exI[of _ "[]"]) simp
    next
      case False
      let ?J = "[(?k, length (rg_heap ?e))]"
      have "reg_inv (I @ ?J) P n ?new"
        using e False None sess_alloc[of "rg_associations ?e" "map ua_relay (rg_heap ?e)" _ I P n ?k]
        by (simp add: reg_inv_def map_of_eq_None_iff)
      then have "reg_inv (I @ ?J) P n r' \<and> (\<exists>out. res = Some (length (rg_heap ?e), out))"
        using packet[of "I @ ?J" ?new "length (rg_heap ?e)"] run hdr None False by (simp add: registry_feed_def Let_def)
      then show ?thesis using hdr(1) by (intro exI[of _ ?J]) auto
    qed
  qed
qed

section \<open>A connection\<close>

text \<open>
  The goroutines of a connection: the associations they were given (\<open>cn_issued\<close>), the sessions they have dialled and not
  yet installed (\<open>cn_pending\<close>), and the number of sessions dialled so far. Steps of different goroutines interleave
  freely; the clock may say anything.
\<close>

record conn =
  cn_registry :: udpAssociationRegistry
  cn_issued :: "(16 word \<times> nat) list"
  cn_pending :: "(16 word \<times> nat \<times> nat) list"
  cn_next :: nat

definition new_conn :: "int \<Rightarrow> conn" where
  "new_conn maxPacketSize = \<lparr>cn_registry = newUdpAssociationRegistry maxPacketSize, cn_issued = [], cn_pending = [], cn_next = 0\<rparr>"

definition pending_sessions :: "conn \<Rightarrow> nat list" where
  "pending_sessions c = map (snd \<circ> snd) (cn_pending c)"

text \<open>The effect of a successful dial and of the end of \<open>ensureRelay\<close>.\<close>

definition dialled :: "16 word \<Rightarrow> nat \<Rightarrow> conn \<Rightarrow> conn" where
  "dialled k i c = c\<lparr>cn_pending := cn_pending c @ [(k, i, cn_next c)], cn_next := Suc (cn_next c)\<rparr>"

definition committed :: "int \<Rightarrow> 16 word \<Rightarrow> nat \<Rightarrow> nat \<Rightarrow> conn \<Rightarrow> conn" where
  "committed now k i s c = c\<lparr>cn_registry := snd (ensure_commit now k i s (cn_registry c)),
     cn_pending := filter (\<lambda>q. snd (snd q) \<noteq> s) (cn_pending c)\<rparr>"

inductive conn_step :: "conn \<Rightarrow> conn \<Rightarrow> bool" where
  step_feed: "registry_feed now transport (Some hdr) payload (cn_registry c) = (Some (ref, out), r') \<Longrightarrow>
     conn_step c (c\<lparr>cn_registry := r', cn_issued := (ph_AssocID hdr, ref) # cn_issued c\<rparr>)"
| step_drop: "registry_feed now transport ho payload (cn_registry c) = (None, r') \<Longrightarrow> conn_step c (c\<lparr>cn_registry := r'\<rparr>)"
| step_relayed: "(k, i) \<in> set (cn_issued c) \<Longrightarrow> ensure_check now k i (cn_registry c) = (Inr True, r') \<Longrightarrow> conn_step c (c\<lparr>cn_registry := r'\<rparr>)"
| step_dial: "(k, i) \<in> set (cn_issued c) \<Longrightarrow> ensure_check now k i (cn_registry c) = (Inr False, r') \<Longrightarrow> conn_step c (dialled k i c)"
| step_commit: "(k, i, s) \<in> set (cn_pending c) \<Longrightarrow> conn_step c (committed now k i s c)"
| step_dissociate: "conn_step c (c\<lparr>cn_registry := snd (dissociate k (cn_registry c))\<rparr>)"
| step_touch: "(k, i) \<in> set (cn_issued c) \<Longrightarrow> conn_step c (c\<lparr>cn_registry := snd (touch k i now (cn_registry c))\<rparr>)"
| step_reap: "conn_step c (c\<lparr>cn_registry := reapIdle now (cn_registry c)\<rparr>)"
| step_release: "(k, i) \<in> set (cn_issued c) \<Longrightarrow> conn_step c (c\<lparr>cn_registry := registry_release k i (cn_registry c)\<rparr>)"
| step_close: "conn_step c (c\<lparr>cn_registry := closeAll (cn_registry c)\<rparr>)"

definition conn_inv :: "conn \<Rightarrow> bool" where
  "conn_inv c \<longleftrightarrow> (\<exists>I. reg_inv I (pending_sessions c) (cn_next c) (cn_registry c) \<and> set (cn_issued c) \<subseteq> set I)"

lemma map_of_ref_less:
  "reg_inv I P n r \<Longrightarrow> map_of (rg_associations r) k = Some i \<Longrightarrow> i < length (rg_heap r)"
  using reg_inv_ref[of I P n r k i] map_of_SomeD by fast

lemma conn_invI: "reg_inv I (pending_sessions c) (cn_next c) (cn_registry c) \<Longrightarrow> set (cn_issued c) \<subseteq> set I \<Longrightarrow> conn_inv c"
  by (auto simp: conn_inv_def)

lemma conn_invE:
  assumes "conn_inv c"
  obtains I where "reg_inv I (pending_sessions c) (cn_next c) (cn_registry c)" "set (cn_issued c) \<subseteq> set I"
  using assms by (auto simp: conn_inv_def)

lemma new_conn_inv: "conn_inv (new_conn m)"
  by (intro conn_invI[of "[]"])
    (simp_all add: new_conn_def newUdpAssociationRegistry_def pending_sessions_def reg_inv_def sess_inv_def map_inv_def relay_inv_def
      count_inv_def new_ok)

lemma conn_touch:
  assumes "conn_inv c" "map_of (rg_associations (cn_registry c)) k = Some i"
  shows "conn_inv (c\<lparr>cn_registry := touch_object i now (cn_registry c)\<rparr>)"
proof -
  obtain I where I: "reg_inv I (pending_sessions c) (cn_next c) (cn_registry c)" "set (cn_issued c) \<subseteq> set I"
    using assms(1) by (rule conn_invE)
  show ?thesis
    using touch_object_ok[OF I(1) map_of_ref_less[OF I(1) assms(2)]] I(2) by (intro conn_invI[of I]) (auto simp: pending_sessions_def)
qed

lemma conn_step_inv: "conn_step c c' \<Longrightarrow> conn_inv c \<Longrightarrow> conn_inv c'"
proof (induction rule: conn_step.induct)
  case (step_feed now transport hdr payload c ref out r')
  obtain I where I: "reg_inv I (pending_sessions c) (cn_next c) (cn_registry c)" "set (cn_issued c) \<subseteq> set I"
    using step_feed.prems by (rule conn_invE)
  from registry_feed_ok[OF I(1) step_feed.hyps] obtain J where
    "reg_inv (I @ J) (pending_sessions c) (cn_next c) r'" "(ph_AssocID hdr, ref) \<in> set (I @ J)" by auto
  then show ?case using I(2) by (intro conn_invI[of "I @ J"]) (auto simp: pending_sessions_def)
next
  case (step_drop now transport ho payload c r')
  obtain I where I: "reg_inv I (pending_sessions c) (cn_next c) (cn_registry c)" "set (cn_issued c) \<subseteq> set I"
    using step_drop.prems by (rule conn_invE)
  from registry_feed_ok[OF I(1) step_drop.hyps] obtain J where "reg_inv (I @ J) (pending_sessions c) (cn_next c) r'" by auto
  then show ?case using I(2) by (intro conn_invI[of "I @ J"]) (auto simp: pending_sessions_def)
next
  case (step_relayed k i c now r')
  then show ?case
    using conn_touch[of c k i now] by (auto simp: ensure_check_def split: if_splits)
next
  case (step_dial k i c now r')
  obtain I where I: "reg_inv I (pending_sessions c) (cn_next c) (cn_registry c)" "set (cn_issued c) \<subseteq> set I"
    using step_dial.prems by (rule conn_invE)
  then have "reg_inv I (pending_sessions c @ [cn_next c]) (Suc (cn_next c)) (cn_registry c)" by (simp add: reg_inv_def sess_dial)
  then show ?case using I(2) by (intro conn_invI[of I]) (simp_all add: pending_sessions_def dialled_def)
next
  case (step_commit k i s c now)
  have "map (snd \<circ> snd) (filter (\<lambda>q. snd (snd q) \<noteq> s) (cn_pending c)) = filter (\<lambda>x. x \<noteq> s) (pending_sessions c)"
    by (simp add: pending_sessions_def filter_map comp_def)
  moreover have "s \<in> set (pending_sessions c)" using step_commit.hyps by (force simp: pending_sessions_def)
  moreover obtain I where I: "reg_inv I (pending_sessions c) (cn_next c) (cn_registry c)" "set (cn_issued c) \<subseteq> set I"
    using step_commit.prems by (rule conn_invE)
  ultimately show ?case
    using ensure_commit_ok[OF I(1), of s now k i] I(2) by (intro conn_invI[of I]) (simp_all add: committed_def pending_sessions_def)
next
  case (step_touch k i c now)
  then show ?case using conn_touch[of c k i now] by (simp add: touch_def)
next
  case (step_release k i c)
  then show ?case by (auto simp: conn_inv_def pending_sessions_def intro!: release_ok)
qed (auto simp: conn_inv_def pending_sessions_def reapIdle_def intro: dissociate_ok expireLocked_ok closeAll_ok)

text \<open>The registered associations that relay through a session.\<close>

definition relayed_by :: "conn \<Rightarrow> nat \<Rightarrow> (16 word \<times> nat) list" where
  "relayed_by c s = filter (\<lambda>p. ua_relay (rg_heap (cn_registry c) ! snd p) = Some s) (rg_associations (cn_registry c))"

lemma session_once:
  assumes "conn_inv c"
  shows "of_bool (s \<in> set (pending_sessions c)) + of_bool (s \<in> set (rg_closed (cn_registry c))) + min 1 (length (relayed_by c s)) =
    (of_bool (s < cn_next c) :: nat)"
    and "length (relayed_by c s) \<le> 1"
proof -
  let ?A = "rg_associations (cn_registry c)" and ?R = "map ua_relay (rg_heap (cn_registry c))" and ?C = "set (rg_closed (cn_registry c))"
  from assms obtain I where m: "map_inv ?A (length ?R) I" and r: "relay_inv (snd ` set ?A) ?R ?C"
    and n: "count_inv (set ?R) ?C (pending_sessions c) (cn_next c)" by (auto simp: conn_inv_def reg_inv_def sess_inv_def)
  have mem: "p \<in> set (relayed_by c s) \<longleftrightarrow> p \<in> set ?A \<and> ?R ! snd p = Some s" for p
    using map_inv_ref(1)[OF m, of "fst p" "snd p"] by (auto simp: relayed_by_def)
  have one: "p = q" if "p \<in> set (relayed_by c s)" "q \<in> set (relayed_by c s)" for p q
  proof -
    have "snd p = snd q" using r that map_inv_ref(1)[OF m, of "fst p" "snd p"] map_inv_ref(1)[OF m, of "fst q" "snd q"]
      unfolding mem relay_inv_def by auto
    then show ?thesis using that map_inv_ref(2)[OF m, of "fst p" "snd p" "fst q"] unfolding mem by (metis prod.collapse)
  qed
  have d: "distinct (relayed_by c s)" using m by (simp add: relayed_by_def map_inv_def distinct_map)
  show le: "length (relayed_by c s) \<le> 1"
  proof (cases "relayed_by c s")
    case (Cons p ps)
    then have "q = p" if "q \<in> set ps" for q using one[of q p] that by simp
    then have "ps = []" using d Cons by (cases ps) auto
    then show ?thesis using Cons by simp
  qed simp
  have "relayed_by c s \<noteq> [] \<longleftrightarrow> Some s \<in> set ?R \<and> s \<notin> ?C"
  proof
    assume "relayed_by c s \<noteq> []"
    then obtain p where p: "p \<in> set ?A" "?R ! snd p = Some s" using mem by (metis last_in_set)
    then have "snd p < length ?R" using map_inv_ref(1)[OF m, of "fst p" "snd p"] by simp
    moreover from this have "s \<notin> ?C" using r p unfolding relay_inv_def by blast
    ultimately show "Some s \<in> set ?R \<and> s \<notin> ?C" using p(2) nth_mem by metis
  next
    assume s: "Some s \<in> set ?R \<and> s \<notin> ?C"
    then obtain i where i: "i < length ?R" "?R ! i = Some s" by (metis in_set_conv_nth)
    then have "i \<in> snd ` set ?A" using r s unfolding relay_inv_def by blast
    then obtain k where "(k, i) \<in> set (relayed_by c s)" using i(2) mem by auto
    then show "relayed_by c s \<noteq> []" by auto
  qed
  then have "min 1 (length (relayed_by c s)) = of_bool (Some s \<in> set ?R \<and> s \<notin> ?C)" by (cases "relayed_by c s") auto
  moreover have "s \<in> set (pending_sessions c) \<Longrightarrow> s \<notin> ?C \<and> Some s \<notin> set ?R"
    "s < cn_next c \<longleftrightarrow> s \<in> set (pending_sessions c) \<or> s \<in> ?C \<or> Some s \<in> set ?R"
    using n unfolding count_inv_def by blast+
  ultimately show "of_bool (s \<in> set (pending_sessions c)) + of_bool (s \<in> ?C) + min 1 (length (relayed_by c s)) = (of_bool (s < cn_next c) :: nat)"
    by auto
qed

lemma reachable_inv: "conn_step\<^sup>*\<^sup>* (new_conn m) c \<Longrightarrow> conn_inv c"
  by (induction rule: rtranclp_induct) (auto intro: new_conn_inv conn_step_inv)

lemma close_conn_inv: "conn_inv c \<Longrightarrow> conn_inv (c\<lparr>cn_registry := closeAll (cn_registry c)\<rparr>)"
  by (rule conn_step_inv[OF step_close])

text \<open>Two packets of one association whose handlers both dial.\<close>

definition sample_fed :: conn where
  "sample_fed = (new_conn 1500)\<lparr>cn_registry := snd (registry_feed 5 packetTransportStream (Some (fragment_header 1 2 sample_address [[9]] 0)) [9]
     (cn_registry (new_conn 1500))), cn_issued := [(1, 0)]\<rparr>"

definition sample_race :: conn where
  "sample_race = committed 7 1 0 1 (committed 6 1 0 0 (dialled 1 0 (dialled 1 0 sample_fed)))"

lemma sample_race_reachable: "conn_step\<^sup>*\<^sup>* (new_conn 1500) sample_race"
proof -
  let ?feed = "registry_feed 5 packetTransportStream (Some (fragment_header 1 2 sample_address [[9]] 0)) [9] (cn_registry (new_conn 1500))"
  have "fst ?feed = Some (0, Some (Some sample_address, [9]))" by code_simp
  then have "?feed = (Some (0, Some (Some sample_address, [9])), snd ?feed)" by (metis prod.collapse)
  from step_feed[OF this] have "conn_step (new_conn 1500) sample_fed"
    by (simp add: sample_fed_def fragment_header_def new_conn_def)
  moreover have "fst (ensure_check 6 1 0 (cn_registry sample_fed)) = Inr False" by code_simp
  then have check: "ensure_check 6 1 0 (cn_registry sample_fed) = (Inr False, snd (ensure_check 6 1 0 (cn_registry sample_fed)))"
    by (metis prod.collapse)
  have issued: "(1, 0) \<in> set (cn_issued sample_fed)" by (simp add: sample_fed_def)
  have "conn_step sample_fed (dialled 1 0 sample_fed)" using step_dial[OF issued check] .
  moreover have "conn_step (dialled 1 0 sample_fed) (dialled 1 0 (dialled 1 0 sample_fed))"
    using step_dial[of 1 0 "dialled 1 0 sample_fed", OF _ ] issued check by (simp add: dialled_def)
  moreover have "conn_step (dialled 1 0 (dialled 1 0 sample_fed)) (committed 6 1 0 0 (dialled 1 0 (dialled 1 0 sample_fed)))"
    by (rule step_commit) (simp add: dialled_def sample_fed_def new_conn_def)
  moreover have "conn_step (committed 6 1 0 0 (dialled 1 0 (dialled 1 0 sample_fed))) sample_race"
    unfolding sample_race_def by (rule step_commit) (simp add: dialled_def sample_fed_def new_conn_def committed_def)
  ultimately show ?thesis by (meson converse_rtranclp_into_rtranclp rtranclp.rtrancl_refl)
qed

section \<open>Every session is accounted for\<close>

text \<open>C32: on every interleaving of the goroutines of a connection there are at most 256 associations and the pending
  packets are bounded, and every relay session that was ever dialled is exactly one of: in the hands of the goroutine
  that dialled it, closed, or the relay of exactly one registered association. When no dial is under way, \<open>closeAll\<close>
  leaves no session open.\<close>

theorem relay_sessions_accounted:
  assumes "conn_step\<^sup>*\<^sup>* (new_conn maxPacketSize) c"
  shows "length (rg_associations (cn_registry c)) \<le> 256 \<and>
    reassembler_ok (rg_datagram (cn_registry c)) \<and> reassembler_ok (rg_stream (cn_registry c)) \<and>
    (\<forall>s. of_bool (s \<in> set (pending_sessions c)) + of_bool (s \<in> set (rg_closed (cn_registry c))) + length (relayed_by c s) =
         (of_bool (s < cn_next c) :: nat)) \<and>
    (cn_pending c = [] \<longrightarrow> (\<forall>s < cn_next c. s \<in> set (rg_closed (closeAll (cn_registry c)))))"
proof -
  have inv: "conn_inv c" using reachable_inv[OF assms] .
  then have bounds: "length (rg_associations (cn_registry c)) \<le> 256 \<and>
      reassembler_ok (rg_datagram (cn_registry c)) \<and> reassembler_ok (rg_stream (cn_registry c))"
    by (auto simp: conn_inv_def reg_inv_def sess_inv_def map_inv_def maxUdpAssociations_def)
  have "of_bool (s \<in> set (pending_sessions c)) + of_bool (s \<in> set (rg_closed (cn_registry c))) + length (relayed_by c s) =
      (of_bool (s < cn_next c) :: nat)" for s
    using session_once[OF inv, of s] by simp
  moreover have "s \<in> set (rg_closed (closeAll (cn_registry c)))" if "cn_pending c = []" "s < cn_next c" for s
  proof -
    let ?c = "c\<lparr>cn_registry := closeAll (cn_registry c)\<rparr>"
    have "relayed_by ?c s = []" by (simp add: relayed_by_def closeAll_def Let_def)
    then show ?thesis using session_once(1)[OF close_conn_inv[OF inv], of s] that by (simp add: pending_sessions_def of_bool_def split: if_splits)
  qed
  ultimately show ?thesis using bounds by blast
qed

theorem relay_sessions_accounted_witness:
  "cn_next sample_race = 2 \<and> relayed_by sample_race 0 = [(1, 0)] \<and> rg_closed (cn_registry sample_race) = [1] \<and>
   0 \<in> set (rg_closed (closeAll (cn_registry sample_race))) \<and>
   of_bool (0 \<in> set (pending_sessions sample_race)) + of_bool (0 \<in> set (rg_closed (cn_registry sample_race))) +
     length (relayed_by sample_race 0) = (1 :: nat)"
proof -
  have run: "cn_next sample_race = 2" "relayed_by sample_race 0 = [(1, 0)]" "rg_closed (cn_registry sample_race) = [1]"
    "cn_pending sample_race = []" by code_simp+
  show ?thesis using relay_sessions_accounted[OF sample_race_reachable] run by (simp add: pending_sessions_def)
qed

end
