(* ===== verification/Tuic_Users.thy ===== *)
theory Tuic_Users
  imports Tuic_Packets
begin

text \<open>
  The users of a TUIC server and the connections they hold, \<open>src/internal/tuic/auth.go\<close> and the session part of
  \<open>server.go\<close>. Users are shared objects with counters, so they live in a heap (\<open>ur_heap\<close>) and the maps of the registry and
  of the server hold references. The counters are 64-bit integers; the number of sessions of a user counts
  live connections and is an integer.

  The package \<open>uuid\<close> and the key export of TLS are parameters. A method is one step; \<open>UpdateUsers\<close>, which closes the
  connections of the revoked users after it has given up the lock of the registry, is two.
\<close>

section \<open>The registry of users\<close>

definition ErrUserNotFound :: go_error where "ErrUserNotFound = Err ''tuic: user not found''"
definition ErrAuthFailed :: go_error where "ErrAuthFailed = Err ''tuic: authentication failed''"
definition ErrInvalidTLSState :: go_error where "ErrInvalidTLSState = Err ''tuic: TLS connection state not available''"

record TuicClientSettings =
  tc_TrafficID :: int
  tc_UUID :: bytes
  tc_Password :: bytes
  tc_Email :: bytes

record User =
  us_TrafficID :: int
  us_UUID :: bytes
  us_UUIDStr :: bytes
  us_Password :: bytes
  us_Email :: bytes
  us_BytesUp :: int
  us_BytesDown :: int
  us_sessions :: int

record UserRegistry =
  ur_users :: "(bytes \<times> nat) list"
  ur_retired :: "nat list"
  ur_heap :: "User list"

record ClientTrafficDelta =
  td_TrafficID :: int
  td_Email :: bytes
  td_UUID :: bytes
  td_InboundID :: int
  td_Up :: int
  td_Down :: int

record uuid_env =
  uuid_parse :: "bytes \<Rightarrow> bytes option"
  uuid_text :: "bytes \<Rightarrow> bytes"

definition NewUserRegistry :: UserRegistry where
  "NewUserRegistry = \<lparr>ur_users = [], ur_retired = [], ur_heap = []\<rparr>"

definition newUser :: "uuid_env \<Rightarrow> bytes \<Rightarrow> TuicClientSettings \<Rightarrow> User" where
  "newUser env uid c = \<lparr>us_TrafficID = tc_TrafficID c, us_UUID = uid, us_UUIDStr = uuid_text env uid, us_Password = tc_Password c,
     us_Email = tc_Email c, us_BytesUp = 0, us_BytesDown = 0, us_sessions = 0\<rparr>"

definition retire :: "nat \<Rightarrow> UserRegistry \<Rightarrow> UserRegistry" where
  "retire u ur = ur\<lparr>ur_retired := List.insert u (ur_retired ur)\<rparr>"

definition same_credentials :: "User \<Rightarrow> TuicClientSettings \<Rightarrow> bool" where
  "same_credentials u c \<longleftrightarrow> us_Password u = tc_Password c \<and> us_Email u = tc_Email c \<and> us_TrafficID u = tc_TrafficID c"

text \<open>One client of the new list: the map under construction, the registry with the new objects, the revoked users.\<close>

definition set_user ::
  "uuid_env \<Rightarrow> TuicClientSettings \<Rightarrow> (bytes \<times> nat) list \<times> UserRegistry \<times> nat list \<Rightarrow> (bytes \<times> nat) list \<times> UserRegistry \<times> nat list" where
  "set_user env c = (\<lambda>(newMap, ur, revoked).
     case uuid_parse env (tc_UUID c) of
       None \<Rightarrow> (newMap, ur, revoked)
     | Some parsed \<Rightarrow>
        (let fresh = length (ur_heap ur); created = ur\<lparr>ur_heap := ur_heap ur @ [newUser env parsed c]\<rparr> in
         case map_of (ur_users ur) parsed of
           Some existing \<Rightarrow>
             (if same_credentials (ur_heap ur ! existing) c then (put_key parsed existing newMap, ur, revoked)
              else (put_key parsed fresh newMap, retire existing created, revoked @ [existing]))
         | None \<Rightarrow> (put_key parsed fresh newMap, created, revoked)))"

text \<open>One user of the old map.\<close>

definition drop_user :: "(bytes \<times> nat) list \<Rightarrow> bytes \<times> nat \<Rightarrow> UserRegistry \<times> nat list \<Rightarrow> UserRegistry \<times> nat list" where
  "drop_user newMap p = (\<lambda>(ur, revoked).
     if map_of newMap (fst p) = None then (retire (snd p) ur, revoked @ [snd p]) else (ur, revoked))"

definition SetUsers :: "uuid_env \<Rightarrow> TuicClientSettings list \<Rightarrow> UserRegistry \<Rightarrow> nat list \<times> UserRegistry" where
  "SetUsers env clients ur =
     (case fold (set_user env) clients ([], ur, []) of
        (newMap, ur', revoked) \<Rightarrow>
          (case fold (drop_user newMap) (ur_users ur) (ur', revoked) of
             (ur'', revoked) \<Rightarrow> (revoked, ur''\<lparr>ur_users := newMap\<rparr>)))"

definition add_traffic :: "nat \<Rightarrow> int \<Rightarrow> int \<Rightarrow> UserRegistry \<Rightarrow> UserRegistry" where
  "add_traffic u up down ur = ur\<lparr>ur_heap := (ur_heap ur)[u := (ur_heap ur ! u)\<lparr>us_BytesUp := add64 (us_BytesUp (ur_heap ur ! u)) up,
     us_BytesDown := add64 (us_BytesDown (ur_heap ur ! u)) down\<rparr>]\<rparr>"

definition user_delta :: "User \<Rightarrow> ClientTrafficDelta" where
  "user_delta u = \<lparr>td_TrafficID = us_TrafficID u, td_Email = us_Email u, td_UUID = us_UUIDStr u, td_InboundID = 0,
     td_Up = us_BytesUp u, td_Down = us_BytesDown u\<rparr>"

definition collect_user :: "bool \<Rightarrow> nat \<Rightarrow> ClientTrafficDelta list \<times> UserRegistry \<Rightarrow> ClientTrafficDelta list \<times> UserRegistry" where
  "collect_user retired u = (\<lambda>(deltas, ur).
     let user = ur_heap ur ! u;
         ur = ur\<lparr>ur_heap := (ur_heap ur)[u := user\<lparr>us_BytesUp := 0, us_BytesDown := 0\<rparr>]\<rparr>;
         deltas = (if us_BytesUp user > 0 \<or> us_BytesDown user > 0 then deltas @ [user_delta user] else deltas)
     in (deltas, if retired \<and> us_sessions user = 0 then ur\<lparr>ur_retired := removeAll u (ur_retired ur)\<rparr> else ur))"

definition CollectTrafficDeltas :: "UserRegistry \<Rightarrow> ClientTrafficDelta list \<times> UserRegistry" where
  "CollectTrafficDeltas ur =
     fold (collect_user True) (ur_retired ur) (fold (collect_user False) (map snd (ur_users ur)) ([], ur))"

definition add_sessions :: "nat \<Rightarrow> int \<Rightarrow> UserRegistry \<Rightarrow> UserRegistry" where
  "add_sessions u n ur =
     ur\<lparr>ur_heap := (ur_heap ur)[u := (ur_heap ur ! u)\<lparr>us_sessions := us_sessions (ur_heap ur ! u) + n\<rparr>]\<rparr>"

definition sessionEnded :: "nat option \<Rightarrow> UserRegistry \<Rightarrow> UserRegistry" where
  "sessionEnded uo ur = (case uo of None \<Rightarrow> ur | Some u \<Rightarrow> add_sessions u (- 1) ur)"

text \<open>The state of a TLS connection: whether the handshake is complete, and its key export.\<close>

record tls_state =
  tls_HandshakeComplete :: bool
  tls_Export :: "bytes \<Rightarrow> bytes \<Rightarrow> bytes res"

text \<open>\<open>authenticate\<close>, with \<open>register\<close> acting on a state \<open>'s\<close>; the answer is the reference of the user.\<close>

definition token_matches :: "tls_state \<Rightarrow> bytes \<Rightarrow> bytes \<Rightarrow> bytes \<Rightarrow> bool" where
  "token_matches cs label password token = (case tls_Export cs label password of Inl _ \<Rightarrow> False | Inr expected \<Rightarrow> token = expected)"

definition authenticate ::
  "(nat \<Rightarrow> 's \<Rightarrow> bool \<times> 's) \<Rightarrow> tls_state option \<Rightarrow> bytes \<Rightarrow> bytes \<Rightarrow> UserRegistry \<Rightarrow> 's \<Rightarrow> nat res \<times> 's" where
  "authenticate register cso rawUUID token ur s =
     (case cso of
        None \<Rightarrow> (Inl ErrInvalidTLSState, s)
      | Some cs \<Rightarrow>
        (case map_of (ur_users ur) rawUUID of
           None \<Rightarrow> (Inl ErrUserNotFound, s)
         | Some u \<Rightarrow>
           (let user = ur_heap ur ! u;
                accept = (case register u s of (True, s) \<Rightarrow> (Inr u, s) | (False, s) \<Rightarrow> (Inl ErrUserNotFound, s))
            in if \<not> tls_HandshakeComplete cs then (Inl ErrInvalidTLSState, s)
               else if token_matches cs rawUUID (us_Password user) token then accept
               else if token_matches cs (us_UUIDStr user) (us_Password user) token then accept
               else case (tls_Export cs rawUUID (us_Password user), tls_Export cs (us_UUIDStr user) (us_Password user)) of
                      (Inl e, Inl _) \<Rightarrow> (Inl (Err (error_text ErrAuthFailed @ '': export keying material: '' @ error_text e)), s)
                    | _ \<Rightarrow> (Inl ErrAuthFailed, s))))"

definition Authenticate :: "tls_state option \<Rightarrow> bytes \<Rightarrow> bytes \<Rightarrow> UserRegistry \<Rightarrow> nat res" where
  "Authenticate cso rawUUID token ur = fst (authenticate (\<lambda>_ s. (True, s)) cso rawUUID token ur ())"

fun valid_clients :: "uuid_env \<Rightarrow> bytes list \<Rightarrow> TuicClientSettings list \<Rightarrow> unit res" where
  "valid_clients env seen [] = Inr ()"
| "valid_clients env seen (client # rest) =
     (case uuid_parse env (tc_UUID client) of
        None \<Rightarrow> Inl (Err ''tuic: invalid client UUID'')
      | Some uid \<Rightarrow> if uid \<in> set seen then Inl (Err ''tuic: duplicate client UUID'') else valid_clients env (uid # seen) rest)"

definition ValidateClients :: "uuid_env \<Rightarrow> TuicClientSettings list \<Rightarrow> unit res" where
  "ValidateClients env clients = valid_clients env [] clients"

section \<open>Connections\<close>

text \<open>
  The part of \<open>Server\<close> that knows connections. \<open>sv_active\<close> is the map of maps \<open>activeConns\<close>, keyed by user identifier and
  connection (the code removes an inner map that has become empty); \<open>sv_auth\<close> holds \<open>authState\<close> and \<open>authUser\<close> of the running
  handlers; \<open>sv_closed\<close> lists the connections that \<open>CloseWithError\<close> was called on.
\<close>

record tuic_server =
  sv_id :: int
  sv_users :: UserRegistry
  sv_active :: "((bytes \<times> nat) \<times> nat) list"
  sv_auth :: "(nat \<times> (nat \<times> nat option)) list"
  sv_closed :: "nat list"
  sv_lastOnline :: "(bytes \<times> int) list"
  sv_running :: bool
  sv_stopped :: bool

definition user_of :: "tuic_server \<Rightarrow> nat \<Rightarrow> User" where
  "user_of s u = ur_heap (sv_users s) ! u"

definition IsRunning :: "tuic_server \<Rightarrow> bool" where
  "IsRunning s \<longleftrightarrow> sv_running s \<and> \<not> sv_stopped s"

definition markActive :: "int \<Rightarrow> bytes \<Rightarrow> tuic_server \<Rightarrow> tuic_server" where
  "markActive now email s = (if email \<noteq> [] then s\<lparr>sv_lastOnline := put_key email now (sv_lastOnline s)\<rparr> else s)"

definition GetActiveEmails :: "int \<Rightarrow> int \<Rightarrow> tuic_server \<Rightarrow> bytes list" where
  "GetActiveEmails now window s = map fst (filter (\<lambda>p. now - snd p \<le> window) (sv_lastOnline s))"

definition registerConn :: "nat \<Rightarrow> nat \<Rightarrow> tuic_server \<Rightarrow> tuic_server" where
  "registerConn user conn s = s\<lparr>sv_active := put_key (us_UUID (user_of s user), conn) user (sv_active s),
     sv_users := add_sessions user 1 (sv_users s)\<rparr>"

definition unregisterConn :: "nat \<Rightarrow> nat \<Rightarrow> tuic_server \<Rightarrow> tuic_server" where
  "unregisterConn user conn s =
     (let key = (us_UUID (user_of s user), conn) in
      case map_of (sv_active s) key of
        None \<Rightarrow> s
      | Some registered \<Rightarrow>
         (let s = s\<lparr>sv_active := del_key key (sv_active s)\<rparr> in
          if registered = user then s\<lparr>sv_users := sessionEnded (Some user) (sv_users s)\<rparr> else s))"

definition closeUserConns :: "nat \<Rightarrow> tuic_server \<Rightarrow> tuic_server" where
  "closeUserConns user s = s\<lparr>sv_closed := sv_closed s @
     map (\<lambda>p. snd (fst p)) (filter (\<lambda>p. fst (fst p) = us_UUID (user_of s user) \<and> snd p = user) (sv_active s))\<rparr>"

definition closeAllConns :: "tuic_server \<Rightarrow> tuic_server" where
  "closeAllConns s = s\<lparr>sv_closed := sv_closed s @ map fst (sv_auth s)\<rparr>"

text \<open>\<open>UpdateUsers\<close> up to the lock, and the loop over the revoked users.\<close>

definition update_users :: "uuid_env \<Rightarrow> TuicClientSettings list \<Rightarrow> tuic_server \<Rightarrow> nat list \<times> tuic_server" where
  "update_users env clients s =
     (case ValidateClients env clients of
        Inl _ \<Rightarrow> ([], s)
      | Inr _ \<Rightarrow> (case SetUsers env clients (sv_users s) of (revoked, ur) \<Rightarrow> (revoked, s\<lparr>sv_users := ur\<rparr>)))"

definition UpdateUsers :: "uuid_env \<Rightarrow> TuicClientSettings list \<Rightarrow> tuic_server \<Rightarrow> tuic_server" where
  "UpdateUsers env clients s = (case update_users env clients s of (revoked, s) \<Rightarrow> fold closeUserConns revoked s)"

definition CollectClientTraffic :: "tuic_server \<Rightarrow> ClientTrafficDelta list \<times> tuic_server" where
  "CollectClientTraffic s =
     (case CollectTrafficDeltas (sv_users s) of
        (deltas, ur) \<Rightarrow> (map (\<lambda>d. d\<lparr>td_InboundID := sv_id s\<rparr>) deltas, s\<lparr>sv_users := ur\<rparr>))"

definition server_CollectAllTraffic :: "tuic_server \<Rightarrow> (int \<times> int \<times> ClientTrafficDelta list) \<times> tuic_server" where
  "server_CollectAllTraffic s =
     (case CollectClientTraffic s of
        (deltas, s) \<Rightarrow> ((fold (\<lambda>d t. add64 t (td_Up d)) deltas 0, fold (\<lambda>d t. add64 t (td_Down d)) deltas 0, deltas), s))"

text \<open>The handler of a connection: it is accepted, it authenticates or times out (the stream handlers close a connection
  whose authentication is refused), and it cleans up.\<close>

definition accept_conn :: "nat \<Rightarrow> tuic_server \<Rightarrow> tuic_server" where
  "accept_conn conn s =
     (if sv_stopped s then s\<lparr>sv_closed := sv_closed s @ [conn]\<rparr> else s\<lparr>sv_auth := put_key conn (0, None) (sv_auth s)\<rparr>)"

definition auth_register :: "int \<Rightarrow> nat \<Rightarrow> nat \<Rightarrow> tuic_server \<Rightarrow> bool \<times> tuic_server" where
  "auth_register now conn user s =
     (case map_of (sv_auth s) conn of
        None \<Rightarrow> (False, s)
      | Some (authState, authUser) \<Rightarrow>
         (if authState \<noteq> 0 then (authState = 1 \<and> authUser = Some user, s)
          else (True, markActive now (us_Email (user_of s user))
                 (registerConn user conn (s\<lparr>sv_auth := put_key conn (1, Some user) (sv_auth s)\<rparr>)))))"

definition conn_authenticate :: "int \<Rightarrow> tls_state option \<Rightarrow> nat \<Rightarrow> bytes \<Rightarrow> bytes \<Rightarrow> tuic_server \<Rightarrow> nat res \<times> tuic_server" where
  "conn_authenticate now tls conn rawUUID token s =
     (case authenticate (auth_register now conn) tls rawUUID token (sv_users s) s of
        (Inl e, s) \<Rightarrow> (Inl e, s\<lparr>sv_closed := sv_closed s @ [conn]\<rparr>)
      | (Inr u, s) \<Rightarrow> (Inr u, s))"

definition auth_timeout :: "nat \<Rightarrow> tuic_server \<Rightarrow> tuic_server" where
  "auth_timeout conn s =
     (case map_of (sv_auth s) conn of
        Some (0, authUser) \<Rightarrow> s\<lparr>sv_auth := put_key conn (2, authUser) (sv_auth s), sv_closed := sv_closed s @ [conn]\<rparr>
      | _ \<Rightarrow> s)"

text \<open>\<open>waitForAuth\<close> when it returns a user.\<close>

definition auth_user :: "nat \<Rightarrow> tuic_server \<Rightarrow> nat option" where
  "auth_user conn s = (case map_of (sv_auth s) conn of Some (authState, authUser) \<Rightarrow> if authState = 1 then authUser else None | None \<Rightarrow> None)"

text \<open>A handler adds what it relayed to the counters of the user of its connection.\<close>

definition count_traffic :: "nat \<Rightarrow> int \<Rightarrow> int \<Rightarrow> tuic_server \<Rightarrow> tuic_server" where
  "count_traffic u up down s = s\<lparr>sv_users := add_traffic u up down (sv_users s)\<rparr>"

definition end_conn :: "nat \<Rightarrow> tuic_server \<Rightarrow> tuic_server" where
  "end_conn conn s =
     (let s = (case map_of (sv_auth s) conn of Some (_, Some u) \<Rightarrow> unregisterConn u conn s | _ \<Rightarrow> s)
      in s\<lparr>sv_closed := sv_closed s @ [conn], sv_auth := del_key conn (sv_auth s)\<rparr>)"

text \<open>\<open>Close\<close> waits for the handlers of all connections.\<close>

definition Server_Close :: "tuic_server \<Rightarrow> tuic_server" where
  "Server_Close s =
     (if sv_stopped s then s
      else let s = closeAllConns (s\<lparr>sv_stopped := True, sv_running := False\<rparr>) in fold end_conn (map fst (sv_auth s)) s)"

definition accept_failed :: "tuic_server \<Rightarrow> tuic_server" where
  "accept_failed s = (if sv_stopped s then s else s\<lparr>sv_running := False\<rparr>)"

definition new_server :: "uuid_env \<Rightarrow> int \<Rightarrow> TuicClientSettings list \<Rightarrow> tuic_server" where
  "new_server env iid clients = \<lparr>sv_id = iid, sv_users = snd (SetUsers env clients NewUserRegistry), sv_active = [], sv_auth = [],
     sv_closed = [], sv_lastOnline = [], sv_running = False, sv_stopped = False\<rparr>"


section \<open>Well-formed registries\<close>

lemma list_update_nth [simp]: "i < length xs \<Longrightarrow> xs[i := v] ! j = (if i = j then v else xs ! j)"
  by simp

definition idle_user :: "User \<Rightarrow> bool" where
  "idle_user u \<longleftrightarrow> us_BytesUp u = 0 \<and> us_BytesDown u = 0 \<and> us_sessions u = 0"

definition map_ok :: "User list \<Rightarrow> (bytes \<times> nat) list \<Rightarrow> bool" where
  "map_ok H m \<longleftrightarrow> distinct (map fst m) \<and> (\<forall>k u. (k, u) \<in> set m \<longrightarrow> u < length H \<and> us_UUID (H ! u) = k)"

text \<open>Objects that neither map knows are idle: nothing is lost when they are forgotten.\<close>

definition registry_ok :: "UserRegistry \<Rightarrow> bool" where
  "registry_ok ur \<longleftrightarrow>
     map_ok (ur_heap ur) (ur_users ur) \<and> (\<forall>u \<in> set (ur_retired ur). u < length (ur_heap ur)) \<and>
     (\<forall>u < length (ur_heap ur). u \<notin> snd ` set (ur_users ur) \<longrightarrow> u \<notin> set (ur_retired ur) \<longrightarrow> idle_user (ur_heap ur ! u))"

lemma map_okI:
  "distinct (map fst m) \<Longrightarrow> (\<And>k u. (k, u) \<in> set m \<Longrightarrow> u < length H) \<Longrightarrow> (\<And>k u. (k, u) \<in> set m \<Longrightarrow> us_UUID (H ! u) = k) \<Longrightarrow> map_ok H m"
  by (simp add: map_ok_def)

lemma map_okD:
  assumes "map_ok H m"
  shows "distinct (map fst m)" "(k, u) \<in> set m \<Longrightarrow> u < length H" "(k, u) \<in> set m \<Longrightarrow> us_UUID (H ! u) = k"
  using assms by (simp_all add: map_ok_def)

lemma map_ok_append: "map_ok H m \<Longrightarrow> map_ok (H @ xs) m"
  by (rule map_okI) (auto simp: nth_append map_okD intro: trans_less_add1 dest: map_okD)

lemma map_ok_put:
  assumes "map_ok H m" "u < length H" "us_UUID (H ! u) = k"
  shows "map_ok H (put_key k u m)"
proof (rule map_okI)
  have "k \<notin> fst ` set (del_key k m)" by (auto simp: del_key_def)
  then show "distinct (map fst (put_key k u m))" using distinct_del_key[OF map_okD(1)[OF assms(1)]] by (simp add: put_key_def)
  fix k' v assume "(k', v) \<in> set (put_key k u m)"
  then have "(k', v) = (k, u) \<or> (k', v) \<in> set m" by (auto simp: put_key_def del_key_def)
  then show "v < length H" "us_UUID (H ! v) = k'" using assms(2,3) map_okD(2,3)[OF assms(1)] by auto
qed

lemma map_ok_ref: "map_ok H m \<Longrightarrow> map_of m k = Some u \<Longrightarrow> u < length H \<and> us_UUID (H ! u) = k \<and> (k, u) \<in> set m"
  using map_of_SomeD[of m k u] map_okD(2,3)[of H m k u] by blast

text \<open>What the loop over the new clients keeps: \<open>ur\<close> is the registry before.\<close>

definition setting_ok :: "UserRegistry \<Rightarrow> (bytes \<times> nat) list \<times> UserRegistry \<times> nat list \<Rightarrow> bool" where
  "setting_ok ur = (\<lambda>(newMap, ur', revoked).
     ur_users ur' = ur_users ur \<and> (\<exists>new. ur_heap ur' = ur_heap ur @ new \<and> (\<forall>u \<in> set new. idle_user u)) \<and>
     map_ok (ur_heap ur') newMap \<and> set (ur_retired ur') = set (ur_retired ur) \<union> set revoked \<and> set revoked \<subseteq> snd ` set (ur_users ur) \<and>
     (\<forall>k u. (k, u) \<in> set (ur_users ur) \<longrightarrow> u \<in> set revoked \<or> map_of newMap k = Some u \<or> map_of newMap k = None))"

lemma newUser_idle [simp]: "idle_user (newUser env uid c)"
  by (simp add: newUser_def idle_user_def)

lemma newUser_UUID [simp]: "us_UUID (newUser env uid c) = uid"
  by (simp add: newUser_def)

lemma retire_simps [simp]:
  "ur_users (retire u ur) = ur_users ur" "ur_heap (retire u ur) = ur_heap ur" "set (ur_retired (retire u ur)) = insert u (set (ur_retired ur))"
  by (simp_all add: retire_def)

lemma set_user_ok:
  assumes wf: "map_ok (ur_heap ur) (ur_users ur)" and ok: "setting_ok ur st"
  shows "setting_ok ur (set_user env c st)"
proof -
  obtain m r rv where st: "st = (m, r, rv)" by (cases st)
  obtain new where r: "ur_users r = ur_users ur" "ur_heap r = ur_heap ur @ new" "\<forall>u \<in> set new. idle_user u"
    and m: "map_ok (ur_heap r) m" and rt: "set (ur_retired r) = set (ur_retired ur) \<union> set rv" "set rv \<subseteq> snd ` set (ur_users ur)"
    and old: "\<forall>k u. (k, u) \<in> set (ur_users ur) \<longrightarrow> u \<in> set rv \<or> map_of m k = Some u \<or> map_of m k = None"
    using ok unfolding setting_ok_def st by auto
  show ?thesis
  proof (cases "uuid_parse env (tc_UUID c)")
    case None
    then show ?thesis using ok by (simp add: set_user_def st)
  next
    case (Some k)
    let ?H = "ur_heap r @ [newUser env k c]"
    have fresh: "map_ok ?H (put_key k (length (ur_heap r)) m)"
      by (rule map_ok_put[OF map_ok_append[OF m]]) simp_all
    have heap: "\<exists>xs. ?H = ur_heap ur @ xs \<and> (\<forall>u \<in> set xs. idle_user u)" using r(2,3) by auto
    show ?thesis
    proof (cases "map_of (ur_users ur) k")
      case None
      then have "\<forall>u. (k, u) \<notin> set (ur_users ur)" by (auto simp: map_of_eq_None_iff image_iff)
      then have "\<forall>k' u. (k', u) \<in> set (ur_users ur) \<longrightarrow> u \<in> set rv \<or> map_of (put_key k (length (ur_heap r)) m) k' = Some u \<or>
          map_of (put_key k (length (ur_heap r)) m) k' = None"
        using old by (auto split: if_splits)
      then show ?thesis
        using Some None r heap fresh rt by (simp add: set_user_def st setting_ok_def Let_def)
    next
      case (Some e)
      have e: "e < length (ur_heap ur)" "us_UUID (ur_heap ur ! e) = k" "(k, e) \<in> set (ur_users ur)" using map_ok_ref[OF wf Some] by auto
      have only: "u = e" if "(k, u) \<in> set (ur_users ur)" for u
        using eq_key_imp_eq_value[OF map_okD(1)[OF wf] e(3) that] by simp
      show ?thesis
      proof (cases "same_credentials (ur_heap r ! e) c")
        case True
        have "map_ok (ur_heap r) (put_key k e m)" using map_ok_put[OF m] e r(2) by (simp add: nth_append)
        moreover have "\<forall>k' u. (k', u) \<in> set (ur_users ur) \<longrightarrow> u \<in> set rv \<or> map_of (put_key k e m) k' = Some u \<or> map_of (put_key k e m) k' = None"
          using old only by auto
        ultimately show ?thesis
          using \<open>uuid_parse env (tc_UUID c) = Some k\<close> Some True r rt by (auto simp: set_user_def st setting_ok_def Let_def)
      next
        case False
        have "\<forall>k' u. (k', u) \<in> set (ur_users ur) \<longrightarrow> u \<in> set (rv @ [e]) \<or> map_of (put_key k (length (ur_heap r)) m) k' = Some u \<or>
            map_of (put_key k (length (ur_heap r)) m) k' = None"
          using old only by auto
        moreover have "e \<in> snd ` set (ur_users ur)" using e(3) by force
        ultimately show ?thesis
          using \<open>uuid_parse env (tc_UUID c) = Some k\<close> Some False r heap fresh rt
          by (simp add: set_user_def st setting_ok_def Let_def del: map_of_put_key)
      qed
    qed
  qed
qed

lemma set_users_fold_ok:
  "map_ok (ur_heap ur) (ur_users ur) \<Longrightarrow> setting_ok ur st \<Longrightarrow> setting_ok ur (fold (set_user env) cs st)"
  by (induction cs arbitrary: st) (simp_all add: set_user_ok)

lemma drop_user_simp:
  "drop_user newMap (k, u) (ur, revoked) = (if map_of newMap k = None then (retire u ur, revoked @ [u]) else (ur, revoked))"
  by (simp add: drop_user_def)

lemma drop_users_fold:
  "fold (drop_user newMap) ps (ur, rv) = (q, w) \<Longrightarrow>
     ur_users q = ur_users ur \<and> ur_heap q = ur_heap ur \<and>
     set (ur_retired q) = set (ur_retired ur) \<union> {u. \<exists>k. (k, u) \<in> set ps \<and> map_of newMap k = None} \<and>
     set w = set rv \<union> {u. \<exists>k. (k, u) \<in> set ps \<and> map_of newMap k = None}"
proof (induction ps arbitrary: ur rv)
  case (Cons p ps)
  obtain k u where p: "p = (k, u)" by (cases p)
  show ?case
  proof (cases "map_of newMap k")
    case None
    then have "fold (drop_user newMap) ps (retire u ur, rv @ [u]) = (q, w)" using Cons.prems by (simp add: p drop_user_simp)
    from Cons.IH[OF this] show ?thesis using None by (auto simp: p)
  next
    case (Some v)
    then have "fold (drop_user newMap) ps (ur, rv) = (q, w)" using Cons.prems by (simp add: p drop_user_simp)
    from Cons.IH[OF this] show ?thesis using Some by (auto simp: p)
  qed
qed auto

text \<open>What a replacement of the users does to the registry.\<close>

lemma SetUsers_effect:
  assumes wf: "registry_ok ur" and run: "SetUsers env cs ur = (revoked, ur')"
  obtains new where "ur_heap ur' = ur_heap ur @ new" "\<forall>u \<in> set new. idle_user u" "registry_ok ur'"
    "set (ur_retired ur') = set (ur_retired ur) \<union> set revoked"
    "\<forall>k u. (k, u) \<in> set (ur_users ur) \<longrightarrow> u \<in> set revoked \<or> (k, u) \<in> set (ur_users ur')"
    "ur_users ur' = fst (fold (set_user env) cs ([], ur, []))"
proof -
  have wm: "map_ok (ur_heap ur) (ur_users ur)" using wf by (simp add: registry_ok_def)
  obtain m r rv where f: "fold (set_user env) cs ([], ur, []) = (m, r, rv)" by (metis prod_cases3)
  have "setting_ok ur ([], ur, [])" by (auto simp: setting_ok_def map_ok_def)
  from set_users_fold_ok[OF wm this, of env cs] obtain new where
    r: "ur_users r = ur_users ur" "ur_heap r = ur_heap ur @ new" "\<forall>u \<in> set new. idle_user u"
    and m: "map_ok (ur_heap r) m" and rt: "set (ur_retired r) = set (ur_retired ur) \<union> set rv" "set rv \<subseteq> snd ` set (ur_users ur)"
    and old: "\<forall>k u. (k, u) \<in> set (ur_users ur) \<longrightarrow> u \<in> set rv \<or> map_of m k = Some u \<or> map_of m k = None"
    unfolding f setting_ok_def by auto
  let ?d = "{u. \<exists>k. (k, u) \<in> set (ur_users ur) \<and> map_of m k = None}"
  obtain q w where g: "fold (drop_user m) (ur_users ur) (r, rv) = (q, w)" by (metis surj_pair)
  have q: "ur_heap q = ur_heap r" "set (ur_retired q) = set (ur_retired r) \<union> ?d" "set w = set rv \<union> ?d"
    using drop_users_fold[OF g] by simp_all
  have ur': "revoked = w" "ur' = q\<lparr>ur_users := m\<rparr>" using run unfolding SetUsers_def f by (simp_all add: g)
  have heap: "ur_heap ur' = ur_heap ur @ new" using ur'(2) q(1) r(2) by simp
  have users: "ur_users ur' = m" using ur'(2) by simp
  have ret: "set (ur_retired ur') = set (ur_retired ur) \<union> set revoked" using ur' q(2,3) rt(1) by auto
  have kept: "\<forall>k u. (k, u) \<in> set (ur_users ur) \<longrightarrow> u \<in> set revoked \<or> (k, u) \<in> set (ur_users ur')"
    using old ur'(1) q(3) unfolding users by (fastforce dest: map_of_SomeD)
  have ok: "registry_ok ur'"
  proof -
    have "set revoked \<subseteq> snd ` set (ur_users ur)" using ur'(1) q(3) rt(2) by force
    then have "\<forall>u \<in> set (ur_retired ur'). u < length (ur_heap ur')"
      using wf unfolding ret heap registry_ok_def map_ok_def by fastforce
    moreover have "idle_user (ur_heap ur' ! u)"
      if u: "u < length (ur_heap ur')" "u \<notin> snd ` set (ur_users ur')" "u \<notin> set (ur_retired ur')" for u
    proof (cases "u < length (ur_heap ur)")
      case True
      have "u \<notin> snd ` set (ur_users ur)" using u(2,3) kept unfolding ret by force
      then show ?thesis using wf True u(3) unfolding heap ret registry_ok_def by (auto simp: nth_append)
    next
      case False
      then show ?thesis using r(3) u(1) unfolding heap by (simp add: nth_append)
    qed
    moreover have "map_ok (ur_heap ur') (ur_users ur')" using m unfolding users heap r(2) .
    ultimately show ?thesis by (simp add: registry_ok_def)
  qed
  show ?thesis using that[OF heap r(3) ok ret kept] users f by simp
qed


text \<open>Draining a user and the users a collection visits.\<close>

definition drained :: "User \<Rightarrow> User" where
  "drained u = u\<lparr>us_BytesUp := 0, us_BytesDown := 0\<rparr>"

lemma drained_simps [simp]:
  "us_UUID (drained u) = us_UUID u" "us_sessions (drained u) = us_sessions u" "drained (drained u) = drained u"
  "us_BytesUp (drained u) = 0" "us_BytesDown (drained u) = 0"
  by (simp_all add: drained_def)

lemma collect_user_simp:
  "collect_user b u (ds, ur) =
     (if us_BytesUp (ur_heap ur ! u) > 0 \<or> us_BytesDown (ur_heap ur ! u) > 0 then ds @ [user_delta (ur_heap ur ! u)] else ds,
      ur\<lparr>ur_heap := (ur_heap ur)[u := drained (ur_heap ur ! u)],
         ur_retired := if b \<and> us_sessions (ur_heap ur ! u) = 0 then removeAll u (ur_retired ur) else ur_retired ur\<rparr>)"
  by (simp add: collect_user_def Let_def drained_def)

lemma collect_fold:
  "fold (collect_user b) us (ds, ur) = (ds', ur') \<Longrightarrow> \<forall>u \<in> set us. u < length (ur_heap ur) \<Longrightarrow>
     ur_users ur' = ur_users ur \<and> length (ur_heap ur') = length (ur_heap ur) \<and>
     (\<forall>v < length (ur_heap ur). ur_heap ur' ! v = (if v \<in> set us then drained (ur_heap ur ! v) else ur_heap ur ! v)) \<and>
     set (ur_retired ur') = {v \<in> set (ur_retired ur). \<not> (b \<and> v \<in> set us \<and> us_sessions (ur_heap ur ! v) = 0)}"
proof (induction us arbitrary: ds ur)
  case (Cons u us)
  obtain ds1 ur1 where one: "collect_user b u (ds, ur) = (ds1, ur1)" by (metis surj_pair)
  have u: "u < length (ur_heap ur)" using Cons.prems(2) by simp
  have ur1: "ur_users ur1 = ur_users ur" "ur_heap ur1 = (ur_heap ur)[u := drained (ur_heap ur ! u)]"
    "ur_retired ur1 = (if b \<and> us_sessions (ur_heap ur ! u) = 0 then removeAll u (ur_retired ur) else ur_retired ur)"
    using one by (auto simp: collect_user_simp)
  have "fold (collect_user b) us (ds1, ur1) = (ds', ur')" using Cons.prems(1) one by simp
  note IH = Cons.IH[OF this]
  have nth: "ur_heap ur1 ! v = (if v = u then drained (ur_heap ur ! u) else ur_heap ur ! v)" for v using u ur1(2) by simp
  have "set (ur_retired ur') = {v \<in> set (ur_retired ur1). \<not> (b \<and> v \<in> set us \<and> us_sessions (ur_heap ur1 ! v) = 0)}"
    using IH Cons.prems(2) ur1(2) by simp
  then have "set (ur_retired ur') = {v \<in> set (ur_retired ur). \<not> (b \<and> v \<in> set (u # us) \<and> us_sessions (ur_heap ur ! v) = 0)}"
    unfolding ur1(3) nth by auto
  then show ?case using IH Cons.prems(2) ur1 nth by auto
qed auto

lemma CollectTrafficDeltas_effect:
  assumes wf: "registry_ok ur" and run: "CollectTrafficDeltas ur = (ds, ur')"
  shows "ur_users ur' = ur_users ur" "length (ur_heap ur') = length (ur_heap ur)"
    "v < length (ur_heap ur) \<Longrightarrow> ur_heap ur' ! v = drained (ur_heap ur ! v)"
    "set (ur_retired ur') = {v \<in> set (ur_retired ur). us_sessions (ur_heap ur ! v) \<noteq> 0}"
    "registry_ok ur'"
proof -
  obtain d1 r1 where one: "fold (collect_user False) (map snd (ur_users ur)) ([], ur) = (d1, r1)" by (metis surj_pair)
  have two: "fold (collect_user True) (ur_retired ur) (d1, r1) = (ds, ur')" using run one by (simp add: CollectTrafficDeltas_def)
  have m: "map_ok (ur_heap ur) (ur_users ur)" using wf by (simp add: registry_ok_def)
  have "\<forall>u \<in> set (map snd (ur_users ur)). u < length (ur_heap ur)" using map_okD(2)[OF m] by auto
  note e1 = collect_fold[OF one this]
  have "\<forall>u \<in> set (ur_retired ur). u < length (ur_heap r1)" using wf e1 by (simp add: registry_ok_def)
  note e2 = collect_fold[OF two this]
  show users: "ur_users ur' = ur_users ur" and len: "length (ur_heap ur') = length (ur_heap ur)" using e1 e2 by simp_all
  have idle: "drained u = u" if "idle_user u" for u using that by (simp add: idle_user_def drained_def)
  show heap: "ur_heap ur' ! v = drained (ur_heap ur ! v)" if "v < length (ur_heap ur)" for v
    using e1 e2 wf that idle[of "ur_heap ur ! v"] by (auto simp: registry_ok_def)
  have ret1: "set (ur_retired r1) = set (ur_retired ur)" using e1 by auto
  have ses: "us_sessions (ur_heap r1 ! v) = us_sessions (ur_heap ur ! v)" if "v \<in> set (ur_retired ur)" for v
    using e1 wf that by (auto simp: registry_ok_def)
  show ret: "set (ur_retired ur') = {v \<in> set (ur_retired ur). us_sessions (ur_heap ur ! v) \<noteq> 0}"
    using e2 ret1 ses by auto
  have "map_ok (ur_heap ur') (ur_users ur)"
    by (rule map_okI) (use map_okD[OF m] heap len in auto)
  moreover have "idle_user (ur_heap ur' ! u)" if "u < length (ur_heap ur)" "u \<notin> snd ` set (ur_users ur)" "u \<notin> set (ur_retired ur')" for u
  proof -
    have "us_sessions (ur_heap ur ! u) = 0" using wf that ret unfolding registry_ok_def idle_user_def by auto
    then show ?thesis using heap[OF that(1)] by (simp add: idle_user_def)
  qed
  ultimately show "registry_ok ur'" using wf unfolding registry_ok_def users len ret by auto
qed

section \<open>Traffic is conserved\<close>

text \<open>Traffic is counted for the identity a report names.\<close>

type_synonym identity = "int \<times> bytes \<times> bytes"

definition ident :: "User \<Rightarrow> identity" where "ident u = (us_TrafficID u, us_Email u, us_UUIDStr u)"
definition delta_ident :: "ClientTrafficDelta \<Rightarrow> identity" where "delta_ident d = (td_TrafficID d, td_Email d, td_UUID d)"

definition sum_for :: "('a \<Rightarrow> 'k) \<Rightarrow> ('a \<Rightarrow> int) \<Rightarrow> 'k \<Rightarrow> 'a list \<Rightarrow> int" where
  "sum_for who f k xs = sum_list (map (\<lambda>x. if who x = k then f x else 0) xs)"

lemma sum_for_simps [simp]:
  "sum_for who f k [] = 0" "sum_for who f k (x # xs) = (if who x = k then f x else 0) + sum_for who f k xs"
  "sum_for who f k (xs @ ys) = sum_for who f k xs + sum_for who f k ys"
  by (simp_all add: sum_for_def)

lemma sum_for_update:
  "i < length xs \<Longrightarrow> sum_for who f k (xs[i := x]) =
     sum_for who f k xs - (if who (xs ! i) = k then f (xs ! i) else 0) + (if who x = k then f x else 0)"
  by (induction xs arbitrary: i) (auto split: nat.splits)

lemma sum_for_nonneg: "(\<And>x. x \<in> set xs \<Longrightarrow> 0 \<le> f x) \<Longrightarrow> 0 \<le> sum_for who f k xs"
  by (auto simp: sum_for_def intro!: sum_list_nonneg)

lemma sum_for_member: "(\<And>y. y \<in> set xs \<Longrightarrow> 0 \<le> f y) \<Longrightarrow> x \<in> set xs \<Longrightarrow> f x \<le> sum_for who f (who x) xs"
proof (induction xs)
  case (Cons y ys)
  have "0 \<le> sum_for who f (who x) ys" using Cons.prems(1) by (intro sum_for_nonneg) simp
  moreover have "0 \<le> f y" "x \<in> set ys \<Longrightarrow> f x \<le> sum_for who f (who x) ys" using Cons.prems(1) Cons.IH by simp_all
  ultimately show ?case using Cons.prems(2) by auto
qed simp

lemma sum_for_le_total: "(\<And>x. x \<in> set xs \<Longrightarrow> 0 \<le> f x) \<Longrightarrow> sum_for who f k xs \<le> sum_list (map f xs)"
  unfolding sum_for_def by (rule sum_list_mono) simp

lemma sum_for_zero: "(\<And>x. x \<in> set xs \<Longrightarrow> f x = 0) \<Longrightarrow> sum_for who f k xs = 0"
  by (induction xs) auto

definition traffic_of :: "User \<Rightarrow> bytes \<times> identity \<times> int \<times> int" where
  "traffic_of u = (us_UUID u, ident u, us_BytesUp u, us_BytesDown u)"

text \<open>The account of a counter: \<open>counted\<close> is what the handlers added, \<open>reported\<close> what collections returned. While less
  than \<open>2^63\<close> bytes were counted nothing wraps, and what is not reported is in the counters of the heap.\<close>

definition counted_for :: "(int \<times> int \<Rightarrow> int) \<Rightarrow> identity \<Rightarrow> (identity \<times> int \<times> int) list \<Rightarrow> int" where
  "counted_for sel k cs = sum_for fst (\<lambda>e. sel (snd e)) k cs"

definition counted_total :: "(int \<times> int \<Rightarrow> int) \<Rightarrow> (identity \<times> int \<times> int) list \<Rightarrow> int" where
  "counted_total sel cs = sum_list (map (\<lambda>e. sel (snd e)) cs)"

definition account ::
  "(User \<Rightarrow> int) \<Rightarrow> (ClientTrafficDelta \<Rightarrow> int) \<Rightarrow> (int \<times> int \<Rightarrow> int) \<Rightarrow> User list \<Rightarrow> ClientTrafficDelta list \<Rightarrow> (identity \<times> int \<times> int) list \<Rightarrow> bool" where
  "account f g sel H reported counted \<longleftrightarrow>
     (\<forall>e \<in> set counted. 0 \<le> sel (snd e)) \<and>
     (counted_total sel counted < 2 ^ 63 \<longrightarrow>
       (\<forall>k. sum_for delta_ident g k reported + sum_for ident f k H = counted_for sel k counted) \<and>
       (\<forall>x \<in> set H. 0 \<le> f x) \<and> (\<forall>d \<in> set reported. 0 \<le> g d))"

text \<open>A counter of the users (upload or download) and its field in the reports.\<close>

locale traffic_counter =
  fixes count :: "User \<Rightarrow> int" and field :: "ClientTrafficDelta \<Rightarrow> int" and part :: "int \<Rightarrow> int \<Rightarrow> int"
  assumes idle: "idle_user u \<Longrightarrow> count u = 0"
    and in_delta: "field (user_delta u) = count u"
    and drain: "count (drained u) = 0"
    and unsent: "us_BytesUp u \<le> 0 \<Longrightarrow> us_BytesDown u \<le> 0 \<Longrightarrow> count u \<le> 0"
    and seen: "traffic_of u = traffic_of v \<Longrightarrow> count u = count v"
    and added: "count (u\<lparr>us_BytesUp := add64 (us_BytesUp u) a, us_BytesDown := add64 (us_BytesDown u) b\<rparr>) = add64 (count u) (part a b)"
    and inbound: "field (d\<lparr>td_InboundID := i\<rparr>) = field d"
begin

lemma collect_user_conserves:
  assumes "collect_user b u (ds, ur) = (ds', ur')" "u < length (ur_heap ur)" "\<forall>x \<in> set (ur_heap ur). 0 \<le> count x" "\<forall>d \<in> set ds. 0 \<le> field d"
  shows "sum_for (h \<circ> delta_ident) field k ds' + sum_for (h \<circ> ident) count k (ur_heap ur') = sum_for (h \<circ> delta_ident) field k ds + sum_for (h \<circ> ident) count k (ur_heap ur)"
    and "\<forall>x \<in> set (ur_heap ur'). 0 \<le> count x" and "\<forall>d \<in> set ds'. 0 \<le> field d" and "length (ur_heap ur') = length (ur_heap ur)"
proof -
  let ?x = "ur_heap ur ! u"
  have ds': "ds' = (if us_BytesUp ?x > 0 \<or> us_BytesDown ?x > 0 then ds @ [user_delta ?x] else ds)"
    and h: "ur_heap ur' = (ur_heap ur)[u := drained ?x]" using assms(1) by (auto simp: collect_user_simp)
  have x: "0 \<le> count ?x" using assms(2,3) by simp
  have id: "delta_ident (user_delta ?x) = ident ?x" "ident (drained ?x) = ident ?x"
    by (simp_all add: delta_ident_def user_delta_def ident_def drained_def)
  have "count ?x = 0" if "\<not> (us_BytesUp ?x > 0 \<or> us_BytesDown ?x > 0)" using unsent[of ?x] that x by simp
  then show "sum_for (h \<circ> delta_ident) field k ds' + sum_for (h \<circ> ident) count k (ur_heap ur') = sum_for (h \<circ> delta_ident) field k ds + sum_for (h \<circ> ident) count k (ur_heap ur)"
    using assms(2) by (simp add: ds' h sum_for_update in_delta drain id)
  show "\<forall>x \<in> set (ur_heap ur'). 0 \<le> count x"
    using assms(3) unfolding h by (auto dest!: subsetD[OF set_update_subset_insert] simp: drain)
  show "\<forall>d \<in> set ds'. 0 \<le> field d" using assms(4) x by (auto simp: ds' in_delta)
  show "length (ur_heap ur') = length (ur_heap ur)" by (simp add: h)
qed

lemma collect_fold_conserves:
  "fold (collect_user b) us (ds, ur) = (ds', ur') \<Longrightarrow> \<forall>u \<in> set us. u < length (ur_heap ur) \<Longrightarrow>
   \<forall>x \<in> set (ur_heap ur). 0 \<le> count x \<Longrightarrow> \<forall>d \<in> set ds. 0 \<le> field d \<Longrightarrow>
   sum_for (h \<circ> delta_ident) field k ds' + sum_for (h \<circ> ident) count k (ur_heap ur') = sum_for (h \<circ> delta_ident) field k ds + sum_for (h \<circ> ident) count k (ur_heap ur) \<and>
   (\<forall>x \<in> set (ur_heap ur'). 0 \<le> count x) \<and> (\<forall>d \<in> set ds'. 0 \<le> field d)"
proof (induction us arbitrary: ds ur)
  case (Cons u us)
  obtain ds1 ur1 where one: "collect_user b u (ds, ur) = (ds1, ur1)" by (metis surj_pair)
  have u: "u < length (ur_heap ur)" using Cons.prems(2) by simp
  note c = collect_user_conserves[OF one u Cons.prems(3,4)]
  have "fold (collect_user b) us (ds1, ur1) = (ds', ur')" using Cons.prems(1) one by simp
  from Cons.IH[OF this _ c(2,3)] show ?case using Cons.prems(2) c(1)[where h = h and k = k] c(4) by (simp add: comp_def)
qed auto

text \<open>A collection reports all there is, also when identities are grouped by a function \<open>h\<close>.\<close>

lemma CollectTrafficDeltas_conserves:
  assumes wf: "registry_ok ur" and run: "CollectTrafficDeltas ur = (ds, ur')" and nonneg: "\<forall>x \<in> set (ur_heap ur). 0 \<le> count x"
  shows "sum_for (h \<circ> delta_ident) field k ds = sum_for (h \<circ> ident) count k (ur_heap ur)" and "\<forall>x \<in> set (ur_heap ur'). count x = 0"
    and "\<forall>d \<in> set ds. 0 \<le> field d"
proof -
  obtain d1 r1 where one: "fold (collect_user False) (map snd (ur_users ur)) ([], ur) = (d1, r1)" by (metis surj_pair)
  have two: "fold (collect_user True) (ur_retired ur) (d1, r1) = (ds, ur')" using run one by (simp add: CollectTrafficDeltas_def)
  have r1: "\<forall>u \<in> set (map snd (ur_users ur)). u < length (ur_heap ur)" using wf by (auto simp: registry_ok_def map_ok_def)
  note c1 = collect_fold_conserves[OF one r1 nonneg, where h = h and k = k]
  have "\<forall>u \<in> set (ur_retired ur). u < length (ur_heap r1)" using collect_fold[OF one r1] wf by (simp add: registry_ok_def)
  note c2 = collect_fold_conserves[OF two this, where h = h and k = k]
  show zero: "\<forall>x \<in> set (ur_heap ur'). count x = 0"
    using CollectTrafficDeltas_effect(2,3)[OF wf run] drain by (auto simp: in_set_conv_nth)
  then have "sum_for (h \<circ> ident) count k (ur_heap ur') = 0" by (intro sum_for_zero) simp
  then show "sum_for (h \<circ> delta_ident) field k ds = sum_for (h \<circ> ident) count k (ur_heap ur)" and "\<forall>d \<in> set ds. 0 \<le> field d"
    using c1 c2 by simp_all
qed

lemma add_traffic_counts:
  assumes "u < length (ur_heap ur)" "0 \<le> count (ur_heap ur ! u)" "0 \<le> part a b" "count (ur_heap ur ! u) + part a b < 2 ^ 63"
  shows "sum_for ident count k (ur_heap (add_traffic u a b ur)) =
      sum_for ident count k (ur_heap ur) + (if ident (ur_heap ur ! u) = k then part a b else 0)"
    and "(\<forall>x \<in> set (ur_heap ur). 0 \<le> count x) \<Longrightarrow> \<forall>x \<in> set (ur_heap (add_traffic u a b ur)). 0 \<le> count x"
proof -
  let ?x = "ur_heap ur ! u"
  let ?y = "?x\<lparr>us_BytesUp := add64 (us_BytesUp ?x) a, us_BytesDown := add64 (us_BytesDown ?x) b\<rparr>"
  have y: "count ?y = count ?x + part a b" unfolding added using assms(2-4) by (simp add: add64_def wrap64_def)
  have h: "ur_heap (add_traffic u a b ur) = (ur_heap ur)[u := ?y]" by (simp add: add_traffic_def)
  have "ident ?y = ident ?x" by (simp add: ident_def)
  then show "sum_for ident count k (ur_heap (add_traffic u a b ur)) =
      sum_for ident count k (ur_heap ur) + (if ident ?x = k then part a b else 0)"
    unfolding h sum_for_update[OF assms(1)] y by simp
  show "(\<forall>x \<in> set (ur_heap ur). 0 \<le> count x) \<Longrightarrow> \<forall>x \<in> set (ur_heap (add_traffic u a b ur)). 0 \<le> count x"
    using assms(2,3) y unfolding h by (auto dest!: subsetD[OF set_update_subset_insert])
qed

lemma sum_for_seen:
  assumes "map traffic_of H' = map traffic_of H"
  shows "sum_for (h \<circ> ident) count k H' = sum_for (h \<circ> ident) count k H" "(\<forall>x \<in> set H'. 0 \<le> count x) \<longleftrightarrow> (\<forall>x \<in> set H. 0 \<le> count x)"
proof -
  have "length H' = length H" using arg_cong[OF assms, of length] by simp
  moreover have "ident (H' ! i) = ident (H ! i) \<and> count (H' ! i) = count (H ! i)" if "i < length H" for i
  proof -
    have "traffic_of (H' ! i) = traffic_of (H ! i)" using arg_cong[OF assms, of "\<lambda>xs. xs ! i"] that calculation by simp
    then show ?thesis using seen[of "H' ! i" "H ! i"] by (simp add: traffic_of_def)
  qed
  ultimately have all: "list_all2 (\<lambda>x y. ident x = ident y \<and> count x = count y) H' H"
    by (simp add: list_all2_conv_all_nth)
  then show "sum_for (h \<circ> ident) count k H' = sum_for (h \<circ> ident) count k H" by (induction rule: list_all2_induct) auto
  show "(\<forall>x \<in> set H'. 0 \<le> count x) \<longleftrightarrow> (\<forall>x \<in> set H. 0 \<le> count x)" using all by (induction rule: list_all2_induct) auto
qed

lemma account_seen:
  assumes "account count field sel H rs cs" "map traffic_of H' = map traffic_of H"
  shows "account count field sel H' rs cs"
  using assms(1) sum_for_seen(1)[OF assms(2), where h = id, unfolded id_comp] sum_for_seen(2)[OF assms(2)] by (simp add: account_def)

lemma account_created:
  assumes "account count field sel H rs cs" "\<forall>x \<in> set new. idle_user x"
  shows "account count field sel (H @ new) rs cs"
proof -
  have z: "\<forall>x \<in> set new. count x = 0" using assms(2) idle by auto
  then have "sum_for ident count k new = 0" for k by (intro sum_for_zero) simp
  then show ?thesis using assms(1) z by (auto simp: account_def)
qed

lemma account_collect:
  assumes acc: "account count field sel (ur_heap ur) rs cs" and wf: "registry_ok ur" and run: "CollectTrafficDeltas ur = (ds, ur')"
  shows "account count field sel (ur_heap ur') (rs @ map (\<lambda>d. d\<lparr>td_InboundID := i\<rparr>) ds) cs"
    and "counted_total sel cs < 2 ^ 63 \<Longrightarrow> sum_for delta_ident field k (rs @ map (\<lambda>d. d\<lparr>td_InboundID := i\<rparr>) ds) = counted_for sel k cs"
proof -
  have ds: "sum_for delta_ident field k (map (\<lambda>d. d\<lparr>td_InboundID := i\<rparr>) ds) = sum_for delta_ident field k ds" for k
    by (induction ds) (auto simp: inbound delta_ident_def)
  have all: "(\<forall>k. sum_for delta_ident field k (rs @ map (\<lambda>d. d\<lparr>td_InboundID := i\<rparr>) ds) = counted_for sel k cs) \<and>
      (\<forall>x \<in> set (ur_heap ur'). count x = 0) \<and> (\<forall>d \<in> set (rs @ map (\<lambda>d. d\<lparr>td_InboundID := i\<rparr>) ds). 0 \<le> field d)"
    if "counted_total sel cs < 2 ^ 63"
  proof -
    have "\<forall>x \<in> set (ur_heap ur). 0 \<le> count x" using acc that by (simp add: account_def)
    note C = CollectTrafficDeltas_conserves(1)[OF wf run this, where h = id, unfolded id_comp] CollectTrafficDeltas_conserves(2,3)[OF wf run this]
    show ?thesis using acc that C(2,3) by (auto simp: account_def ds C(1) inbound)
  qed
  then show "counted_total sel cs < 2 ^ 63 \<Longrightarrow> sum_for delta_ident field k (rs @ map (\<lambda>d. d\<lparr>td_InboundID := i\<rparr>) ds) = counted_for sel k cs"
    by blast
  have "sum_for ident count k (ur_heap ur') = 0" if "counted_total sel cs < 2 ^ 63" for k using all[OF that] by (intro sum_for_zero) simp
  then show "account count field sel (ur_heap ur') (rs @ map (\<lambda>d. d\<lparr>td_InboundID := i\<rparr>) ds) cs"
    using acc all unfolding account_def by simp
qed

lemma account_count:
  assumes acc: "account count field sel (ur_heap ur) rs cs" and u: "u < length (ur_heap ur)" and ab: "0 \<le> part a b" "sel (a, b) = part a b"
  shows "account count field sel (ur_heap (add_traffic u a b ur)) rs (cs @ [(ident (ur_heap ur ! u), a, b)])"
proof -
  let ?k = "ident (ur_heap ur ! u)" and ?cs = "cs @ [(ident (ur_heap ur ! u), a, b)]"
  have pos: "\<forall>e \<in> set cs. 0 \<le> sel (snd e)" using acc by (simp add: account_def)
  have tot: "counted_total sel ?cs = counted_total sel cs + part a b" by (simp add: counted_total_def ab)
  have main: "(\<forall>k. sum_for delta_ident field k rs + sum_for ident count k (ur_heap (add_traffic u a b ur)) = counted_for sel k ?cs) \<and>
      (\<forall>x \<in> set (ur_heap (add_traffic u a b ur)). 0 \<le> count x) \<and> (\<forall>d \<in> set rs. 0 \<le> field d)"
    if less: "counted_total sel ?cs < 2 ^ 63"
  proof -
    have A: "\<And>k. sum_for delta_ident field k rs + sum_for ident count k (ur_heap ur) = counted_for sel k cs"
      "\<forall>x \<in> set (ur_heap ur). 0 \<le> count x" "\<forall>d \<in> set rs. 0 \<le> field d"
      using acc less tot ab(1) by (auto simp: account_def)
    have "count (ur_heap ur ! u) \<le> sum_for ident count ?k (ur_heap ur)" using A(2) u by (intro sum_for_member) auto
    moreover have "0 \<le> sum_for delta_ident field ?k rs" using A(3) by (intro sum_for_nonneg) simp
    moreover have "counted_for sel ?k cs \<le> counted_total sel cs"
      unfolding counted_for_def counted_total_def using pos by (intro sum_for_le_total) simp
    ultimately have "count (ur_heap ur ! u) + part a b < 2 ^ 63" using A(1)[of ?k] less tot by linarith
    note add = add_traffic_counts[OF u _ ab(1) this]
    have x: "0 \<le> count (ur_heap ur ! u)" using A(2) u by simp
    show ?thesis using A add(1)[OF x] add(2)[OF x A(2)] by (auto simp: counted_for_def ab)
  qed
  show ?thesis unfolding account_def using main pos ab by auto
qed

end

interpretation upload: traffic_counter us_BytesUp td_Up "\<lambda>up down. up"
  by unfold_locales (simp_all add: idle_user_def user_delta_def traffic_of_def)

interpretation download: traffic_counter us_BytesDown td_Down "\<lambda>up down. down"
  by unfold_locales (simp_all add: idle_user_def user_delta_def traffic_of_def)


section \<open>Well-formed servers\<close>

text \<open>The registered connections are those of the handlers that have authenticated, and the sessions of a user are its
  registered connections.\<close>

definition active_ok :: "tuic_server \<Rightarrow> bool" where
  "active_ok s \<longleftrightarrow>
     distinct (map fst (sv_active s)) \<and>
     (\<forall>k c u. ((k, c), u) \<in> set (sv_active s) \<longrightarrow>
        u < length (ur_heap (sv_users s)) \<and> us_UUID (user_of s u) = k \<and> map_of (sv_auth s) c = Some (1, Some u)) \<and>
     (\<forall>c st u. map_of (sv_auth s) c = Some (st, Some u) \<longrightarrow> st = 1 \<and> ((us_UUID (user_of s u), c), u) \<in> set (sv_active s))"

definition sessions_of :: "tuic_server \<Rightarrow> nat \<Rightarrow> int" where
  "sessions_of s u = int (length (filter (\<lambda>p. snd p = u) (sv_active s)))"

definition server_ok :: "tuic_server \<Rightarrow> bool" where
  "server_ok s \<longleftrightarrow> registry_ok (sv_users s) \<and> active_ok s \<and>
     (\<forall>u < length (ur_heap (sv_users s)). us_sessions (user_of s u) = sessions_of s u)"

lemma active_okD:
  assumes "active_ok s"
  shows "distinct (map fst (sv_active s))"
    and "((k, c), u) \<in> set (sv_active s) \<Longrightarrow> u < length (ur_heap (sv_users s))"
    and "((k, c), u) \<in> set (sv_active s) \<Longrightarrow> us_UUID (user_of s u) = k"
    and "((k, c), u) \<in> set (sv_active s) \<Longrightarrow> map_of (sv_auth s) c = Some (1, Some u)"
    and "map_of (sv_auth s) c = Some (st, Some u) \<Longrightarrow> st = 1"
    and "map_of (sv_auth s) c = Some (st, Some u) \<Longrightarrow> ((us_UUID (user_of s u), c), u) \<in> set (sv_active s)"
  using assms by (auto simp: active_ok_def)

lemma active_okI:
  assumes "distinct (map fst (sv_active s))"
    and "\<And>k c u. ((k, c), u) \<in> set (sv_active s) \<Longrightarrow> u < length (ur_heap (sv_users s))"
    and "\<And>k c u. ((k, c), u) \<in> set (sv_active s) \<Longrightarrow> us_UUID (user_of s u) = k"
    and "\<And>k c u. ((k, c), u) \<in> set (sv_active s) \<Longrightarrow> map_of (sv_auth s) c = Some (1, Some u)"
    and "\<And>c st u. map_of (sv_auth s) c = Some (st, Some u) \<Longrightarrow> st = 1"
    and "\<And>c st u. map_of (sv_auth s) c = Some (st, Some u) \<Longrightarrow> ((us_UUID (user_of s u), c), u) \<in> set (sv_active s)"
  shows "active_ok s"
  unfolding active_ok_def using assms by blast

text \<open>A user with a connection is known to the registry, so its traffic will be collected.\<close>

lemma session_known:
  assumes "server_ok s" "map_of (sv_auth s) c = Some (st, Some u)"
  shows "u < length (ur_heap (sv_users s))" "u \<in> snd ` set (ur_users (sv_users s)) \<or> u \<in> set (ur_retired (sv_users s))"
proof -
  have a: "active_ok s" using assms(1) by (simp add: server_ok_def)
  note m = active_okD(6)[OF a assms(2)]
  show u: "u < length (ur_heap (sv_users s))" using active_okD(2)[OF a m] .
  have "filter (\<lambda>p. snd p = u) (sv_active s) \<noteq> []" using m by (force simp: filter_empty_conv)
  then have "us_sessions (user_of s u) \<noteq> 0" using assms(1) u by (simp add: server_ok_def sessions_of_def)
  then show "u \<in> snd ` set (ur_users (sv_users s)) \<or> u \<in> set (ur_retired (sv_users s))"
    using assms(1) u by (auto simp: server_ok_def registry_ok_def user_of_def idle_user_def)
qed

text \<open>Changes of the registry that keep identifiers, sessions and the maps.\<close>

lemma server_ok_registry:
  assumes ok: "server_ok s" and reg: "registry_ok ur" and len: "length (ur_heap (sv_users s)) \<le> length (ur_heap ur)"
    and same: "\<And>u. u < length (ur_heap (sv_users s)) \<Longrightarrow> us_UUID (ur_heap ur ! u) = us_UUID (user_of s u) \<and> us_sessions (ur_heap ur ! u) = us_sessions (user_of s u)"
    and new: "\<And>u. length (ur_heap (sv_users s)) \<le> u \<Longrightarrow> u < length (ur_heap ur) \<Longrightarrow> us_sessions (ur_heap ur ! u) = 0"
  shows "server_ok (s\<lparr>sv_users := ur\<rparr>)"
proof -
  have a: "active_ok s" using ok by (simp add: server_ok_def)
  note D = active_okD[OF a]
  have auth: "u < length (ur_heap (sv_users s))" if "map_of (sv_auth s) c = Some (st, Some u)" for c st u
    using D(2)[OF D(6)[OF that]] .
  have "active_ok (s\<lparr>sv_users := ur\<rparr>)"
  proof (rule active_okI)
    fix k c u assume m: "((k, c), u) \<in> set (sv_active (s\<lparr>sv_users := ur\<rparr>))"
    then show "u < length (ur_heap (sv_users (s\<lparr>sv_users := ur\<rparr>)))" using D(2)[of k c u] len by simp
    show "us_UUID (user_of (s\<lparr>sv_users := ur\<rparr>) u) = k" using m D(2,3)[of k c u] same[of u] by (simp add: user_of_def)
    show "map_of (sv_auth (s\<lparr>sv_users := ur\<rparr>)) c = Some (1, Some u)" using m D(4) by simp
  next
    fix c st u assume m: "map_of (sv_auth (s\<lparr>sv_users := ur\<rparr>)) c = Some (st, Some u)"
    then show "st = 1" using D(5) by simp
    show "((us_UUID (user_of (s\<lparr>sv_users := ur\<rparr>) u), c), u) \<in> set (sv_active (s\<lparr>sv_users := ur\<rparr>))"
      using m D(6)[of c st u] same[of u] auth[of c st u] by (simp add: user_of_def)
  qed (simp add: D(1))
  moreover have "us_sessions (ur_heap ur ! u) = sessions_of s u" if "u < length (ur_heap ur)" for u
  proof (cases "u < length (ur_heap (sv_users s))")
    case True
    then show ?thesis using same ok by (simp add: server_ok_def)
  next
    case False
    then have "\<not> (\<exists>p \<in> set (sv_active s). snd p = u)" using D(2) by fastforce
    then show ?thesis using new[of u] False that by (auto simp: sessions_of_def filter_empty_conv)
  qed
  ultimately show ?thesis using reg by (simp add: server_ok_def user_of_def sessions_of_def)
qed

text \<open>Fields that the invariant does not read.\<close>

lemma server_ok_other [simp]:
  "server_ok (s\<lparr>sv_closed := x\<rparr>) = server_ok s" "server_ok (s\<lparr>sv_lastOnline := y\<rparr>) = server_ok s"
  "server_ok (s\<lparr>sv_running := b\<rparr>) = server_ok s" "server_ok (s\<lparr>sv_stopped := b\<rparr>) = server_ok s"
  by (simp_all add: server_ok_def active_ok_def user_of_def sessions_of_def)

lemma markActive_ok [simp]: "server_ok (markActive now e s) = server_ok s"
  by (simp add: markActive_def)

lemma count_traffic_ok:
  assumes ok: "server_ok s" and u: "map_of (sv_auth s) c = Some (st, Some u)"
  shows "server_ok (count_traffic u up down s)"
  unfolding count_traffic_def
proof (rule server_ok_registry[OF ok])
  have reg: "registry_ok (sv_users s)" using ok by (simp add: server_ok_def)
  note k = session_known[OF ok u]
  have "map_ok (ur_heap (add_traffic u up down (sv_users s))) (ur_users (sv_users s))"
    by (rule map_okI) (use reg k(1) map_okD in \<open>auto simp: registry_ok_def add_traffic_def nth_list_update dest: map_okD\<close>)
  then show "registry_ok (add_traffic u up down (sv_users s))"
    using reg k unfolding registry_ok_def by (auto simp: add_traffic_def nth_list_update)
qed (use session_known(1)[OF ok u] in \<open>auto simp: add_traffic_def nth_list_update user_of_def\<close>)

lemma update_users_ok:
  assumes ok: "server_ok s" and run: "update_users env cs s = (revoked, s')"
  shows "server_ok s'"
    and "\<forall>u \<in> snd ` set (ur_users (sv_users s)). u \<in> set revoked \<or> u \<in> snd ` set (ur_users (sv_users s'))"
    and "sv_active s' = sv_active s" and "sv_closed s' = sv_closed s"
    and "\<exists>new. ur_heap (sv_users s') = ur_heap (sv_users s) @ new \<and> (\<forall>x \<in> set new. idle_user x)"
proof -
  have reg: "registry_ok (sv_users s)" using ok by (simp add: server_ok_def)
  have "server_ok s' \<and> (\<forall>u \<in> snd ` set (ur_users (sv_users s)). u \<in> set revoked \<or> u \<in> snd ` set (ur_users (sv_users s'))) \<and>
    sv_active s' = sv_active s \<and> sv_closed s' = sv_closed s \<and>
    (\<exists>new. ur_heap (sv_users s') = ur_heap (sv_users s) @ new \<and> (\<forall>x \<in> set new. idle_user x))"
  proof (cases "ValidateClients env cs")
    case (Inl e)
    then show ?thesis using run ok by (force simp: update_users_def)
  next
    case (Inr x)
    obtain ur where set: "SetUsers env cs (sv_users s) = (revoked, ur)" and s': "s' = s\<lparr>sv_users := ur\<rparr>"
      using run Inr by (auto simp: update_users_def split: prod.splits)
    obtain new where e: "ur_heap ur = ur_heap (sv_users s) @ new" "\<forall>u \<in> set new. idle_user u" "registry_ok ur"
      "\<forall>k u. (k, u) \<in> set (ur_users (sv_users s)) \<longrightarrow> u \<in> set revoked \<or> (k, u) \<in> set (ur_users ur)"
      by (rule SetUsers_effect[OF reg set]) 
    have "server_ok s'" unfolding s'
    proof (rule server_ok_registry[OF ok e(3)])
      fix u assume "length (ur_heap (sv_users s)) \<le> u" "u < length (ur_heap ur)"
      then have "ur_heap ur ! u \<in> set new" unfolding e(1) by (simp add: nth_append)
      then show "us_sessions (ur_heap ur ! u) = 0" using e(2) by (auto simp: idle_user_def)
    qed (auto simp: e(1) nth_append user_of_def)
    then show ?thesis using e s' by force
  qed
  then show "server_ok s'" "\<forall>u \<in> snd ` set (ur_users (sv_users s)). u \<in> set revoked \<or> u \<in> snd ` set (ur_users (sv_users s'))"
    "sv_active s' = sv_active s" "sv_closed s' = sv_closed s"
    "\<exists>new. ur_heap (sv_users s') = ur_heap (sv_users s) @ new \<and> (\<forall>x \<in> set new. idle_user x)"
    by blast+
qed

lemma CollectClientTraffic_ok:
  assumes ok: "server_ok s" and run: "CollectClientTraffic s = (ds, s')"
  shows "server_ok s'" and "sv_active s' = sv_active s" and "sv_closed s' = sv_closed s"
    and "ur_users (sv_users s') = ur_users (sv_users s)" and "sv_auth s' = sv_auth s"
proof -
  have reg: "registry_ok (sv_users s)" using ok by (simp add: server_ok_def)
  obtain d ur where c: "CollectTrafficDeltas (sv_users s) = (d, ur)" by (metis surj_pair)
  have s': "s' = s\<lparr>sv_users := ur\<rparr>" using run c by (simp add: CollectClientTraffic_def)
  note e = CollectTrafficDeltas_effect[OF reg c]
  show "server_ok s'" unfolding s'
    by (rule server_ok_registry[OF ok e(5)]) (use e(2,3) in \<open>auto simp: user_of_def\<close>)
  show "sv_active s' = sv_active s" "sv_closed s' = sv_closed s" "ur_users (sv_users s') = ur_users (sv_users s)" "sv_auth s' = sv_auth s"
    using s' e(1) by simp_all
qed


text \<open>A new registration.\<close>

lemma add_sessions_simps [simp]:
  "ur_users (add_sessions u n ur) = ur_users ur" "ur_retired (add_sessions u n ur) = ur_retired ur"
  "length (ur_heap (add_sessions u n ur)) = length (ur_heap ur)"
  by (simp_all add: add_sessions_def)

lemma add_sessions_nth:
  "u < length (ur_heap ur) \<Longrightarrow> ur_heap (add_sessions u n ur) ! v =
     (if v = u then (ur_heap ur ! u)\<lparr>us_sessions := us_sessions (ur_heap ur ! u) + n\<rparr> else ur_heap ur ! v)"
  by (auto simp: add_sessions_def)

lemma add_sessions_registry:
  assumes "registry_ok ur" "u < length (ur_heap ur)" "u \<in> snd ` set (ur_users ur) \<or> u \<in> set (ur_retired ur)"
  shows "registry_ok (add_sessions u n ur)"
proof -
  have m: "map_ok (ur_heap ur) (ur_users ur)" using assms(1) by (simp add: registry_ok_def)
  have "map_ok (ur_heap (add_sessions u n ur)) (ur_users ur)"
    by (rule map_okI) (use map_okD[OF m] assms(2) in \<open>auto simp: add_sessions_nth\<close>)
  then show ?thesis using assms by (auto simp: registry_ok_def add_sessions_nth)
qed

lemma registerConn_ok:
  assumes ok: "server_ok s" and c: "map_of (sv_auth s) conn = Some (0, au)" and u: "(k, u) \<in> set (ur_users (sv_users s))"
  shows "server_ok (registerConn u conn (s\<lparr>sv_auth := put_key conn (1, Some u) (sv_auth s)\<rparr>))"
proof -
  have reg: "registry_ok (sv_users s)" and a: "active_ok s" using ok by (simp_all add: server_ok_def)
  note D = active_okD[OF a]
  define s' where "s' = registerConn u conn (s\<lparr>sv_auth := put_key conn (1, Some u) (sv_auth s)\<rparr>)"
  have len: "u < length (ur_heap (sv_users s))" using reg u by (auto simp: registry_ok_def map_ok_def)
  have none: "((k', conn), v) \<notin> set (sv_active s)" for k' v using D(4)[of k' conn v] c by auto
  then have del: "del_key (us_UUID (user_of s u), conn) (sv_active s) = sv_active s" by (auto simp: del_key_def filter_id_conv)
  have act: "sv_active s' = ((us_UUID (user_of s u), conn), u) # sv_active s"
    using del by (simp add: s'_def registerConn_def put_key_def user_of_def)
  have auth: "map_of (sv_auth s') c' = (if c' = conn then Some (1, Some u) else map_of (sv_auth s) c')" for c'
    by (simp add: s'_def registerConn_def)
  have usr: "sv_users s' = add_sessions u 1 (sv_users s)" by (simp add: s'_def registerConn_def)
  have uuid: "us_UUID (user_of s' v) = us_UUID (user_of s v)" for v using len by (simp add: user_of_def usr add_sessions_nth)
  have "active_ok s'"
  proof (rule active_okI)
    have "(us_UUID (user_of s u), conn) \<notin> fst ` set (sv_active s)" using none by force
    then show "distinct (map fst (sv_active s'))" using D(1) by (simp add: act)
  next
    fix k' c' v assume m: "((k', c'), v) \<in> set (sv_active s')"
    then have "(k' = us_UUID (user_of s u) \<and> c' = conn \<and> v = u) \<or> (((k', c'), v) \<in> set (sv_active s) \<and> c' \<noteq> conn)"
      using none by (auto simp: act)
    then show "v < length (ur_heap (sv_users s'))" "us_UUID (user_of s' v) = k'" "map_of (sv_auth s') c' = Some (1, Some v)"
      using len D(2,3,4)[of k' c' v] by (auto simp: usr uuid auth)
  next
    fix c' st v assume m: "map_of (sv_auth s') c' = Some (st, Some v)"
    then show "st = 1" using D(5)[of c' st v] by (auto simp: auth split: if_splits)
    show "((us_UUID (user_of s' v), c'), v) \<in> set (sv_active s')" using m D(6)[of c' st v] by (auto simp: auth act uuid split: if_splits)
  qed
  moreover have "us_sessions (user_of s' v) = sessions_of s' v" if "v < length (ur_heap (sv_users s))" for v
    using ok that len by (auto simp: server_ok_def user_of_def usr add_sessions_nth sessions_of_def act)
  moreover have "registry_ok (add_sessions u 1 (sv_users s))" using add_sessions_registry[OF reg len] u by force
  ultimately have "server_ok s'" by (simp add: server_ok_def usr)
  then show ?thesis by (simp add: s'_def)
qed

lemma auth_register_ok:
  assumes ok: "server_ok s" and u: "(k, u) \<in> set (ur_users (sv_users s))"
  shows "server_ok (snd (auth_register now conn u s))"
proof (cases "\<exists>au. map_of (sv_auth s) conn = Some (0, au)")
  case True
  then obtain au where "map_of (sv_auth s) conn = Some (0, au)" by blast
  then show ?thesis using registerConn_ok[OF ok _ u] by (simp add: auth_register_def)
next
  case False
  then have "snd (auth_register now conn u s) = s" by (auto simp: auth_register_def split: option.splits)
  then show ?thesis using ok by simp
qed

text \<open>\<open>authenticate\<close> registers at most the user of the identifier, and only for a token made with its password.\<close>

lemma authenticate_cases:
  assumes run: "authenticate register cso rawUUID token ur s = (res, s')"
  obtains e where "res = Inl e" "s' = s"
  | cs u where "cso = Some cs" "tls_HandshakeComplete cs" "map_of (ur_users ur) rawUUID = Some u"
      "token_matches cs rawUUID (us_Password (ur_heap ur ! u)) token \<or>
       token_matches cs (us_UUIDStr (ur_heap ur ! u)) (us_Password (ur_heap ur ! u)) token"
      "s' = snd (register u s)" "res = (if fst (register u s) then Inr u else Inl ErrUserNotFound)"
proof (cases "\<exists>cs u. cso = Some cs \<and> tls_HandshakeComplete cs \<and> map_of (ur_users ur) rawUUID = Some u \<and>
    (token_matches cs rawUUID (us_Password (ur_heap ur ! u)) token \<or> token_matches cs (us_UUIDStr (ur_heap ur ! u)) (us_Password (ur_heap ur ! u)) token)")
  case True
  then obtain cs u where c: "cso = Some cs" "tls_HandshakeComplete cs" "map_of (ur_users ur) rawUUID = Some u"
    "token_matches cs rawUUID (us_Password (ur_heap ur ! u)) token \<or> token_matches cs (us_UUIDStr (ur_heap ur ! u)) (us_Password (ur_heap ur ! u)) token"
    by blast
  obtain b t where r: "register u s = (b, t)" by (metis surj_pair)
  have "(res, s') = (if b then Inr u else Inl ErrUserNotFound, t)"
    using run[symmetric] c by (cases b) (auto simp: authenticate_def Let_def r)
  then show ?thesis using that(2)[OF c] r by simp
next
  case False
  then have "s' = s \<and> (\<exists>e. res = Inl e)"
    using run by (auto simp: authenticate_def Let_def split: option.splits if_splits sum.splits)
  then show ?thesis using that(1) by blast
qed

lemma conn_authenticate_ok:
  assumes ok: "server_ok s" and run: "conn_authenticate now tls conn rawUUID token s = (res, s')"
  shows "server_ok s'"
proof -
  obtain r t where a: "authenticate (auth_register now conn) tls rawUUID token (sv_users s) s = (r, t)" by (metis surj_pair)
  have "server_ok t"
    using a by (rule authenticate_cases) (use ok auth_register_ok[OF ok map_of_SomeD] in auto)
  then show ?thesis using run a by (auto simp: conn_authenticate_def split: sum.splits)
qed

text \<open>The end of a connection.\<close>

lemma filter_del_length:
  "distinct (map fst xs) \<Longrightarrow> (k, v) \<in> set xs \<Longrightarrow>
     int (length (filter (\<lambda>p. snd p = w) (del_key k xs))) = int (length (filter (\<lambda>p. snd p = w) xs)) - (if w = v then 1 else 0)"
proof (induction xs)
  case (Cons p xs)
  show ?case
  proof (cases "fst p = k")
    case True
    then have "k \<notin> fst ` set xs" using Cons.prems(1) by auto
    then have "del_key k xs = xs" "(k, v) \<notin> set xs" by (force simp: del_key_def filter_id_conv)+
    then show ?thesis using True Cons.prems(2) by (cases p) (auto simp: del_key_def)
  next
    case False
    then show ?thesis using Cons by (auto simp: del_key_def)
  qed
qed simp

lemma end_conn_ok:
  assumes ok: "server_ok s"
  shows "server_ok (end_conn conn s)"
proof -
  have reg: "registry_ok (sv_users s)" and a: "active_ok s" using ok by (simp_all add: server_ok_def)
  note D = active_okD[OF a]
  show ?thesis
  proof (cases "\<exists>st u. map_of (sv_auth s) conn = Some (st, Some u)")
    case True
    then obtain st u where c: "map_of (sv_auth s) conn = Some (st, Some u)" by blast
    let ?key = "(us_UUID (user_of s u), conn)"
    let ?s = "end_conn conn s"
    have m: "(?key, u) \<in> set (sv_active s)" using D(6)[OF c] .
    have len: "u < length (ur_heap (sv_users s))" using D(2)[OF m] .
    have look: "map_of (sv_active s) ?key = Some u" using map_of_is_SomeI[OF D(1) m] .
    have s': "sv_active ?s = del_key ?key (sv_active s)" "sv_users ?s = add_sessions u (- 1) (sv_users s)" "sv_auth ?s = del_key conn (sv_auth s)"
      using c look by (simp_all add: end_conn_def unregisterConn_def Let_def sessionEnded_def)
    have sub: "x \<in> set (sv_active ?s) \<longleftrightarrow> x \<in> set (sv_active s) \<and> fst x \<noteq> ?key" for x by (auto simp: s' del_key_def)
    have uuid: "us_UUID (user_of ?s v) = us_UUID (user_of s v)" for v using len by (simp add: user_of_def s' add_sessions_nth)
    have gone: "c' \<noteq> conn" if "((k, c'), v) \<in> set (sv_active ?s)" for k c' v
    proof
      assume "c' = conn"
      then have e: "((k, conn), v) \<in> set (sv_active s)" "(k, conn) \<noteq> ?key" using that by (auto simp: sub)
      then show False using D(4)[OF e(1)] D(3)[OF e(1)] c by auto
    qed
    have "active_ok ?s"
    proof (rule active_okI)
      show "distinct (map fst (sv_active ?s))" using distinct_del_key[OF D(1)] by (simp add: s')
    next
      fix k c' v assume e: "((k, c'), v) \<in> set (sv_active ?s)"
      then have "((k, c'), v) \<in> set (sv_active s)" by (simp add: sub)
      then show "v < length (ur_heap (sv_users ?s))" "us_UUID (user_of ?s v) = k" "map_of (sv_auth ?s) c' = Some (1, Some v)"
        using D(2,3,4)[of k c' v] gone[OF e] by (simp_all add: s'(2,3) uuid map_of_del_key)
    next
      fix c' st' v assume e: "map_of (sv_auth ?s) c' = Some (st', Some v)"
      then have e': "map_of (sv_auth s) c' = Some (st', Some v)" "c' \<noteq> conn" by (auto simp: s' map_of_del_key split: if_splits)
      then show "st' = 1" "((us_UUID (user_of ?s v), c'), v) \<in> set (sv_active ?s)"
        using D(5)[OF e'(1)] D(6)[OF e'(1)] by (simp_all add: sub uuid)
    qed
    moreover have "us_sessions (user_of ?s v) = sessions_of ?s v" if "v < length (ur_heap (sv_users s))" for v
      using ok that len filter_del_length[OF D(1) m, of v]
      by (simp add: server_ok_def user_of_def s' add_sessions_nth sessions_of_def)
    moreover have "registry_ok (sv_users ?s)" unfolding s' by (rule add_sessions_registry[OF reg len session_known(2)[OF ok c]])
    ultimately show ?thesis by (simp add: server_ok_def s'(2))
  next
    case False
    then have s': "end_conn conn s = s\<lparr>sv_closed := sv_closed s @ [conn], sv_auth := del_key conn (sv_auth s)\<rparr>"
      by (auto simp: end_conn_def split: option.splits)
    have free: "((k, conn), v) \<notin> set (sv_active s)" for k v using D(4)[of k conn v] False by auto
    let ?t = "s\<lparr>sv_closed := sv_closed s @ [conn], sv_auth := del_key conn (sv_auth s)\<rparr>"
    have "active_ok ?t"
    proof (rule active_okI)
      fix k c' v assume "((k, c'), v) \<in> set (sv_active ?t)"
      then have m: "((k, c'), v) \<in> set (sv_active s)" by simp
      then have "c' \<noteq> conn" using free by auto
      then show "v < length (ur_heap (sv_users ?t))" "us_UUID (user_of ?t v) = k" "map_of (sv_auth ?t) c' = Some (1, Some v)"
        using D(2,3,4)[OF m] by (simp_all add: user_of_def map_of_del_key)
    next
      fix c' st' v assume "map_of (sv_auth ?t) c' = Some (st', Some v)"
      then have m: "map_of (sv_auth s) c' = Some (st', Some v)" by (simp add: map_of_del_key split: if_splits)
      show "st' = 1" "((us_UUID (user_of ?t v), c'), v) \<in> set (sv_active ?t)" using D(5,6)[OF m] by (simp_all add: user_of_def)
    qed (simp add: D(1))
    then show ?thesis using ok by (simp add: server_ok_def s' user_of_def sessions_of_def)
  qed
qed

lemma auth_update_ok:
  assumes ok: "server_ok s" and c: "map_of (sv_auth s) conn = None \<or> (\<exists>au. map_of (sv_auth s) conn = Some (0, au))"
  shows "server_ok (s\<lparr>sv_auth := put_key conn (st, None) (sv_auth s)\<rparr>)"
proof -
  have a: "active_ok s" using ok by (simp add: server_ok_def)
  note D = active_okD[OF a]
  have "c' \<noteq> conn" if "((k, c'), v) \<in> set (sv_active s)" for k c' v using D(4)[OF that] c by auto
  note other = this
  let ?t = "s\<lparr>sv_auth := put_key conn (st, None) (sv_auth s)\<rparr>"
  have "active_ok ?t"
  proof (rule active_okI)
    fix k c' v assume "((k, c'), v) \<in> set (sv_active ?t)"
    then have m: "((k, c'), v) \<in> set (sv_active s)" by simp
    show "v < length (ur_heap (sv_users ?t))" "us_UUID (user_of ?t v) = k" "map_of (sv_auth ?t) c' = Some (1, Some v)"
      using D(2,3,4)[OF m] other[OF m] by (simp_all add: user_of_def)
  next
    fix c' st' v assume "map_of (sv_auth ?t) c' = Some (st', Some v)"
    then have m: "map_of (sv_auth s) c' = Some (st', Some v)" by (simp split: if_splits)
    show "st' = 1" "((us_UUID (user_of ?t v), c'), v) \<in> set (sv_active ?t)" using D(5,6)[OF m] by (simp_all add: user_of_def)
  qed (simp add: D(1))
  then show ?thesis using ok by (simp add: server_ok_def user_of_def sessions_of_def)
qed

lemma accept_conn_ok: "server_ok s \<Longrightarrow> map_of (sv_auth s) conn = None \<Longrightarrow> server_ok (accept_conn conn s)"
  by (simp add: accept_conn_def auth_update_ok)

lemma auth_timeout_ok:
  assumes "server_ok s"
  shows "server_ok (auth_timeout conn s)"
proof (cases "\<exists>au. map_of (sv_auth s) conn = Some (0, au)")
  case True
  then obtain au where c: "map_of (sv_auth s) conn = Some (0, au)" by blast
  have "au = None" using assms c active_okD(5)[of s conn 0] by (cases au) (auto simp: server_ok_def)
  then show ?thesis using auth_update_ok[OF assms, of conn 2] c by (simp add: auth_timeout_def)
next
  case False
  then have "auth_timeout conn s = s" by (auto simp: auth_timeout_def split: option.splits nat.splits)
  then show ?thesis using assms by simp
qed


section \<open>Steps that report nothing\<close>

text \<open>Such a step keeps the users, their traffic and what is closed, and registers only current users.\<close>

definition silent :: "tuic_server \<Rightarrow> tuic_server \<Rightarrow> bool" where
  "silent s s' \<longleftrightarrow>
     ur_users (sv_users s') = ur_users (sv_users s) \<and>
     map traffic_of (ur_heap (sv_users s')) = map traffic_of (ur_heap (sv_users s)) \<and>
     (\<forall>p \<in> set (sv_active s'). p \<in> set (sv_active s) \<or> snd p \<in> snd ` set (ur_users (sv_users s))) \<and>
     set (sv_closed s) \<subseteq> set (sv_closed s')"

lemma silent_refl: "silent s s"
  by (simp add: silent_def)

lemma silent_trans: "silent r s \<Longrightarrow> silent s t \<Longrightarrow> silent r t"
  unfolding silent_def by auto

lemma traffic_add_sessions [simp]: "map traffic_of (ur_heap (add_sessions u n ur)) = map traffic_of (ur_heap ur)"
proof (cases "u < length (ur_heap ur)")
  case True
  then show ?thesis by (intro nth_equalityI) (auto simp: add_sessions_nth traffic_of_def ident_def)
next
  case False
  then show ?thesis by (simp add: add_sessions_def list_update_beyond)
qed

lemma markActive_fields [simp]:
  "sv_users (markActive now e s) = sv_users s" "sv_active (markActive now e s) = sv_active s"
  "sv_closed (markActive now e s) = sv_closed s" "sv_auth (markActive now e s) = sv_auth s"
  by (simp_all add: markActive_def)

lemma silent_mark: "silent s (markActive now e s)"
  by (simp add: silent_def)

lemma silent_accept: "silent s (accept_conn conn s)"
  by (auto simp: silent_def accept_conn_def)

lemma silent_timeout: "silent s (auth_timeout conn s)"
  by (auto simp: silent_def auth_timeout_def split: option.splits nat.splits)

lemma silent_end: "silent s (end_conn conn s)"
proof (cases "\<exists>st u. map_of (sv_auth s) conn = Some (st, Some u)")
  case True
  then obtain st u where c: "map_of (sv_auth s) conn = Some (st, Some u)" by blast
  have "silent s (unregisterConn u conn s)"
    by (auto simp: silent_def unregisterConn_def Let_def sessionEnded_def del_key_def split: option.splits)
  then show ?thesis using c by (auto simp: silent_def end_conn_def Let_def)
next
  case False
  then have "end_conn conn s = s\<lparr>sv_closed := sv_closed s @ [conn], sv_auth := del_key conn (sv_auth s)\<rparr>"
    by (auto simp: end_conn_def split: option.splits)
  then show ?thesis by (auto simp: silent_def)
qed

lemma end_all: "server_ok s \<Longrightarrow> server_ok (fold end_conn cs s) \<and> silent s (fold end_conn cs s)"
proof (induction cs arbitrary: s)
  case (Cons c cs)
  then show ?case using Cons.IH[OF end_conn_ok[OF Cons.prems, of c]] silent_trans[OF silent_end[of s c]] by simp
qed (simp add: silent_refl)

lemma Server_Close_ok:
  assumes "server_ok s"
  shows "server_ok (Server_Close s)" "silent s (Server_Close s)"
proof -
  let ?t = "closeAllConns (s\<lparr>sv_stopped := True, sv_running := False\<rparr>)"
  have t: "server_ok ?t" "silent s ?t" using assms by (simp_all add: closeAllConns_def silent_def)
  show "server_ok (Server_Close s)" "silent s (Server_Close s)"
    using end_all[OF t(1), of "map fst (sv_auth ?t)"] t(2) assms silent_refl silent_trans by (auto simp: Server_Close_def Let_def)
qed

lemma silent_auth_register:
  assumes "(k, u) \<in> set (ur_users (sv_users s))"
  shows "silent s (snd (auth_register now conn u s))"
proof -
  have "u \<in> snd ` set (ur_users (sv_users s))" using assms by force
  then show ?thesis
    by (auto simp: silent_def auth_register_def registerConn_def put_key_def del_key_def split: option.splits)
qed

lemma silent_authenticate:
  assumes run: "conn_authenticate now tls conn rawUUID token s = (res, s')"
  shows "silent s s'"
proof -
  obtain r t where a: "authenticate (auth_register now conn) tls rawUUID token (sv_users s) s = (r, t)" by (metis surj_pair)
  have "silent s t"
    using a by (rule authenticate_cases) (use silent_refl silent_auth_register[OF map_of_SomeD] in auto)
  moreover have "silent t s'" using run a by (auto simp: conn_authenticate_def silent_def split: sum.splits)
  ultimately show ?thesis by (rule silent_trans)
qed

section \<open>A running server\<close>

text \<open>The server with the revoked users whose connections are still to be closed, what was counted and what was reported.\<close>

record tuic_run =
  tr_server :: tuic_server
  tr_pending :: "nat list"
  tr_counted :: "(identity \<times> int \<times> int) list"
  tr_reported :: "ClientTrafficDelta list"

definition new_run :: "uuid_env \<Rightarrow> int \<Rightarrow> TuicClientSettings list \<Rightarrow> tuic_run" where
  "new_run env iid clients = \<lparr>tr_server = new_server env iid clients, tr_pending = [], tr_counted = [], tr_reported = []\<rparr>"

inductive run_step :: "uuid_env \<Rightarrow> tuic_run \<Rightarrow> tuic_run \<Rightarrow> bool" for env where
  step_accept: "map_of (sv_auth (tr_server r)) conn = None \<Longrightarrow> run_step env r (r\<lparr>tr_server := accept_conn conn (tr_server r)\<rparr>)"
| step_auth: "conn_authenticate now tls conn rawUUID token (tr_server r) = (res, s') \<Longrightarrow> run_step env r (r\<lparr>tr_server := s'\<rparr>)"
| step_timeout: "run_step env r (r\<lparr>tr_server := auth_timeout conn (tr_server r)\<rparr>)"
| step_mark: "run_step env r (r\<lparr>tr_server := markActive now email (tr_server r)\<rparr>)"
| step_count: "auth_user conn (tr_server r) = Some u \<Longrightarrow> 0 \<le> up \<Longrightarrow> 0 \<le> down \<Longrightarrow>
    run_step env r (r\<lparr>tr_server := count_traffic u up down (tr_server r),
      tr_counted := tr_counted r @ [(ident (user_of (tr_server r) u), up, down)]\<rparr>)"
| step_end: "run_step env r (r\<lparr>tr_server := end_conn conn (tr_server r)\<rparr>)"
| step_update: "update_users env clients (tr_server r) = (revoked, s') \<Longrightarrow>
    run_step env r (r\<lparr>tr_server := s', tr_pending := tr_pending r @ revoked\<rparr>)"
| step_cut: "u \<in> set (tr_pending r) \<Longrightarrow>
    run_step env r (r\<lparr>tr_server := closeUserConns u (tr_server r), tr_pending := removeAll u (tr_pending r)\<rparr>)"
| step_collect: "CollectClientTraffic (tr_server r) = (ds, s') \<Longrightarrow>
    run_step env r (r\<lparr>tr_server := s', tr_reported := tr_reported r @ ds\<rparr>)"
| step_fail: "run_step env r (r\<lparr>tr_server := accept_failed (tr_server r)\<rparr>)"
| step_stop: "run_step env r (r\<lparr>tr_server := Server_Close (tr_server r)\<rparr>)"

definition cut_ok :: "tuic_run \<Rightarrow> bool" where
  "cut_ok r \<longleftrightarrow> (\<forall>k c u. ((k, c), u) \<in> set (sv_active (tr_server r)) \<longrightarrow>
     u \<in> snd ` set (ur_users (sv_users (tr_server r))) \<or> c \<in> set (sv_closed (tr_server r)) \<or> u \<in> set (tr_pending r))"

definition run_heap :: "tuic_run \<Rightarrow> User list" where
  "run_heap r = ur_heap (sv_users (tr_server r))"

definition run_inv :: "tuic_run \<Rightarrow> bool" where
  "run_inv r \<longleftrightarrow> server_ok (tr_server r) \<and> cut_ok r \<and>
     account us_BytesUp td_Up fst (run_heap r) (tr_reported r) (tr_counted r) \<and>
     account us_BytesDown td_Down snd (run_heap r) (tr_reported r) (tr_counted r)"

lemma run_inv_silent:
  assumes inv: "run_inv r" and s': "server_ok s'" "silent (tr_server r) s'"
  shows "run_inv (r\<lparr>tr_server := s'\<rparr>)"
proof -
  have q: "ur_users (sv_users s') = ur_users (sv_users (tr_server r))" "map traffic_of (ur_heap (sv_users s')) = map traffic_of (run_heap r)"
    "\<forall>p \<in> set (sv_active s'). p \<in> set (sv_active (tr_server r)) \<or> snd p \<in> snd ` set (ur_users (sv_users (tr_server r)))"
    "set (sv_closed (tr_server r)) \<subseteq> set (sv_closed s')" using s'(2) by (simp_all add: silent_def run_heap_def)
  have "cut_ok (r\<lparr>tr_server := s'\<rparr>)" unfolding cut_ok_def
  proof (intro allI impI)
    fix k c u assume "((k, c), u) \<in> set (sv_active (tr_server (r\<lparr>tr_server := s'\<rparr>)))"
    then have "((k, c), u) \<in> set (sv_active (tr_server r)) \<or> u \<in> snd ` set (ur_users (sv_users (tr_server r)))" using q(3) by force
    then show "u \<in> snd ` set (ur_users (sv_users (tr_server (r\<lparr>tr_server := s'\<rparr>)))) \<or> c \<in> set (sv_closed (tr_server (r\<lparr>tr_server := s'\<rparr>))) \<or>
        u \<in> set (tr_pending (r\<lparr>tr_server := s'\<rparr>))"
      using inv q(1,4) by (auto simp: run_inv_def cut_ok_def)
  qed
  then show ?thesis
    using inv s'(1) upload.account_seen[OF _ q(2)] download.account_seen[OF _ q(2)] by (simp add: run_inv_def run_heap_def)
qed

lemma run_step_inv: "run_step env r r' \<Longrightarrow> run_inv r \<Longrightarrow> run_inv r'"
proof (induction rule: run_step.induct)
  case (step_accept r conn)
  then show ?case by (intro run_inv_silent accept_conn_ok silent_accept) (simp_all add: run_inv_def)
next
  case (step_auth now tls conn rawUUID token r res s')
  then show ?case using conn_authenticate_ok[of "tr_server r"] silent_authenticate[OF step_auth.hyps]
    by (intro run_inv_silent) (auto simp: run_inv_def)
next
  case (step_timeout r conn)
  then show ?case by (intro run_inv_silent auth_timeout_ok silent_timeout) (simp_all add: run_inv_def)
next
  case (step_mark r now email)
  then show ?case by (intro run_inv_silent silent_mark) (simp_all add: run_inv_def)
next
  case (step_count conn r u up down)
  then have c: "map_of (sv_auth (tr_server r)) conn = Some (1, Some u)" by (auto simp: auth_user_def split: option.splits if_splits)
  have ok: "server_ok (tr_server r)" using step_count.prems by (simp add: run_inv_def)
  note u = session_known(1)[OF ok c]
  have "account us_BytesUp td_Up fst (ur_heap (add_traffic u up down (sv_users (tr_server r)))) (tr_reported r)
      (tr_counted r @ [(ident (ur_heap (sv_users (tr_server r)) ! u), up, down)])"
    using step_count upload.account_count[OF _ u, of fst] by (simp add: run_inv_def run_heap_def)
  moreover have "account us_BytesDown td_Down snd (ur_heap (add_traffic u up down (sv_users (tr_server r)))) (tr_reported r)
      (tr_counted r @ [(ident (ur_heap (sv_users (tr_server r)) ! u), up, down)])"
    using step_count download.account_count[OF _ u, of snd] by (simp add: run_inv_def run_heap_def)
  ultimately show ?case
    using step_count.prems count_traffic_ok[OF ok c]
    by (simp add: run_inv_def run_heap_def cut_ok_def count_traffic_def add_traffic_def user_of_def)
next
  case (step_end r conn)
  then show ?case by (intro run_inv_silent end_conn_ok silent_end) (simp_all add: run_inv_def)
next
  case (step_update clients r revoked s')
  have ok: "server_ok (tr_server r)" using step_update.prems by (simp add: run_inv_def)
  note U = update_users_ok[OF ok step_update.hyps]
  have old: "cut_ok r" using step_update.prems by (simp add: run_inv_def)
  have "cut_ok (r\<lparr>tr_server := s', tr_pending := tr_pending r @ revoked\<rparr>)"
  proof -
    have "\<forall>k c u. ((k, c), u) \<in> set (sv_active s') \<longrightarrow>
        u \<in> snd ` set (ur_users (sv_users s')) \<or> c \<in> set (sv_closed s') \<or> u \<in> set (tr_pending r) \<or> u \<in> set revoked"
      unfolding U(3,4) using U(2) old[unfolded cut_ok_def] by blast
    then show ?thesis by (simp add: cut_ok_def)
  qed
  then show ?case using step_update.prems U(1,5) upload.account_created download.account_created
    by (auto simp: run_inv_def run_heap_def)
next
  case (step_cut u r)
  have a: "active_ok (tr_server r)" using step_cut.prems by (simp add: run_inv_def server_ok_def)
  have "cut_ok (r\<lparr>tr_server := closeUserConns u (tr_server r), tr_pending := removeAll u (tr_pending r)\<rparr>)"
    using step_cut.prems active_okD(3)[OF a] by (force simp: run_inv_def cut_ok_def closeUserConns_def)
  then show ?case using step_cut.prems by (simp add: run_inv_def run_heap_def closeUserConns_def)
next
  case (step_collect r ds s')
  have ok: "server_ok (tr_server r)" and reg: "registry_ok (sv_users (tr_server r))" using step_collect.prems by (simp_all add: run_inv_def server_ok_def)
  obtain d ur where c: "CollectTrafficDeltas (sv_users (tr_server r)) = (d, ur)" by (metis surj_pair)
  have run: "ds = map (\<lambda>x. x\<lparr>td_InboundID := sv_id (tr_server r)\<rparr>) d" "s' = (tr_server r)\<lparr>sv_users := ur\<rparr>"
    using step_collect.hyps c by (auto simp: CollectClientTraffic_def)
  show ?case
    using step_collect.prems CollectClientTraffic_ok[OF ok step_collect.hyps] upload.account_collect(1)[OF _ reg c] download.account_collect(1)[OF _ reg c]
    by (simp add: run_inv_def run_heap_def cut_ok_def run)
next
  case (step_fail r)
  then show ?case by (intro run_inv_silent) (simp_all add: run_inv_def accept_failed_def silent_def)
next
  case (step_stop r)
  then show ?case by (intro run_inv_silent Server_Close_ok) (simp_all add: run_inv_def)
qed


lemma new_run_inv: "run_inv (new_run env iid clients)"
proof -
  obtain revoked ur where set: "SetUsers env clients NewUserRegistry = (revoked, ur)" by (metis surj_pair)
  have "registry_ok NewUserRegistry" by (simp add: registry_ok_def map_ok_def NewUserRegistry_def)
  then obtain new where e: "ur_heap ur = ur_heap NewUserRegistry @ new" "\<forall>u \<in> set new. idle_user u" "registry_ok ur"
    by (rule SetUsers_effect[OF _ set])
  have h: "ur_heap ur = [] @ new" using e(1) by (simp add: NewUserRegistry_def)
  have "server_ok (new_server env iid clients)"
    using e(2,3) h by (auto simp: server_ok_def new_server_def set active_ok_def sessions_of_def user_of_def idle_user_def)
  moreover have "account us_BytesUp td_Up fst ([] @ new) [] []"
    by (rule upload.account_created[OF _ e(2)]) (simp add: account_def counted_for_def)
  moreover have "account us_BytesDown td_Down snd ([] @ new) [] []"
    by (rule download.account_created[OF _ e(2)]) (simp add: account_def counted_for_def)
  ultimately show ?thesis
    unfolding run_inv_def by (simp add: new_run_def run_heap_def cut_ok_def new_server_def set h)
qed

lemma run_reachable_inv: "(run_step env)\<^sup>*\<^sup>* (new_run env iid clients) r \<Longrightarrow> run_inv r"
  by (induction rule: rtranclp_induct) (auto intro: new_run_inv run_step_inv)

section \<open>Who may authenticate\<close>

lemma valid_clients_ids:
  "valid_clients env seen cs = Inr () \<Longrightarrow>
     (\<forall>c \<in> set cs. \<exists>k. uuid_parse env (tc_UUID c) = Some k \<and> k \<notin> set seen) \<and> distinct (map (\<lambda>c. uuid_parse env (tc_UUID c)) cs)"
proof (induction cs arbitrary: seen)
  case (Cons c cs)
  then obtain k where k: "uuid_parse env (tc_UUID c) = Some k" "k \<notin> set seen" "valid_clients env (k # seen) cs = Inr ()"
    by (auto split: option.splits if_splits)
  have "Some k \<notin> (\<lambda>c. uuid_parse env (tc_UUID c)) ` set cs" using Cons.IH[OF k(3)] by force
  then show ?case using Cons.IH[OF k(3)] k(1,2) by auto
qed simp

text \<open>The map the clients make: every client has an entry with its password, and there is no other.\<close>

definition labelled :: "uuid_env \<Rightarrow> User list \<Rightarrow> bool" where
  "labelled env H \<longleftrightarrow> (\<forall>x \<in> set H. us_UUIDStr x = uuid_text env (us_UUID x))"

definition serves :: "uuid_env \<Rightarrow> User list \<Rightarrow> (bytes \<times> nat) list \<Rightarrow> TuicClientSettings \<Rightarrow> bool" where
  "serves env H m c \<longleftrightarrow> (\<exists>k u. uuid_parse env (tc_UUID c) = Some k \<and> map_of m k = Some u \<and> us_Password (H ! u) = tc_Password c)"

lemma set_users_exact:
  assumes wf: "map_ok (ur_heap ur) (ur_users ur)"
  shows "\<forall>c \<in> set cs. \<exists>k. uuid_parse env (tc_UUID c) = Some k \<Longrightarrow> distinct (map (\<lambda>c. uuid_parse env (tc_UUID c)) cs) \<Longrightarrow>
    fold (set_user env) cs ([], ur, []) = (m, r, rv) \<Longrightarrow>
    (\<forall>c \<in> set cs. serves env (ur_heap r) m c) \<and> (\<forall>k. map_of m k \<noteq> None \<longrightarrow> (\<exists>c \<in> set cs. uuid_parse env (tc_UUID c) = Some k))"
proof (induction cs arbitrary: m r rv rule: rev_induct)
  case (snoc c cs)
  obtain m0 r0 rv0 where f: "fold (set_user env) cs ([], ur, []) = (m0, r0, rv0)" by (metis prod_cases3)
  have IH: "\<forall>c \<in> set cs. serves env (ur_heap r0) m0 c" "\<forall>k. map_of m0 k \<noteq> None \<longrightarrow> (\<exists>c \<in> set cs. uuid_parse env (tc_UUID c) = Some k)"
    using snoc.IH[OF _ _ f] snoc.prems(1,2) by simp_all
  have "setting_ok ur ([], ur, [])" by (auto simp: setting_ok_def map_ok_def)
  from set_users_fold_ok[OF wf this, of env cs] have st: "ur_users r0 = ur_users ur" "map_ok (ur_heap r0) m0" "length (ur_heap ur) \<le> length (ur_heap r0)"
    unfolding f setting_ok_def by auto
  obtain k where k: "uuid_parse env (tc_UUID c) = Some k" using snoc.prems(1) by auto
  have step: "set_user env c (m0, r0, rv0) = (m, r, rv)" using snoc.prems(3) f by simp
  obtain u new where e: "m = put_key k u m0" "ur_heap r = ur_heap r0 @ new" "us_Password (ur_heap r ! u) = tc_Password c"
  proof (cases "map_of (ur_users r0) k")
    case None
    then show ?thesis using that[of "length (ur_heap r0)" "[newUser env k c]"] step k
      by (auto simp: set_user_def Let_def newUser_def)
  next
    case (Some x)
    have x: "x < length (ur_heap r0)" using map_ok_ref[OF wf, of k x] Some st(1,3) by simp
    show ?thesis
    proof (cases "same_credentials (ur_heap r0 ! x) c")
      case True
      then show ?thesis using that[of x "[]"] step k Some by (auto simp: set_user_def Let_def same_credentials_def)
    next
      case False
      then show ?thesis using that[of "length (ur_heap r0)" "[newUser env k c]"] step k Some
        by (auto simp: set_user_def Let_def newUser_def)
    qed
  qed
  have "serves env (ur_heap r) m c'" if c': "c' \<in> set cs" for c'
  proof -
    obtain k' u' where s: "uuid_parse env (tc_UUID c') = Some k'" "map_of m0 k' = Some u'" "us_Password (ur_heap r0 ! u') = tc_Password c'"
      using IH(1) c' by (auto simp: serves_def)
    have "k' \<noteq> k" using snoc.prems(2) c' k s(1) by force
    moreover have "u' < length (ur_heap r0)" using map_ok_ref[OF st(2) s(2)] by simp
    ultimately show ?thesis using s by (simp add: serves_def e nth_append)
  qed
  moreover have "serves env (ur_heap r) m c" using k e by (simp add: serves_def)
  ultimately show ?case using IH(2) k by (auto simp: e(1) split: if_splits)
qed simp

lemma labelled_nth: "labelled env H \<longleftrightarrow> (\<forall>i < length H. us_UUIDStr (H ! i) = uuid_text env (us_UUID (H ! i)))"
  by (simp add: labelled_def all_set_conv_all_nth)

lemma labelled_update:
  assumes "labelled env H" "us_UUID x = us_UUID (H ! i)" "us_UUIDStr x = us_UUIDStr (H ! i)"
  shows "labelled env (H[i := x])"
proof (cases "i < length H")
  case True
  then have "us_UUIDStr x = uuid_text env (us_UUID x)" using assms nth_mem[OF True] by (simp add: labelled_def)
  then show ?thesis using assms(1) set_update_subset_insert[of H i x] by (auto simp: labelled_def)
qed (use assms(1) in \<open>simp add: list_update_beyond\<close>)

lemma labelled_set_user:
  "labelled env (ur_heap r) \<Longrightarrow> labelled env (ur_heap (fst (snd (set_user env c (m, r, rv)))))"
  by (auto simp: set_user_def Let_def labelled_def newUser_def split: option.splits)

lemma labelled_set_users:
  "labelled env (ur_heap r) \<Longrightarrow> labelled env (ur_heap (fst (snd (fold (set_user env) cs (m, r, rv)))))"
proof (induction cs arbitrary: m r rv)
  case (Cons c cs)
  obtain m' r' rv' where "set_user env c (m, r, rv) = (m', r', rv')" by (metis prod_cases3)
  then show ?case using Cons.IH[of r' m' rv'] labelled_set_user[OF Cons.prems, of c m rv] by simp
qed simp

lemma SetUsers_labelled:
  assumes "labelled env (ur_heap ur)"
  shows "labelled env (ur_heap (snd (SetUsers env cs ur)))"
proof -
  obtain m r rv where f: "fold (set_user env) cs ([], ur, []) = (m, r, rv)" by (metis prod_cases3)
  obtain q w where g: "fold (drop_user m) (ur_users ur) (r, rv) = (q, w)" by (metis surj_pair)
  show ?thesis using labelled_set_users[OF assms, of cs "[]" "[]"] drop_users_fold[OF g] f g by (simp add: SetUsers_def)
qed

lemma silent_labelled:
  assumes "labelled env (ur_heap (sv_users s))" "silent s s'"
  shows "labelled env (ur_heap (sv_users s'))"
  unfolding labelled_def
proof
  fix x assume "x \<in> set (ur_heap (sv_users s'))"
  then have "traffic_of x \<in> set (map traffic_of (ur_heap (sv_users s')))" by simp
  then have "traffic_of x \<in> set (map traffic_of (ur_heap (sv_users s)))" using assms(2) by (simp add: silent_def del: set_map)
  then obtain y where "y \<in> set (ur_heap (sv_users s))" "traffic_of y = traffic_of x" by auto
  then show "us_UUIDStr x = uuid_text env (us_UUID x)" using assms(1) by (auto simp: labelled_def traffic_of_def ident_def)
qed

lemma run_labelled:
  "run_step env r r' \<Longrightarrow> run_inv r \<Longrightarrow> labelled env (ur_heap (sv_users (tr_server r))) \<Longrightarrow> labelled env (ur_heap (sv_users (tr_server r')))"
proof (induction rule: run_step.induct)
  case (step_auth now tls conn rawUUID token r res s')
  then show ?case using silent_labelled[OF _ silent_authenticate[OF step_auth.hyps]] by simp
next
  case (step_count conn r u up down)
  then show ?case by (simp add: count_traffic_def add_traffic_def labelled_update)
next
  case (step_collect r ds s')
  obtain d ur where c: "CollectTrafficDeltas (sv_users (tr_server r)) = (d, ur)" by (metis surj_pair)
  have reg: "registry_ok (sv_users (tr_server r))" using step_collect.prems(1) by (simp add: run_inv_def server_ok_def)
  have "us_UUIDStr (drained x) = us_UUIDStr x" for x by (simp add: drained_def)
  then have "labelled env (ur_heap ur)"
    using step_collect.prems(2) CollectTrafficDeltas_effect(2,3)[OF reg c] by (simp add: labelled_nth)
  then show ?case using step_collect.hyps c by (auto simp: CollectClientTraffic_def)
next
  case (step_update clients r revoked s')
  then show ?case using SetUsers_labelled[of env "sv_users (tr_server r)" clients]
    by (auto simp: update_users_def split: sum.splits prod.splits)
next
  case (step_stop r)
  then show ?case using silent_labelled[OF _ Server_Close_ok(2)] by (simp add: run_inv_def)
qed (simp_all add: silent_labelled[OF _ silent_accept] silent_labelled[OF _ silent_timeout] silent_labelled[OF _ silent_end]
    accept_failed_def closeUserConns_def)

lemma run_reachable_labelled:
  "(run_step env)\<^sup>*\<^sup>* (new_run env iid clients) r \<Longrightarrow> labelled env (ur_heap (sv_users (tr_server r)))"
proof (induction rule: rtranclp_induct)
  case base
  show ?case using SetUsers_labelled[of env NewUserRegistry clients]
    by (simp add: new_run_def new_server_def labelled_def NewUserRegistry_def)
next
  case (step r r')
  then show ?case using run_labelled run_reachable_inv by blast
qed

text \<open>A run: a client authenticates and is served, is revoked with its connection cut, and relays a last packet.\<close>

definition sample_uuids :: uuid_env where "sample_uuids = \<lparr>uuid_parse = Some, uuid_text = (\<lambda>x. 45 # x)\<rparr>"
definition sample_tls :: tls_state where "sample_tls = \<lparr>tls_HandshakeComplete = True, tls_Export = (\<lambda>l p. Inr (l @ p))\<rparr>"
definition sample_client :: "byte \<Rightarrow> TuicClientSettings" where
  "sample_client n = \<lparr>tc_TrafficID = 0, tc_UUID = [n], tc_Password = [n, n], tc_Email = [n, 64]\<rparr>"

definition run_served :: tuic_run where
  "run_served = (let r = new_run sample_uuids 3 [sample_client 1, sample_client 2];
     r = r\<lparr>tr_server := accept_conn 7 (tr_server r)\<rparr>;
     r = r\<lparr>tr_server := snd (conn_authenticate 0 (Some sample_tls) 7 [1] [1, 1, 1] (tr_server r))\<rparr>
     in r\<lparr>tr_server := count_traffic 0 100 50 (tr_server r), tr_counted := [((0, [1, 64], [45, 1]), 100, 50)]\<rparr>)"

definition run_revoked :: tuic_run where
  "run_revoked = (let r = run_served; u = update_users sample_uuids [sample_client 2] (tr_server r);
     r = r\<lparr>tr_server := snd u, tr_pending := tr_pending r @ fst u\<rparr>;
     r = r\<lparr>tr_server := closeUserConns 0 (tr_server r), tr_pending := removeAll 0 (tr_pending r)\<rparr>
     in r\<lparr>tr_server := count_traffic 0 3 0 (tr_server r), tr_counted := tr_counted r @ [((0, [1, 64], [45, 1]), 3, 0)]\<rparr>)"

lemma run_served_reachable: "(run_step sample_uuids)\<^sup>*\<^sup>* (new_run sample_uuids 3 [sample_client 1, sample_client 2]) run_served"
proof -
  let ?r0 = "new_run sample_uuids 3 [sample_client 1, sample_client 2]"
  let ?r1 = "?r0\<lparr>tr_server := accept_conn 7 (tr_server ?r0)\<rparr>"
  let ?r2 = "?r1\<lparr>tr_server := snd (conn_authenticate 0 (Some sample_tls) 7 [1] [1, 1, 1] (tr_server ?r1))\<rparr>"
  have "run_step sample_uuids ?r0 ?r1" by (rule step_accept) (simp add: new_run_def new_server_def)
  moreover have "run_step sample_uuids ?r1 ?r2" by (rule step_auth[OF prod.collapse[symmetric]])
  moreover have "auth_user 7 (tr_server ?r2) = Some 0" "ident (user_of (tr_server ?r2) 0) = (0, [1, 64], [45, 1])" by code_simp+
  then have "run_step sample_uuids ?r2 run_served"
    using step_count[of 7 ?r2 0 100 50 sample_uuids] by (simp add: run_served_def Let_def new_run_def)
  ultimately show ?thesis by (meson converse_rtranclp_into_rtranclp rtranclp.rtrancl_refl)
qed

lemma run_revoked_reachable: "(run_step sample_uuids)\<^sup>*\<^sup>* (new_run sample_uuids 3 [sample_client 1, sample_client 2]) run_revoked"
proof -
  let ?u = "update_users sample_uuids [sample_client 2] (tr_server run_served)"
  let ?r1 = "run_served\<lparr>tr_server := snd ?u, tr_pending := tr_pending run_served @ fst ?u\<rparr>"
  let ?r2 = "?r1\<lparr>tr_server := closeUserConns 0 (tr_server ?r1), tr_pending := removeAll 0 (tr_pending ?r1)\<rparr>"
  have "run_step sample_uuids run_served ?r1" by (rule step_update[OF prod.collapse[symmetric]])
  moreover have "0 \<in> set (tr_pending ?r1)" by code_simp
  then have "run_step sample_uuids ?r1 ?r2" by (rule step_cut)
  moreover have "auth_user 7 (tr_server ?r2) = Some 0" "ident (user_of (tr_server ?r2) 0) = (0, [1, 64], [45, 1])" by code_simp+
  then have "run_step sample_uuids ?r2 run_revoked"
    using step_count[of 7 ?r2 0 3 0 sample_uuids] by (simp add: run_revoked_def Let_def)
  ultimately show ?thesis using run_served_reachable by (meson rtranclp.rtrancl_into_rtrancl)
qed

section \<open>Properties\<close>



text \<open>C34: a revocation reaches every connection. When no revocation is under way, a connection that has authenticated is closed
  or belongs to a user that is registered now, and the sessions a user counts are its connections.\<close>

theorem revoked_users_cut:
  assumes "(run_step env)\<^sup>*\<^sup>* (new_run env iid clients) r" "tr_pending r = []" "auth_user conn (tr_server r) = Some u"
  shows "(conn \<in> set (sv_closed (tr_server r)) \<or>
      map_of (ur_users (sv_users (tr_server r))) (us_UUID (user_of (tr_server r) u)) = Some u) \<and>
    us_sessions (user_of (tr_server r) u) = sessions_of (tr_server r) u"
proof -
  have inv: "run_inv r" using run_reachable_inv[OF assms(1)] .
  then have ok: "server_ok (tr_server r)" and cut: "cut_ok r" by (simp_all add: run_inv_def)
  have a: "active_ok (tr_server r)" and reg: "map_ok (ur_heap (sv_users (tr_server r))) (ur_users (sv_users (tr_server r)))"
    using ok by (simp_all add: server_ok_def registry_ok_def)
  have c: "map_of (sv_auth (tr_server r)) conn = Some (1, Some u)" using assms(3) by (auto simp: auth_user_def split: option.splits if_splits)
  have "us_sessions (user_of (tr_server r) u) = sessions_of (tr_server r) u" using ok session_known(1)[OF ok c] by (simp add: server_ok_def)
  moreover have "u \<in> snd ` set (ur_users (sv_users (tr_server r))) \<or> conn \<in> set (sv_closed (tr_server r))"
    using cut active_okD(6)[OF a c] assms(2) unfolding cut_ok_def by force
  then have "conn \<in> set (sv_closed (tr_server r)) \<or> map_of (ur_users (sv_users (tr_server r))) (us_UUID (user_of (tr_server r) u)) = Some u"
    using map_okD(1,3)[OF reg] by (auto simp: user_of_def)
  ultimately show ?thesis by blast
qed

theorem revoked_users_cut_witness:
  "7 \<in> set (sv_closed (tr_server run_revoked)) \<and> us_sessions (user_of (tr_server run_revoked) 0) = 1"
proof -
  have "tr_pending run_revoked = []" "auth_user 7 (tr_server run_revoked) = Some 0" by code_simp+
  moreover have "map_of (ur_users (sv_users (tr_server run_revoked))) (us_UUID (user_of (tr_server run_revoked) 0)) = None"
    "sessions_of (tr_server run_revoked) 0 = 1" by code_simp+
  ultimately show ?thesis using revoked_users_cut[OF run_revoked_reachable, of 7 0] by simp
qed

text \<open>C35: after a valid list of clients was set, exactly the clients of that list authenticate: a token is accepted if and only
  if the handshake is complete and it is the key exported for the password of the client with that identifier.\<close>

theorem authentication_exact:
  assumes "(run_step env)\<^sup>*\<^sup>* (new_run env iid cs0) r" "ValidateClients env clients = Inr ()"
  shows "(\<exists>u. Authenticate (Some tls) rawUUID token (sv_users (UpdateUsers env clients (tr_server r))) = Inr u) \<longleftrightarrow>
    tls_HandshakeComplete tls \<and>
    (\<exists>c \<in> set clients. uuid_parse env (tc_UUID c) = Some rawUUID \<and>
      (token_matches tls rawUUID (tc_Password c) token \<or> token_matches tls (uuid_text env rawUUID) (tc_Password c) token))"
proof -
  let ?ur = "sv_users (UpdateUsers env clients (tr_server r))"
  have reg: "registry_ok (sv_users (tr_server r))" using run_reachable_inv[OF assms(1)] by (simp add: run_inv_def server_ok_def)
  obtain rv ur where set: "SetUsers env clients (sv_users (tr_server r)) = (rv, ur)" by (metis surj_pair)
  have "sv_users (fold closeUserConns us s) = sv_users s" for us s by (induction us arbitrary: s) (simp_all add: closeUserConns_def)
  then have ur: "?ur = ur" using assms(2) set by (simp add: UpdateUsers_def update_users_def)
  have lab: "labelled env (ur_heap ur)" using SetUsers_labelled[OF run_reachable_labelled[OF assms(1)], of clients] set by simp
  have reg': "registry_ok ur" using set by (rule SetUsers_effect[OF reg])
  have ids: "\<forall>c \<in> set clients. \<exists>k. uuid_parse env (tc_UUID c) = Some k" "distinct (map (\<lambda>c. uuid_parse env (tc_UUID c)) clients)"
    using valid_clients_ids[of env "[]" clients] assms(2) by (auto simp: ValidateClients_def)
  obtain m q w where f: "fold (set_user env) clients ([], sv_users (tr_server r), []) = (m, q, w)" by (metis prod_cases3)
  have m: "ur_users ur = m" and h: "ur_heap ur = ur_heap q"
    using set drop_users_fold unfolding SetUsers_def f by (force split: prod.splits)+
  have wf: "map_ok (ur_heap (sv_users (tr_server r))) (ur_users (sv_users (tr_server r)))" using reg by (simp add: registry_ok_def)
  note ex = set_users_exact[OF wf ids f]
  have one: "c = c'" if "c \<in> set clients" "c' \<in> set clients" "uuid_parse env (tc_UUID c) = uuid_parse env (tc_UUID c')" for c c'
    using ids(2) that by (auto simp: distinct_map dest: inj_onD)
  have served: "\<exists>u. map_of m rawUUID = Some u \<and> us_Password (ur_heap ur ! u) = tc_Password c \<and> us_UUIDStr (ur_heap ur ! u) = uuid_text env rawUUID"
    if c: "c \<in> set clients" "uuid_parse env (tc_UUID c) = Some rawUUID" for c
  proof -
    obtain u where u: "map_of m rawUUID = Some u" "us_Password (ur_heap q ! u) = tc_Password c" using ex c by (auto simp: serves_def)
    have "u < length (ur_heap ur) \<and> us_UUID (ur_heap ur ! u) = rawUUID" using map_ok_ref[of "ur_heap ur" m rawUUID u] reg' u(1) m by (simp add: registry_ok_def)
    then show ?thesis using u lab h by (auto simp: labelled_def)
  qed
  have auth: "(\<exists>u. Authenticate (Some tls) rawUUID token ur = Inr u) \<longleftrightarrow> tls_HandshakeComplete tls \<and>
      (\<exists>u. map_of m rawUUID = Some u \<and> (token_matches tls rawUUID (us_Password (ur_heap ur ! u)) token \<or>
         token_matches tls (us_UUIDStr (ur_heap ur ! u)) (us_Password (ur_heap ur ! u)) token))"
    by (auto simp: Authenticate_def authenticate_def Let_def m split: option.splits sum.splits)
  have listed: "\<exists>c \<in> set clients. uuid_parse env (tc_UUID c) = Some rawUUID" if "map_of m rawUUID = Some u" for u using ex that by auto
  show ?thesis unfolding ur auth using served listed by fastforce
qed

theorem authentication_exact_witness:
  "(\<exists>u. Authenticate (Some sample_tls) [2] [2, 2, 2] (sv_users (UpdateUsers sample_uuids [sample_client 2] (tr_server run_served))) = Inr u) \<and>
   \<not> (\<exists>u. Authenticate (Some sample_tls) [1] [1, 1, 1] (sv_users (UpdateUsers sample_uuids [sample_client 2] (tr_server run_served))) = Inr u)"
proof -
  have "ValidateClients sample_uuids [sample_client 2] = Inr ()" by code_simp
  note a = authentication_exact[OF run_served_reachable this, of sample_tls]
  show ?thesis unfolding a by (simp add: sample_tls_def sample_uuids_def sample_client_def token_matches_def)
qed

end
