(* ===== verification/Tuic_Manager.thy ===== *)
theory Tuic_Manager
  imports Tuic_Users
begin

text \<open>
  The instances of the TUIC server: the settings of an inbound (\<open>src/internal/tuic/types.go\<close>), the construction of a
  server (\<open>NewServer\<close> and \<open>Start\<close> of \<open>server.go\<close>) and the manager that keeps one server per inbound
  (\<open>manager.go\<close>). A managed entry always holds a server. What the manager asks of the system is a \<open>tuic_world\<close>: loading a
  certificate, reading a file, opening a socket and a QUIC listener, the digest, and the package \<open>uuid\<close>; decoding JSON is the argument
  \<open>decode\<close>.
\<close>

section \<open>Settings\<close>

text \<open>The fields that both the settings and their \<open>server\<close> object have.\<close>

record tuic_layer =
  tl_Certificate :: string
  tl_PrivateKey :: string
  tl_CongestionControl :: string
  tl_ALPN :: "string list"
  tl_UDPRelayMode :: string
  tl_ZeroRTTHandshake :: "bool option"
  tl_LogLevel :: string
  tl_MaxIdleTime :: int
  tl_AuthenticationTimeout :: int
  tl_MaxUdpRelayPacketSize :: int
  tl_SNI :: string

record tuic_client_json =
  tj_TrafficID :: int
  tj_UUID :: string
  tj_ID :: string
  tj_Password :: string
  tj_Email :: string
  tj_Enable :: "bool option"

record tuic_settings =
  tg_top :: tuic_layer
  tg_Server :: "tuic_layer option"
  tg_Clients :: "tuic_client_json list"

record Instance =
  in_Id :: int
  in_Tag :: string
  in_Listen :: string
  in_Port :: int
  in_Certificate :: string
  in_PrivateKey :: string
  in_CongestionControl :: string
  in_ALPN :: "string list"
  in_UDPRelayMode :: string
  in_ZeroRTTHandshake :: bool
  in_LogLevel :: string
  in_MaxIdleTime :: int
  in_AuthenticationTimeout :: int
  in_MaxUdpRelayPacketSize :: int
  in_SNI :: string
  in_Clients :: "TuicClientSettings list"

record tuic_inbound =
  ib_Id :: int
  ib_Tag :: string
  ib_Listen :: string
  ib_Port :: int
  ib_Protocol :: string
  ib_Settings :: string

record tuic_world =
  tw_uuid :: uuid_env
  tw_X509KeyPair :: "string \<Rightarrow> string \<Rightarrow> string res"
  tw_LoadX509KeyPair :: "string \<Rightarrow> string \<Rightarrow> string res"
  tw_file :: "string \<Rightarrow> string option"
  tw_sha256 :: "string \<Rightarrow> string"
  tw_ListenPacket :: "string \<Rightarrow> unit res"
  tw_quicListen :: "string \<Rightarrow> unit res"
  tw_lower :: "string \<Rightarrow> string"

definition maxLegacyUdpRelayPacketSize :: int where "maxLegacyUdpRelayPacketSize = maxSocksUdpDatagramSize"

definition NormalizeCongestionControl :: "tuic_world \<Rightarrow> string \<Rightarrow> string option" where
  "NormalizeCongestionControl w v =
     (let s = to_lower (tw_lower w) (trim_space v) in
      if s = '''' \<or> s = ''bbr'' then Some ''bbr''
      else if s = ''cubic'' then Some ''cubic''
      else if s = ''new_reno'' \<or> s = ''reno'' then Some ''new_reno''
      else None)"

definition empty_layer :: tuic_layer where
  "empty_layer = \<lparr>tl_Certificate = '''', tl_PrivateKey = '''', tl_CongestionControl = '''', tl_ALPN = [], tl_UDPRelayMode = '''',
     tl_ZeroRTTHandshake = None, tl_LogLevel = '''', tl_MaxIdleTime = 0, tl_AuthenticationTimeout = 0, tl_MaxUdpRelayPacketSize = 0,
     tl_SNI = ''''\<rparr>"

text \<open>The \<open>server\<close> object overrides what it sets.\<close>

definition overlay :: "tuic_layer \<Rightarrow> tuic_layer \<Rightarrow> tuic_layer" where
  "overlay s t = \<lparr>
     tl_Certificate = (if tl_Certificate s \<noteq> '''' then tl_Certificate s else tl_Certificate t),
     tl_PrivateKey = (if tl_PrivateKey s \<noteq> '''' then tl_PrivateKey s else tl_PrivateKey t),
     tl_CongestionControl = (if tl_CongestionControl s \<noteq> '''' then tl_CongestionControl s else tl_CongestionControl t),
     tl_ALPN = (if tl_ALPN s \<noteq> [] then tl_ALPN s else tl_ALPN t),
     tl_UDPRelayMode = (if tl_UDPRelayMode s \<noteq> '''' then tl_UDPRelayMode s else tl_UDPRelayMode t),
     tl_ZeroRTTHandshake = (if tl_ZeroRTTHandshake s \<noteq> None then tl_ZeroRTTHandshake s else tl_ZeroRTTHandshake t),
     tl_LogLevel = (if tl_LogLevel s \<noteq> '''' then tl_LogLevel s else tl_LogLevel t),
     tl_MaxIdleTime = (if tl_MaxIdleTime s > 0 then tl_MaxIdleTime s else tl_MaxIdleTime t),
     tl_AuthenticationTimeout = (if tl_AuthenticationTimeout s > 0 then tl_AuthenticationTimeout s else tl_AuthenticationTimeout t),
     tl_MaxUdpRelayPacketSize = (if tl_MaxUdpRelayPacketSize s > 0 then tl_MaxUdpRelayPacketSize s else tl_MaxUdpRelayPacketSize t),
     tl_SNI = (if tl_SNI s \<noteq> '''' then tl_SNI s else tl_SNI t)\<rparr>"

definition instance_client :: "tuic_world \<Rightarrow> tuic_client_json \<Rightarrow> TuicClientSettings list" where
  "instance_client w c =
     (if tj_Enable c = Some False then []
      else let u0 = to_lower (tw_lower w) (trim_space (tj_UUID c));
               uuidVal = (if u0 = '''' then to_lower (tw_lower w) (trim_space (tj_ID c)) else u0)
           in if uuidVal = '''' \<or> tj_Password c = '''' then []
              else [\<lparr>tc_TrafficID = tj_TrafficID c, tc_UUID = str_bytes uuidVal, tc_Password = str_bytes (tj_Password c),
                     tc_Email = str_bytes (tj_Email c)\<rparr>])"

definition instance_packet_size :: "int \<Rightarrow> int" where
  "instance_packet_size n =
     (if n \<le> 0 then 1500 else if n > maxSafeUdpRelayPacketSize \<and> n \<le> maxLegacyUdpRelayPacketSize then maxSafeUdpRelayPacketSize else n)"

definition InstanceFromInbound :: "tuic_world \<Rightarrow> (string \<Rightarrow> tuic_settings option) \<Rightarrow> tuic_inbound option \<Rightarrow> Instance option" where
  "InstanceFromInbound w decode ibo =
     (case ibo of
        None \<Rightarrow> None
      | Some ib \<Rightarrow>
        (if ib_Protocol ib \<noteq> ''tuic'' then None
         else case (if ib_Settings ib \<noteq> '''' then decode (ib_Settings ib)
                    else Some \<lparr>tg_top = empty_layer, tg_Server = None, tg_Clients = []\<rparr>) of
                None \<Rightarrow> None
              | Some parsed \<Rightarrow>
                (let l = (case tg_Server parsed of None \<Rightarrow> tg_top parsed | Some s \<Rightarrow> overlay s (tg_top parsed)) in
                 Some \<lparr>in_Id = ib_Id ib, in_Tag = ib_Tag ib, in_Listen = ib_Listen ib, in_Port = ib_Port ib,
                   in_Certificate = tl_Certificate l, in_PrivateKey = tl_PrivateKey l,
                   in_CongestionControl = (case NormalizeCongestionControl w (tl_CongestionControl l) of Some cc \<Rightarrow> cc | None \<Rightarrow> ''new_reno''),
                   in_ALPN = (if tl_ALPN l = [] then [''h3'', ''spdy/3.1''] else tl_ALPN l),
                   in_UDPRelayMode = (if tl_UDPRelayMode l = '''' then ''native'' else tl_UDPRelayMode l),
                   in_ZeroRTTHandshake = (case tl_ZeroRTTHandshake l of None \<Rightarrow> True | Some b \<Rightarrow> b),
                   in_LogLevel = (if tl_LogLevel l = '''' then ''info'' else tl_LogLevel l),
                   in_MaxIdleTime = (if tl_MaxIdleTime l \<le> 0 then 15 else tl_MaxIdleTime l),
                   in_AuthenticationTimeout = (if tl_AuthenticationTimeout l \<le> 0 then 3 else tl_AuthenticationTimeout l),
                   in_MaxUdpRelayPacketSize = instance_packet_size (tl_MaxUdpRelayPacketSize l),
                   in_SNI = tl_SNI l, in_Clients = concat (map (instance_client w) (tg_Clients parsed))\<rparr>)))"

section \<open>Fingerprints\<close>

definition BindTo :: "Instance \<Rightarrow> string" where
  "BindTo inst = (if CHR '':'' \<in> set (in_Listen inst) then ''['' @ in_Listen inst @ '']'' else in_Listen inst) @ '':'' @ itoa (in_Port inst)"

definition fingerprintMaterial :: "tuic_world \<Rightarrow> string \<Rightarrow> string" where
  "fingerprintMaterial w v =
     tw_sha256 w (if v \<noteq> '''' \<and> \<not> contains_str v ''-----BEGIN '' then (case tw_file w v of Some file \<Rightarrow> file | None \<Rightarrow> v) else v)"

definition StructuralFingerprint :: "tuic_world \<Rightarrow> Instance \<Rightarrow> string" where
  "StructuralFingerprint w inst = join_with ''|''
     [BindTo inst, fingerprintMaterial w (in_Certificate inst), fingerprintMaterial w (in_PrivateKey inst), join_with '','' (in_ALPN inst),
      if in_ZeroRTTHandshake inst then ''true'' else ''false'', itoa (in_MaxIdleTime inst), itoa (in_AuthenticationTimeout inst),
      itoa (in_MaxUdpRelayPacketSize inst)]"

definition client_pair :: "TuicClientSettings \<Rightarrow> bytes" where
  "client_pair c = str_bytes (itoa (tc_TrafficID c) @ '':'') @ tc_Email c @ str_bytes ''='' @ tc_UUID c @ str_bytes '':'' @ tc_Password c"

fun join_bytes :: "bytes \<Rightarrow> bytes list \<Rightarrow> bytes" where
  "join_bytes sep [] = []"
| "join_bytes sep [x] = x"
| "join_bytes sep (x # y # xs) = x @ sep @ join_bytes sep (y # xs)"

definition UsersFingerprint :: "Instance \<Rightarrow> bytes" where
  "UsersFingerprint inst =
     join_bytes (str_bytes ''|'') (sort_stable (\<lambda>a b. ord_class.lexordp a b) (map client_pair (in_Clients inst)))"

definition FullFingerprint :: "tuic_world \<Rightarrow> Instance \<Rightarrow> bytes" where
  "FullFingerprint w inst = str_bytes (StructuralFingerprint w inst @ ''#'') @ UsersFingerprint inst"

section \<open>Construction of a server\<close>

definition parseLogLevel :: "tuic_world \<Rightarrow> string \<Rightarrow> nat" where
  "parseLogLevel w level =
     (let s = to_lower (tw_lower w) (trim_space level) in
      if s = ''debug'' then 0 else if s = ''warn'' \<or> s = ''warning'' then 2 else if s = ''error'' then 3 else 1)"

record runtime_settings =
  rs_tag :: string
  rs_congestionControl :: string
  rs_logLevel :: nat

definition normalizeCongestionControl :: "tuic_world \<Rightarrow> string \<Rightarrow> string \<times> bool" where
  "normalizeCongestionControl w controller =
     (case NormalizeCongestionControl w controller of None \<Rightarrow> (''new_reno'', False) | Some normalized \<Rightarrow> (normalized, True))"

definition updateRuntimeSettings :: "tuic_world \<Rightarrow> string \<Rightarrow> string \<Rightarrow> string \<Rightarrow> runtime_settings" where
  "updateRuntimeSettings w tag controller logLevel = \<lparr>rs_tag = tag,
     rs_congestionControl = fst (normalizeCongestionControl w controller),
     rs_logLevel = parseLogLevel w logLevel\<rparr>"

text \<open>The configuration a server runs with, of \<open>tls.Config\<close>, \<open>quic.Config\<close> and \<open>Server\<close>; times are durations in nanoseconds.\<close>

record server_limits =
  sl_certificate :: string
  sl_NextProtos :: "string list"
  sl_MaxIdleTimeout :: int
  sl_KeepAlivePeriod :: int
  sl_Allow0RTT :: bool
  sl_authTimeout :: int
  sl_maxUdpRelayPacketSize :: int

definition seconds :: "int \<Rightarrow> int" where "seconds n = mul64 n 1000000000"

definition loadCertificate :: "tuic_world \<Rightarrow> string \<Rightarrow> string \<Rightarrow> string res" where
  "loadCertificate w certInput keyInput =
     (if contains_str certInput ''-----BEGIN CERTIFICATE-----'' then tw_X509KeyPair w certInput keyInput
      else tw_LoadX509KeyPair w certInput keyInput)"

definition NewServer :: "tuic_world \<Rightarrow> Instance \<Rightarrow> (tuic_server \<times> server_limits \<times> runtime_settings) res" where
  "NewServer w inst =
     bind_res (ValidateClients (tw_uuid w) (in_Clients inst)) (\<lambda>_.
       if in_Certificate inst = '''' \<or> in_PrivateKey inst = '''' then Inl (Err ''tuic: certificate or private key missing'')
       else case loadCertificate w (in_Certificate inst) (in_PrivateKey inst) of
         Inl e \<Rightarrow> Inl (Err (''tuic: load tls certificate: '' @ error_text e))
       | Inr tlsCert \<Rightarrow>
         (let maxIdle = (if in_MaxIdleTime inst \<le> 0 then 15 else in_MaxIdleTime inst);
              authTimeout = (if in_AuthenticationTimeout inst \<le> 0 then 3 else in_AuthenticationTimeout inst);
              maxUdp0 = (if in_MaxUdpRelayPacketSize inst \<le> 0 then 1500 else in_MaxUdpRelayPacketSize inst);
              maxUdpSize = (if maxUdp0 > maxSafeUdpRelayPacketSize \<and> maxUdp0 \<le> maxLegacyUdpRelayPacketSize then maxSafeUdpRelayPacketSize
                            else maxUdp0)
          in if maxUdpSize > maxLegacyUdpRelayPacketSize
             then Inl (Err (''tuic: max UDP relay packet size '' @ itoa maxUdpSize @ '' exceeds '' @ itoa maxSafeUdpRelayPacketSize))
             else Inr (new_server (tw_uuid w) (in_Id inst) (in_Clients inst),
                       \<lparr>sl_certificate = tlsCert, sl_NextProtos = (if in_ALPN inst = [] then [''h3'', ''spdy/3.1''] else in_ALPN inst),
                        sl_MaxIdleTimeout = seconds maxIdle, sl_KeepAlivePeriod = seconds (quot maxIdle 2),
                        sl_Allow0RTT = in_ZeroRTTHandshake inst, sl_authTimeout = seconds authTimeout,
                        sl_maxUdpRelayPacketSize = maxUdpSize\<rparr>,
                       updateRuntimeSettings w (in_Tag inst) (in_CongestionControl inst) (in_LogLevel inst))))"

definition Start :: "tuic_world \<Rightarrow> Instance \<Rightarrow> tuic_server \<Rightarrow> tuic_server res" where
  "Start w inst s =
     (case tw_ListenPacket w (BindTo inst) of
        Inl e \<Rightarrow> Inl (Err (''tuic: listen packet on '' @ BindTo inst @ '': '' @ error_text e))
      | Inr _ \<Rightarrow>
         (case tw_quicListen w (BindTo inst) of
            Inl e \<Rightarrow> Inl (Err (''tuic: quic listen on '' @ BindTo inst @ '': '' @ error_text e))
          | Inr _ \<Rightarrow> Inr (s\<lparr>sv_running := True\<rparr>)))"

section \<open>The manager\<close>

record managed =
  mg_server :: tuic_server
  mg_limits :: server_limits
  mg_settings :: runtime_settings
  mg_tag :: string
  mg_structuralFP :: string
  mg_usersFP :: bytes

record Manager =
  mn_servers :: "(int \<times> managed) list"
  mn_lastStartErr :: "(int \<times> string) list"
  mn_pending :: "(bytes \<times> ClientTrafficDelta) list"

definition new_manager :: Manager where
  "new_manager = \<lparr>mn_servers = [], mn_lastStartErr = [], mn_pending = []\<rparr>"

definition HasRunning :: "Manager \<Rightarrow> bool" where
  "HasRunning m \<longleftrightarrow> (\<exists>p \<in> set (mn_servers m). IsRunning (mg_server (snd p)))"

definition traffic_key :: "ClientTrafficDelta \<Rightarrow> bytes" where
  "traffic_key d =
     (if td_TrafficID d = 0 \<and> td_InboundID d > 0 \<and> td_UUID d \<noteq> [] then str_bytes (itoa (td_InboundID d) @ '':'') @ td_UUID d
      else if td_TrafficID d > 0 then str_bytes (''traffic:'' @ itoa (td_TrafficID d))
      else td_Email d)"

definition zero_delta :: ClientTrafficDelta where
  "zero_delta = \<lparr>td_TrafficID = 0, td_Email = [], td_UUID = [], td_InboundID = 0, td_Up = 0, td_Down = 0\<rparr>"

definition merge_delta :: "ClientTrafficDelta \<Rightarrow> ClientTrafficDelta \<Rightarrow> ClientTrafficDelta" where
  "merge_delta current d = \<lparr>td_TrafficID = td_TrafficID d, td_Email = td_Email d, td_UUID = td_UUID d, td_InboundID = td_InboundID d,
     td_Up = add64 (td_Up current) (td_Up d), td_Down = add64 (td_Down current) (td_Down d)\<rparr>"

definition append_delta :: "ClientTrafficDelta \<Rightarrow> (bytes \<times> ClientTrafficDelta) list \<Rightarrow> (bytes \<times> ClientTrafficDelta) list" where
  "append_delta d pend =
     (let current = (case map_of pend (traffic_key d) of None \<Rightarrow> zero_delta | Some c \<Rightarrow> c) in put_key (traffic_key d) (merge_delta current d) pend)"

definition appendPendingTrafficLocked :: "ClientTrafficDelta list \<Rightarrow> Manager \<Rightarrow> Manager" where
  "appendPendingTrafficLocked deltas m = m\<lparr>mn_pending := fold append_delta deltas (mn_pending m)\<rparr>"

definition RequeueClientTraffic :: "ClientTrafficDelta list \<Rightarrow> Manager \<Rightarrow> Manager" where
  "RequeueClientTraffic deltas m = appendPendingTrafficLocked deltas m"

definition stopAndDrainLocked :: "managed \<Rightarrow> Manager \<Rightarrow> Manager" where
  "stopAndDrainLocked mg m = appendPendingTrafficLocked (fst (CollectClientTraffic (Server_Close (mg_server mg)))) m"

definition removeLocked :: "int \<Rightarrow> Manager \<Rightarrow> Manager" where
  "removeLocked iid m =
     (case map_of (mn_servers m) iid of
        None \<Rightarrow> m
      | Some existing \<Rightarrow>
         (let m = stopAndDrainLocked existing m
          in m\<lparr>mn_servers := del_key iid (mn_servers m), mn_lastStartErr := del_key iid (mn_lastStartErr m)\<rparr>))"

definition startLocked :: "tuic_world \<Rightarrow> Instance \<Rightarrow> (tuic_server \<times> server_limits \<times> runtime_settings) res" where
  "startLocked w inst =
     (case NewServer w inst of
        Inl e \<Rightarrow> Inl (Err (''tuic: init server for '' @ itoa (in_Id inst) @ '': '' @ error_text e))
      | Inr (s, limits, settings) \<Rightarrow>
         (case Start w inst s of
            Inl e \<Rightarrow> Inl (Err (''tuic: start server on '' @ BindTo inst @ '' for '' @ itoa (in_Id inst) @ '': '' @ error_text e))
          | Inr s \<Rightarrow> Inr (s, limits, settings)))"

definition start_managed :: "tuic_world \<Rightarrow> Instance \<Rightarrow> Manager \<Rightarrow> unit res \<times> Manager" where
  "start_managed w inst m =
     (case startLocked w inst of
        Inl e \<Rightarrow> (Inl e, if map_of (mn_lastStartErr m) (in_Id inst) \<noteq> Some (error_text e)
                          then m\<lparr>mn_lastStartErr := put_key (in_Id inst) (error_text e) (mn_lastStartErr m)\<rparr> else m)
      | Inr (s, limits, settings) \<Rightarrow>
         (Inr (), m\<lparr>mn_lastStartErr := del_key (in_Id inst) (mn_lastStartErr m),
                    mn_servers := put_key (in_Id inst) \<lparr>mg_server = s, mg_limits = limits, mg_settings = settings, mg_tag = in_Tag inst,
                      mg_structuralFP = StructuralFingerprint w inst, mg_usersFP = UsersFingerprint inst\<rparr> (mn_servers m)\<rparr>))"

definition refresh_managed :: "tuic_world \<Rightarrow> Instance \<Rightarrow> managed \<Rightarrow> managed" where
  "refresh_managed w inst existing =
     (let existing = existing\<lparr>mg_tag := in_Tag inst,
            mg_settings := updateRuntimeSettings w (in_Tag inst) (in_CongestionControl inst) (in_LogLevel inst)\<rparr>
      in if mg_usersFP existing \<noteq> UsersFingerprint inst
         then existing\<lparr>mg_usersFP := UsersFingerprint inst, mg_server := UpdateUsers (tw_uuid w) (in_Clients inst) (mg_server existing)\<rparr>
         else existing)"

definition ensureLocked :: "tuic_world \<Rightarrow> Instance \<Rightarrow> Manager \<Rightarrow> unit res \<times> Manager" where
  "ensureLocked w inst m =
     (case ValidateClients (tw_uuid w) (in_Clients inst) of
        Inl e \<Rightarrow> (Inl e, m)
      | Inr _ \<Rightarrow>
         (if in_Clients inst = [] then (Inr (), removeLocked (in_Id inst) m)
          else case map_of (mn_servers m) (in_Id inst) of
            None \<Rightarrow> start_managed w inst m
          | Some existing \<Rightarrow>
             (if IsRunning (mg_server existing) \<and> mg_structuralFP existing = StructuralFingerprint w inst
              then (Inr (), m\<lparr>mn_servers := put_key (in_Id inst) (refresh_managed w inst existing) (mn_servers m)\<rparr>)
              else let m = stopAndDrainLocked existing m in start_managed w inst (m\<lparr>mn_servers := del_key (in_Id inst) (mn_servers m)\<rparr>))))"

definition Ensure :: "tuic_world \<Rightarrow> Instance \<Rightarrow> Manager \<Rightarrow> unit res \<times> Manager" where
  "Ensure w inst m = ensureLocked w inst m"

definition Manager_Remove :: "int \<Rightarrow> Manager \<Rightarrow> Manager" where
  "Manager_Remove iid m = removeLocked iid m"

definition remove_undesired :: "Instance list \<Rightarrow> Manager \<Rightarrow> Manager" where
  "remove_undesired desired m =
     fold (\<lambda>iid m. if iid \<in> set (map in_Id desired) then m else removeLocked iid m) (map fst (mn_servers m)) m"

definition Manager_Reconcile :: "tuic_world \<Rightarrow> Instance list \<Rightarrow> Manager \<Rightarrow> Manager" where
  "Manager_Reconcile w desired m = fold (\<lambda>inst m. snd (ensureLocked w inst m)) desired (remove_undesired desired m)"

definition StopAll :: "Manager \<Rightarrow> Manager" where
  "StopAll m = (fold (\<lambda>p m. stopAndDrainLocked (snd p) m) (mn_servers m) m)\<lparr>mn_servers := []\<rparr>"

definition GetActiveClients :: "int \<Rightarrow> int \<Rightarrow> Manager \<Rightarrow> bytes list \<times> string list" where
  "GetActiveClients now window m =
     (let act = filter (\<lambda>p. IsRunning (mg_server (snd p)) \<and> GetActiveEmails now window (mg_server (snd p)) \<noteq> []) (mn_servers m)
      in (concat (map (\<lambda>p. GetActiveEmails now window (mg_server (snd p))) act), map (\<lambda>p. mg_tag (snd p)) act))"

record InboundTrafficDelta =
  itd_Tag :: string
  itd_Up :: int
  itd_Down :: int

definition collect_managed ::
  "int \<times> managed \<Rightarrow> (InboundTrafficDelta list \<times> ClientTrafficDelta list) \<times> (int \<times> managed) list \<Rightarrow>
     (InboundTrafficDelta list \<times> ClientTrafficDelta list) \<times> (int \<times> managed) list" where
  "collect_managed p acc =
     (case acc of ((inbounds, clients), servers) \<Rightarrow>
       (if IsRunning (mg_server (snd p))
        then case server_CollectAllTraffic (mg_server (snd p)) of
               ((up, down, cDeltas), s) \<Rightarrow>
                 ((if up > 0 \<or> down > 0 then inbounds @ [\<lparr>itd_Tag = mg_tag (snd p), itd_Up = up, itd_Down = down\<rparr>] else inbounds,
                   clients @ cDeltas), servers @ [(fst p, (snd p)\<lparr>mg_server := s\<rparr>)])
        else ((inbounds, clients), servers @ [p])))"

definition Manager_CollectAllTraffic :: "Manager \<Rightarrow> (InboundTrafficDelta list \<times> ClientTrafficDelta list) \<times> Manager" where
  "Manager_CollectAllTraffic m =
     (case fold collect_managed (mn_servers m) (([], map snd (mn_pending m)), []) of
        (out, servers) \<Rightarrow> (out, m\<lparr>mn_servers := servers, mn_pending := []\<rparr>))"

definition Manager_CollectClientTraffic :: "Manager \<Rightarrow> ClientTrafficDelta list \<times> Manager" where
  "Manager_CollectClientTraffic m = (case Manager_CollectAllTraffic m of ((_, clients), m) \<Rightarrow> (clients, m))"


section \<open>What the manager owes\<close>

text \<open>The key under which the traffic of an identity is booked for an inbound.\<close>

definition ident_key :: "int \<Rightarrow> identity \<Rightarrow> bytes" where
  "ident_key i k = (case k of (tid, email, uuid) \<Rightarrow>
     traffic_key \<lparr>td_TrafficID = tid, td_Email = email, td_UUID = uuid, td_InboundID = i, td_Up = 0, td_Down = 0\<rparr>)"

lemma traffic_key_ident: "traffic_key (d\<lparr>td_InboundID := i\<rparr>) = ident_key i (delta_ident d)"
  by (simp add: ident_key_def delta_ident_def traffic_key_def)

definition server_owed :: "(User \<Rightarrow> int) \<Rightarrow> bytes \<Rightarrow> tuic_server \<Rightarrow> int" where
  "server_owed f k s = sum_for (ident_key (sv_id s) \<circ> ident) f k (ur_heap (sv_users s))"

definition pending_owed :: "(ClientTrafficDelta \<Rightarrow> int) \<Rightarrow> bytes \<Rightarrow> Manager \<Rightarrow> int" where
  "pending_owed g k m = sum_for traffic_key g k (map snd (mn_pending m))"

definition owed :: "(User \<Rightarrow> int) \<Rightarrow> (ClientTrafficDelta \<Rightarrow> int) \<Rightarrow> bytes \<Rightarrow> Manager \<Rightarrow> int" where
  "owed f g k m = pending_owed g k m + sum_list (map (\<lambda>p. server_owed f k (mg_server (snd p))) (mn_servers m))"

definition sound_server :: "(User \<Rightarrow> int) \<Rightarrow> tuic_server \<Rightarrow> bool" where
  "sound_server f s \<longleftrightarrow> server_ok s \<and> (\<forall>x \<in> set (ur_heap (sv_users s)). 0 \<le> f x)"

definition pending_ok :: "(ClientTrafficDelta \<Rightarrow> int) \<Rightarrow> (bytes \<times> ClientTrafficDelta) list \<Rightarrow> bool" where
  "pending_ok g pend \<longleftrightarrow> distinct (map fst pend) \<and> (\<forall>k d. (k, d) \<in> set pend \<longrightarrow> traffic_key d = k \<and> 0 \<le> g d)"

definition manager_ok :: "(User \<Rightarrow> int) \<Rightarrow> (ClientTrafficDelta \<Rightarrow> int) \<Rightarrow> Manager \<Rightarrow> bool" where
  "manager_ok f g m \<longleftrightarrow> distinct (map fst (mn_servers m)) \<and> (\<forall>p \<in> set (mn_servers m). sound_server f (mg_server (snd p))) \<and>
     pending_ok g (mn_pending m)"

definition conserves :: "(User \<Rightarrow> int) \<Rightarrow> (ClientTrafficDelta \<Rightarrow> int) \<Rightarrow> Manager \<Rightarrow> Manager \<Rightarrow> bool" where
  "conserves f g m m' \<longleftrightarrow> manager_ok f g m' \<and> (\<forall>k. owed f g k m' = owed f g k m)"

lemma pending_lookup:
  "pending_ok g pend \<Longrightarrow> sum_for traffic_key g k (map snd pend) = (case map_of pend k of None \<Rightarrow> 0 | Some d \<Rightarrow> g d)"
proof (induction pend)
  case (Cons p pend)
  obtain k' d where p: "p = (k', d)" by (cases p)
  have ok: "pending_ok g pend" and d: "traffic_key d = k'" and new: "k' \<notin> fst ` set pend" using Cons.prems by (auto simp: pending_ok_def p)
  show ?case using Cons.IH[OF ok] d map_of_eq_None_iff[of pend k'] new by (auto simp: p)
qed simp

lemma sum_del_key:
  fixes F :: "'v \<Rightarrow> int"
  shows "distinct (map fst xs) \<Longrightarrow> map_of xs k = Some v \<Longrightarrow> sum_list (map (\<lambda>p. F (snd p)) (del_key k xs)) = sum_list (map (\<lambda>p. F (snd p)) xs) - F v"
proof (induction xs)
  case (Cons p xs)
  show ?case
  proof (cases "fst p = k")
    case True
    then have "k \<notin> fst ` set xs" using Cons.prems(1) by auto
    then have "del_key k xs = xs" by (force simp: del_key_def filter_id_conv)
    then show ?thesis using True Cons.prems(2) by (cases p) (auto simp: del_key_def)
  next
    case False
    then show ?thesis using Cons by (cases p) (auto simp: del_key_def)
  qed
qed simp

lemma del_key_absent: "map_of xs k = None \<Longrightarrow> del_key k xs = xs"
  by (force simp: del_key_def filter_id_conv map_of_eq_None_iff)

lemma Server_Close_id [simp]: "sv_id (Server_Close s) = sv_id s"
proof -
  have e: "sv_id (end_conn c t) = sv_id t" for c t
    by (auto simp: end_conn_def unregisterConn_def Let_def split: option.splits)
  have "sv_id (fold end_conn cs t) = sv_id t" for cs t by (induction cs arbitrary: t) (simp_all add: e)
  then show ?thesis by (simp add: Server_Close_def Let_def closeAllConns_def)
qed

lemma new_server_sound:
  "server_ok (new_server env iid cs)" "\<forall>x \<in> set (ur_heap (sv_users (new_server env iid cs))). idle_user x"
proof -
  show "server_ok (new_server env iid cs)" using new_run_inv[of env iid cs] by (simp add: run_inv_def new_run_def)
  obtain revoked ur where set: "SetUsers env cs NewUserRegistry = (revoked, ur)" by (metis surj_pair)
  have "registry_ok NewUserRegistry" by (simp add: registry_ok_def map_ok_def NewUserRegistry_def)
  then obtain new where "ur_heap ur = ur_heap NewUserRegistry @ new" "\<forall>u \<in> set new. idle_user u"
    by (rule SetUsers_effect[OF _ set])
  then show "\<forall>x \<in> set (ur_heap (sv_users (new_server env iid cs))). idle_user x"
    using set by (simp add: new_server_def NewUserRegistry_def)
qed

lemma UpdateUsers_sound:
  assumes "server_ok s"
  shows "server_ok (UpdateUsers env cs s)" "sv_id (UpdateUsers env cs s) = sv_id s"
    "\<exists>new. ur_heap (sv_users (UpdateUsers env cs s)) = ur_heap (sv_users s) @ new \<and> (\<forall>x \<in> set new. idle_user x)"
proof -
  obtain rv t where u: "update_users env cs s = (rv, t)" by (metis surj_pair)
  have f: "server_ok (fold closeUserConns us t) = server_ok t \<and> sv_users (fold closeUserConns us t) = sv_users t \<and>
      sv_id (fold closeUserConns us t) = sv_id t" for us t
    by (induction us arbitrary: t) (simp_all add: closeUserConns_def)
  have "sv_id t = sv_id s" using u by (auto simp: update_users_def split: sum.splits prod.splits)
  then show "server_ok (UpdateUsers env cs s)" "sv_id (UpdateUsers env cs s) = sv_id s"
    "\<exists>new. ur_heap (sv_users (UpdateUsers env cs s)) = ur_heap (sv_users s) @ new \<and> (\<forall>x \<in> set new. idle_user x)"
    using update_users_ok(1,5)[OF assms u] f by (simp_all add: UpdateUsers_def u)
qed

text \<open>A counter with its place in the ledger of the manager.\<close>

locale traffic_ledger = traffic_counter +
  assumes merged: "field (merge_delta c d) = add64 (field c) (field d)"
    and blank: "field zero_delta = 0"
begin

lemma append_delta_adds:
  assumes ok: "pending_ok field pend" and d: "0 \<le> field d" and less: "sum_for traffic_key field (traffic_key d) (map snd pend) + field d < 2 ^ 63"
  shows "pending_ok field (append_delta d pend)"
    and "sum_for traffic_key field k (map snd (append_delta d pend)) =
      sum_for traffic_key field k (map snd pend) + (if traffic_key d = k then field d else 0)"
proof -
  let ?c = "case map_of pend (traffic_key d) of None \<Rightarrow> zero_delta | Some c \<Rightarrow> c"
  have c: "field ?c = sum_for traffic_key field (traffic_key d) (map snd pend)"
    unfolding pending_lookup[OF ok] by (simp add: blank split: option.splits)
  have "0 \<le> field ?c" using ok blank by (auto simp: pending_ok_def dest: map_of_SomeD split: option.splits)
  then have m: "field (merge_delta ?c d) = field ?c + field d" "0 \<le> field (merge_delta ?c d)"
    using d less c by (simp_all add: merged add64_def wrap64_def)
  have key: "traffic_key (merge_delta ?c d) = traffic_key d" by (simp add: traffic_key_def merge_delta_def)
  have "traffic_key d \<notin> fst ` set (del_key (traffic_key d) pend)" "set (del_key (traffic_key d) pend) \<subseteq> set pend" by (auto simp: del_key_def)
  then show ok': "pending_ok field (append_delta d pend)"
    using ok m(2) key distinct_del_key[of pend] unfolding pending_ok_def append_delta_def Let_def put_key_def by auto
  show "sum_for traffic_key field k (map snd (append_delta d pend)) =
      sum_for traffic_key field k (map snd pend) + (if traffic_key d = k then field d else 0)"
    unfolding pending_lookup[OF ok'] using m(1) c pending_lookup[OF ok, of k] by (auto simp: append_delta_def)
qed

lemma append_all_adds:
  "pending_ok field pend \<Longrightarrow> \<forall>d \<in> set ds. 0 \<le> field d \<Longrightarrow>
   (\<And>k. sum_for traffic_key field k (map snd pend) + sum_for traffic_key field k ds < 2 ^ 63) \<Longrightarrow>
   pending_ok field (fold append_delta ds pend) \<and>
   (\<forall>k. sum_for traffic_key field k (map snd (fold append_delta ds pend)) = sum_for traffic_key field k (map snd pend) + sum_for traffic_key field k ds)"
proof (induction ds arbitrary: pend)
  case (Cons d ds)
  have "0 \<le> sum_for traffic_key field k ds" for k using Cons.prems(2) by (intro sum_for_nonneg) simp
  then have "sum_for traffic_key field (traffic_key d) (map snd pend) + field d < 2 ^ 63"
    using Cons.prems(3)[of "traffic_key d"] by (simp add: add.assoc) (smt (verit))
  note a = append_delta_adds[OF Cons.prems(1) _ this]
  have "0 \<le> field d" using Cons.prems(2) by simp
  note a = a[OF this]
  have "sum_for traffic_key field k (map snd (append_delta d pend)) + sum_for traffic_key field k ds < 2 ^ 63" for k
    using Cons.prems(3)[of k] a(2)[of k] by (simp add: add.assoc)
  from Cons.IH[OF a(1) _ this] show ?case using Cons.prems(2) a(2) by simp
qed simp

lemma collect_owed:
  assumes ok: "sound_server count s" and run: "CollectClientTraffic s = (ds, s')"
  shows "sum_for traffic_key field k ds = server_owed count k s" "server_owed count k s' = 0" "\<forall>d \<in> set ds. 0 \<le> field d" "sound_server count s'"
proof -
  have so: "server_ok s" and reg: "registry_ok (sv_users s)" and pos: "\<forall>x \<in> set (ur_heap (sv_users s)). 0 \<le> count x"
    using ok by (simp_all add: sound_server_def server_ok_def)
  obtain d ur where c: "CollectTrafficDeltas (sv_users s) = (d, ur)" by (metis surj_pair)
  have r: "ds = map (\<lambda>x. x\<lparr>td_InboundID := sv_id s\<rparr>) d" "s' = s\<lparr>sv_users := ur\<rparr>" using run c by (auto simp: CollectClientTraffic_def)
  note C = CollectTrafficDeltas_conserves[OF reg c pos]
  have "sum_for traffic_key field k (map (\<lambda>x. x\<lparr>td_InboundID := sv_id s\<rparr>) d) = sum_for (ident_key (sv_id s) \<circ> delta_ident) field k d"
    by (induction d) (simp_all add: traffic_key_ident inbound)
  then show "sum_for traffic_key field k ds = server_owed count k s" using C(1) by (simp add: r server_owed_def)
  show "server_owed count k s' = 0" unfolding server_owed_def using C(2) by (intro sum_for_zero) (simp add: r)
  show "\<forall>d \<in> set ds. 0 \<le> field d" using C(3) by (auto simp: r inbound)
  show "sound_server count s'" using CollectClientTraffic_ok(1)[OF so run] C(2) by (simp add: sound_server_def r)
qed

lemma close_owed:
  assumes "sound_server count s"
  shows "sound_server count (Server_Close s)" "server_owed count k (Server_Close s) = server_owed count k s"
proof -
  have so: "server_ok s" using assms by (simp add: sound_server_def)
  have m: "map traffic_of (ur_heap (sv_users (Server_Close s))) = map traffic_of (ur_heap (sv_users s))"
    using Server_Close_ok(2)[OF so] by (simp add: silent_def)
  show "sound_server count (Server_Close s)"
    using assms Server_Close_ok(1)[OF so] sum_for_seen(2)[OF m] by (simp add: sound_server_def)
  show "server_owed count k (Server_Close s) = server_owed count k s" using sum_for_seen(1)[OF m] by (simp add: server_owed_def)
qed

text \<open>Stopping a server moves what it owes to the pending traffic.\<close>

lemma drain_adds:
  assumes ok: "manager_ok count field m" and mg: "sound_server count (mg_server mg)"
    and less: "\<And>k. pending_owed field k m + server_owed count k (mg_server mg) < 2 ^ 63"
  shows "manager_ok count field (stopAndDrainLocked mg m)"
    and "pending_owed field k (stopAndDrainLocked mg m) = pending_owed field k m + server_owed count k (mg_server mg)"
    and "mn_servers (stopAndDrainLocked mg m) = mn_servers m" "mn_lastStartErr (stopAndDrainLocked mg m) = mn_lastStartErr m"
proof -
  obtain ds s' where c: "CollectClientTraffic (Server_Close (mg_server mg)) = (ds, s')" by (metis surj_pair)
  note C = collect_owed[OF close_owed(1)[OF mg] c]
  have p: "pending_ok field (mn_pending m)" using ok by (simp add: manager_ok_def)
  have l: "sum_for traffic_key field k (map snd (mn_pending m)) + sum_for traffic_key field k ds < 2 ^ 63" for k
    using less[of k] unfolding C(1) close_owed(2)[OF mg] pending_owed_def .
  note A = append_all_adds[OF p C(3) l]
  show "manager_ok count field (stopAndDrainLocked mg m)" "mn_servers (stopAndDrainLocked mg m) = mn_servers m"
    "mn_lastStartErr (stopAndDrainLocked mg m) = mn_lastStartErr m"
    using ok A by (simp_all add: manager_ok_def stopAndDrainLocked_def c appendPendingTrafficLocked_def)
  show "pending_owed field k (stopAndDrainLocked mg m) = pending_owed field k m + server_owed count k (mg_server mg)"
    using A C(1)[of k] close_owed(2)[OF mg, of k] by (simp add: pending_owed_def stopAndDrainLocked_def c appendPendingTrafficLocked_def)
qed

lemma server_owed_nonneg: "sound_server count s \<Longrightarrow> 0 \<le> server_owed count k s"
  unfolding server_owed_def sound_server_def by (intro sum_for_nonneg) simp

text \<open>A server of the manager owes no more than the manager.\<close>

lemma member_owed:
  assumes ok: "manager_ok count field m" and p: "p \<in> set (mn_servers m)"
  shows "sound_server count (mg_server (snd p))" "pending_owed field k m + server_owed count k (mg_server (snd p)) \<le> owed count field k m"
proof -
  show "sound_server count (mg_server (snd p))" using ok p by (simp add: manager_ok_def)
  have "server_owed count k (mg_server (snd p)) \<le> sum_list (map (\<lambda>p. server_owed count k (mg_server (snd p))) (mn_servers m))"
    using p ok by (intro member_le_sum_list) (auto simp: manager_ok_def intro!: server_owed_nonneg)
  then show "pending_owed field k m + server_owed count k (mg_server (snd p)) \<le> owed count field k m" by (simp add: owed_def)
qed

lemma retire_conserves:
  assumes ok: "manager_ok count field m" and less: "\<And>k. owed count field k m < 2 ^ 63" and ex: "map_of (mn_servers m) iid = Some mg"
  shows "conserves count field m ((stopAndDrainLocked mg m)\<lparr>mn_servers := del_key iid (mn_servers (stopAndDrainLocked mg m))\<rparr>)"
proof -
  have p: "(iid, mg) \<in> set (mn_servers m)" using map_of_SomeD[OF ex] .
  note M = member_owed[OF ok p]
  have "pending_owed field k m + server_owed count k (mg_server mg) < 2 ^ 63" for k using M(2)[of k] less[of k] by simp
  note D = drain_adds[OF ok _ this]
  have mg: "sound_server count (mg_server mg)" using M(1) by simp
  note D = D[OF mg]
  let ?m = "(stopAndDrainLocked mg m)\<lparr>mn_servers := del_key iid (mn_servers (stopAndDrainLocked mg m))\<rparr>"
  have dist: "distinct (map fst (mn_servers m))" using ok by (simp add: manager_ok_def)
  have "manager_ok count field ?m"
    using D(1,3) distinct_del_key[OF dist] by (auto simp: manager_ok_def del_key_def)
  moreover have "owed count field k ?m = owed count field k m" for k
    using D(2)[of k] D(3) sum_del_key[OF dist ex, of "\<lambda>mg. server_owed count k (mg_server mg)"]
    by (simp add: owed_def pending_owed_def)
  ultimately show ?thesis by (simp add: conserves_def)
qed

lemma conserves_refl: "manager_ok count field m \<Longrightarrow> conserves count field m m"
  by (simp add: conserves_def)

lemma conserves_trans: "conserves count field a b \<Longrightarrow> conserves count field b c \<Longrightarrow> conserves count field a c"
  by (simp add: conserves_def)

lemma conserves_errors: "conserves count field m m' \<Longrightarrow> conserves count field m (m'\<lparr>mn_lastStartErr := e\<rparr>)"
  by (simp add: conserves_def manager_ok_def owed_def pending_owed_def)

lemma removeLocked_conserves:
  assumes "manager_ok count field m" "\<And>k. owed count field k m < 2 ^ 63"
  shows "conserves count field m (removeLocked iid m)"
proof (cases "map_of (mn_servers m) iid")
  case None
  then show ?thesis using conserves_refl[OF assms(1)] by (simp add: removeLocked_def)
next
  case (Some mg)
  have "removeLocked iid m = ((stopAndDrainLocked mg m)\<lparr>mn_servers := del_key iid (mn_servers (stopAndDrainLocked mg m))\<rparr>)
      \<lparr>mn_lastStartErr := del_key iid (mn_lastStartErr (stopAndDrainLocked mg m))\<rparr>"
    using Some by (simp add: removeLocked_def Let_def)
  then show ?thesis using conserves_errors[OF retire_conserves[OF assms Some]] by simp
qed

text \<open>A server that is added owes nothing; one that is refreshed owes what it owed.\<close>

lemma put_server_conserves:
  assumes ok: "manager_ok count field m" and mg: "sound_server count (mg_server mg)"
    and same: "\<And>k. server_owed count k (mg_server mg) =
      (case map_of (mn_servers m) iid of None \<Rightarrow> 0 | Some old \<Rightarrow> server_owed count k (mg_server old))"
  shows "conserves count field m (m\<lparr>mn_servers := put_key iid mg (mn_servers m)\<rparr>)"
proof -
  have dist: "distinct (map fst (mn_servers m))" using ok by (simp add: manager_ok_def)
  have "iid \<notin> fst ` set (del_key iid (mn_servers m))" "set (del_key iid (mn_servers m)) \<subseteq> set (mn_servers m)" by (auto simp: del_key_def)
  then have "manager_ok count field (m\<lparr>mn_servers := put_key iid mg (mn_servers m)\<rparr>)"
    using ok mg distinct_del_key[OF dist] by (auto simp: manager_ok_def put_key_def)
  moreover have "owed count field k (m\<lparr>mn_servers := put_key iid mg (mn_servers m)\<rparr>) = owed count field k m" for k
  proof (cases "map_of (mn_servers m) iid")
    case None
    then show ?thesis using same[of k] by (simp add: owed_def pending_owed_def put_key_def del_key_absent)
  next
    case (Some old)
    then show ?thesis using same[of k] sum_del_key[OF dist Some, of "\<lambda>mg. server_owed count k (mg_server mg)"]
      by (simp add: owed_def pending_owed_def put_key_def)
  qed
  ultimately show ?thesis by (simp add: conserves_def)
qed

lemma start_managed_conserves:
  assumes ok: "manager_ok count field m" and free: "map_of (mn_servers m) (in_Id inst) = None"
  shows "conserves count field m (snd (start_managed w inst m))"
proof (cases "startLocked w inst")
  case (Inl e)
  then show ?thesis using conserves_refl[OF ok] conserves_errors by (auto simp: start_managed_def)
next
  case (Inr st)
  obtain s limits settings where st: "st = (s, limits, settings)" by (cases st)
  have "s = (new_server (tw_uuid w) (in_Id inst) (in_Clients inst))\<lparr>sv_running := True\<rparr>"
    using Inr unfolding st startLocked_def NewServer_def Start_def Let_def
    by (auto elim!: bind_resE split: sum.splits prod.splits if_splits)
  then have idle: "\<forall>x \<in> set (ur_heap (sv_users s)). idle_user x" and so: "server_ok s" using new_server_sound by simp_all
  have zero: "\<forall>x \<in> set (ur_heap (sv_users s)). count x = 0"
    using idle traffic_counter_axioms by (auto simp: traffic_counter_def)
  let ?mg = "\<lparr>mg_server = s, mg_limits = limits, mg_settings = settings, mg_tag = in_Tag inst,
    mg_structuralFP = StructuralFingerprint w inst, mg_usersFP = UsersFingerprint inst\<rparr>"
  have "sound_server count s" using so zero by (simp add: sound_server_def)
  moreover have "server_owed count k s = 0" for k unfolding server_owed_def using zero by (intro sum_for_zero) simp
  ultimately have "conserves count field m (m\<lparr>mn_servers := put_key (in_Id inst) ?mg (mn_servers m)\<rparr>)"
    using free by (intro put_server_conserves[OF ok]) simp_all
  from conserves_errors[OF this, of "del_key (in_Id inst) (mn_lastStartErr m)"] show ?thesis
    using Inr by (cases m) (simp add: start_managed_def st)
qed

lemma refresh_owed:
  assumes "sound_server count (mg_server mg)"
  shows "sound_server count (mg_server (refresh_managed w inst mg))"
    and "server_owed count k (mg_server (refresh_managed w inst mg)) = server_owed count k (mg_server mg)"
proof -
  have so: "server_ok (mg_server mg)" using assms by (simp add: sound_server_def)
  let ?s = "UpdateUsers (tw_uuid w) (in_Clients inst) (mg_server mg)"
  obtain new where new: "ur_heap (sv_users ?s) = ur_heap (sv_users (mg_server mg)) @ new" "\<forall>x \<in> set new. idle_user x"
    using UpdateUsers_sound(3)[OF so] by blast
  have zero: "\<forall>x \<in> set new. count x = 0" using new(2) idle by auto
  then have "sum_for (ident_key i \<circ> ident) count k new = 0" for i k by (intro sum_for_zero) simp
  then have "sound_server count ?s" "server_owed count k ?s = server_owed count k (mg_server mg)" for k
    using assms UpdateUsers_sound(1,2)[OF so] new(1) zero by (auto simp: sound_server_def server_owed_def)
  then show "sound_server count (mg_server (refresh_managed w inst mg))"
    "server_owed count k (mg_server (refresh_managed w inst mg)) = server_owed count k (mg_server mg)"
    using assms by (simp_all add: refresh_managed_def Let_def)
qed

lemma ensureLocked_conserves:
  assumes ok: "manager_ok count field m" and less: "\<And>k. owed count field k m < 2 ^ 63"
  shows "conserves count field m (snd (ensureLocked w inst m))"
proof (cases "ValidateClients (tw_uuid w) (in_Clients inst)")
  case (Inl e)
  then show ?thesis using conserves_refl[OF ok] by (simp add: ensureLocked_def)
next
  case (Inr x)
  show ?thesis
  proof (cases "in_Clients inst = []")
    case True
    then show ?thesis using Inr removeLocked_conserves[OF assms] by (simp add: ensureLocked_def)
  next
    case False
    show ?thesis
    proof (cases "map_of (mn_servers m) (in_Id inst)")
      case None
      then show ?thesis using Inr False start_managed_conserves[OF ok None] by (simp add: ensureLocked_def)
    next
      case (Some mg)
      have mg: "sound_server count (mg_server mg)" using member_owed(1)[OF ok map_of_SomeD[OF Some]] by simp
      have "conserves count field m (m\<lparr>mn_servers := put_key (in_Id inst) (refresh_managed w inst mg) (mn_servers m)\<rparr>)"
        by (rule put_server_conserves[OF ok]) (simp_all add: refresh_owed[OF mg] Some)
      moreover note R = retire_conserves[OF assms Some]
      have "conserves count field m (snd (start_managed w inst ((stopAndDrainLocked mg m)\<lparr>mn_servers := del_key (in_Id inst) (mn_servers (stopAndDrainLocked mg m))\<rparr>)))"
        using conserves_trans[OF R start_managed_conserves] R by (simp add: conserves_def map_of_del_key)
      ultimately show ?thesis using Inr False Some by (simp add: ensureLocked_def Let_def)
    qed
  qed
qed

lemma fold_conserves:
  assumes "\<And>x m. manager_ok count field m \<Longrightarrow> (\<And>k. owed count field k m < 2 ^ 63) \<Longrightarrow> conserves count field m (F x m)"
  shows "manager_ok count field m \<Longrightarrow> (\<And>k. owed count field k m < 2 ^ 63) \<Longrightarrow> conserves count field m (fold F xs m)"
proof (induction xs arbitrary: m)
  case (Cons x xs)
  have c: "conserves count field m (F x m)" using assms Cons.prems by blast
  then have "conserves count field (F x m) (fold F xs (F x m))" using Cons.IH Cons.prems(2) by (simp add: conserves_def)
  then show ?case using conserves_trans[OF c] by simp
qed (simp add: conserves_refl)

lemma Reconcile_conserves:
  assumes "manager_ok count field m" "\<And>k. owed count field k m < 2 ^ 63"
  shows "conserves count field m (Manager_Reconcile w desired m)"
proof -
  have r: "conserves count field m (remove_undesired desired m)" unfolding remove_undesired_def
    by (rule fold_conserves) (use assms removeLocked_conserves conserves_refl in auto)
  have "conserves count field (remove_undesired desired m) (Manager_Reconcile w desired m)" unfolding Manager_Reconcile_def
    by (rule fold_conserves) (use r assms(2) ensureLocked_conserves in \<open>auto simp: conserves_def\<close>)
  then show ?thesis using conserves_trans[OF r] by simp
qed

lemma StopAll_conserves:
  assumes "manager_ok count field m" "\<And>k. owed count field k m < 2 ^ 63"
  shows "conserves count field m (StopAll m)"
proof -
  have "manager_ok count field (fold (\<lambda>p m. stopAndDrainLocked (snd p) m) ps q) \<and>
      mn_servers (fold (\<lambda>p m. stopAndDrainLocked (snd p) m) ps q) = mn_servers q \<and>
      (\<forall>k. pending_owed field k (fold (\<lambda>p m. stopAndDrainLocked (snd p) m) ps q) =
        pending_owed field k q + sum_list (map (\<lambda>p. server_owed count k (mg_server (snd p))) ps))"
    if "manager_ok count field q" "\<forall>p \<in> set ps. sound_server count (mg_server (snd p))"
      "\<And>k. pending_owed field k q + sum_list (map (\<lambda>p. server_owed count k (mg_server (snd p))) ps) < 2 ^ 63" for ps q
    using that
  proof (induction ps arbitrary: q)
    case (Cons p ps)
    have nn: "0 \<le> sum_list (map (\<lambda>p. server_owed count k (mg_server (snd p))) ps)" for k
      using Cons.prems(2) by (intro sum_list_nonneg) (auto intro!: server_owed_nonneg)
    have "pending_owed field k q + server_owed count k (mg_server (snd p)) < 2 ^ 63" for k using Cons.prems(3)[of k] nn[of k] by simp
    note D = drain_adds[OF Cons.prems(1) _ this]
    have "sound_server count (mg_server (snd p))" using Cons.prems(2) by simp
    note D = D[OF this]
    show ?case using Cons.IH[OF D(1)] Cons.prems(2,3) D(2,3) by (simp add: add.assoc)
  qed simp
  from this[OF assms(1), of "mn_servers m"] show ?thesis
    using assms by (simp add: conserves_def StopAll_def manager_ok_def owed_def pending_owed_def)
qed

text \<open>A collection returns all that is pending and all that running servers owe.\<close>

lemma collect_managed_fold:
  "\<forall>p \<in> set ps. sound_server count (mg_server (snd p)) \<Longrightarrow> \<forall>p \<in> set servers. sound_server count (mg_server (snd p)) \<Longrightarrow>
   fold collect_managed ps ((inb, clients), servers) = ((inb', clients'), servers') \<Longrightarrow>
   map fst servers' = map fst servers @ map fst ps \<and> (\<forall>p \<in> set servers'. sound_server count (mg_server (snd p))) \<and>
   (\<forall>k. sum_for traffic_key field k clients' + sum_list (map (\<lambda>p. server_owed count k (mg_server (snd p))) servers') =
        sum_for traffic_key field k clients + sum_list (map (\<lambda>p. server_owed count k (mg_server (snd p))) servers) +
        sum_list (map (\<lambda>p. server_owed count k (mg_server (snd p))) ps)) \<and>
   (\<forall>k. sum_list (map (\<lambda>p. server_owed count k (mg_server (snd p))) servers') =
        sum_list (map (\<lambda>p. server_owed count k (mg_server (snd p))) servers) +
        sum_list (map (\<lambda>p. server_owed count k (mg_server (snd p))) (filter (\<lambda>p. \<not> IsRunning (mg_server (snd p))) ps)))"
proof (induction ps arbitrary: inb clients servers)
  case (Cons p ps)
  have sp: "sound_server count (mg_server (snd p))" using Cons.prems(1) by simp
  show ?case
  proof (cases "IsRunning (mg_server (snd p))")
    case True
    obtain ds s where c: "CollectClientTraffic (mg_server (snd p)) = (ds, s)" by (metis surj_pair)
    note C = collect_owed[OF sp c]
    obtain i1 where "collect_managed p ((inb, clients), servers) = ((i1, clients @ ds), servers @ [(fst p, (snd p)\<lparr>mg_server := s\<rparr>)])"
      using True c by (simp add: collect_managed_def server_CollectAllTraffic_def)
    then have f: "fold collect_managed ps ((i1, clients @ ds), servers @ [(fst p, (snd p)\<lparr>mg_server := s\<rparr>)]) = ((inb', clients'), servers')"
      using Cons.prems(3) by simp
    let ?S = "\<lambda>k ps. sum_list (map (\<lambda>p. server_owed count k (mg_server (snd p))) ps)"
    have I: "map fst servers' = map fst (servers @ [(fst p, (snd p)\<lparr>mg_server := s\<rparr>)]) @ map fst ps" "\<forall>p \<in> set servers'. sound_server count (mg_server (snd p))"
      "\<And>k. sum_for traffic_key field k clients' + ?S k servers' =
        sum_for traffic_key field k (clients @ ds) + ?S k (servers @ [(fst p, (snd p)\<lparr>mg_server := s\<rparr>)]) + ?S k ps"
      "\<And>k. ?S k servers' = ?S k (servers @ [(fst p, (snd p)\<lparr>mg_server := s\<rparr>)]) + ?S k (filter (\<lambda>p. \<not> IsRunning (mg_server (snd p))) ps)"
    proof -
      have a: "\<forall>p \<in> set ps. sound_server count (mg_server (snd p))" "\<forall>p \<in> set (servers @ [(fst p, (snd p)\<lparr>mg_server := s\<rparr>)]). sound_server count (mg_server (snd p))"
        using Cons.prems(1,2) C(4) by auto
      note I = Cons.IH[OF a f]
      show "map fst servers' = map fst (servers @ [(fst p, (snd p)\<lparr>mg_server := s\<rparr>)]) @ map fst ps" using I by blast
      show "\<forall>p \<in> set servers'. sound_server count (mg_server (snd p))" using I by blast
      show "sum_for traffic_key field k clients' + ?S k servers' =
          sum_for traffic_key field k (clients @ ds) + ?S k (servers @ [(fst p, (snd p)\<lparr>mg_server := s\<rparr>)]) + ?S k ps" for k using I by blast
      show "?S k servers' = ?S k (servers @ [(fst p, (snd p)\<lparr>mg_server := s\<rparr>)]) + ?S k (filter (\<lambda>p. \<not> IsRunning (mg_server (snd p))) ps)" for k
        using I by blast
    qed
    have "sum_for traffic_key field k clients' + ?S k servers' = sum_for traffic_key field k clients + ?S k servers + ?S k (p # ps)" for k
      using I(3)[of k] by (simp add: C(1,2))
    moreover have "?S k servers' = ?S k servers + ?S k (filter (\<lambda>p. \<not> IsRunning (mg_server (snd p))) (p # ps))" for k
      using I(4)[of k] True by (simp add: C(2))
    ultimately show ?thesis using I(1,2) by simp
  next
    case False
    then have "collect_managed p ((inb, clients), servers) = ((inb, clients), servers @ [p])" by (simp add: collect_managed_def)
    then have f: "fold collect_managed ps ((inb, clients), servers @ [p]) = ((inb', clients'), servers')" using Cons.prems(3) by simp
    have a: "\<forall>p \<in> set ps. sound_server count (mg_server (snd p))" "\<forall>p \<in> set (servers @ [p]). sound_server count (mg_server (snd p))"
      using Cons.prems(1,2) by auto
    have keep: "filter (\<lambda>p. \<not> IsRunning (mg_server (snd p))) (p # ps) = p # filter (\<lambda>p. \<not> IsRunning (mg_server (snd p))) ps" using False by simp
    show ?thesis unfolding keep using Cons.IH[OF a f]
      by (simp (no_asm_use) only: map_append append.simps list.map sum_list_append sum_list.Cons sum_list.Nil append_assoc add.assoc add_0_right add_0_left)
  qed
qed simp

lemma CollectAll_conserves:
  assumes ok: "manager_ok count field m" and run: "Manager_CollectAllTraffic m = ((inb, clients), m')"
  shows "manager_ok count field m'" "sum_for traffic_key field k clients + owed count field k m' = owed count field k m"
    "owed count field k m' = sum_list (map (\<lambda>p. server_owed count k (mg_server (snd p))) (filter (\<lambda>p. \<not> IsRunning (mg_server (snd p))) (mn_servers m)))"
proof -
  obtain servers where f: "fold collect_managed (mn_servers m) (([], map snd (mn_pending m)), []) = ((inb, clients), servers)"
    and m': "m' = m\<lparr>mn_servers := servers, mn_pending := []\<rparr>"
    using run by (auto simp: Manager_CollectAllTraffic_def split: prod.splits)
  have "\<forall>p \<in> set (mn_servers m). sound_server count (mg_server (snd p))" using ok by (simp add: manager_ok_def)
  note C = collect_managed_fold[OF this _ f]
  show "manager_ok count field m'" using C ok by (simp add: manager_ok_def m' pending_ok_def)
  have C3: "sum_for traffic_key field k clients + sum_list (map (\<lambda>p. server_owed count k (mg_server (snd p))) servers) = owed count field k m"
    unfolding owed_def pending_owed_def using C[THEN conjunct2, THEN conjunct2, THEN conjunct1, rule_format, of k] by simp
  then show "sum_for traffic_key field k clients + owed count field k m' = owed count field k m"
    by (simp add: owed_def pending_owed_def m')
  show "owed count field k m' = sum_list (map (\<lambda>p. server_owed count k (mg_server (snd p))) (filter (\<lambda>p. \<not> IsRunning (mg_server (snd p))) (mn_servers m)))"
    using C by (simp add: owed_def pending_owed_def m')
qed

end

interpretation upload_ledger: traffic_ledger us_BytesUp td_Up "\<lambda>up down. up"
  by unfold_locales (simp_all add: merge_delta_def zero_delta_def)

interpretation download_ledger: traffic_ledger us_BytesDown td_Down "\<lambda>up down. down"
  by unfold_locales (simp_all add: merge_delta_def zero_delta_def)


section \<open>Convergence\<close>

text \<open>An entry that runs an instance as configured.\<close>

definition runs :: "tuic_world \<Rightarrow> Instance \<Rightarrow> managed \<Rightarrow> bool" where
  "runs w inst mg \<longleftrightarrow> IsRunning (mg_server mg) \<and> mg_structuralFP mg = StructuralFingerprint w inst \<and>
     mg_usersFP mg = UsersFingerprint inst \<and> mg_tag mg = in_Tag inst"

definition startable :: "tuic_world \<Rightarrow> Instance \<Rightarrow> bool" where
  "startable w inst \<longleftrightarrow> in_Clients inst \<noteq> [] \<and> ok (startLocked w inst)"

text \<open>The connections of a server that need not be restarted.\<close>

definition kept_running :: "tuic_world \<Rightarrow> Instance \<Rightarrow> managed \<Rightarrow> managed \<Rightarrow> bool" where
  "kept_running w inst old mg \<longleftrightarrow>
     (IsRunning (mg_server old) \<and> mg_structuralFP old = StructuralFingerprint w inst \<longrightarrow>
        sv_active (mg_server mg) = sv_active (mg_server old) \<and> sv_auth (mg_server mg) = sv_auth (mg_server old))"

lemma drain_servers [simp]: "mn_servers (stopAndDrainLocked mg m) = mn_servers m"
  by (simp add: stopAndDrainLocked_def appendPendingTrafficLocked_def)

lemma removeLocked_lookup: "map_of (mn_servers (removeLocked iid m)) k = (if k = iid then None else map_of (mn_servers m) k)"
  by (auto simp: removeLocked_def Let_def map_of_del_key split: option.splits)

lemma remove_fold_lookup:
  "map_of (mn_servers (fold (\<lambda>iid m. if iid \<in> D then m else removeLocked iid m) ids m)) k =
     (if k \<in> set ids \<and> k \<notin> D then None else map_of (mn_servers m) k)"
  by (induction ids arbitrary: m) (auto simp: removeLocked_lookup)

lemma remove_undesired_lookup:
  "map_of (mn_servers (remove_undesired desired m)) k = (if k \<in> in_Id ` set desired then map_of (mn_servers m) k else None)"
  unfolding remove_undesired_def remove_fold_lookup by (auto simp: map_of_eq_None_iff)

lemma UpdateUsers_fields:
  "IsRunning (UpdateUsers env cs s) = IsRunning s" "sv_active (UpdateUsers env cs s) = sv_active s" "sv_auth (UpdateUsers env cs s) = sv_auth s"
proof -
  have f: "IsRunning (fold closeUserConns us t) = IsRunning t \<and> sv_active (fold closeUserConns us t) = sv_active t \<and>
      sv_auth (fold closeUserConns us t) = sv_auth t" for us t
    by (induction us arbitrary: t) (simp_all add: closeUserConns_def IsRunning_def)
  show "IsRunning (UpdateUsers env cs s) = IsRunning s" "sv_active (UpdateUsers env cs s) = sv_active s" "sv_auth (UpdateUsers env cs s) = sv_auth s"
    using f by (auto simp: UpdateUsers_def update_users_def IsRunning_def split: sum.splits prod.splits)
qed

lemma startLocked_running:
  assumes "startLocked w inst = Inr (s, limits, settings)"
  shows "IsRunning s" "ValidateClients (tw_uuid w) (in_Clients inst) = Inr ()"
  using assms unfolding startLocked_def NewServer_def Start_def Let_def
  by (auto elim!: bind_resE simp: IsRunning_def new_server_def split: sum.splits prod.splits if_splits)

lemma start_managed_lookup:
  assumes "ok (startLocked w inst)"
  shows "\<exists>mg. runs w inst mg \<and> map_of (mn_servers (snd (start_managed w inst m))) = (map_of (mn_servers m))(in_Id inst \<mapsto> mg)"
proof -
  obtain s limits settings where st: "startLocked w inst = Inr (s, limits, settings)" using assms by (cases "startLocked w inst") auto
  show ?thesis
    using startLocked_running(1)[OF st]
    by (intro exI[of _ "\<lparr>mg_server = s, mg_limits = limits, mg_settings = settings, mg_tag = in_Tag inst,
          mg_structuralFP = StructuralFingerprint w inst, mg_usersFP = UsersFingerprint inst\<rparr>"])
      (auto simp: start_managed_def st runs_def)
qed

lemma ensureLocked_lookup:
  assumes "startable w inst"
  shows "\<exists>mg. runs w inst mg \<and> map_of (mn_servers (snd (ensureLocked w inst m))) = (map_of (mn_servers m))(in_Id inst \<mapsto> mg) \<and>
    (\<forall>old. map_of (mn_servers m) (in_Id inst) = Some old \<longrightarrow> kept_running w inst old mg)"
proof -
  have s: "ok (startLocked w inst)" and c: "in_Clients inst \<noteq> []" using assms by (simp_all add: startable_def)
  obtain x where "startLocked w inst = Inr x" using s by (cases "startLocked w inst") auto
  then have v: "ValidateClients (tw_uuid w) (in_Clients inst) = Inr ()" using startLocked_running(2) by (cases x) auto
  show ?thesis
  proof (cases "map_of (mn_servers m) (in_Id inst)")
    case None
    then show ?thesis using start_managed_lookup[OF s, of m] v c by (simp add: ensureLocked_def)
  next
    case (Some old)
    show ?thesis
    proof (cases "IsRunning (mg_server old) \<and> mg_structuralFP old = StructuralFingerprint w inst")
      case True
      have "runs w inst (refresh_managed w inst old)" "kept_running w inst old (refresh_managed w inst old)"
        using True by (simp_all add: runs_def kept_running_def refresh_managed_def Let_def UpdateUsers_fields)
      then show ?thesis using True Some v c by (intro exI[of _ "refresh_managed w inst old"]) (auto simp: ensureLocked_def)
    next
      case False
      let ?m = "(stopAndDrainLocked old m)\<lparr>mn_servers := del_key (in_Id inst) (mn_servers m)\<rparr>"
      have e: "snd (ensureLocked w inst m) = snd (start_managed w inst ?m)"
        using False Some v c by (auto simp: ensureLocked_def Let_def)
      obtain mg where mg: "runs w inst mg" "map_of (mn_servers (snd (start_managed w inst ?m))) = (map_of (mn_servers ?m))(in_Id inst \<mapsto> mg)"
        using start_managed_lookup[OF s, of ?m] by auto
      have "(map_of (mn_servers ?m))(in_Id inst \<mapsto> mg) = (map_of (mn_servers m))(in_Id inst \<mapsto> mg)"
        by (rule ext) (simp add: map_of_del_key)
      then show ?thesis using False Some mg unfolding e by (auto simp: kept_running_def)
    qed
  qed
qed

lemma ensure_fold_lookup:
  "distinct (map in_Id insts) \<Longrightarrow> \<forall>inst \<in> set insts. startable w inst \<Longrightarrow>
   (\<forall>inst \<in> set insts. \<exists>mg. map_of (mn_servers (fold (\<lambda>inst m. snd (ensureLocked w inst m)) insts m)) (in_Id inst) = Some mg \<and> runs w inst mg \<and>
      (\<forall>old. map_of (mn_servers m) (in_Id inst) = Some old \<longrightarrow> kept_running w inst old mg)) \<and>
   (\<forall>k. k \<notin> in_Id ` set insts \<longrightarrow> map_of (mn_servers (fold (\<lambda>inst m. snd (ensureLocked w inst m)) insts m)) k = map_of (mn_servers m) k)"
proof (induction insts arbitrary: m)
  case (Cons i insts)
  let ?m = "snd (ensureLocked w i m)"
  obtain mg where mg: "runs w i mg" "map_of (mn_servers ?m) = (map_of (mn_servers m))(in_Id i \<mapsto> mg)"
    "\<forall>old. map_of (mn_servers m) (in_Id i) = Some old \<longrightarrow> kept_running w i old mg"
    using ensureLocked_lookup[of w i m] Cons.prems(2) by auto
  have new: "in_Id i \<notin> in_Id ` set insts" using Cons.prems(1) by simp
  have "map_of (mn_servers m) (in_Id inst) = map_of (mn_servers ?m) (in_Id inst)" if "inst \<in> set insts" for inst
    using mg(2) new that by (auto simp: image_iff)
  then show ?case using Cons.IH[of ?m] Cons.prems new mg by auto
qed simp

section \<open>Properties of the manager\<close>

definition sample_world :: tuic_world where
  "sample_world = \<lparr>tw_uuid = sample_uuids, tw_X509KeyPair = (\<lambda>c k. Inr c), tw_LoadX509KeyPair = (\<lambda>c k. Inr c), tw_file = (\<lambda>f. None), tw_sha256 = (\<lambda>x. x), tw_ListenPacket = (\<lambda>a. Inr ()), tw_quicListen = (\<lambda>a. Inr ()),
     tw_lower = (\<lambda>x. x)\<rparr>"

definition sample_instance :: "int \<Rightarrow> byte list \<Rightarrow> Instance" where
  "sample_instance i ns = \<lparr>in_Id = i, in_Tag = ''t'', in_Listen = '''', in_Port = 443, in_Certificate = ''c'', in_PrivateKey = ''k'',
     in_CongestionControl = ''bbr'', in_ALPN = [''h3''], in_UDPRelayMode = ''native'', in_ZeroRTTHandshake = True, in_LogLevel = ''info'',
     in_MaxIdleTime = 15, in_AuthenticationTimeout = 3, in_MaxUdpRelayPacketSize = 1500, in_SNI = '''', in_Clients = map sample_client ns\<rparr>"

text \<open>A manager whose only server has the client of \<open>run_served\<close> with its traffic.\<close>

definition sample_managed :: managed where
  "sample_managed = \<lparr>mg_server = (tr_server run_served)\<lparr>sv_running := True\<rparr>, mg_limits = \<lparr>sl_certificate = ''c'', sl_NextProtos = [''h3''], sl_MaxIdleTimeout = seconds 15,
     sl_KeepAlivePeriod = seconds 7, sl_Allow0RTT = True, sl_authTimeout = seconds 3, sl_maxUdpRelayPacketSize = 1500\<rparr>,
     mg_settings = updateRuntimeSettings sample_world ''t'' ''bbr'' ''info'', mg_tag = ''t'',
     mg_structuralFP = StructuralFingerprint sample_world (sample_instance 3 [1, 2]), mg_usersFP = UsersFingerprint (sample_instance 3 [1, 2])\<rparr>"

definition sample_manager :: Manager where
  "sample_manager = \<lparr>mn_servers = [(3, sample_managed)], mn_lastStartErr = [], mn_pending = []\<rparr>"

lemma sample_manager_ok: "manager_ok us_BytesUp td_Up sample_manager" "manager_ok us_BytesDown td_Down sample_manager"
proof -
  have "server_ok (tr_server run_served)" using run_reachable_inv[OF run_served_reachable] by (simp add: run_inv_def)
  moreover have "list_all (\<lambda>x. 0 \<le> us_BytesUp x \<and> 0 \<le> us_BytesDown x) (ur_heap (sv_users (tr_server run_served)))" by code_simp
  ultimately show "manager_ok us_BytesUp td_Up sample_manager" "manager_ok us_BytesDown td_Down sample_manager"
    by (simp_all add: manager_ok_def sample_manager_def sample_managed_def sound_server_def pending_ok_def list_all_iff)
qed

lemma sample_owed: "owed us_BytesUp td_Up k sample_manager < 2 ^ 63" "owed us_BytesDown td_Down k sample_manager < 2 ^ 63"
proof -
  let ?H = "ur_heap (sv_users (tr_server run_served))"
  have s: "sum_list (map us_BytesUp ?H) = 100" "sum_list (map us_BytesDown ?H) = 50" by code_simp+
  have pos: "0 \<le> us_BytesUp x \<and> 0 \<le> us_BytesDown x" if "x \<in> set ?H" for x
    using sample_manager_ok that by (auto simp: manager_ok_def sample_manager_def sample_managed_def sound_server_def)
  have "owed us_BytesUp td_Up k sample_manager \<le> sum_list (map us_BytesUp ?H)"
    using sum_for_le_total[of ?H us_BytesUp] pos by (simp add: owed_def pending_owed_def sample_manager_def sample_managed_def server_owed_def)
  moreover have "owed us_BytesDown td_Down k sample_manager \<le> sum_list (map us_BytesDown ?H)"
    using sum_for_le_total[of ?H us_BytesDown] pos by (simp add: owed_def pending_owed_def sample_manager_def sample_managed_def server_owed_def)
  ultimately show "owed us_BytesUp td_Up k sample_manager < 2 ^ 63" "owed us_BytesDown td_Down k sample_manager < 2 ^ 63"
    using s by simp_all
qed





text \<open>The fields of an instance, from the merged layer of its settings.\<close>

lemma InstanceFromInbound_fields:
  assumes "InstanceFromInbound w decode ibo = Some inst"
  obtains l :: tuic_layer where "in_MaxIdleTime inst = (if tl_MaxIdleTime l \<le> 0 then 15 else tl_MaxIdleTime l)"
    "in_AuthenticationTimeout inst = (if tl_AuthenticationTimeout l \<le> 0 then 3 else tl_AuthenticationTimeout l)"
    "in_MaxUdpRelayPacketSize inst = instance_packet_size (tl_MaxUdpRelayPacketSize l)"
    "in_CongestionControl inst = (case NormalizeCongestionControl w (tl_CongestionControl l) of Some cc \<Rightarrow> cc | None \<Rightarrow> ''new_reno'')"
    "in_ALPN inst = (if tl_ALPN l = [] then [''h3'', ''spdy/3.1''] else tl_ALPN l)"
    "in_UDPRelayMode inst = (if tl_UDPRelayMode l = '''' then ''native'' else tl_UDPRelayMode l)"
    "\<exists>js. in_Clients inst = concat (map (instance_client w) js)"
proof -
  obtain ib where ib: "ibo = Some ib" "ib_Protocol ib = ''tuic''"
    using assms by (cases ibo) (simp_all add: InstanceFromInbound_def split: if_splits)
  obtain parsed where parsed: "(if ib_Settings ib \<noteq> '''' then decode (ib_Settings ib)
      else Some \<lparr>tg_top = empty_layer, tg_Server = None, tg_Clients = []\<rparr>) = Some parsed"
    using assms ib by (cases "if ib_Settings ib \<noteq> '''' then decode (ib_Settings ib)
      else Some \<lparr>tg_top = empty_layer, tg_Server = None, tg_Clients = []\<rparr>") (simp_all add: InstanceFromInbound_def)
  define l where "l = (case tg_Server parsed of None \<Rightarrow> tg_top parsed | Some s \<Rightarrow> overlay s (tg_top parsed))"
  note inst = assms[unfolded InstanceFromInbound_def ib(1) option.case parsed Let_def, folded l_def, simplified ib(2) simp_thms if_False option.inject, symmetric]
  show thesis by (rule that[of l]) (unfold inst, simp_all, blast)
qed

text \<open>C38: whatever the settings say, an instance is within its limits: positive times, a known congestion controller, a protocol to
  negotiate, clients with an identifier and a password only; and a server made from it relays packets of at most the size that fits a
  SOCKS5 datagram with any destination.\<close>

theorem instance_within_limits:
  assumes "InstanceFromInbound w decode ibo = Some inst"
  shows "0 < in_MaxIdleTime inst \<and> 0 < in_AuthenticationTimeout inst \<and> 0 < in_MaxUdpRelayPacketSize inst \<and>
    in_CongestionControl inst \<in> {''bbr'', ''cubic'', ''new_reno''} \<and> in_ALPN inst \<noteq> [] \<and> in_UDPRelayMode inst \<noteq> [] \<and>
    (\<forall>c \<in> set (in_Clients inst). tc_UUID c \<noteq> [] \<and> tc_Password c \<noteq> []) \<and>
    (\<forall>s limits settings. NewServer w inst = Inr (s, limits, settings) \<longrightarrow>
       0 < sl_maxUdpRelayPacketSize limits \<and> sl_maxUdpRelayPacketSize limits \<le> maxSafeUdpRelayPacketSize \<and>
       sl_maxUdpRelayPacketSize limits = in_MaxUdpRelayPacketSize inst \<and> sl_MaxIdleTimeout limits = seconds (in_MaxIdleTime inst) \<and>
       sl_authTimeout limits = seconds (in_AuthenticationTimeout inst) \<and> sl_NextProtos limits = in_ALPN inst \<and> rs_congestionControl settings \<in> {''bbr'', ''cubic'', ''new_reno''})"
proof -
  have cc: "(case NormalizeCongestionControl w v of Some cc \<Rightarrow> cc | None \<Rightarrow> ''new_reno'') \<in> {''bbr'', ''cubic'', ''new_reno''}" for v
    by (auto simp: NormalizeCongestionControl_def Let_def)
  have client: "\<forall>c \<in> set (instance_client w j). tc_UUID c \<noteq> [] \<and> tc_Password c \<noteq> []" for j
    by (auto simp: instance_client_def Let_def str_bytes_def)
  have size: "0 < instance_packet_size n" "instance_packet_size n \<le> maxSafeUdpRelayPacketSize \<or> maxLegacyUdpRelayPacketSize < instance_packet_size n" for n
    by (auto simp: instance_packet_size_def maxSafeUdpRelayPacketSize_def maxSocksUdpDatagramSize_def)
  obtain l :: tuic_layer where f: "in_MaxIdleTime inst = (if tl_MaxIdleTime l \<le> 0 then 15 else tl_MaxIdleTime l)"
    "in_AuthenticationTimeout inst = (if tl_AuthenticationTimeout l \<le> 0 then 3 else tl_AuthenticationTimeout l)"
    "in_MaxUdpRelayPacketSize inst = instance_packet_size (tl_MaxUdpRelayPacketSize l)"
    "in_CongestionControl inst = (case NormalizeCongestionControl w (tl_CongestionControl l) of Some cc \<Rightarrow> cc | None \<Rightarrow> ''new_reno'')"
    "in_ALPN inst = (if tl_ALPN l = [] then [''h3'', ''spdy/3.1''] else tl_ALPN l)"
    "in_UDPRelayMode inst = (if tl_UDPRelayMode l = '''' then ''native'' else tl_UDPRelayMode l)"
    "\<exists>js. in_Clients inst = concat (map (instance_client w) js)"
    using InstanceFromInbound_fields[OF assms] .
  have pos: "0 < in_MaxIdleTime inst" "0 < in_AuthenticationTimeout inst" "0 < in_MaxUdpRelayPacketSize inst"
    using f(1-3) size(1) by (simp_all split: if_splits)
  have alpn: "in_ALPN inst \<noteq> []" using f(5) by simp
  have ncc: "fst (normalizeCongestionControl w v) \<in> {''bbr'', ''cubic'', ''new_reno''}" for v
    using cc[of v] by (simp add: normalizeCongestionControl_def split: option.splits)
  have small: "in_MaxUdpRelayPacketSize inst \<le> maxSafeUdpRelayPacketSize \<or> maxLegacyUdpRelayPacketSize < in_MaxUdpRelayPacketSize inst"
    unfolding f(3) by (rule size(2))
  have "0 < sl_maxUdpRelayPacketSize limits \<and> sl_maxUdpRelayPacketSize limits \<le> maxSafeUdpRelayPacketSize \<and>
       sl_maxUdpRelayPacketSize limits = in_MaxUdpRelayPacketSize inst \<and> sl_MaxIdleTimeout limits = seconds (in_MaxIdleTime inst) \<and>
       sl_authTimeout limits = seconds (in_AuthenticationTimeout inst) \<and> sl_NextProtos limits = in_ALPN inst \<and> rs_congestionControl settings \<in> {''bbr'', ''cubic'', ''new_reno''}"
    if "NewServer w inst = Inr (s, limits, settings)" for s limits settings
    using that pos small alpn ncc[of "in_CongestionControl inst"] unfolding NewServer_def Let_def
    by (auto elim!: bind_resE simp: updateRuntimeSettings_def split: sum.splits if_splits)
  then show ?thesis using pos f(4-7) cc client by auto
qed

theorem instance_within_limits_witness:
  "\<exists>x. InstanceFromInbound sample_world (\<lambda>s. None)
       (Some \<lparr>ib_Id = 3, ib_Tag = ''t'', ib_Listen = '''', ib_Port = 443, ib_Protocol = ''tuic'', ib_Settings = ''''\<rparr>) = Some x \<and>
     0 < in_MaxIdleTime x \<and> in_MaxUdpRelayPacketSize x = 1500"
proof -
  let ?i = "InstanceFromInbound sample_world (\<lambda>s. None)
    (Some \<lparr>ib_Id = 3, ib_Tag = ''t'', ib_Listen = '''', ib_Port = 443, ib_Protocol = ''tuic'', ib_Settings = ''''\<rparr>)"
  have "map_option in_MaxUdpRelayPacketSize ?i = Some 1500" by code_simp
  then obtain x where x: "?i = Some x" "in_MaxUdpRelayPacketSize x = 1500" by auto
  then show ?thesis using instance_within_limits[OF x(1)] by blast
qed

end
