(* ===== verification/Spec2Isabelle.thy ===== *)
theory Spec2Isabelle
  imports Policy_API Policy_Compiler Group_Quota_Usage Traffic_Policy_Enforcement Fleet_Update_Rules Tuic_Associations Tuic_Manager
begin

text \<open>
  A verification development of CatX-UI, a fork of an Xray management panel. The panel keeps clients,
  groups and traffic counters in a relational database and drives an Xray process; the fork adds a policy
  engine, group quotas, traffic control, traffic policies, a fleet update and a TUIC server, which are the program's
  own logic and what this development models.

  \<^bold>\<open>The parts and how they interact.\<close> An administrator stores policies, assigns them to clients or groups,
  overrides them for a scope, permanently or for an interval, and gives them weekly schedules
  (\<open>internal/policy\<close>). For a client and an instant the repository \<^emph>\<open>resolves\<close> the rows that apply and
  orders them by precedence; the \<^emph>\<open>decision\<close> takes the winner's document, patches it with an override, and
  derives capabilities such as quarantine and its release. The compiler (\<open>internal/policycompiler\<close>) turns
  the decisions of all clients into Xray routing rules, and the simulator (\<open>internal/policysim\<close>) answers
  what would happen to one destination. Group quotas (\<open>internal/forkext/groupquota\<close>) sum the counters of
  the clients of a group against a shared quota, disable the group when it is used up and enable what
  they disabled when it is reset. Traffic policies (\<open>internal/forkext/trafficpolicy\<close>) throttle a client
  whose usage of a fixed window reaches a quota; where a provider can attribute addresses to the client
  they hand rules to traffic control (\<open>internal/forkext/trafficcontrol\<close>), which drives \<open>tc\<close>, \<open>ip\<close> and
  \<open>nft\<close>. Releases are named by semantic versions and fetched with their digests (\<open>internal/forkrelease\<close>); the fleet
  update (\<open>internal/forkext/fleetupdate\<close>) plans campaigns over the nodes and dispatches one release to them within a window of
  parallelism. The TUIC server (\<open>internal/tuic\<close>) terminates QUIC connections and relays their packets and streams
  to a local SOCKS5 inbound of Xray.

  \<^bold>\<open>The theories.\<close>

  \<^item> \<open>Go_Runtime\<close> is the prelude: errors as values (\<open>res\<close>, \<open>bind_res\<close>, \<open>collect\<close>, \<open>fold_res\<close>), 64-bit
    wrap-around, truncated division, the functions of \<open>strings\<close>, \<open>strconv\<close> and \<open>sort\<close> the code uses; the
    locale \<open>strict_weak_order\<close> carries what a stable sort promises.
  \<^item> \<open>Store\<close> is the object-relational mapper as the code uses it: \<open>First\<close>, \<open>Find\<close>, \<open>Create\<close>, \<open>Updates\<close>,
    \<open>Delete\<close> on the list of a table's rows in key order. The locale \<open>table\<close> states what a row type must
    offer and is interpreted for each table. \<open>Client_Tables\<close> holds the panel's rows the fork reads.
  \<^item> \<open>Policy_Model\<close> (\<open>model.go\<close>), \<open>Policy_Schedule\<close> (\<open>schedule.go\<close>), \<open>Policy_Repository\<close> (\<open>repository.go\<close>),
    \<open>Policy_Decision\<close> (\<open>decision.go\<close>) and \<open>Policy_API\<close> (\<open>api.go\<close>) are the policy engine.
  \<^item> \<open>Policy_Compiler\<close> is \<open>compiler.go\<close> and \<open>policysim/api.go\<close>.
  \<^item> \<open>Group_Quota\<close> holds the operations of \<open>groupquota.go\<close> and their invariant, \<open>Group_Quota_Usage\<close> the
    accounting.
  \<^item> \<open>Traffic_Control\<close> is the package of that name, written in the state monad over the history of issued
    commands with the system's answers as a parameter. \<open>Traffic_Control_Safety\<close> is a logic of command
    traces with two locales: \<open>command_policy\<close>, a predicate every command satisfies, and
    \<open>rollback_aspect\<close>, a kind of object a failure removes exactly if it was created. Both are
    interpreted on the model. \<open>Traffic_Control_Rules\<close> states what the operations do.
  \<^item> \<open>Traffic_Policy\<close> holds the operations of \<open>trafficpolicy.go\<close>, \<open>Traffic_Policy_Quota\<close> its invariant and
    the quota, \<open>Traffic_Policy_Enforcement\<close> the composition with traffic control.
  \<^item> \<open>Release_Version\<close> is \<open>version.go\<close> with the order of semantic versioning beside it; \<open>Release_Provider\<close> is
    \<open>release.go\<close> and \<open>identity.go\<close>: selection of a release, its assets, and the verified download.
  \<^item> \<open>Fleet_Update\<close> holds the operations of \<open>fleetupdate\<close> (planning, reconciliation, abort, retry, the job and the HTTP
    handlers), \<open>Fleet_Update_Rules\<close> the states they reach and what holds of them.
  \<^item> \<open>Tuic_Protocol\<close> is \<open>protocol.go\<close> and the SOCKS5 dialogue of \<open>socks_bridge.go\<close> over bytes; \<open>Tuic_Packets\<close> the
    fragmentation and reassembly of \<open>server.go\<close>; \<open>Tuic_Associations\<close> is \<open>udp_associations.go\<close> with the associations as
    objects of a heap and the goroutines of a connection as interleaved steps. \<open>Tuic_Users\<close> is \<open>auth.go\<close> and the
    connections of \<open>server.go\<close> (accepting, authenticating, timing out, counting, revoking, closing), with the users in a
    heap; the locale \<open>traffic_counter\<close> carries the accounting and is interpreted for uploads and downloads.
    \<open>Tuic_Manager\<close> is \<open>types.go\<close>, the construction of a server and \<open>manager.go\<close>; its locale \<open>traffic_ledger\<close> extends
    \<open>traffic_counter\<close> by what is pending in the manager.

  \<^bold>\<open>What is shown.\<close> For each stateful component an \<open>inductive\<close> relation collects every state its operations
  reach (\<open>policy_reachable\<close>, \<open>api_reachable\<close>, \<open>gq_reachable\<close>, \<open>tp_reachable\<close>, \<open>tc_reachable\<close>, \<open>fleet_reachable\<close>,
  \<open>conn_step\<close>, \<open>run_step\<close>) and an invariant
  holds of all of them: keys, unique indexes, references and value ranges of the tables; windows
  that contain their instants, so that no window computation panics; desired rules with unique owners and
  marks. On top of that: resolution is exact and ordered, a decision rests on its minimal candidate and a
  quarantine is lifted by an active release only; compilation is idempotent on rules, owns only its tagged
  rules, puts quarantine first, and is what the preview announces; a membership change, a counter reset
  and the deletion of a client conserve group usage; a poll charges exactly its bytes and a client is throttled
  exactly when its window's usage has reached the quota; a reconciliation touches only what it owns, rolls
  back exactly what it created, and succeeds on a system where nothing fails; what is recorded as enforced is
  what the shaper accepted; the HTTP layer of the policies is one repository operation per request. The comparison of
  versions is the order of semantic versioning, a fetched release is trusted and no downgrade, a download is the
  file its digest names; a campaign keeps its parallelism, dispatches only what was authorised and never repeats a
  dispatch of unknown outcome. TUIC addresses and packets read back as they were written, a packet that was cut into
  frames is reassembled from them in any order, memory for pending packets is bounded, and every relay session is
  accounted for on every interleaving. No traffic of a TUIC user is lost or counted twice, whatever is updated, revoked,
  restarted or stopped between two collections; a revoked user has no open connection once the update is done;
  authentication accepts exactly the listed clients; a reconciliation leaves exactly the desired servers, and does not
  disturb those that need no restart.
  Some lemmas state behaviour that is probably not intended: a campaign with a soak period that never completes, a
  recompilation that keeps stale rules, a lost provider that keeps the rules of the kernel, a client that stays disabled, an
  email that is stored and not found, an update of a missing policy that succeeds.

  \<^bold>\<open>Parameters and bounds.\<close> Code that is not in the repository is an argument of the definitions that use it,
  with the hypotheses a property needs of it: JSON decoding, time zones and Unicode case tables
  (\<open>policy_env\<close>), parsing of addresses (\<open>compiler_env\<close>), the hash, address parsing and quoting
  (\<open>tc_env\<close>), the answers of the executed commands (\<open>executor\<close>, any function of the history), the traversal
  order of a Go map (\<open>order\<close>, any permutation), the attribution provider and the shaper, the release host and the
  digest (\<open>release_env\<close>), the node executor of the fleet update, the outcome of every write of the TUIC server, the
  key export of TLS (\<open>tls_state\<close>), the package \<open>uuid\<close> (\<open>uuid_env\<close>), certificates, files and listeners
  (\<open>tuic_world\<close>), name resolution, the clock and the keys the database assigns, and failures of the database table by table. Counters are integers with the 64-bit
  wrap-around of Go written out where a sum can leave the range; the theorems on TUIC traffic assume less than
  \<open>2 ^ 63\<close> bytes between two collections. The one scan with a bound
  (\<open>next_active_scan\<close>, eight days of minutes) has the bound of the code. All functions are total; the loops of
  the code are structural recursions, and a Go panic (the zero window) is an error value the
  invariant excludes.

  \<^bold>\<open>Concurrency.\<close> The modules serialise through a mutex or a database transaction; an operation is one step
  and the interleavings are the sequences of steps. A transaction that fails leaves the state as it was.

  \<^bold>\<open>Not modelled.\<close> Route registration, JSON shapes and template rendering; schema migration; the process
  executor; the upstream panel (inbounds, clients, subscriptions, settings, the Xray process and its
  configuration beyond routing, the node tree, the bots); the further fork modules (audit, portal, risk, recovery,
  analytics). Of the TUIC server: the QUIC listener and TLS themselves, the copying of TCP streams,
  logging and the helpers for tests.
\<close>

end
